(* ===== verification/Gsip_Prelude.thy ===== *)
theory Gsip_Prelude
  imports Main "HOL-Library.Word" "HOL-Library.AList"
begin

text \<open>
  What every component of the model shares: the outcome of a Go call (a value, an
  error value, or a run-time panic), Go strings as byte lists with the functions of
  the packages \<^verbatim>\<open>strings\<close>, \<^verbatim>\<open>strconv\<close> and \<^verbatim>\<open>fmt\<close> that the repository calls, and the
  generic lemmas on them.

  A Go \<^verbatim>\<open>string\<close> is a sequence of bytes, here \<^typ>\<open>string\<close> (a list of 8-bit
  characters). \<open>TrimSpace\<close>, \<open>go_runes\<close> and \<open>byte_string\<close> follow the UTF-8 rules of Go on
  every byte string; \<open>ToLower\<close> and \<open>ToUpper\<close> change ASCII letters only (Go also maps
  cased letters outside ASCII).
\<close>

section \<open>Outcomes of Go calls\<close>

text \<open>
  The error values the code creates: \<open>Errorf\<close> carries the constant part of the message
  of an \<^verbatim>\<open>fmt.Errorf\<close>, the two \<open>Num\<close> errors are those of \<^verbatim>\<open>strconv\<close>, \<open>NetError\<close> is an error
  of the network or of another package, the others are the error types of
  \<^verbatim>\<open>sip/error.go\<close>, \<^verbatim>\<open>transport/error.go\<close> and \<^verbatim>\<open>callback/callback.go\<close>.
\<close>

datatype gerror =
    Errorf string
  | NumSyntax
  | NumRange
  | NetError string
  | InvalidStartLineError
  | MalformedMessageError string
  | BrokenMessageError string
  | UnexpectedMessageError string
  | UnsupportedProtocolError string
  | WriteError string
  | NotExitCallbackError string

datatype (dead 'a) outcome = Ok 'a | Fail gerror | Panic

primrec obind :: "'a outcome \<Rightarrow> ('a \<Rightarrow> 'b outcome) \<Rightarrow> 'b outcome" where
  "obind (Ok x) f = f x"
| "obind (Fail e) f = Fail e"
| "obind Panic f = Panic"

primrec omap :: "('a \<Rightarrow> 'b) \<Rightarrow> 'a outcome \<Rightarrow> 'b outcome" where
  "omap f (Ok x) = Ok (f x)"
| "omap f (Fail e) = Fail e"
| "omap f Panic = Panic"

text \<open>A Go loop that fills a slice from another one: it stops at the first error or panic.\<close>

fun omapM :: "('a \<Rightarrow> 'b outcome) \<Rightarrow> 'a list \<Rightarrow> 'b list outcome" where
  "omapM f [] = Ok []"
| "omapM f (x # xs) = obind (f x) (\<lambda>y. omap (Cons y) (omapM f xs))"

primrec is_ok :: "'a outcome \<Rightarrow> bool" where
  "is_ok (Ok x) = True"
| "is_ok (Fail e) = False"
| "is_ok Panic = False"

named_theorems outcome_simps \<open>when a composed outcome is a value, an error or a panic\<close>
named_theorems gostr_simps \<open>the string functions on appended and split strings\<close>

lemma obind_eq_Ok [outcome_simps]:
  "obind m f = Ok y \<longleftrightarrow> (\<exists>x. m = Ok x \<and> f x = Ok y)"
  by (cases m) auto

lemma obind_eq_Panic [outcome_simps]:
  "obind m f = Panic \<longleftrightarrow> m = Panic \<or> (\<exists>x. m = Ok x \<and> f x = Panic)"
  by (cases m) auto

lemma omap_eq_Ok [outcome_simps]: "omap f m = Ok y \<longleftrightarrow> (\<exists>x. m = Ok x \<and> y = f x)"
  by (cases m) auto

lemma omap_eq_Panic [outcome_simps]: "omap f m = Panic \<longleftrightarrow> m = Panic"
  by (cases m) auto

lemma is_ok_iff: "is_ok m \<longleftrightarrow> (\<exists>x. m = Ok x)"
  by (cases m) auto

lemma obind_cong [fundef_cong]:
  "m = m' \<Longrightarrow> (\<And>x. m' = Ok x \<Longrightarrow> f x = g x) \<Longrightarrow> obind m f = obind m' g"
  by (cases m') auto

lemma omapM_Ok:
  "(\<And>x. x \<in> set xs \<Longrightarrow> f x = Ok (g x)) \<Longrightarrow> omapM f xs = Ok (map g xs)"
  by (induction xs) auto

lemma omapM_length: "omapM f xs = Ok ys \<Longrightarrow> length ys = length xs"
  by (induction xs arbitrary: ys) (auto simp: outcome_simps)

lemma omapM_Panic:
  "omapM f xs = Panic \<Longrightarrow> \<exists>x \<in> set xs. f x = Panic"
  by (induction xs) (auto simp: outcome_simps)

section \<open>Bytes\<close>

definition LF :: char where "LF = CHR 0x0A"
definition CR :: char where "CR = CHR 0x0D"
definition TAB :: char where "TAB = CHR 0x09"
definition NUL :: char where "NUL = CHR 0x00"
definition QUOTE :: char where "QUOTE = CHR 0x22"

definition CRLF :: string where "CRLF = [CR, LF]"

lemmas byte_defs = LF_def CR_def TAB_def NUL_def QUOTE_def CRLF_def

definition byte :: "char \<Rightarrow> nat" where "byte c = of_char c"

text \<open>\<^verbatim>\<open>strings.Contains(abnfWs, string(c))\<close> for \<^verbatim>\<open>abnfWs = " \t"\<close>.\<close>

definition is_abnf_ws :: "char \<Rightarrow> bool" where
  "is_abnf_ws c \<longleftrightarrow> c = CHR '' '' \<or> c = TAB"

text \<open>\<^verbatim>\<open>strings.ContainsAny(s, " \t")\<close>.\<close>

definition contains_ws :: "string \<Rightarrow> bool" where
  "contains_ws s \<longleftrightarrow> list_ex is_abnf_ws s"

text \<open>The printable, non-blank ASCII characters.\<close>

definition is_graph :: "char \<Rightarrow> bool" where
  "is_graph c \<longleftrightarrow> 33 \<le> byte c \<and> byte c < 127"

lemma is_graph_not_ws [simp]: "is_graph c \<Longrightarrow> \<not> is_abnf_ws c"
  by (auto simp: is_graph_def is_abnf_ws_def byte_def TAB_def)

lemma is_graph_specials [simp]:
  "\<not> is_graph CR" "\<not> is_graph LF" "\<not> is_graph TAB" "\<not> is_graph NUL" "\<not> is_graph (CHR '' '')"
  by (auto simp: is_graph_def byte_def byte_defs)

text \<open>
  \<^verbatim>\<open>string(b)\<close> for a byte \<^verbatim>\<open>b\<close> is the UTF-8 encoding of the code point \<^verbatim>\<open>b\<close>: one byte below
  0x80, two bytes from 0x80 on.
\<close>

definition byte_string :: "char \<Rightarrow> string" where
  "byte_string c =
     (if byte c < 128 then [c]
      else [char_of (192 + byte c div 64 :: nat), char_of (128 + byte c mod 64 :: nat)])"

lemma byte_string_ascii [simp]: "byte c < 128 \<Longrightarrow> byte_string c = [c]"
  by (simp add: byte_string_def)

lemma byte_string_graph [simp]: "is_graph c \<Longrightarrow> byte_string c = [c]"
  by (simp add: is_graph_def)

section \<open>UTF-8 sequences\<close>

definition in_range :: "nat \<Rightarrow> nat \<Rightarrow> char \<Rightarrow> bool" where
  "in_range lo hi c \<longleftrightarrow> lo \<le> byte c \<and> byte c \<le> hi"

text \<open>
  The number of bytes of the rune at the front of a string as \<^verbatim>\<open>utf8.DecodeRuneInString\<close>
  finds it, and whether it is a valid encoding (an invalid byte has width 1).
\<close>

fun rune_width :: "string \<Rightarrow> nat \<times> bool" where
  "rune_width [] = (0, False)"
| "rune_width (a # s) =
     (let b = byte a in
      if b < 128 then (1, True)
      else if 194 \<le> b \<and> b \<le> 223 then
        (case s of x # _ \<Rightarrow> if in_range 128 191 x then (2, True) else (1, False) | [] \<Rightarrow> (1, False))
      else if 224 \<le> b \<and> b \<le> 239 then
        (case s of x # y # _ \<Rightarrow>
           if in_range (if b = 224 then 160 else 128) (if b = 237 then 159 else 191) x
              \<and> in_range 128 191 y then (3, True) else (1, False)
         | _ \<Rightarrow> (1, False))
      else if 240 \<le> b \<and> b \<le> 244 then
        (case s of x # y # z # _ \<Rightarrow>
           if in_range (if b = 240 then 144 else 128) (if b = 244 then 143 else 191) x
              \<and> in_range 128 191 y \<and> in_range 128 191 z then (4, True) else (1, False)
         | _ \<Rightarrow> (1, False))
      else (1, False))"

lemma rune_width_pos: "s \<noteq> [] \<Longrightarrow> 0 < fst (rune_width s)"
  by (cases s) (auto simp: Let_def split: list.splits)

text \<open>
  The runes of a string as the \<^verbatim>\<open>range\<close> loop of Go yields them, each re-encoded by
  \<^verbatim>\<open>string(char)\<close>; an invalid byte becomes the replacement character U+FFFD.
\<close>

function go_runes :: "string \<Rightarrow> string list" where
  "go_runes s =
     (if s = [] then []
      else (let (n, valid) = rune_width s in
            (if valid then take n s else [CHR 0xEF, CHR 0xBF, CHR 0xBD]) # go_runes (drop n s)))"
  by pat_completeness auto
termination
proof (relation "measure length")
  fix s :: string and p n valid
  assume "s \<noteq> []" and "p = rune_width s" and "(n, valid) = p"
  then have "0 < n" using rune_width_pos [of s] by (metis fst_conv)
  with \<open>s \<noteq> []\<close> show "(drop n s, s) \<in> measure length" by simp
qed simp

declare go_runes.simps [simp del]

lemma go_runes_Nil [simp]: "go_runes [] = []"
  by (simp add: go_runes.simps)

lemma go_runes_ascii: "\<forall>c \<in> set s. byte c < 128 \<Longrightarrow> go_runes s = map (\<lambda>c. [c]) s"
proof (induction s)
  case (Cons a s)
  then show ?case by (subst go_runes.simps) simp
qed simp

section \<open>Package strings\<close>

definition has_prefix :: "string \<Rightarrow> string \<Rightarrow> bool" where
  "has_prefix s p \<longleftrightarrow> take (length p) s = p"

definition trim_prefix :: "string \<Rightarrow> string \<Rightarrow> string" where
  "trim_prefix s p = (if has_prefix s p then drop (length p) s else s)"

lemma has_prefix_append [simp]: "has_prefix (p @ s) p"
  by (simp add: has_prefix_def)

lemma trim_prefix_append [simp]: "trim_prefix (p @ s) p = s"
  by (simp add: trim_prefix_def)

lemma has_prefix_iff: "has_prefix s p \<longleftrightarrow> (\<exists>t. s = p @ t)"
  by (metis append_take_drop_id append_eq_conv_conj has_prefix_def)

text \<open>\<^verbatim>\<open>strings.Index\<close> with a one-byte needle; \<^term>\<open>None\<close> stands for -1.\<close>

fun index_char :: "char \<Rightarrow> string \<Rightarrow> nat option" where
  "index_char c [] = None"
| "index_char c (x # xs) = (if x = c then Some 0 else map_option Suc (index_char c xs))"

lemma index_char_None [simp]: "index_char c s = None \<longleftrightarrow> c \<notin> set s"
  by (induction s) auto

lemma index_char_notin [simp]: "c \<notin> set s \<Longrightarrow> index_char c s = None"
  by simp

lemma index_char_append [gostr_simps]:
  "c \<notin> set a \<Longrightarrow> index_char c (a @ c # b) = Some (length a)"
  by (induction a) auto

lemma index_char_append_notin [gostr_simps]:
  "c \<notin> set a \<Longrightarrow> index_char c (a @ b) = map_option (\<lambda>i. length a + i) (index_char c b)"
  by (induction a; cases "index_char c b") (auto simp: option.map_comp)

lemma index_char_Some:
  "index_char c s = Some i \<Longrightarrow>
     i < length s \<and> s ! i = c \<and> c \<notin> set (take i s) \<and> s = take i s @ c # drop (Suc i) s"
  by (induction s arbitrary: i) (auto split: if_splits)

text \<open>\<^verbatim>\<open>strings.Index\<close> with a longer needle.\<close>

fun index_sub :: "string \<Rightarrow> string \<Rightarrow> nat option" where
  "index_sub p [] = (if p = [] then Some 0 else None)"
| "index_sub p (x # xs) =
     (if has_prefix (x # xs) p then Some 0 else map_option Suc (index_sub p xs))"

text \<open>\<^verbatim>\<open>strings.Contains(s, p)\<close>.\<close>

definition contains_sub :: "string \<Rightarrow> string \<Rightarrow> bool" where
  "contains_sub s p \<longleftrightarrow> index_sub p s \<noteq> None"

lemma index_sub_Some:
  "index_sub p s = Some i \<Longrightarrow> i + length p \<le> length s \<and> take (length p) (drop i s) = p"
  by (induction s arbitrary: i)
    (auto simp: has_prefix_def split: if_splits dest: arg_cong [where f = length])

text \<open>\<^verbatim>\<open>strings.Split\<close> with a one-byte separator, and \<^verbatim>\<open>strings.Join\<close>.\<close>

fun split_on :: "char \<Rightarrow> string \<Rightarrow> string list" where
  "split_on c [] = [[]]"
| "split_on c (x # xs) =
     (if x = c then [] # split_on c xs
      else case split_on c xs of [] \<Rightarrow> [[x]] | w # ws \<Rightarrow> (x # w) # ws)"

fun join :: "string \<Rightarrow> string list \<Rightarrow> string" where
  "join sep [] = []"
| "join sep [w] = w"
| "join sep (w # ws) = w @ sep @ join sep ws"

lemma split_on_ne [simp]: "split_on c s \<noteq> []"
  by (induction s) (auto split: list.splits)

lemma length_split_on: "length (split_on c s) = Suc (length (filter ((=) c) s))"
  by (induction s) (auto split: list.splits)

lemma split_on_notin [gostr_simps]: "c \<notin> set s \<Longrightarrow> split_on c s = [s]"
  by (induction s) auto

lemma split_on_append [gostr_simps]:
  "c \<notin> set a \<Longrightarrow> split_on c (a @ c # b) = a # split_on c b"
  by (induction a) (auto split: list.splits)

lemma join_Cons: "ws \<noteq> [] \<Longrightarrow> join sep (w # ws) = w @ sep @ join sep ws"
  by (cases ws) auto

lemma join_split_on [simp]: "join [c] (split_on c s) = s"
proof (induction s)
  case (Cons x xs)
  show ?case
  proof (cases "x = c")
    case True
    with Cons show ?thesis by (simp add: join_Cons)
  next
    case False
    obtain w ws where "split_on c xs = w # ws" by (meson neq_Nil_conv split_on_ne)
    with False Cons show ?thesis by (cases ws) auto
  qed
qed simp

lemma split_on_join:
  "ws \<noteq> [] \<Longrightarrow> \<forall>w \<in> set ws. c \<notin> set w \<Longrightarrow> split_on c (join [c] ws) = ws"
proof (induction ws)
  case (Cons w ws)
  then show ?case by (cases ws) (auto simp: gostr_simps)
qed simp

lemma split_on_no_sep: "\<forall>w \<in> set (split_on c s). c \<notin> set w"
  by (induction s) (auto split: list.splits)

text \<open>\<^verbatim>\<open>strings.ToLower\<close> and \<^verbatim>\<open>strings.ToUpper\<close> on ASCII letters.\<close>

definition lower_char :: "char \<Rightarrow> char" where
  "lower_char c = (if 65 \<le> byte c \<and> byte c \<le> 90 then char_of (byte c + 32) else c)"

definition upper_char :: "char \<Rightarrow> char" where
  "upper_char c = (if 97 \<le> byte c \<and> byte c \<le> 122 then char_of (byte c - 32) else c)"

definition ToLower :: "string \<Rightarrow> string" where "ToLower s = map lower_char s"
definition ToUpper :: "string \<Rightarrow> string" where "ToUpper s = map upper_char s"

lemma byte_char_of [simp]: "n < 256 \<Longrightarrow> byte (char_of n) = n"
  by (simp add: byte_def)

lemma byte_less [simp]: "byte c < 256"
  unfolding byte_def by (metis of_char_mod_256 mod_less_divisor zero_less_numeral)

lemma byte_inject: "byte a = byte b \<longleftrightarrow> a = b"
  by (simp add: byte_def)

lemma lower_char_idem [simp]: "lower_char (lower_char c) = lower_char c"
  by (simp add: lower_char_def)

lemma upper_char_idem [simp]: "upper_char (upper_char c) = upper_char c"
proof -
  have "byte c - 32 < 256" using byte_less [of c] by linarith
  then show ?thesis by (auto simp: upper_char_def)
qed

lemma ToLower_idem [simp]: "ToLower (ToLower s) = ToLower s"
  by (simp add: ToLower_def)

lemma ToUpper_idem [simp]: "ToUpper (ToUpper s) = ToUpper s"
  by (simp add: ToUpper_def)

lemma length_ToLower [simp]: "length (ToLower s) = length s"
  by (simp add: ToLower_def)

text \<open>
  \<^verbatim>\<open>strings.TrimSpace\<close>: the UTF-8 encodings of the code points that \<^verbatim>\<open>unicode.IsSpace\<close>
  accepts, cut off the front and then the back.
\<close>

definition space_encodings :: "string list" where
  "space_encodings =
     map (\<lambda>n. [char_of (n::nat)]) [9, 10, 11, 12, 13, 32] @
     map (map (char_of :: nat \<Rightarrow> char))
       ([[194, 133], [194, 160], [225, 154, 128]] @
        map (\<lambda>n. [226, 128, n]) ([128..<139] @ [168, 169, 175]) @
        [[226, 129, 159], [227, 128, 128]])"

function trim_with :: "string list \<Rightarrow> string \<Rightarrow> string" where
  "trim_with es s =
     (case find (\<lambda>e. e \<noteq> [] \<and> has_prefix s e) es of
        None \<Rightarrow> s
      | Some e \<Rightarrow> trim_with es (drop (length e) s))"
  by pat_completeness auto
termination
proof (relation "measure (\<lambda>(es, s). length s)")
  fix es s e
  assume "find (\<lambda>e. e \<noteq> [] \<and> has_prefix s e) es = Some e"
  then have "e \<noteq> []" "has_prefix s e" by (auto simp: find_Some_iff)
  then have "0 < length e" "length e \<le> length s"
    by (auto simp: has_prefix_def dest: arg_cong [where f = length])
  then show "((es, drop (length e) s), es, s) \<in> measure (\<lambda>(es, s). length s)"
    by (simp del: length_greater_0_conv)
qed simp

declare trim_with.simps [simp del]

definition TrimSpace :: "string \<Rightarrow> string" where
  "TrimSpace s =
     rev (trim_with (map rev space_encodings) (rev (trim_with space_encodings s)))"

lemma trim_with_stop:
  "\<forall>e \<in> set es. e = [] \<or> \<not> has_prefix s e \<Longrightarrow> trim_with es s = s"
  by (subst trim_with.simps) (auto simp: find_Some_iff split: option.splits dest!: nth_mem)

lemma trim_with_length: "length (trim_with es s) \<le> length s"
proof (induction es s rule: trim_with.induct)
  case (1 es s)
  then show ?case
    by (subst trim_with.simps) (auto split: option.splits intro: le_trans)
qed

lemma space_encodings_no_graph:
  assumes "e \<in> set space_encodings"
  shows "e \<noteq> [] \<and> (\<forall>c \<in> set e. \<not> is_graph c)"
proof -
  have "list_all (\<lambda>e. e \<noteq> [] \<and> list_all (\<lambda>c. \<not> is_graph c) e) space_encodings"
    by (simp add: space_encodings_def is_graph_def upt_rec)
  then show ?thesis using assms by (simp add: list_all_iff)
qed

lemma space_encodings_first:
  "e \<in> set space_encodings \<Longrightarrow> e \<noteq> [] \<and> \<not> is_graph (hd e) \<and> \<not> is_graph (last e)"
  using space_encodings_no_graph [of e] by simp

lemma TrimSpace_graph:
  assumes "s = [] \<or> is_graph (hd s) \<and> is_graph (last s)"
  shows "TrimSpace s = s"
proof (cases "s = []")
  case False
  with assms have g: "is_graph (hd s)" "is_graph (last s)" by auto
  have pre: "hd e = hd t" if "e \<noteq> []" "has_prefix t e" for e t :: string
    using that by (cases e; cases t) (auto simp: has_prefix_def)
  have "trim_with space_encodings s = s"
    using g pre space_encodings_first by (intro trim_with_stop) metis
  moreover have "trim_with (map rev space_encodings) (rev s) = rev s"
  proof (intro trim_with_stop ballI disjI2 notI)
    fix e
    assume "e \<in> set (map rev space_encodings)" and p: "has_prefix (rev s) e"
    then obtain e' where e': "e' \<in> set space_encodings" "e = rev e'" by auto
    then have "e \<noteq> []" "hd e = last e'" using space_encodings_first by (auto simp: hd_rev)
    with p have "last e' = last s" using pre [of e "rev s"] by (simp add: hd_rev)
    with g e' show False using space_encodings_first by metis
  qed
  ultimately show ?thesis by (simp add: TrimSpace_def)
next
  case True
  have "trim_with es [] = []" for es
    using trim_with_length [of es "[]"] by simp
  with True show ?thesis by (simp add: TrimSpace_def)
qed

lemma TrimSpace_Nil [simp]: "TrimSpace [] = []"
  by (simp add: TrimSpace_graph)

lemma TrimSpace_all_graph: "list_all is_graph s \<Longrightarrow> TrimSpace s = s"
  by (intro TrimSpace_graph) (cases s; simp add: list_all_iff)

lemma TrimSpace_length: "length (TrimSpace s) \<le> length s"
  by (simp add: TrimSpace_def) (metis trim_with_length length_rev le_trans)

section \<open>Packages strconv and fmt\<close>

definition is_digit :: "char \<Rightarrow> bool" where
  "is_digit c \<longleftrightarrow> 48 \<le> byte c \<and> byte c \<le> 57"

definition digit_val :: "char \<Rightarrow> nat" where "digit_val c = byte c - 48"
definition digit_char :: "nat \<Rightarrow> char" where "digit_char d = char_of (48 + d)"

text \<open>\<^verbatim>\<open>strconv.ParseUint(s, 10, bits)\<close>.\<close>

fun parse_digits :: "nat \<Rightarrow> nat \<Rightarrow> string \<Rightarrow> nat outcome" where
  "parse_digits mx n [] = Ok n"
| "parse_digits mx n (c # cs) =
     (if \<not> is_digit c then Fail NumSyntax
      else if mx < 10 * n + digit_val c then Fail NumRange
      else parse_digits mx (10 * n + digit_val c) cs)"

definition ParseUint :: "string \<Rightarrow> nat \<Rightarrow> nat outcome" where
  "ParseUint s bits = (if s = [] then Fail NumSyntax else parse_digits (2 ^ bits - 1) 0 s)"

text \<open>\<^verbatim>\<open>strconv.Atoi\<close>: an optional sign, then a number in the range of a 64-bit \<^verbatim>\<open>int\<close>.\<close>

definition Atoi :: "string \<Rightarrow> int outcome" where
  "Atoi s =
     (let number = (\<lambda>cutoff sgn ds.
        if ds = [] then Fail NumSyntax
        else obind (parse_digits (2 ^ 64 - 1) 0 ds)
               (\<lambda>n. if cutoff < n then Fail NumRange else Ok (sgn * int n)))
      in case s of
           [] \<Rightarrow> Fail NumSyntax
         | c # cs \<Rightarrow>
             if c = CHR ''-'' then number (2 ^ 63) (- 1) cs
             else if c = CHR ''+'' then number (2 ^ 63 - 1) 1 cs
             else number (2 ^ 63 - 1) 1 s)"

text \<open>The number that \<^verbatim>\<open>Atoi\<close> returns beside an error: 0, or the bound that was exceeded.\<close>

definition Atoi_value :: "string \<Rightarrow> int" where
  "Atoi_value s =
     (case Atoi s of
        Ok n \<Rightarrow> n
      | Fail NumRange \<Rightarrow> if has_prefix s ''-'' then - (2 ^ 63) else 2 ^ 63 - 1
      | _ \<Rightarrow> 0)"

text \<open>\<^verbatim>\<open>fmt.Sprintf("%d", n)\<close> for a non-negative number.\<close>

fun show_nat :: "nat \<Rightarrow> string" where
  "show_nat n = (if n < 10 then [digit_char n] else show_nat (n div 10) @ [digit_char (n mod 10)])"

declare show_nat.simps [simp del]

lemma digit_char_props [simp]:
  "d < 10 \<Longrightarrow> is_digit (digit_char d)"
  "d < 10 \<Longrightarrow> digit_val (digit_char d) = d"
  by (auto simp: is_digit_def digit_val_def digit_char_def)

lemma is_digit_graph [simp]: "is_digit c \<Longrightarrow> is_graph c"
  by (simp add: is_digit_def is_graph_def)

lemma show_nat_digits: "list_all is_digit (show_nat n)"
  by (induction n rule: show_nat.induct) (subst show_nat.simps, simp)

lemma show_nat_ne [simp]: "show_nat n \<noteq> []"
  by (subst show_nat.simps) simp

lemma show_nat_graph: "list_all is_graph (show_nat n)"
  using show_nat_digits [of n] by (auto simp: list_all_iff)

lemma parse_digits_append:
  "parse_digits mx n (a @ b) = obind (parse_digits mx n a) (\<lambda>m. parse_digits mx m b)"
  by (induction a arbitrary: n) auto

lemma parse_digits_show: "n \<le> mx \<Longrightarrow> parse_digits mx 0 (show_nat n) = Ok n"
proof (induction n rule: show_nat.induct)
  case (1 n)
  show ?case
  proof (cases "n < 10")
    case True
    with "1.prems" show ?thesis by (subst show_nat.simps) simp
  next
    case False
    with 1 have "parse_digits mx 0 (show_nat (n div 10)) = Ok (n div 10)" by simp
    moreover have "10 * (n div 10) + n mod 10 = n" by presburger
    ultimately show ?thesis using False "1.prems"
      by (subst show_nat.simps) (simp add: parse_digits_append)
  qed
qed

lemma ParseUint_show: "n < 2 ^ bits \<Longrightarrow> ParseUint (show_nat n) bits = Ok n"
  by (simp add: ParseUint_def parse_digits_show Suc_leI less_Suc_eq_le [symmetric])

lemma parse_digits_bound: "parse_digits mx n s = Ok m \<Longrightarrow> n \<le> mx \<Longrightarrow> m \<le> mx"
  by (induction s arbitrary: n) (auto split: if_splits)

lemma parse_digits_no_panic [simp]: "parse_digits mx n s \<noteq> Panic"
  by (induction s arbitrary: n) auto

lemma ParseUint_bound: "ParseUint s bits = Ok n \<Longrightarrow> n < 2 ^ bits"
proof -
  assume "ParseUint s bits = Ok n"
  then have "n \<le> 2 ^ bits - 1"
    by (auto simp: ParseUint_def split: if_splits dest: parse_digits_bound)
  moreover have "0 < (2::nat) ^ bits" by simp
  ultimately show "n < 2 ^ bits" by linarith
qed

lemma ParseUint_no_panic [simp]: "ParseUint s bits \<noteq> Panic"
  by (simp add: ParseUint_def)

lemma show_nat_inject: "show_nat m = show_nat n \<longleftrightarrow> m = n"
proof
  assume eq: "show_nat m = show_nat n"
  have "parse_digits (max m n) 0 (show_nat m) = Ok m" by (simp add: parse_digits_show)
  moreover have "parse_digits (max m n) 0 (show_nat n) = Ok n" by (simp add: parse_digits_show)
  ultimately show "m = n" using eq by (metis outcome.inject)
qed simp

section \<open>Maps as association lists\<close>

text \<open>
  A Go map is an association list with distinct keys: \<^const>\<open>map_of\<close> looks a key up,
  \<^const>\<open>AList.update\<close> stores and \<^const>\<open>AList.delete\<close> deletes. No modelled function
  depends on the order in which Go ranges over a map.
\<close>

lemma map_of_update [simp]: "map_of (AList.update k v al) = (map_of al)(k \<mapsto> v)"
  by (rule update_conv')

lemma map_of_delete [simp]: "map_of (AList.delete k al) = (map_of al)(k := None)"
  by (rule delete_conv')

lemma map_fst_update:
  "map fst (AList.update k v al) =
     (if k \<in> set (map fst al) then map fst al else map fst al @ [k])"
  by (induction al) auto

lemma map_fst_delete: "map fst (AList.delete k al) = filter (\<lambda>x. x \<noteq> k) (map fst al)"
  by (induction al) (auto simp: AList.delete_eq)

lemma map_of_None_keys: "map fst al = ks \<Longrightarrow> map_of al k = None \<longleftrightarrow> k \<notin> set ks"
  by (metis map_of_eq_None_iff set_map)

lemma alist_rebuild:
  "distinct (map fst al) \<Longrightarrow> map (\<lambda>k. (k, the (map_of al k))) (map fst al) = al"
  by (induction al) (auto simp: image_iff intro!: map_idI)

lemma alist_ext:
  "distinct (map fst xs) \<Longrightarrow> map fst xs = map fst ys \<Longrightarrow> map_of xs = map_of ys \<Longrightarrow> xs = ys"
  by (metis alist_rebuild)

end
