(* ===== verification/Gsip_Addr.thy ===== *)
theory Gsip_Addr
  imports Gsip_Prelude
begin

text \<open>
  The basic types of \<^verbatim>\<open>sip/base.go\<close> and the helpers of \<^verbatim>\<open>utils/\<close>: optional strings, ports,
  host and port pairs, default ports, random strings and branch identifiers.
\<close>

section \<open>Constants and methods\<close>

type_synonym RequestMethod = string
type_synonym Port = "16 word"

definition SipVersion :: string where "SipVersion = ''SIP/2.0''"

definition INVITE :: RequestMethod where "INVITE = ''INVITE''"
definition ACK :: RequestMethod where "ACK = ''ACK''"
definition CANCEL :: RequestMethod where "CANCEL = ''CANCEL''"
definition BYE :: RequestMethod where "BYE = ''BYE''"
definition REGISTER :: RequestMethod where "REGISTER = ''REGISTER''"

definition DefaultProtocol :: string where "DefaultProtocol = ''UDP''"
definition DefaultHost :: string where "DefaultHost = ''0.0.0.0''"
definition DefaultUdpPort :: Port where "DefaultUdpPort = 5060"
definition DefaultTcpPort :: Port where "DefaultTcpPort = 5060"
definition DefaultTlsPort :: Port where "DefaultTlsPort = 5061"

definition RFC3261BranchMagicCookie :: string where
  "RFC3261BranchMagicCookie = ''z9hG4bK''"

lemmas method_defs = INVITE_def ACK_def CANCEL_def BYE_def REGISTER_def

section \<open>MaybeString\<close>

text \<open>
  A value of the interface \<^verbatim>\<open>MaybeString\<close> is nil, a \<^verbatim>\<open>String\<close> struct, or a pointer to one (the
  code stores \<^verbatim>\<open>&String{...}\<close> for generated tags). A pointer has an identity, because
  \<^verbatim>\<open>==\<close> on two interface values compares pointers by address.
\<close>

datatype MaybeString = NilStr | Str string | StrPtr nat string

text \<open>\<^verbatim>\<open>v.String()\<close>: a method call on a nil interface panics.\<close>

primrec ms_String :: "MaybeString \<Rightarrow> string outcome" where
  "ms_String NilStr = Panic"
| "ms_String (Str s) = Ok s"
| "ms_String (StrPtr a s) = Ok s"

text \<open>
  \<^verbatim>\<open>v.Equals(w)\<close> of \<^verbatim>\<open>String\<close>: the argument must hold a \<^verbatim>\<open>String\<close> value, a pointer to one does
  not match the type assertion.
\<close>

fun ms_Equals :: "MaybeString \<Rightarrow> MaybeString \<Rightarrow> bool outcome" where
  "ms_Equals v w = omap (\<lambda>s. case w of Str t \<Rightarrow> s = t | _ \<Rightarrow> False) (ms_String v)"

text \<open>The text of \<^verbatim>\<open>fmt.Sprintf("%s", v)\<close>.\<close>

primrec ms_fmt :: "MaybeString \<Rightarrow> string" where
  "ms_fmt NilStr = ''%!s(<nil>)''"
| "ms_fmt (Str s) = s"
| "ms_fmt (StrPtr a s) = s"

section \<open>Ports and addresses\<close>

record Addr =
  addr_Host :: string
  addr_Port :: "Port option"

definition port_text :: "Port \<Rightarrow> string" where "port_text p = show_nat (unat p)"

definition Port_Copy :: "Port option \<Rightarrow> Port option" where
  "Port_Copy port = (case port of None \<Rightarrow> None | Some p \<Rightarrow> Some p)"

definition Addr_String :: "Addr \<Rightarrow> string" where
  "Addr_String trg =
     (case addr_Port trg of
        Some p \<Rightarrow> addr_Host trg @ '':'' @ port_text p
      | None \<Rightarrow> addr_Host trg)"

definition Addr_Addr :: "Addr \<Rightarrow> string" where
  "Addr_Addr trg =
     (let host = (if TrimSpace (addr_Host trg) \<noteq> '''' then addr_Host trg else DefaultHost);
          port = (case addr_Port trg of Some p \<Rightarrow> p | None \<Rightarrow> 0)
      in host @ '':'' @ port_text port)"

text \<open>\<^verbatim>\<open>Port(port)\<close> converts an \<^verbatim>\<open>int\<close> to a \<^verbatim>\<open>uint16\<close>: it wraps modulo 65536.\<close>

definition NewAddr :: "string \<Rightarrow> int \<Rightarrow> Addr" where
  "NewAddr host port = \<lparr>addr_Host = host, addr_Port = Some (word_of_int port)\<rparr>"

definition last_index :: "char \<Rightarrow> string \<Rightarrow> nat option" where
  "last_index c s = map_option (\<lambda>i. length s - 1 - i) (index_char c (rev s))"

text \<open>\<^verbatim>\<open>net.SplitHostPort\<close> of the standard library.\<close>

definition SplitHostPort :: "string \<Rightarrow> (string \<times> string) outcome" where
  "SplitHostPort hp =
     (case last_index (CHR '':'') hp of
        None \<Rightarrow> Fail (NetError ''missing port in address'')
      | Some i \<Rightarrow>
          let check = (\<lambda>host j k.
            if CHR ''['' \<in> set (drop j hp) then Fail (NetError ''unexpected '[' in address'')
            else if CHR '']'' \<in> set (drop k hp) then Fail (NetError ''unexpected ']' in address'')
            else Ok (host, drop (Suc i) hp))
          in
          if hd hp = CHR ''['' then
            (case index_char (CHR '']'') hp of
               None \<Rightarrow> Fail (NetError ''missing ']' in address'')
             | Some e \<Rightarrow>
                 if Suc e = length hp then Fail (NetError ''missing port in address'')
                 else if Suc e = i then check (take (e - 1) (drop 1 hp)) 1 (Suc e)
                 else if hp ! Suc e = CHR '':'' then Fail (NetError ''too many colons in address'')
                 else Fail (NetError ''missing port in address''))
          else if CHR '':'' \<in> set (take i hp) then Fail (NetError ''too many colons in address'')
          else check (take i hp) 0 0)"

definition NewTargetFromAddr :: "string \<Rightarrow> Addr outcome" where
  "NewTargetFromAddr addr =
     obind (SplitHostPort addr) (\<lambda>(host, port).
     obind (Atoi port) (\<lambda>sipPort.
     Ok (NewAddr host sipPort)))"

text \<open>\<^verbatim>\<open>DefaultPort\<close>: the default port of a protocol name.\<close>

definition DefaultPort :: "string \<Rightarrow> Port" where
  "DefaultPort protocol =
     (if ToLower protocol = ''tls'' then DefaultTlsPort
      else if ToLower protocol = ''tcp'' then DefaultTcpPort
      else if ToLower protocol = ''udp'' then DefaultUdpPort
      else DefaultTcpPort)"

definition FillTargetHostAndPort :: "string \<Rightarrow> Addr \<Rightarrow> Addr" where
  "FillTargetHostAndPort network target =
     (let t1 = (if TrimSpace (addr_Host target) = '''' then target\<lparr>addr_Host := DefaultHost\<rparr>
                else target)
      in case addr_Port t1 of
           None \<Rightarrow> t1\<lparr>addr_Port := Some (DefaultPort network)\<rparr>
         | Some _ \<Rightarrow> t1)"

text \<open>\<^verbatim>\<open>utils.Uint16PtrEq\<close> on two optional ports.\<close>

definition Uint16PtrEq :: "Port option \<Rightarrow> Port option \<Rightarrow> bool" where
  "Uint16PtrEq a b =
     (case (a, b) of
        (Some x, Some y) \<Rightarrow> x = y
      | (None, None) \<Rightarrow> True
      | _ \<Rightarrow> False)"

section \<open>Random strings\<close>

definition letterBytes :: string where
  "letterBytes = ''0123456789abcdefghijklmnopqrstuvwxyzABCDEFGHIJKLMNOPQRSTUVWXYZ''"

text \<open>
  \<^verbatim>\<open>utils.RandString\<close>; the bytes that \<^verbatim>\<open>rand.Read\<close> delivers are its argument
  \<open>randomness\<close>, whose length is the length asked for.
\<close>

definition RandString :: "string \<Rightarrow> bool \<Rightarrow> string" where
  "RandString randomness isPureNumber =
     (let l = (if isPureNumber then 10 else length letterBytes)
      in map (\<lambda>random. letterBytes ! (byte random mod l)) randomness)"

definition GenerateBranch :: "string \<Rightarrow> string" where
  "GenerateBranch randomness =
     join [] [RFC3261BranchMagicCookie, RandString randomness False]"

section \<open>Lemmas\<close>

lemma Uint16PtrEq_eq [simp]: "Uint16PtrEq a b \<longleftrightarrow> a = b"
  by (auto simp: Uint16PtrEq_def split: option.splits)

lemma Port_Copy_id [simp]: "Port_Copy p = p"
  by (simp add: Port_Copy_def split: option.split)

lemma port_text_digits: "list_all is_digit (port_text p)"
  by (simp add: port_text_def show_nat_digits)

lemma port_text_graph: "list_all is_graph (port_text p)"
  by (simp add: port_text_def show_nat_graph)

lemma port_text_notin: "\<not> is_digit c \<Longrightarrow> c \<notin> set (port_text p)"
  using port_text_digits [of p] by (auto simp: list_all_iff)

lemma port_text_colon [simp]:
  "CHR '':'' \<notin> set (port_text p)" "CHR ''['' \<notin> set (port_text p)" "CHR '']'' \<notin> set (port_text p)"
  "CHR '';'' \<notin> set (port_text p)" "CHR ''?'' \<notin> set (port_text p)" "CHR ''@'' \<notin> set (port_text p)"
  by (intro port_text_notin; simp add: is_digit_def byte_def)+

lemma ParseUint_port_text: "ParseUint (port_text p) 16 = Ok (unat p)"
  unfolding port_text_def using unsigned_less [of p] by (intro ParseUint_show) simp

lemma Atoi_show_nat:
  assumes "n < 2 ^ 63"
  shows "Atoi (show_nat n) = Ok (int n)"
proof -
  obtain c cs where eq: "show_nat n = c # cs" by (meson neq_Nil_conv show_nat_ne)
  then have "is_digit c" using show_nat_digits [of n] by simp
  then have "c \<noteq> CHR ''-''" "c \<noteq> CHR ''+''" by (auto simp: is_digit_def byte_def)
  moreover have "parse_digits (2 ^ 64 - 1) 0 (show_nat n) = Ok n"
    using assms by (intro parse_digits_show) simp
  ultimately show ?thesis using eq assms by (simp add: Atoi_def)
qed

lemma last_index_append:
  "c \<notin> set b \<Longrightarrow> last_index c (a @ c # b) = Some (length a)"
  by (simp add: last_index_def index_char_append)

lemma SplitHostPort_join:
  assumes "\<forall>c \<in> set host. c \<noteq> CHR '':'' \<and> c \<noteq> CHR ''['' \<and> c \<noteq> CHR '']''"
    and "\<forall>c \<in> set port. c \<noteq> CHR '':'' \<and> c \<noteq> CHR ''['' \<and> c \<noteq> CHR '']''"
  shows "SplitHostPort (host @ CHR '':'' # port) = Ok (host, port)"
proof -
  have "last_index (CHR '':'') (host @ CHR '':'' # port) = Some (length host)"
    using assms by (intro last_index_append) auto
  moreover have "hd (host @ CHR '':'' # port) \<noteq> CHR ''[''"
    using assms by (cases host) auto
  ultimately show ?thesis using assms by (auto simp: SplitHostPort_def)
qed

lemma RandString_length [simp]: "length (RandString r pure) = length r"
  by (simp add: RandString_def Let_def)

lemma RandString_alphabet: "set (RandString r pure) \<subseteq> set letterBytes"
proof -
  have "0 < length letterBytes" "10 \<le> length letterBytes" by (simp_all add: letterBytes_def)
  then show ?thesis
    by (auto simp: RandString_def Let_def intro!: nth_mem)
qed

lemma letterBytes_graph: "list_all is_graph letterBytes"
  by (simp add: letterBytes_def is_graph_def byte_def)

lemma RandString_graph: "list_all is_graph (RandString r pure)"
  using RandString_alphabet letterBytes_graph by (fastforce simp: list_all_iff)

lemma GenerateBranch_eq:
  "GenerateBranch r = RFC3261BranchMagicCookie @ RandString r False"
  by (simp add: GenerateBranch_def)

end
