(* ===== verification/Gsip_Params.thy ===== *)
theory Gsip_Params
  imports Gsip_Addr
begin

text \<open>
  The parameter collection of \<^verbatim>\<open>sip/headers.go\<close> (\<^verbatim>\<open>headerParams\<close>): a map from keys to
  optional strings together with the order in which the keys were first added. The
  locale \<open>ordered_store\<close> states the contract that the parsers and printers rely on;
  it is interpreted on the operations of \<^verbatim>\<open>headerParams\<close>.
\<close>

section \<open>The contract of an insertion-ordered store\<close>

locale ordered_store =
  fixes empty :: 's
    and add :: "'k \<Rightarrow> 'v \<Rightarrow> 's \<Rightarrow> 's"
    and get :: "'s \<Rightarrow> 'k \<Rightarrow> 'v option"
    and keys :: "'s \<Rightarrow> 'k list"
    and inv :: "'s \<Rightarrow> bool"
  assumes get_empty: "get empty k = None"
    and keys_empty: "keys empty = []"
    and inv_empty: "inv empty"
    and inv_add: "inv s \<Longrightarrow> inv (add k v s)"
    and get_add: "inv s \<Longrightarrow> get (add k v s) k' = (if k' = k then Some v else get s k')"
    and keys_add: "inv s \<Longrightarrow> keys (add k v s) = (if get s k = None then keys s @ [k] else keys s)"
    and get_keys: "inv s \<Longrightarrow> get s k \<noteq> None \<longleftrightarrow> k \<in> set (keys s)"
    and ext: "inv s \<Longrightarrow> inv t \<Longrightarrow> keys s = keys t \<Longrightarrow> (\<And>k. get s k = get t k) \<Longrightarrow> s = t"
begin

text \<open>Adding a list of bindings, as the loops of the code do.\<close>

definition add_all :: "('k \<times> 'v) list \<Rightarrow> 's \<Rightarrow> 's" where
  "add_all kvs s = fold (\<lambda>(k, v). add k v) kvs s"

lemma add_all_simps [simp]:
  "add_all [] s = s"
  "add_all ((k, v) # kvs) s = add_all kvs (add k v s)"
  by (simp_all add: add_all_def)

lemma inv_add_all: "inv s \<Longrightarrow> inv (add_all kvs s)"
  by (induction kvs arbitrary: s) (auto simp: inv_add)

lemma get_add_all:
  "inv s \<Longrightarrow> distinct (map fst kvs) \<Longrightarrow>
     get (add_all kvs s) k = (case map_of kvs k of Some v \<Rightarrow> Some v | None \<Rightarrow> get s k)"
proof (induction kvs arbitrary: s)
  case (Cons kv kvs)
  obtain a b where kv: "kv = (a, b)" by force
  with Cons.prems have "map_of kvs a = None" by (auto simp: map_of_eq_None_iff)
  with Cons kv show ?case by (auto simp: inv_add get_add split: option.splits)
qed simp

lemma keys_add_all:
  "inv s \<Longrightarrow> distinct (map fst kvs) \<Longrightarrow> set (map fst kvs) \<inter> set (keys s) = {} \<Longrightarrow>
     keys (add_all kvs s) = keys s @ map fst kvs"
proof (induction kvs arbitrary: s)
  case (Cons kv kvs)
  obtain a b where kv: "kv = (a, b)" by force
  with Cons.prems have "get s a = None" using get_keys [of s a] by auto
  then have "keys (add a b s) = keys s @ [a]" using Cons.prems kv by (simp add: keys_add)
  with Cons kv show ?case by (auto simp: inv_add)
qed simp

text \<open>A store is rebuilt by adding its bindings in key order to an empty one.\<close>

lemma add_all_rebuild:
  assumes "inv s" and "distinct (keys s)"
    and "map fst kvs = keys s" and "\<And>k v. (k, v) \<in> set kvs \<Longrightarrow> get s k = Some v"
  shows "add_all kvs empty = s"
proof (rule ext)
  show "inv (add_all kvs empty)" by (simp add: inv_add_all inv_empty)
  show "inv s" by fact
  show "keys (add_all kvs empty) = keys s"
    using assms by (simp add: keys_add_all inv_empty keys_empty)
  fix k
  have get_all: "get (add_all kvs empty) k = map_of kvs k"
    using assms(2,3) by (simp add: get_add_all inv_empty get_empty split: option.split)
  show "get (add_all kvs empty) k = get s k"
  proof (cases "map_of kvs k")
    case None
    then have "k \<notin> set (keys s)" using assms(3) by (metis map_of_eq_None_iff set_map)
    then have "get s k = None" using get_keys [OF assms(1), of k] by blast
    with None get_all show ?thesis by simp
  next
    case (Some v)
    then have "get s k = Some v" by (intro assms(4)) (rule map_of_SomeD)
    with Some get_all show ?thesis by simp
  qed
qed

end

section \<open>headerParams\<close>

record headerParams =
  hp_params :: "(string \<times> MaybeString) list"
  hp_paramOrder :: "string list"

definition NewParams :: headerParams where
  "NewParams = \<lparr>hp_params = [], hp_paramOrder = []\<rparr>"

definition Params_Items :: "headerParams \<Rightarrow> (string \<times> MaybeString) list" where
  "Params_Items p = hp_params p"

definition Params_Keys :: "headerParams \<Rightarrow> string list" where
  "Params_Keys p = hp_paramOrder p"

text \<open>\<^verbatim>\<open>Get\<close> returns the value and whether the key is present: \<^term>\<open>None\<close> is absence.\<close>

definition Params_Get :: "headerParams \<Rightarrow> string \<Rightarrow> MaybeString option" where
  "Params_Get p key = map_of (hp_params p) key"

definition Params_Add :: "string \<Rightarrow> MaybeString \<Rightarrow> headerParams \<Rightarrow> headerParams" where
  "Params_Add key val p =
     (let p1 = (if Params_Get p key = None
                then p\<lparr>hp_paramOrder := hp_paramOrder p @ [key]\<rparr> else p)
      in p1\<lparr>hp_params := AList.update key val (hp_params p1)\<rparr>)"

definition Params_Has :: "headerParams \<Rightarrow> string \<Rightarrow> bool" where
  "Params_Has p key \<longleftrightarrow> Params_Get p key \<noteq> None"

definition Params_Copy :: "headerParams \<Rightarrow> headerParams" where
  "Params_Copy p =
     fold (\<lambda>key dup. case Params_Get p key of Some val \<Rightarrow> Params_Add key val dup | None \<Rightarrow> dup)
       (Params_Keys p) NewParams"

text \<open>\<^verbatim>\<open>ToString\<close>: a value that holds a blank is written between quotes.\<close>

definition param_value_text :: "MaybeString \<Rightarrow> string" where
  "param_value_text val =
     (let text = (\<lambda>v. if contains_ws v then ''='' @ [QUOTE] @ v @ [QUOTE] else ''='' @ v)
      in case val of NilStr \<Rightarrow> '''' | Str v \<Rightarrow> text v | StrPtr a v \<Rightarrow> text v)"

fun Params_ToString_loop :: "char \<Rightarrow> headerParams \<Rightarrow> bool \<Rightarrow> string list \<Rightarrow> string" where
  "Params_ToString_loop sep p first [] = ''''"
| "Params_ToString_loop sep p first (key # ks) =
     (case Params_Get p key of
        None \<Rightarrow> Params_ToString_loop sep p first ks
      | Some val \<Rightarrow>
          (if first then '''' else [sep]) @ key @ param_value_text val
          @ Params_ToString_loop sep p False ks)"

definition Params_ToString :: "char \<Rightarrow> headerParams \<Rightarrow> string" where
  "Params_ToString sep p = Params_ToString_loop sep p True (Params_Keys p)"

definition Params_Length :: "headerParams \<Rightarrow> nat" where
  "Params_Length p = length (hp_params p)"

text \<open>\<^verbatim>\<open>Equals\<close>; the argument is an interface value, nil or a \<^verbatim>\<open>*headerParams\<close>.\<close>

definition Params_Equals :: "headerParams \<Rightarrow> headerParams option \<Rightarrow> bool" where
  "Params_Equals p other =
     (case other of
        None \<Rightarrow> False
      | Some q \<Rightarrow>
          if Params_Length p = 0 \<and> Params_Length q = 0 then True
          else if Params_Length p \<noteq> Params_Length q then False
          else list_all (\<lambda>(key, pVal). Params_Get q key = Some pVal) (Params_Items p))"

text \<open>\<^verbatim>\<open>CopyWithNil\<close>: a nil \<^verbatim>\<open>Params\<close> is copied to an empty one.\<close>

definition CopyWithNil :: "headerParams option \<Rightarrow> headerParams" where
  "CopyWithNil ps = (case ps of None \<Rightarrow> NewParams | Some p \<Rightarrow> Params_Copy p)"

section \<open>The representation invariant\<close>

definition params_ok :: "headerParams \<Rightarrow> bool" where
  "params_ok p \<longleftrightarrow> distinct (hp_paramOrder p) \<and> map fst (hp_params p) = hp_paramOrder p"

lemmas Params_defs =
  NewParams_def Params_Items_def Params_Keys_def Params_Get_def Params_Add_def Params_Has_def
  Params_Length_def

lemma params_ok_New [simp]: "params_ok NewParams"
  by (simp add: params_ok_def NewParams_def)

lemma params_ok_Add [simp]: "params_ok p \<Longrightarrow> params_ok (Params_Add key val p)"
  by (auto simp: params_ok_def Params_defs Let_def map_fst_update map_of_None_keys
      simp del: set_map)

lemma Params_Get_Add [simp]:
  "Params_Get (Params_Add key val p) k = (if k = key then Some val else Params_Get p k)"
  by (auto simp: Params_defs Let_def)

lemma Params_Keys_Add:
  "Params_Keys (Params_Add key val p) =
     (if Params_Get p key = None then Params_Keys p @ [key] else Params_Keys p)"
  by (auto simp: Params_defs Let_def)

lemma Params_Get_Keys:
  "params_ok p \<Longrightarrow> Params_Get p key \<noteq> None \<longleftrightarrow> key \<in> set (Params_Keys p)"
  by (simp add: params_ok_def Params_defs map_of_None_keys del: not_None_eq)

lemma params_ext:
  assumes "params_ok p" "params_ok q" "Params_Keys p = Params_Keys q"
    and "\<And>k. Params_Get p k = Params_Get q k"
  shows "p = q"
proof -
  have "map fst (hp_params p) = map fst (hp_params q)" "distinct (map fst (hp_params p))"
    using assms by (auto simp: params_ok_def Params_defs)
  moreover have "map_of (hp_params p) = map_of (hp_params q)"
    using assms(4) by (auto simp: Params_defs)
  ultimately have "hp_params p = hp_params q"
    by (intro alist_ext) auto
  with assms(3) show ?thesis by (simp add: Params_defs)
qed

interpretation ps: ordered_store NewParams Params_Add Params_Get Params_Keys params_ok
proof unfold_locales
  show "Params_Get NewParams k = None" "Params_Keys NewParams = []" for k
    by (simp_all add: Params_defs)
qed (simp_all add: Params_Keys_Add Params_Get_Keys params_ext del: not_None_eq)

section \<open>Behaviour of the operations\<close>

lemma Params_Length_Keys: "params_ok p \<Longrightarrow> Params_Length p = length (Params_Keys p)"
  by (metis Params_Keys_def Params_Length_def length_map params_ok_def)

lemma Params_Copy_eq_add_all:
  "params_ok p \<Longrightarrow> Params_Copy p = ps.add_all (hp_params p) NewParams"
proof -
  assume ok: "params_ok p"
  have "fold (\<lambda>key dup. case Params_Get p key of Some val \<Rightarrow> Params_Add key val dup | None \<Rightarrow> dup)
          (map fst kvs) d = ps.add_all kvs d"
    if "set kvs \<subseteq> set (hp_params p)" for kvs d
    using that
  proof (induction kvs arbitrary: d)
    case (Cons kv kvs)
    obtain k v where kv: "kv = (k, v)" by force
    with Cons.prems ok have "Params_Get p k = Some v"
      by (simp add: Params_Get_def params_ok_def)
    with Cons kv show ?case by simp
  qed simp
  from this [of "hp_params p" NewParams] ok show ?thesis
    by (simp add: Params_Copy_def Params_Keys_def params_ok_def)
qed

text \<open>The copy of a parameter collection is an equal collection.\<close>

lemma Params_Copy_id [simp]: "params_ok p \<Longrightarrow> Params_Copy p = p"
  unfolding Params_Copy_eq_add_all
  by (intro ps.add_all_rebuild) (auto simp: params_ok_def Params_defs)

lemma Params_Equals_iff:
  assumes "params_ok p" and "params_ok q"
  shows "Params_Equals p (Some q) \<longleftrightarrow> map_of (hp_params p) = map_of (hp_params q)"
proof
  assume eq: "Params_Equals p (Some q)"
  have keys: "set (map fst (hp_params p)) = dom (map_of (hp_params p))"
    "set (map fst (hp_params q)) = dom (map_of (hp_params q))" by (simp_all add: dom_map_of_conv_image_fst)
  have len: "length (hp_params p) = length (hp_params q)"
    and sub: "\<forall>(k, v) \<in> set (hp_params p). map_of (hp_params q) k = Some v"
    using eq by (auto simp: Params_Equals_def Params_defs list_all_iff split: if_splits)
  have le: "map_of (hp_params p) \<subseteq>\<^sub>m map_of (hp_params q)"
  proof (unfold map_le_def, intro ballI)
    fix k assume "k \<in> dom (map_of (hp_params p))"
    then obtain v where "map_of (hp_params p) k = Some v" by blast
    with sub show "map_of (hp_params p) k = map_of (hp_params q) k"
      by (force dest: map_of_SomeD)
  qed
  then have "dom (map_of (hp_params p)) \<subseteq> dom (map_of (hp_params q))" by (rule map_le_implies_dom_le)
  moreover have "card (dom (map_of (hp_params p))) = card (dom (map_of (hp_params q)))"
    using assms len keys distinct_card unfolding params_ok_def by (metis length_map)
  ultimately have "dom (map_of (hp_params p)) = dom (map_of (hp_params q))"
    by (simp add: card_subset_eq finite_dom_map_of)
  with le show "map_of (hp_params p) = map_of (hp_params q)"
    by (auto simp: map_le_def fun_eq_iff domIff)
       (metis domIff)
next
  assume eq: "map_of (hp_params p) = map_of (hp_params q)"
  then have "fst ` set (hp_params p) = fst ` set (hp_params q)"
    by (simp flip: dom_map_of_conv_image_fst)
  then have "length (hp_params p) = length (hp_params q)"
    using assms distinct_card unfolding params_ok_def by (metis length_map set_map)
  with eq assms show "Params_Equals p (Some q)"
    by (auto simp: Params_Equals_def Params_defs list_all_iff params_ok_def simp flip: eq)
qed

end
