(* ===== verification/Gsip_Uri.thy ===== *)
theory Gsip_Uri
  imports Gsip_Params
begin

text \<open>
  The URI types of \<^verbatim>\<open>sip/headers.go\<close>: \<^verbatim>\<open>SipUri\<close> and \<^verbatim>\<open>WildcardUri\<close> behind the interface \<^verbatim>\<open>Uri\<close>,
  with their printing, copying and comparison. Only the pointer types implement the
  interface, so a value of it is nil (\<^term>\<open>None\<close>), a \<^verbatim>\<open>*SipUri\<close> or a \<^verbatim>\<open>*WildcardUri\<close>.
\<close>

section \<open>SipUri\<close>

record SipUri =
  u_FIsEncrypted :: bool
  u_FUser :: MaybeString
  u_FPassword :: MaybeString
  u_FDomain :: Addr
  u_FUriParams :: "headerParams option"
  u_FHeaders :: "headerParams option"

text \<open>The text of an optional parameter section with its introducing character.\<close>

definition params_section :: "string \<Rightarrow> char \<Rightarrow> headerParams option \<Rightarrow> string" where
  "params_section intro sep ps =
     (case ps of
        Some p \<Rightarrow> if 0 < Params_Length p then intro @ Params_ToString sep p else ''''
      | None \<Rightarrow> '''')"

definition SipUri_userinfo :: "SipUri \<Rightarrow> string" where
  "SipUri_userinfo uri =
     (case u_FUser uri of
        Str user \<Rightarrow>
          if user \<noteq> '''' then
            user @
            (case u_FPassword uri of
               Str pass \<Rightarrow> if pass \<noteq> '''' then '':'' @ pass else ''''
             | _ \<Rightarrow> '''') @ ''@''
          else ''''
      | _ \<Rightarrow> '''')"

definition SipUri_String :: "SipUri \<Rightarrow> string" where
  "SipUri_String uri =
     (if u_FIsEncrypted uri then ''sips'' @ '':'' else ''sip'' @ '':'')
     @ SipUri_userinfo uri
     @ Addr_String (u_FDomain uri)
     @ params_section '';'' (CHR '';'') (u_FUriParams uri)
     @ params_section ''?'' (CHR ''&'') (u_FHeaders uri)"

definition SipUri_Copy :: "SipUri \<Rightarrow> SipUri" where
  "SipUri_Copy uri =
     \<lparr>u_FIsEncrypted = u_FIsEncrypted uri,
      u_FUser = u_FUser uri,
      u_FPassword = u_FPassword uri,
      u_FDomain = \<lparr>addr_Host = addr_Host (u_FDomain uri),
                   addr_Port = (case addr_Port (u_FDomain uri) of
                                  None \<Rightarrow> None | Some p \<Rightarrow> Port_Copy (Some p))\<rparr>,
      u_FUriParams = Some (CopyWithNil (u_FUriParams uri)),
      u_FHeaders = Some (CopyWithNil (u_FHeaders uri))\<rparr>"

section \<open>The interface Uri\<close>

datatype Uri = SipUriPtr SipUri | WildcardUriPtr

text \<open>A method call through a nil \<^verbatim>\<open>Params\<close> interface panics.\<close>

definition nil_params_Equals :: "headerParams option \<Rightarrow> headerParams option \<Rightarrow> bool outcome" where
  "nil_params_Equals ps other =
     (case ps of None \<Rightarrow> Panic | Some p \<Rightarrow> Ok (Params_Equals p other))"

definition SipUri_Equals :: "SipUri \<Rightarrow> Uri option \<Rightarrow> bool outcome" where
  "SipUri_Equals uri val =
     (case val of
        Some (SipUriPtr other) \<Rightarrow>
          if \<not> (u_FIsEncrypted uri = u_FIsEncrypted other \<and>
                u_FUser uri = u_FUser other \<and>
                u_FPassword uri = u_FPassword other \<and>
                addr_Host (u_FDomain uri) = addr_Host (u_FDomain other) \<and>
                Uint16PtrEq (addr_Port (u_FDomain uri)) (addr_Port (u_FDomain other)))
          then Ok False
          else obind (nil_params_Equals (u_FUriParams uri) (u_FUriParams other)) (\<lambda>b1.
               if \<not> b1 then Ok False
               else nil_params_Equals (u_FHeaders uri) (u_FHeaders other))
      | _ \<Rightarrow> Ok False)"

text \<open>
  \<^verbatim>\<open>WildcardUri.Equals\<close> switches on the type \<^verbatim>\<open>WildcardUri\<close>, while a \<^verbatim>\<open>Uri\<close> holds a
  \<^verbatim>\<open>*WildcardUri\<close>: no value of the interface matches.
\<close>

definition WildcardUri_Equals :: "Uri option \<Rightarrow> bool" where
  "WildcardUri_Equals other = False"

primrec Uri_Equals :: "Uri \<Rightarrow> Uri option \<Rightarrow> bool outcome" where
  "Uri_Equals (SipUriPtr u) other = SipUri_Equals u other"
| "Uri_Equals WildcardUriPtr other = Ok (WildcardUri_Equals other)"

primrec Uri_String :: "Uri \<Rightarrow> string" where
  "Uri_String (SipUriPtr u) = SipUri_String u"
| "Uri_String WildcardUriPtr = ''*''"

primrec Uri_Copy :: "Uri \<Rightarrow> Uri" where
  "Uri_Copy (SipUriPtr u) = SipUriPtr (SipUri_Copy u)"
| "Uri_Copy WildcardUriPtr = WildcardUriPtr"

primrec Uri_IsWildcard :: "Uri \<Rightarrow> bool" where
  "Uri_IsWildcard (SipUriPtr u) = False"
| "Uri_IsWildcard WildcardUriPtr = True"

primrec Uri_IsEncrypted :: "Uri \<Rightarrow> bool" where
  "Uri_IsEncrypted (SipUriPtr u) = u_FIsEncrypted u"
| "Uri_IsEncrypted WildcardUriPtr = False"

primrec Uri_User :: "Uri \<Rightarrow> MaybeString" where
  "Uri_User (SipUriPtr u) = u_FUser u"
| "Uri_User WildcardUriPtr = NilStr"

primrec Uri_Password :: "Uri \<Rightarrow> MaybeString" where
  "Uri_Password (SipUriPtr u) = u_FPassword u"
| "Uri_Password WildcardUriPtr = NilStr"

primrec Uri_Domain :: "Uri \<Rightarrow> Addr" where
  "Uri_Domain (SipUriPtr u) = u_FDomain u"
| "Uri_Domain WildcardUriPtr = \<lparr>addr_Host = '''', addr_Port = None\<rparr>"

primrec Uri_UriParams :: "Uri \<Rightarrow> headerParams option" where
  "Uri_UriParams (SipUriPtr u) = u_FUriParams u"
| "Uri_UriParams WildcardUriPtr = None"

primrec Uri_Headers :: "Uri \<Rightarrow> headerParams option" where
  "Uri_Headers (SipUriPtr u) = u_FHeaders u"
| "Uri_Headers WildcardUriPtr = None"

text \<open>The setters change a \<^verbatim>\<open>SipUri\<close> and do nothing on a \<^verbatim>\<open>WildcardUri\<close>.\<close>

primrec Uri_SetEncrypted :: "bool \<Rightarrow> Uri \<Rightarrow> Uri" where
  "Uri_SetEncrypted flag (SipUriPtr u) = SipUriPtr (u\<lparr>u_FIsEncrypted := flag\<rparr>)"
| "Uri_SetEncrypted flag WildcardUriPtr = WildcardUriPtr"

primrec Uri_SetUser :: "MaybeString \<Rightarrow> Uri \<Rightarrow> Uri" where
  "Uri_SetUser user (SipUriPtr u) = SipUriPtr (u\<lparr>u_FUser := user\<rparr>)"
| "Uri_SetUser user WildcardUriPtr = WildcardUriPtr"

primrec Uri_SetPassword :: "MaybeString \<Rightarrow> Uri \<Rightarrow> Uri" where
  "Uri_SetPassword pass (SipUriPtr u) = SipUriPtr (u\<lparr>u_FPassword := pass\<rparr>)"
| "Uri_SetPassword pass WildcardUriPtr = WildcardUriPtr"

primrec Uri_SetDomain :: "Addr \<Rightarrow> Uri \<Rightarrow> Uri" where
  "Uri_SetDomain domain (SipUriPtr u) = SipUriPtr (u\<lparr>u_FDomain := domain\<rparr>)"
| "Uri_SetDomain domain WildcardUriPtr = WildcardUriPtr"

primrec Uri_SetUriParams :: "headerParams option \<Rightarrow> Uri \<Rightarrow> Uri" where
  "Uri_SetUriParams ps (SipUriPtr u) = SipUriPtr (u\<lparr>u_FUriParams := ps\<rparr>)"
| "Uri_SetUriParams ps WildcardUriPtr = WildcardUriPtr"

primrec Uri_SetHeaders :: "headerParams option \<Rightarrow> Uri \<Rightarrow> Uri" where
  "Uri_SetHeaders ps (SipUriPtr u) = SipUriPtr (u\<lparr>u_FHeaders := ps\<rparr>)"
| "Uri_SetHeaders ps WildcardUriPtr = WildcardUriPtr"

section \<open>Well-formed URIs and their laws\<close>

definition sipuri_ok :: "SipUri \<Rightarrow> bool" where
  "sipuri_ok u \<longleftrightarrow>
     (case u_FUriParams u of Some p \<Rightarrow> params_ok p | None \<Rightarrow> False) \<and>
     (case u_FHeaders u of Some p \<Rightarrow> params_ok p | None \<Rightarrow> False)"

primrec uri_ok :: "Uri \<Rightarrow> bool" where
  "uri_ok (SipUriPtr u) = sipuri_ok u"
| "uri_ok WildcardUriPtr = True"

lemma Addr_eta: "\<lparr>addr_Host = addr_Host a, addr_Port = addr_Port a\<rparr> = a"
  by simp

lemma SipUri_Copy_id: "sipuri_ok u \<Longrightarrow> SipUri_Copy u = u"
  by (cases u) (auto simp: sipuri_ok_def SipUri_Copy_def CopyWithNil_def split: option.splits)

lemma Uri_Copy_id [simp]: "uri_ok u \<Longrightarrow> Uri_Copy u = u"
  by (cases u) (simp_all add: SipUri_Copy_id)

lemma SipUri_Copy_ok:
  assumes "\<And>p. u_FUriParams u = Some p \<Longrightarrow> params_ok p" "\<And>p. u_FHeaders u = Some p \<Longrightarrow> params_ok p"
  shows "sipuri_ok (SipUri_Copy u)"
  using assms by (auto simp: sipuri_ok_def SipUri_Copy_def CopyWithNil_def split: option.split)

lemma SipUri_Equals_refl:
  "sipuri_ok u \<Longrightarrow> SipUri_Equals u (Some (SipUriPtr u)) = Ok True"
  by (auto simp: SipUri_Equals_def sipuri_ok_def nil_params_Equals_def Params_Equals_iff
      split: option.splits)

lemma Uri_Equals_no_panic: "uri_ok u \<Longrightarrow> Uri_Equals u v \<noteq> Panic"
  by (cases u)
    (auto simp: SipUri_Equals_def sipuri_ok_def nil_params_Equals_def
      split: option.splits Uri.splits)

end
