(* ===== verification/Gsip_Header.thy ===== *)
theory Gsip_Header
  imports Gsip_Uri
begin

text \<open>
  The header types of \<^verbatim>\<open>sip/headers.go\<close> and \<^verbatim>\<open>sip/auth.go\<close> behind the interface \<^verbatim>\<open>Header\<close>:
  their names, printing, copying and comparison. A method that dereferences a nil
  \<^verbatim>\<open>Params\<close> or \<^verbatim>\<open>Uri\<close> interface has the outcome \<^const>\<open>Panic\<close>.
\<close>

section \<open>Header data\<close>

record CSeq =
  cs_SeqNo :: "32 word"
  cs_MethodName :: RequestMethod

text \<open>\<^verbatim>\<open>FromHeader\<close>, \<^verbatim>\<open>ToHeader\<close> and \<^verbatim>\<open>ContactHeader\<close> have the same three fields.\<close>

record AddressHeader =
  ah_DisplayName :: MaybeString
  ah_Address :: "Uri option"
  ah_Params :: "headerParams option"

record ViaHop =
  vh_ProtocolName :: string
  vh_ProtocolVersion :: string
  vh_Transport :: string
  vh_Host :: string
  vh_Port :: "Port option"
  vh_Params :: "headerParams option"

record Authorization =
  au_name :: string
  au_mode :: string
  au_Realm :: string
  au_Nonce :: string
  au_Algorithm :: string
  au_Username :: string
  au_Password :: string
  au_Uri :: string
  au_Response :: string
  au_Method :: string
  au_Other :: "headerParams option"

datatype Header =
    Accept string
  | AllowHeader "RequestMethod list"
  | CSeqHeader CSeq
  | CallID string
  | ContactHeader AddressHeader
  | ContentLength "32 word"
  | ContentType string
  | Expires "32 word"
  | FromHeader AddressHeader
  | GenericHeader string string
  | MaxForwards "32 word"
  | ProxyRequireHeader "string list"
  | RecordRouteHeader "Uri list"
  | RequireHeader "string list"
  | RouteHeader "Uri list"
  | SupportedHeader "string list"
  | ToHeader AddressHeader
  | UnsupportedHeader "string list"
  | UserAgentHeader string
  | ViaHeader "ViaHop list"
  | AuthorizationHeader Authorization

section \<open>Names\<close>

definition Authorization_Name :: "Authorization \<Rightarrow> string" where
  "Authorization_Name auth =
     (if au_name auth = ''proxy-authorization'' then ''Proxy-Authorization''
      else ''Authorization'')"

definition Authorization_Mode :: "Authorization \<Rightarrow> string" where
  "Authorization_Mode auth = (if au_mode auth = '''' then ''Digest'' else au_mode auth)"

primrec Header_Name :: "Header \<Rightarrow> string" where
  "Header_Name (Accept ct) = ''Accept''"
| "Header_Name (AllowHeader allow) = ''Allow''"
| "Header_Name (CSeqHeader seq) = ''CSeq''"
| "Header_Name (CallID callId) = ''Call-ID''"
| "Header_Name (ContactHeader contact) = ''Contact''"
| "Header_Name (ContentLength n) = ''Content-Length''"
| "Header_Name (ContentType ct) = ''Content-Type''"
| "Header_Name (Expires n) = ''Expires''"
| "Header_Name (FromHeader from) = ''From''"
| "Header_Name (GenericHeader name contents) = name"
| "Header_Name (MaxForwards n) = ''Max-Forwards''"
| "Header_Name (ProxyRequireHeader opts) = ''Proxy-Require''"
| "Header_Name (RecordRouteHeader addrs) = ''Record-Route''"
| "Header_Name (RequireHeader opts) = ''Require''"
| "Header_Name (RouteHeader addrs) = ''Route''"
| "Header_Name (SupportedHeader opts) = ''Supported''"
| "Header_Name (ToHeader to) = ''To''"
| "Header_Name (UnsupportedHeader opts) = ''Unsupported''"
| "Header_Name (UserAgentHeader ua) = ''User-Agent''"
| "Header_Name (ViaHeader via) = ''Via''"
| "Header_Name (AuthorizationHeader auth) = Authorization_Name auth"

text \<open>The key under which a header is stored.\<close>

definition header_key :: "Header \<Rightarrow> string" where
  "header_key h = ToLower (Header_Name h)"

section \<open>Printing\<close>

definition display_name_text :: "MaybeString \<Rightarrow> string" where
  "display_name_text dn =
     (case dn of
        Str name \<Rightarrow> if name \<noteq> '''' then [QUOTE] @ name @ [QUOTE] @ '' '' else ''''
      | _ \<Rightarrow> '''')"

text \<open>\<^verbatim>\<open>fmt.Sprintf("<%s>", address)\<close>, which does not panic on nil.\<close>

definition angle_uri_fmt :: "Uri option \<Rightarrow> string" where
  "angle_uri_fmt address =
     ''<'' @ (case address of None \<Rightarrow> ''%!s(<nil>)'' | Some u \<Rightarrow> Uri_String u) @ ''>''"

text \<open>\<^verbatim>\<open>if params.Length() > 0 { ";" + params.ToString(';') }\<close> on an interface that may be nil.\<close>

definition header_params_text :: "headerParams option \<Rightarrow> string outcome" where
  "header_params_text ps =
     (case ps of
        None \<Rightarrow> Panic
      | Some p \<Rightarrow> Ok (if 0 < Params_Length p then '';'' @ Params_ToString (CHR '';'') p else ''''))"

definition ContactHeader_String :: "AddressHeader \<Rightarrow> string outcome" where
  "ContactHeader_String contact =
     obind (case ah_Address contact of
              None \<Rightarrow> Panic
            | Some WildcardUriPtr \<Rightarrow> Ok ''*''
            | Some (SipUriPtr u) \<Rightarrow> Ok (''<'' @ SipUri_String u @ ''>''))
       (\<lambda>address.
        Ok (''Contact: '' @ display_name_text (ah_DisplayName contact) @ address
            @ params_section '';'' (CHR '';'') (ah_Params contact)))"

definition FromHeader_String :: "AddressHeader \<Rightarrow> string outcome" where
  "FromHeader_String from =
     omap (\<lambda>params.
        ''From: '' @ display_name_text (ah_DisplayName from) @ angle_uri_fmt (ah_Address from) @ params)
       (header_params_text (ah_Params from))"

definition ToHeader_String :: "AddressHeader \<Rightarrow> string outcome" where
  "ToHeader_String to =
     Ok (''To: '' @ display_name_text (ah_DisplayName to) @ angle_uri_fmt (ah_Address to)
         @ params_section '';'' (CHR '';'') (ah_Params to))"

definition route_text :: "Uri list \<Rightarrow> string" where
  "route_text addrs = join '', '' (map (\<lambda>uri. ''<'' @ Uri_String uri @ ''>'') addrs)"

definition ViaHop_SentBy :: "ViaHop \<Rightarrow> string" where
  "ViaHop_SentBy hop =
     vh_Host hop @ (case vh_Port hop of Some p \<Rightarrow> '':'' @ port_text p | None \<Rightarrow> '''')"

definition ViaHop_String :: "ViaHop \<Rightarrow> string outcome" where
  "ViaHop_String hop =
     omap (\<lambda>params.
        vh_ProtocolName hop @ ''/'' @ vh_ProtocolVersion hop @ ''/'' @ vh_Transport hop @ '' ''
        @ vh_Host hop
        @ (case vh_Port hop of Some p \<Rightarrow> '':'' @ port_text p | None \<Rightarrow> '''')
        @ params)
       (header_params_text (vh_Params hop))"

definition Authorization_String :: "Authorization \<Rightarrow> string" where
  "Authorization_String auth =
     (if ToLower (Authorization_Mode auth) \<noteq> ''digest'' then
        Authorization_Name auth @ '': '' @ Authorization_Mode auth @ '' algorithm='' @ au_Algorithm auth
      else
        (let q = (\<lambda>k v. k @ ''='' @ [QUOTE] @ v @ [QUOTE] @ '','') in
         Authorization_Name auth @ '': '' @ Authorization_Mode auth @ '' ''
         @ q ''username'' (au_Username auth) @ q ''realm'' (au_Realm auth)
         @ q ''nonce'' (au_Nonce auth) @ q ''uri'' (au_Uri auth)
         @ q ''response'' (au_Response auth) @ ''algorithm='' @ au_Algorithm auth))"

text \<open>The methods of the other types.\<close>

definition Accept_String :: "string \<Rightarrow> string" where [simp]:
  "Accept_String ct = ''Accept: '' @ ct"

definition AllowHeader_String :: "RequestMethod list \<Rightarrow> string" where [simp]:
  "AllowHeader_String allow = ''Allow: '' @ join '', '' allow"

definition CSeq_String :: "CSeq \<Rightarrow> string" where [simp]:
  "CSeq_String seq = ''CSeq: '' @ show_nat (unat (cs_SeqNo seq)) @ '' '' @ cs_MethodName seq"

definition CallID_String :: "string \<Rightarrow> string" where [simp]:
  "CallID_String callId = ''Call-ID: '' @ callId"

definition ContentLength_String :: "32 word \<Rightarrow> string" where [simp]:
  "ContentLength_String contentLength = ''Content-Length: '' @ show_nat (unat contentLength)"

definition ContentType_String :: "string \<Rightarrow> string" where [simp]:
  "ContentType_String ct = ''Content-Type: '' @ ct"

definition Expires_String :: "32 word \<Rightarrow> string" where [simp]:
  "Expires_String expires = ''Expires: '' @ show_nat (unat expires)"

definition GenericHeader_String :: "string \<Rightarrow> string \<Rightarrow> string" where [simp]:
  "GenericHeader_String name contents = name @ '': '' @ contents"

definition MaxForwards_String :: "32 word \<Rightarrow> string" where [simp]:
  "MaxForwards_String maxForwards = ''Max-Forwards: '' @ show_nat (unat maxForwards)"

definition ProxyRequireHeader_String :: "string list \<Rightarrow> string" where [simp]:
  "ProxyRequireHeader_String options = ''Proxy-Require: '' @ join '', '' options"

definition RecordRouteHeader_String :: "Uri list \<Rightarrow> string" where [simp]:
  "RecordRouteHeader_String addresses = ''Record-Route: '' @ route_text addresses"

definition RequireHeader_String :: "string list \<Rightarrow> string" where [simp]:
  "RequireHeader_String options = ''Require: '' @ join '', '' options"

definition RouteHeader_String :: "Uri list \<Rightarrow> string" where [simp]:
  "RouteHeader_String addresses = ''Route: '' @ route_text addresses"

definition SupportedHeader_String :: "string list \<Rightarrow> string" where [simp]:
  "SupportedHeader_String options = ''Supported: '' @ join '', '' options"

definition UnsupportedHeader_String :: "string list \<Rightarrow> string" where [simp]:
  "UnsupportedHeader_String options = ''Unsupported: '' @ join '', '' options"

definition UserAgentHeader_String :: "string \<Rightarrow> string" where [simp]:
  "UserAgentHeader_String ua = ''User-Agent: '' @ ua"

definition ViaHeader_String :: "ViaHop list \<Rightarrow> string outcome" where [simp]:
  "ViaHeader_String via = omap (\<lambda>hops. ''Via: '' @ join '', '' hops) (omapM ViaHop_String via)"

text \<open>The call of \<^verbatim>\<open>String\<close> on a header.\<close>

primrec Header_String :: "Header \<Rightarrow> string outcome" where
  "Header_String (Accept ct) = Ok (Accept_String ct)"
| "Header_String (AllowHeader allow) = Ok (AllowHeader_String allow)"
| "Header_String (CSeqHeader seq) = Ok (CSeq_String seq)"
| "Header_String (CallID callId) = Ok (CallID_String callId)"
| "Header_String (ContactHeader contact) = ContactHeader_String contact"
| "Header_String (ContentLength n) = Ok (ContentLength_String n)"
| "Header_String (ContentType ct) = Ok (ContentType_String ct)"
| "Header_String (Expires n) = Ok (Expires_String n)"
| "Header_String (FromHeader from) = FromHeader_String from"
| "Header_String (GenericHeader name contents) = Ok (GenericHeader_String name contents)"
| "Header_String (MaxForwards n) = Ok (MaxForwards_String n)"
| "Header_String (ProxyRequireHeader opts) = Ok (ProxyRequireHeader_String opts)"
| "Header_String (RecordRouteHeader addrs) = Ok (RecordRouteHeader_String addrs)"
| "Header_String (RequireHeader opts) = Ok (RequireHeader_String opts)"
| "Header_String (RouteHeader addrs) = Ok (RouteHeader_String addrs)"
| "Header_String (SupportedHeader opts) = Ok (SupportedHeader_String opts)"
| "Header_String (ToHeader to) = ToHeader_String to"
| "Header_String (UnsupportedHeader opts) = Ok (UnsupportedHeader_String opts)"
| "Header_String (UserAgentHeader ua) = Ok (UserAgentHeader_String ua)"
| "Header_String (ViaHeader via) = ViaHeader_String via"
| "Header_String (AuthorizationHeader auth) = Ok (Authorization_String auth)"

section \<open>Copying\<close>

definition nil_params_Copy :: "headerParams option \<Rightarrow> headerParams outcome" where
  "nil_params_Copy ps = (case ps of None \<Rightarrow> Panic | Some p \<Rightarrow> Ok (Params_Copy p))"

definition nil_uri_Copy :: "Uri option \<Rightarrow> Uri outcome" where
  "nil_uri_Copy u = (case u of None \<Rightarrow> Panic | Some u \<Rightarrow> Ok (Uri_Copy u))"

text \<open>\<^verbatim>\<open>Copy\<close> of \<^verbatim>\<open>FromHeader\<close>: the address and the parameters are dereferenced.\<close>

definition FromHeader_Copy :: "AddressHeader \<Rightarrow> AddressHeader outcome" where
  "FromHeader_Copy from =
     obind (nil_uri_Copy (ah_Address from)) (\<lambda>address.
     obind (nil_params_Copy (ah_Params from)) (\<lambda>params.
     Ok \<lparr>ah_DisplayName = ah_DisplayName from, ah_Address = Some address, ah_Params = Some params\<rparr>))"

definition ToHeader_Copy :: "AddressHeader \<Rightarrow> AddressHeader" where
  "ToHeader_Copy to =
     \<lparr>ah_DisplayName = ah_DisplayName to,
      ah_Address = (case ah_Address to of None \<Rightarrow> None | Some u \<Rightarrow> Some (Uri_Copy u)),
      ah_Params = (case ah_Params to of None \<Rightarrow> None | Some p \<Rightarrow> Some (Params_Copy p))\<rparr>"

definition ViaHop_Copy :: "ViaHop \<Rightarrow> ViaHop outcome" where
  "ViaHop_Copy hop =
     obind (nil_params_Copy (vh_Params hop)) (\<lambda>params.
     Ok \<lparr>vh_ProtocolName = vh_ProtocolName hop, vh_ProtocolVersion = vh_ProtocolVersion hop,
         vh_Transport = vh_Transport hop, vh_Host = vh_Host hop,
         vh_Port = Port_Copy (vh_Port hop), vh_Params = Some params\<rparr>)"

definition Authorization_Copy :: "Authorization \<Rightarrow> Authorization" where
  "Authorization_Copy auth =
     \<lparr>au_name = Authorization_Name auth, au_mode = Authorization_Mode auth,
      au_Realm = au_Realm auth, au_Nonce = au_Nonce auth, au_Algorithm = au_Algorithm auth,
      au_Username = au_Username auth, au_Password = au_Password auth, au_Uri = au_Uri auth,
      au_Response = au_Response auth, au_Method = au_Method auth,
      au_Other = (case au_Other auth of None \<Rightarrow> None | Some p \<Rightarrow> Some (Params_Copy p))\<rparr>"

text \<open>
  The methods of the other types. \<^verbatim>\<open>make\<close> and \<^verbatim>\<open>copy\<close> give a slice with the same elements, and the types that
  are a string or a number return themselves.
\<close>

definition slice_Copy :: "string list \<Rightarrow> string list" where
  "slice_Copy xs = map (\<lambda>i. xs ! i) [0..<length xs]"

lemma slice_Copy_id [simp]: "slice_Copy xs = xs"
  by (simp add: slice_Copy_def map_nth)

definition AllowHeader_Copy :: "RequestMethod list \<Rightarrow> RequestMethod list" where [simp]:
  "AllowHeader_Copy allow = slice_Copy allow"

definition CSeq_Copy :: "CSeq \<Rightarrow> CSeq" where [simp]:
  "CSeq_Copy seq = \<lparr>cs_SeqNo = cs_SeqNo seq, cs_MethodName = cs_MethodName seq\<rparr>"

definition ContactHeader_Copy :: "AddressHeader \<Rightarrow> AddressHeader outcome" where
  "ContactHeader_Copy contact =
     obind (nil_uri_Copy (ah_Address contact)) (\<lambda>address.
     obind (nil_params_Copy (ah_Params contact)) (\<lambda>params.
     Ok \<lparr>ah_DisplayName = ah_DisplayName contact, ah_Address = Some address, ah_Params = Some params\<rparr>))"

lemma ContactHeader_Copy_eq [simp]: "ContactHeader_Copy = FromHeader_Copy"
  by (simp add: fun_eq_iff ContactHeader_Copy_def FromHeader_Copy_def)

definition ProxyRequireHeader_Copy :: "string list \<Rightarrow> string list" where [simp]:
  "ProxyRequireHeader_Copy options = slice_Copy options"

definition RequireHeader_Copy :: "string list \<Rightarrow> string list" where [simp]:
  "RequireHeader_Copy options = slice_Copy options"

definition SupportedHeader_Copy :: "string list \<Rightarrow> string list" where [simp]:
  "SupportedHeader_Copy options = slice_Copy options"

definition UnsupportedHeader_Copy :: "string list \<Rightarrow> string list" where [simp]:
  "UnsupportedHeader_Copy options = slice_Copy options"

definition RecordRouteHeader_Copy :: "Uri list \<Rightarrow> Uri list" where [simp]:
  "RecordRouteHeader_Copy addresses = map Uri_Copy addresses"

definition RouteHeader_Copy :: "Uri list \<Rightarrow> Uri list" where [simp]:
  "RouteHeader_Copy addresses = map Uri_Copy addresses"

definition ViaHeader_Copy :: "ViaHop list \<Rightarrow> ViaHop list outcome" where [simp]:
  "ViaHeader_Copy via = omapM ViaHop_Copy via"

primrec Header_Copy :: "Header \<Rightarrow> Header outcome" where
  "Header_Copy (Accept ct) = Ok (Accept ct)"
| "Header_Copy (AllowHeader allow) = Ok (AllowHeader (AllowHeader_Copy allow))"
| "Header_Copy (CSeqHeader seq) = Ok (CSeqHeader (CSeq_Copy seq))"
| "Header_Copy (CallID callId) = Ok (CallID callId)"
| "Header_Copy (ContactHeader contact) = omap ContactHeader (ContactHeader_Copy contact)"
| "Header_Copy (ContentLength n) = Ok (ContentLength n)"
| "Header_Copy (ContentType ct) = Ok (ContentType ct)"
| "Header_Copy (Expires n) = Ok (Expires n)"
| "Header_Copy (FromHeader from) = omap FromHeader (FromHeader_Copy from)"
| "Header_Copy (GenericHeader name contents) = Ok (GenericHeader name contents)"
| "Header_Copy (MaxForwards n) = Ok (MaxForwards n)"
| "Header_Copy (ProxyRequireHeader opts) = Ok (ProxyRequireHeader (ProxyRequireHeader_Copy opts))"
| "Header_Copy (RecordRouteHeader addrs) = Ok (RecordRouteHeader (RecordRouteHeader_Copy addrs))"
| "Header_Copy (RequireHeader opts) = Ok (RequireHeader (RequireHeader_Copy opts))"
| "Header_Copy (RouteHeader addrs) = Ok (RouteHeader (RouteHeader_Copy addrs))"
| "Header_Copy (SupportedHeader opts) = Ok (SupportedHeader (SupportedHeader_Copy opts))"
| "Header_Copy (ToHeader to) = Ok (ToHeader (ToHeader_Copy to))"
| "Header_Copy (UnsupportedHeader opts) = Ok (UnsupportedHeader (UnsupportedHeader_Copy opts))"
| "Header_Copy (UserAgentHeader ua) = Ok (UserAgentHeader ua)"
| "Header_Copy (ViaHeader via) = omap ViaHeader (ViaHeader_Copy via)"
| "Header_Copy (AuthorizationHeader auth) = Ok (AuthorizationHeader (Authorization_Copy auth))"

section \<open>Comparison\<close>

definition nil_uri_Equals :: "Uri option \<Rightarrow> Uri option \<Rightarrow> bool outcome" where
  "nil_uri_Equals u other = (case u of None \<Rightarrow> Panic | Some v \<Rightarrow> Uri_Equals v other)"

text \<open>Go's short-circuit conjunction of a test with a call that may panic.\<close>

definition and_then :: "bool outcome \<Rightarrow> bool outcome \<Rightarrow> bool outcome" where
  "and_then a b = obind a (\<lambda>x. if x then b else Ok False)"

text \<open>\<^verbatim>\<open>Equals\<close> of \<^verbatim>\<open>FromHeader\<close> and of \<^verbatim>\<open>ContactHeader\<close>: \<^verbatim>\<open>==\<close> on the display names.\<close>

definition FromHeader_Equals :: "AddressHeader \<Rightarrow> AddressHeader \<Rightarrow> bool outcome" where
  "FromHeader_Equals from h =
     and_then (Ok (ah_DisplayName from = ah_DisplayName h))
       (and_then (nil_uri_Equals (ah_Address from) (ah_Address h))
          (nil_params_Equals (ah_Params from) (ah_Params h)))"

text \<open>\<^verbatim>\<open>Equals\<close> of \<^verbatim>\<open>ToHeader\<close> calls the method of the display name.\<close>

definition ToHeader_Equals :: "AddressHeader \<Rightarrow> AddressHeader \<Rightarrow> bool outcome" where
  "ToHeader_Equals to h =
     and_then (ms_Equals (ah_DisplayName to) (ah_DisplayName h))
       (and_then (nil_uri_Equals (ah_Address to) (ah_Address h))
          (nil_params_Equals (ah_Params to) (ah_Params h)))"

definition ViaHop_Equals :: "ViaHop \<Rightarrow> ViaHop \<Rightarrow> bool outcome" where
  "ViaHop_Equals hop h =
     and_then
       (Ok (vh_ProtocolName hop = vh_ProtocolName h \<and> vh_ProtocolVersion hop = vh_ProtocolVersion h \<and>
            vh_Transport hop = vh_Transport h \<and> vh_Host hop = vh_Host h \<and>
            Uint16PtrEq (vh_Port hop) (vh_Port h)))
       (nil_params_Equals (vh_Params hop) (vh_Params h))"

text \<open>
  The loop of \<^verbatim>\<open>Equals\<close> of \<^verbatim>\<open>RouteHeader\<close> and \<^verbatim>\<open>RecordRouteHeader\<close> over the addresses of the
  receiver; it indexes the other slice without comparing the lengths.
\<close>

fun route_Equals :: "Uri list \<Rightarrow> Uri list \<Rightarrow> bool outcome" where
  "route_Equals [] hs = Ok True"
| "route_Equals (uri # uris) [] = Panic"
| "route_Equals (uri # uris) (h # hs) = and_then (Uri_Equals uri (Some h)) (route_Equals uris hs)"

fun via_Equals :: "ViaHop list \<Rightarrow> ViaHop list \<Rightarrow> bool outcome" where
  "via_Equals [] hs = Ok True"
| "via_Equals (hop # hops) [] = Panic"
| "via_Equals (hop # hops) (h # hs) = and_then (ViaHop_Equals hop h) (via_Equals hops hs)"

definition Authorization_Equals :: "Authorization \<Rightarrow> Authorization \<Rightarrow> bool outcome" where
  "Authorization_Equals auth h =
     and_then
       (Ok (au_name auth = au_name h \<and> au_Realm auth = au_Realm h \<and> au_Nonce auth = au_Nonce h \<and>
            au_Algorithm auth = au_Algorithm h \<and> au_Username auth = au_Username h \<and>
            au_Password auth = au_Password h \<and> au_Uri auth = au_Uri h \<and>
            au_Response auth = au_Response h \<and> au_Method auth = au_Method h))
       (nil_params_Equals (au_Other auth) (au_Other h))"

text \<open>The loop over two slices of strings in \<^verbatim>\<open>Equals\<close>: it compares the lengths, then element by element.\<close>

fun slice_loop :: "string list \<Rightarrow> string list \<Rightarrow> bool" where
  "slice_loop (v # vs) (h # hs) = (if v \<noteq> h then False else slice_loop vs hs)"
| "slice_loop _ _ = True"

definition slice_Equals :: "string list \<Rightarrow> string list \<Rightarrow> bool" where
  "slice_Equals vs hs = (if length vs \<noteq> length hs then False else slice_loop vs hs)"

lemma slice_Equals_iff [simp]: "slice_Equals vs hs \<longleftrightarrow> vs = hs"
proof -
  have "length vs = length hs \<Longrightarrow> slice_loop vs hs \<longleftrightarrow> vs = hs"
    by (induction vs hs rule: slice_loop.induct) auto
  then show ?thesis by (auto simp: slice_Equals_def)
qed

text \<open>\<^verbatim>\<open>Equals\<close> of the other types, where \<^verbatim>\<open>other\<close> is nil (\<^term>\<open>None\<close>) or a header.\<close>

definition Accept_Equals :: "string \<Rightarrow> Header option \<Rightarrow> bool" where [simp]:
  "Accept_Equals a other = (case other of Some (Accept h) \<Rightarrow> a = h | _ \<Rightarrow> False)"

definition CallID_Equals :: "string \<Rightarrow> Header option \<Rightarrow> bool" where [simp]:
  "CallID_Equals a other = (case other of Some (CallID h) \<Rightarrow> a = h | _ \<Rightarrow> False)"

definition ContentType_Equals :: "string \<Rightarrow> Header option \<Rightarrow> bool" where [simp]:
  "ContentType_Equals a other = (case other of Some (ContentType h) \<Rightarrow> a = h | _ \<Rightarrow> False)"

definition UserAgentHeader_Equals :: "string \<Rightarrow> Header option \<Rightarrow> bool" where [simp]:
  "UserAgentHeader_Equals a other = (case other of Some (UserAgentHeader h) \<Rightarrow> a = h | _ \<Rightarrow> False)"

definition ContentLength_Equals :: "32 word \<Rightarrow> Header option \<Rightarrow> bool" where [simp]:
  "ContentLength_Equals a other = (case other of Some (ContentLength h) \<Rightarrow> a = h | _ \<Rightarrow> False)"

definition Expires_Equals :: "32 word \<Rightarrow> Header option \<Rightarrow> bool" where [simp]:
  "Expires_Equals a other = (case other of Some (Expires h) \<Rightarrow> a = h | _ \<Rightarrow> False)"

definition MaxForwards_Equals :: "32 word \<Rightarrow> Header option \<Rightarrow> bool" where [simp]:
  "MaxForwards_Equals a other = (case other of Some (MaxForwards h) \<Rightarrow> a = h | _ \<Rightarrow> False)"

definition AllowHeader_Equals :: "string list \<Rightarrow> Header option \<Rightarrow> bool" where [simp]:
  "AllowHeader_Equals a other = (case other of Some (AllowHeader h) \<Rightarrow> slice_Equals a h | _ \<Rightarrow> False)"

definition ProxyRequireHeader_Equals :: "string list \<Rightarrow> Header option \<Rightarrow> bool" where [simp]:
  "ProxyRequireHeader_Equals a other = (case other of Some (ProxyRequireHeader h) \<Rightarrow> slice_Equals a h | _ \<Rightarrow> False)"

definition RequireHeader_Equals :: "string list \<Rightarrow> Header option \<Rightarrow> bool" where [simp]:
  "RequireHeader_Equals a other = (case other of Some (RequireHeader h) \<Rightarrow> slice_Equals a h | _ \<Rightarrow> False)"

definition SupportedHeader_Equals :: "string list \<Rightarrow> Header option \<Rightarrow> bool" where [simp]:
  "SupportedHeader_Equals a other = (case other of Some (SupportedHeader h) \<Rightarrow> slice_Equals a h | _ \<Rightarrow> False)"

definition UnsupportedHeader_Equals :: "string list \<Rightarrow> Header option \<Rightarrow> bool" where [simp]:
  "UnsupportedHeader_Equals a other = (case other of Some (UnsupportedHeader h) \<Rightarrow> slice_Equals a h | _ \<Rightarrow> False)"

definition CSeq_Equals :: "CSeq \<Rightarrow> Header option \<Rightarrow> bool" where [simp]:
  "CSeq_Equals a other = (case other of Some (CSeqHeader h) \<Rightarrow> cs_SeqNo a = cs_SeqNo h \<and> cs_MethodName a = cs_MethodName h | _ \<Rightarrow> False)"

definition GenericHeader_Equals :: "string \<Rightarrow> string \<Rightarrow> Header option \<Rightarrow> bool" where [simp]:
  "GenericHeader_Equals name contents other =
     (case other of Some (GenericHeader name2 contents2) \<Rightarrow> name = name2 \<and> contents = contents2 | _ \<Rightarrow> False)"

definition ContactHeader_Equals :: "AddressHeader \<Rightarrow> Header option \<Rightarrow> bool outcome" where [simp]:
  "ContactHeader_Equals a other = (case other of Some (ContactHeader h) \<Rightarrow> FromHeader_Equals a h | _ \<Rightarrow> Ok False)"

definition RecordRouteHeader_Equals :: "Uri list \<Rightarrow> Header option \<Rightarrow> bool outcome" where [simp]:
  "RecordRouteHeader_Equals a other = (case other of Some (RecordRouteHeader h) \<Rightarrow> route_Equals a h | _ \<Rightarrow> Ok False)"

definition RouteHeader_Equals :: "Uri list \<Rightarrow> Header option \<Rightarrow> bool outcome" where [simp]:
  "RouteHeader_Equals a other = (case other of Some (RouteHeader h) \<Rightarrow> route_Equals a h | _ \<Rightarrow> Ok False)"

definition ViaHeader_Equals :: "ViaHop list \<Rightarrow> Header option \<Rightarrow> bool outcome" where [simp]:
  "ViaHeader_Equals a other =
     (case other of Some (ViaHeader h) \<Rightarrow> (if length a \<noteq> length h then Ok False else via_Equals a h) | _ \<Rightarrow> Ok False)"

text \<open>\<^verbatim>\<open>h.Equals(other)\<close>.\<close>

primrec Header_Equals :: "Header \<Rightarrow> Header option \<Rightarrow> bool outcome" where
  "Header_Equals (Accept a) other = Ok (Accept_Equals a other)"
| "Header_Equals (AllowHeader a) other = Ok (AllowHeader_Equals a other)"
| "Header_Equals (CSeqHeader a) other = Ok (CSeq_Equals a other)"
| "Header_Equals (CallID a) other = Ok (CallID_Equals a other)"
| "Header_Equals (ContactHeader a) other = ContactHeader_Equals a other"
| "Header_Equals (ContentLength a) other = Ok (ContentLength_Equals a other)"
| "Header_Equals (ContentType a) other = Ok (ContentType_Equals a other)"
| "Header_Equals (Expires a) other = Ok (Expires_Equals a other)"
| "Header_Equals (FromHeader a) other =
     (case other of Some (FromHeader b) \<Rightarrow> FromHeader_Equals a b | _ \<Rightarrow> Ok False)"
| "Header_Equals (GenericHeader n c) other = Ok (GenericHeader_Equals n c other)"
| "Header_Equals (MaxForwards a) other = Ok (MaxForwards_Equals a other)"
| "Header_Equals (ProxyRequireHeader a) other = Ok (ProxyRequireHeader_Equals a other)"
| "Header_Equals (RecordRouteHeader a) other = RecordRouteHeader_Equals a other"
| "Header_Equals (RequireHeader a) other = Ok (RequireHeader_Equals a other)"
| "Header_Equals (RouteHeader a) other = RouteHeader_Equals a other"
| "Header_Equals (SupportedHeader a) other = Ok (SupportedHeader_Equals a other)"
| "Header_Equals (ToHeader a) other =
     (case other of Some (ToHeader b) \<Rightarrow> ToHeader_Equals a b | _ \<Rightarrow> Ok False)"
| "Header_Equals (UnsupportedHeader a) other = Ok (UnsupportedHeader_Equals a other)"
| "Header_Equals (UserAgentHeader a) other = Ok (UserAgentHeader_Equals a other)"
| "Header_Equals (ViaHeader a) other = ViaHeader_Equals a other"
| "Header_Equals (AuthorizationHeader a) other =
     (case other of Some (AuthorizationHeader b) \<Rightarrow> Authorization_Equals a b | _ \<Rightarrow> Ok False)"

section \<open>Well-formed headers\<close>

text \<open>
  A well-formed header has the URI and the parameter collections that its methods
  dereference, as the parsers and the constructors of the code build them.
\<close>

definition opt_params_ok :: "headerParams option \<Rightarrow> bool" where
  "opt_params_ok ps = (case ps of None \<Rightarrow> False | Some p \<Rightarrow> params_ok p)"

definition address_ok :: "AddressHeader \<Rightarrow> bool" where
  "address_ok a \<longleftrightarrow>
     (case ah_Address a of None \<Rightarrow> False | Some u \<Rightarrow> uri_ok u) \<and> opt_params_ok (ah_Params a)"

definition hop_ok :: "ViaHop \<Rightarrow> bool" where
  "hop_ok hop \<longleftrightarrow> opt_params_ok (vh_Params hop)"

primrec header_ok :: "Header \<Rightarrow> bool" where
  "header_ok (Accept ct) = True"
| "header_ok (AllowHeader allow) = True"
| "header_ok (CSeqHeader seq) = True"
| "header_ok (CallID callId) = True"
| "header_ok (ContactHeader contact) = address_ok contact"
| "header_ok (ContentLength n) = True"
| "header_ok (ContentType ct) = True"
| "header_ok (Expires n) = True"
| "header_ok (FromHeader from) = address_ok from"
| "header_ok (GenericHeader name contents) = True"
| "header_ok (MaxForwards n) = True"
| "header_ok (ProxyRequireHeader opts) = True"
| "header_ok (RecordRouteHeader addrs) = list_all uri_ok addrs"
| "header_ok (RequireHeader opts) = True"
| "header_ok (RouteHeader addrs) = list_all uri_ok addrs"
| "header_ok (SupportedHeader opts) = True"
| "header_ok (ToHeader to) = address_ok to"
| "header_ok (UnsupportedHeader opts) = True"
| "header_ok (UserAgentHeader ua) = True"
| "header_ok (ViaHeader via) = list_all hop_ok via"
| "header_ok (AuthorizationHeader auth) = opt_params_ok (au_Other auth)"

lemma opt_params_okE:
  assumes "opt_params_ok ps" obtains p where "ps = Some p" "params_ok p"
  using assms by (auto simp: opt_params_ok_def split: option.splits)

lemma address_okE:
  assumes "address_ok a"
  obtains u p where "ah_Address a = Some u" "uri_ok u" "ah_Params a = Some p" "params_ok p"
  using assms by (auto simp: address_ok_def opt_params_ok_def split: option.splits)

lemma Header_Equals_nil [simp]: "Header_Equals h None = Ok False"
  by (cases h) simp_all

lemma FromHeader_Copy_id: "address_ok a \<Longrightarrow> FromHeader_Copy a = Ok a"
  by (elim address_okE) (simp add: FromHeader_Copy_def nil_uri_Copy_def nil_params_Copy_def)

lemma ToHeader_Copy_id: "address_ok a \<Longrightarrow> ToHeader_Copy a = a"
  by (elim address_okE) (simp add: ToHeader_Copy_def)

lemma ViaHop_Copy_id: "hop_ok h \<Longrightarrow> ViaHop_Copy h = Ok h"
  unfolding hop_ok_def
  by (elim opt_params_okE) (simp add: ViaHop_Copy_def nil_params_Copy_def)

lemma via_Copy_id: "list_all hop_ok via \<Longrightarrow> omapM ViaHop_Copy via = Ok via"
  by (induction via) (auto simp: ViaHop_Copy_id)

lemma uris_Copy_id: "list_all uri_ok us \<Longrightarrow> map Uri_Copy us = us"
  by (induction us) auto

text \<open>
  The value of a copy: the header itself, but for \<^verbatim>\<open>Authorization\<close>, whose name and mode
  are replaced by what \<^verbatim>\<open>Name()\<close> and \<^verbatim>\<open>Mode()\<close> return.
\<close>

definition copy_of :: "Header \<Rightarrow> Header" where
  "copy_of h = (case h of AuthorizationHeader a \<Rightarrow> AuthorizationHeader (Authorization_Copy a) | _ \<Rightarrow> h)"

lemma Header_Copy_ok: "header_ok h \<Longrightarrow> Header_Copy h = Ok (copy_of h)"
  by (cases h)
    (simp_all add: copy_of_def FromHeader_Copy_id ToHeader_Copy_id via_Copy_id uris_Copy_id)

lemma opt_params_ok_Some [simp]: "opt_params_ok (Some p) = params_ok p"
  by (simp add: opt_params_ok_def)

lemma header_ok_copy_of [simp]: "header_ok h \<Longrightarrow> header_ok (copy_of h)"
  by (cases h) (auto simp: copy_of_def Authorization_Copy_def elim!: opt_params_okE)

lemma copy_of_same [simp]: "(\<And>a. h \<noteq> AuthorizationHeader a) \<Longrightarrow> copy_of h = h"
  by (cases h) (auto simp: copy_of_def)

lemma header_params_text_ok: "opt_params_ok ps \<Longrightarrow> \<exists>s. header_params_text ps = Ok s"
  by (elim opt_params_okE) (simp add: header_params_text_def)

lemma via_String_ok: "list_all hop_ok via \<Longrightarrow> \<exists>ss. omapM ViaHop_String via = Ok ss"
proof (induction via)
  case (Cons h via)
  then obtain s where "header_params_text (vh_Params h) = Ok s"
    using header_params_text_ok [of "vh_Params h"] by (auto simp: hop_ok_def)
  with Cons show ?case by (auto simp: ViaHop_String_def)
qed simp

lemma Header_String_ok: "header_ok h \<Longrightarrow> \<exists>s. Header_String h = Ok s"
proof (cases h)
  case (ContactHeader a)
  moreover assume "header_ok h"
  ultimately show ?thesis
    by (auto simp: ContactHeader_String_def elim!: address_okE split: Uri.split)
next
  case (FromHeader a)
  moreover assume "header_ok h"
  ultimately obtain s where "header_params_text (ah_Params a) = Ok s"
    using header_params_text_ok by (force simp: address_ok_def)
  with FromHeader show ?thesis by (simp add: FromHeader_String_def)
next
  case (ViaHeader via)
  moreover assume "header_ok h"
  ultimately show ?thesis using via_String_ok by fastforce
qed (simp_all add: ToHeader_String_def)

text \<open>Every printed header starts with its name and a colon.\<close>

lemma Header_String_prefix:
  "Header_String h = Ok s \<Longrightarrow> \<exists>v. s = Header_Name h @ '': '' @ v"
  by (cases h)
    (auto simp: ContactHeader_String_def FromHeader_String_def ToHeader_String_def
      Authorization_String_def Let_def outcome_simps)

lemma Authorization_Copy_name:
  "Authorization_Name (Authorization_Copy auth) = ''Authorization''"
  by (simp add: Authorization_Name_def Authorization_Copy_def)

lemma and_then_simps [simp]:
  "and_then (Ok True) b = b" "and_then (Ok False) b = Ok False"
  by (simp_all add: and_then_def)

lemma route_Equals_short:
  assumes "list_all uri_ok a" "length b < length a" "list_all2 (\<lambda>u v. Uri_Equals u (Some v) = Ok True) (take (length b) a) b"
  shows "route_Equals a b = Panic"
  using assms
proof (induction a b rule: route_Equals.induct)
  case (3 u us h hs)
  then show ?case by (auto simp: list_all2_Cons1)
qed auto

lemma route_Equals_prefix:
  assumes "list_all2 (\<lambda>u v. Uri_Equals u (Some v) = Ok True) a b"
  shows "route_Equals a (b @ c) = Ok True"
  using assms by (induction a b rule: list_all2_induct) auto

lemma header_key_simps [simp]:
  "header_key (ViaHeader v) = ''via''" "header_key (FromHeader f) = ''from''"
  "header_key (ToHeader t) = ''to''" "header_key (CallID c) = ''call-id''"
  "header_key (CSeqHeader s) = ''cseq''" "header_key (ContentLength n) = ''content-length''"
  "header_key (MaxForwards m) = ''max-forwards''" "header_key (ContactHeader a) = ''contact''"
  "header_key (RouteHeader us) = ''route''" "header_key (RecordRouteHeader us) = ''record-route''"
  "header_key (Expires n) = ''expires''" "header_key (ContentType ct) = ''content-type''"
  by (simp_all add: header_key_def ToLower_def lower_char_def byte_def char_of_def bit_Suc_0_iff)

end
