(* ===== verification/Gsip_Headers.thy ===== *)
theory Gsip_Headers
  imports Gsip_Header "HOL-Library.Multiset"
begin

text \<open>
  The header container of \<^verbatim>\<open>sip/headers.go\<close> (type \<^verbatim>\<open>headers\<close>): a map from lower-case names to
  non-empty lists of headers, and the order in which the names are printed. The locales
  state the contract that messages rely on; both are interpreted on the operations of
  the container.
\<close>

section \<open>The contract of an ordered multimap of headers\<close>

locale ordered_multimap =
  fixes key :: "'h \<Rightarrow> 'k"
    and okh :: "'h \<Rightarrow> bool"
    and empty :: 's
    and add :: "'h \<Rightarrow> 's \<Rightarrow> 's outcome"
    and get :: "'s \<Rightarrow> 'k \<Rightarrow> 'h list"
    and order :: "'s \<Rightarrow> 'k list"
    and inv :: "'s \<Rightarrow> bool"
  assumes inv_empty: "inv empty"
    and order_empty: "order empty = []"
    and add_total: "inv s \<Longrightarrow> okh h \<Longrightarrow> \<exists>s'. add h s = Ok s'"
    and inv_add: "inv s \<Longrightarrow> okh h \<Longrightarrow> add h s = Ok s' \<Longrightarrow> inv s'"
    and get_add: "inv s \<Longrightarrow> okh h \<Longrightarrow> add h s = Ok s' \<Longrightarrow>
          get s' k = (if k = key h then get s k @ [h] else get s k)"
    and order_add: "inv s \<Longrightarrow> okh h \<Longrightarrow> add h s = Ok s' \<Longrightarrow>
          order s' = (if key h \<in> set (order s) then order s else order s @ [key h])"
    and get_order: "inv s \<Longrightarrow> get s k \<noteq> [] \<longleftrightarrow> k \<in> set (order s)"
    and order_distinct: "inv s \<Longrightarrow> distinct (order s)"
    and get_key: "inv s \<Longrightarrow> h \<in> set (get s k) \<Longrightarrow> key h = k \<and> okh h"
begin

definition flat :: "'s \<Rightarrow> 'h list" where
  "flat s = concat (map (get s) (order s))"

primrec add_list :: "'h list \<Rightarrow> 's \<Rightarrow> 's outcome" where
  "add_list [] s = Ok s"
| "add_list (h # hs) s = obind (add h s) (add_list hs)"

lemma get_empty: "get empty k = []"
  using get_order [OF inv_empty] by (simp add: order_empty)

lemma filter_get:
  "inv s \<Longrightarrow> filter (\<lambda>h. key h = k) (get s k') = (if k' = k then get s k else [])"
  by (auto simp: filter_id_conv filter_empty_conv get_key)

lemma filter_concat_keys:
  "inv s \<Longrightarrow> distinct ks \<Longrightarrow>
     filter (\<lambda>h. key h = k) (concat (map (get s) ks)) = (if k \<in> set ks then get s k else [])"
  by (induction ks) (auto simp: filter_get)

lemma filter_flat: "inv s \<Longrightarrow> filter (\<lambda>h. key h = k) (flat s) = get s k"
  using get_order [of s k] by (auto simp: flat_def filter_concat_keys order_distinct)

lemma flat_ok: "inv s \<Longrightarrow> h \<in> set (flat s) \<Longrightarrow> okh h"
  using get_key by (auto simp: flat_def)

text \<open>A loop of additions never fails, and appends each header to the list of its key.\<close>

lemma add_list_ok:
  assumes "inv s" and "\<forall>h \<in> set hs. okh h"
  shows "\<exists>s'. add_list hs s = Ok s' \<and> inv s' \<and>
           (\<forall>k. get s' k = get s k @ filter (\<lambda>h. key h = k) hs)"
  using assms
proof (induction hs arbitrary: s)
  case (Cons h hs)
  then obtain s1 where s1: "add h s = Ok s1" using add_total [of s h] by auto
  then have "inv s1" using Cons.prems inv_add by auto
  then obtain s' where "add_list hs s1 = Ok s'" "inv s'"
    "\<forall>k. get s' k = get s1 k @ filter (\<lambda>h. key h = k) hs"
    using Cons.IH [of s1] Cons.prems by auto
  with s1 Cons.prems get_add [of s h s1] show ?case by auto
qed simp

lemma add_list_append: "add_list (a @ b) s = obind (add_list a s) (add_list b)"
proof (induction a arbitrary: s)
  case (Cons h a)
  then show ?case by (cases "add h s") simp_all
qed simp

lemma order_add_list_same:
  assumes "inv s" "\<forall>h \<in> set hs. okh h \<and> key h = k" "k \<in> set (order s)" "add_list hs s = Ok s'"
  shows "order s' = order s"
  using assms
proof (induction hs arbitrary: s)
  case (Cons h hs)
  then obtain s1 where s1: "add h s = Ok s1" using add_total [of s h] by auto
  then have "inv s1" "order s1 = order s" using Cons.prems inv_add order_add [of s h s1] by auto
  with Cons s1 show ?case by auto
qed simp

lemma order_add_list_group:
  assumes "inv s" "\<forall>h \<in> set hs. okh h \<and> key h = k" "hs \<noteq> []" "k \<notin> set (order s)"
    and "add_list hs s = Ok s'"
  shows "order s' = order s @ [k]"
proof -
  obtain h hs' where hs: "hs = h # hs'" using assms(3) by (cases hs) auto
  then obtain s1 where s1: "add h s = Ok s1" using add_total [of s h] assms by auto
  then have "inv s1" "order s1 = order s @ [k]"
    using assms hs inv_add order_add [of s h s1] by auto
  with order_add_list_same [of s1 hs' k s'] assms hs s1 show ?thesis by auto
qed

lemma add_list_groups:
  assumes "inv s" "inv t" "distinct ks" "set ks \<inter> set (order t) = {}" "set ks \<subseteq> set (order s)"
    and "add_list (concat (map (get s) ks)) t = Ok t'"
  shows "order t' = order t @ ks"
  using assms
proof (induction ks arbitrary: t)
  case (Cons k ks)
  have okk: "\<forall>h \<in> set (get s k). okh h \<and> key h = k" using get_key Cons.prems(1) by auto
  then obtain t1 where t1: "add_list (get s k) t = Ok t1" "inv t1"
    using add_list_ok [of t "get s k"] Cons.prems by auto
  have "get s k \<noteq> []" using get_order Cons.prems by auto
  then have "order t1 = order t @ [k]"
    using order_add_list_group [OF Cons.prems(2) okk] t1 Cons.prems by auto
  moreover have "add_list (concat (map (get s) ks)) t1 = Ok t'"
    using Cons.prems(6) t1 by (simp add: add_list_append)
  ultimately show ?case using Cons.IH [of t1] Cons.prems t1 by auto
qed simp

text \<open>Re-adding the flattened contents to an empty container rebuilds it.\<close>

lemma rebuild:
  assumes "inv s"
  shows "\<exists>s'. add_list (flat s) empty = Ok s' \<and> inv s' \<and> order s' = order s \<and> get s' = get s"
proof -
  obtain s' where s': "add_list (flat s) empty = Ok s'" "inv s'"
    "\<forall>k. get s' k = get empty k @ filter (\<lambda>h. key h = k) (flat s)"
    using add_list_ok [OF inv_empty] flat_ok [OF assms] by blast
  then have "get s' = get s" by (auto simp: filter_flat [OF assms] get_empty)
  moreover have "order s' = order s"
    using add_list_groups [OF assms inv_empty order_distinct [OF assms]] s'
    by (simp add: flat_def order_empty)
  ultimately show ?thesis using s' by blast
qed

lemma mset_concat_upd:
  assumes "distinct ks" "k \<in> set ks" "\<And>x. x \<noteq> k \<Longrightarrow> g x = f x" "mset (g k) = add_mset h (mset (f k))"
  shows "mset (concat (map g ks)) = add_mset h (mset (concat (map f ks)))"
  using assms
proof (induction ks)
  case (Cons a ks)
  show ?case
  proof (cases "a = k")
    case True
    with Cons.prems(1,3) have "\<forall>x \<in> set ks. g x = f x" by (metis distinct.simps(2))
    then have "concat (map g ks) = concat (map f ks)"
      by (intro arg_cong [where f = concat] map_cong) auto
    then show ?thesis using True Cons.prems(4) by simp
  next
    case False
    with Cons show ?thesis by auto
  qed
qed simp

lemma mset_flat_add:
  assumes "inv s" "okh h" "add h s = Ok s'"
  shows "mset (flat s') = add_mset h (mset (flat s))"
proof (cases "key h \<in> set (order s)")
  case True
  then show ?thesis unfolding flat_def
    using assms(1) order_add [OF assms] get_add [OF assms]
    by (subst mset_concat_upd [where k = "key h" and f = "get s"]) (auto simp: order_distinct)
next
  case False
  then have "get s (key h) = []" using get_order [OF assms(1)] by blast
  moreover have "map (get s') (order s) = map (get s) (order s)"
    using False get_add [OF assms] by auto
  then have "concat (map (get s') (order s)) = concat (map (get s) (order s))" by (rule arg_cong)
  ultimately show ?thesis unfolding flat_def
    using False order_add [OF assms] get_add [OF assms] by simp
qed

end

locale ordered_multimap_edit = ordered_multimap key okh empty add get order inv
  for key :: "'h \<Rightarrow> 'k" and okh :: "'h \<Rightarrow> bool" and empty :: 's
    and add :: "'h \<Rightarrow> 's \<Rightarrow> 's outcome" and get :: "'s \<Rightarrow> 'k \<Rightarrow> 'h list"
    and order :: "'s \<Rightarrow> 'k list" and inv :: "'s \<Rightarrow> bool" +
  fixes prepend :: "'h \<Rightarrow> 's \<Rightarrow> 's"
    and del :: "'k \<Rightarrow> 's \<Rightarrow> 's"
  assumes inv_prepend: "inv s \<Longrightarrow> okh h \<Longrightarrow> inv (prepend h s)"
    and get_prepend: "get (prepend h s) k = (if k = key h then h # get s k else get s k)"
    and order_prepend: "inv s \<Longrightarrow>
          order (prepend h s) = (if key h \<in> set (order s) then order s else key h # order s)"
    and inv_del: "inv s \<Longrightarrow> inv (del k s)"
    and get_del: "get (del k s) k' = (if k' = k then [] else get s k')"
    and order_del: "inv s \<Longrightarrow> order (del k s) = filter (\<lambda>x. x \<noteq> k) (order s)"
begin

lemma mset_flat_prepend:
  assumes "inv s"
  shows "mset (flat (prepend h s)) = add_mset h (mset (flat s))"
proof (cases "key h \<in> set (order s)")
  case True
  then show ?thesis unfolding flat_def
    using assms order_prepend [OF assms]
    by (subst mset_concat_upd [where k = "key h" and f = "get s"])
      (auto simp: order_distinct get_prepend)
next
  case False
  then have "get s (key h) = []" using get_order [OF assms] by blast
  moreover have "map (get (prepend h s)) (order s) = map (get s) (order s)"
    using False by (auto simp: get_prepend)
  then have "concat (map (get (prepend h s)) (order s)) = concat (map (get s) (order s))"
    by (rule arg_cong)
  ultimately show ?thesis unfolding flat_def
    using False order_prepend [OF assms] by (simp add: get_prepend)
qed

text \<open>Deleting a key removes exactly its headers and keeps the order of the others.\<close>

lemma flat_del:
  assumes "inv s"
  shows "flat (del k s) = filter (\<lambda>h. key h \<noteq> k) (flat s)"
proof -
  have one: "filter (\<lambda>h. key h \<noteq> k) (get s x) = (if x = k then [] else get s x)" for x
    using get_key [OF assms] by (auto simp: filter_empty_conv filter_id_conv)
  have "concat (map (get (del k s)) (filter (\<lambda>x. x \<noteq> k) ks)) =
          filter (\<lambda>h. key h \<noteq> k) (concat (map (get s) ks))" for ks
    by (induction ks) (auto simp: one get_del)
  then show ?thesis using order_del [OF assms] by (simp add: flat_def)
qed

end

section \<open>The container\<close>

record headers =
  hs_headers :: "(string \<times> Header list) list"
  hs_headerOrder :: "string list"

definition empty_headers :: headers where
  "empty_headers = \<lparr>hs_headers = [], hs_headerOrder = []\<rparr>"

text \<open>
  \<^verbatim>\<open>AddHeader\<close>. The second header of a name is added after a look at the first of the
  list, whose \<^verbatim>\<open>Equals\<close> and \<^verbatim>\<open>String\<close> methods are called (the latter for a log line).
\<close>

definition AddHeader :: "Header \<Rightarrow> headers \<Rightarrow> headers outcome" where
  "AddHeader header hs =
     (let name = ToLower (Header_Name header) in
      case map_of (hs_headers hs) name of
        Some headerList \<Rightarrow>
          (case headerList of
             [] \<Rightarrow> Panic
           | a # _ \<Rightarrow>
               obind (Header_Equals a None) (\<lambda>_.
               obind (Header_String a) (\<lambda>_.
               obind (Header_Equals a None) (\<lambda>eq.
               if 0 < length headerList \<and> \<not> eq
               then Ok (hs\<lparr>hs_headers := AList.update name (headerList @ [header]) (hs_headers hs)\<rparr>)
               else Ok (hs\<lparr>hs_headers := AList.update name [header] (hs_headers hs)\<rparr>)))))
      | None \<Rightarrow>
          Ok (hs\<lparr>hs_headers := AList.update name [header] (hs_headers hs),
                 hs_headerOrder := hs_headerOrder hs @ [name]\<rparr>))"

primrec add_headers :: "Header list \<Rightarrow> headers \<Rightarrow> headers outcome" where
  "add_headers [] hs = Ok hs"
| "add_headers (header # hers) hs = obind (AddHeader header hs) (add_headers hers)"

definition newHeaders :: "Header list \<Rightarrow> headers outcome" where
  "newHeaders hers = add_headers hers empty_headers"

text \<open>\<^verbatim>\<open>ReplaceHeader\<close> stores first and tests for the name afterwards, as the code does.\<close>

definition ReplaceHeader :: "Header \<Rightarrow> headers \<Rightarrow> headers" where
  "ReplaceHeader header hs =
     (let name = ToLower (Header_Name header);
          hs1 = hs\<lparr>hs_headers := AList.update name [header] (hs_headers hs)\<rparr>
      in if map_of (hs_headers hs1) name = None
         then hs1\<lparr>hs_headerOrder := hs_headerOrder hs1 @ [name]\<rparr> else hs1)"

definition PrependHeader :: "Header \<Rightarrow> headers \<Rightarrow> headers" where
  "PrependHeader header hs =
     (let name = ToLower (Header_Name header) in
      case map_of (hs_headers hs) name of
        Some hers \<Rightarrow> hs\<lparr>hs_headers := AList.update name ([header] @ hers) (hs_headers hs)\<rparr>
      | None \<Rightarrow> hs\<lparr>hs_headers := AList.update name [header] (hs_headers hs),
                   hs_headerOrder := [name] @ hs_headerOrder hs\<rparr>)"

text \<open>The loop of \<^verbatim>\<open>PrependHeaderAfter\<close>: the last index of each of the two names, or -1.\<close>

fun order_scan :: "string \<Rightarrow> string \<Rightarrow> int \<Rightarrow> string list \<Rightarrow> int \<times> int \<Rightarrow> int \<times> int" where
  "order_scan afterName headerName i [] idx = idx"
| "order_scan afterName headerName i (name # ns) (afterIdx, headerIdx) =
     order_scan afterName headerName (i + 1) ns
       (if name = afterName then i else afterIdx, if name = headerName then i else headerIdx)"

text \<open>\<^verbatim>\<open>xs[lo:hi]\<close> for \<^verbatim>\<open>0 <= lo <= hi <= len(xs)\<close>.\<close>

definition go_slice :: "int \<Rightarrow> int \<Rightarrow> 'a list \<Rightarrow> 'a list" where
  "go_slice lo hi xs = take (nat hi - nat lo) (drop (nat lo) xs)"

definition PrependHeaderAfter :: "Header \<Rightarrow> string \<Rightarrow> headers \<Rightarrow> headers" where
  "PrependHeaderAfter header afterName0 hs =
     (let headerName = ToLower (Header_Name header);
          afterName = ToLower afterName0;
          order = hs_headerOrder hs;
          n = int (length order)
      in if map_of (hs_headers hs) afterName \<noteq> None then
           (let (afterIdx, headerIdx) = order_scan afterName headerName 0 order (- 1, - 1) in
            if headerIdx = - 1 then
              hs\<lparr>hs_headers := AList.update headerName [header] (hs_headers hs),
                 hs_headerOrder := go_slice 0 (afterIdx + 1) order @ [headerName]
                                   @ go_slice (afterIdx + 1) n order\<rparr>
            else
              hs\<lparr>hs_headers := AList.update headerName
                    ([header] @ (case map_of (hs_headers hs) headerName of Some l \<Rightarrow> l | None \<Rightarrow> []))
                    (hs_headers hs),
                 hs_headerOrder :=
                   (if afterIdx < headerIdx then
                      go_slice 0 (afterIdx + 1) order @ [headerName]
                      @ go_slice (afterIdx + 1) headerIdx order @ go_slice (headerIdx + 1) n order
                    else
                      go_slice 0 headerIdx order @ go_slice (headerIdx + 1) (afterIdx + 1) order
                      @ [headerName] @ go_slice (afterIdx + 1) n order)\<rparr>)
         else PrependHeader header hs)"

text \<open>The entry of a name in the map, nil where it has none.\<close>

definition headers_at :: "headers \<Rightarrow> string \<Rightarrow> Header list" where
  "headers_at hs key = (case map_of (hs_headers hs) key of Some l \<Rightarrow> l | None \<Rightarrow> [])"

definition Headers :: "headers \<Rightarrow> Header list" where
  "Headers hs = concat (map (\<lambda>key. headers_at hs key) (hs_headerOrder hs))"

definition GetHeaders :: "string \<Rightarrow> headers \<Rightarrow> Header list" where
  "GetHeaders name0 hs =
     (let name = ToLower name0 in
      case map_of (hs_headers hs) name of Some hers \<Rightarrow> hers | None \<Rightarrow> [])"

text \<open>\<^verbatim>\<open>strings.Split\<close> with a non-empty separator.\<close>

function split_sub :: "string \<Rightarrow> string \<Rightarrow> string list" where
  "split_sub sep s =
     (if sep = [] then [s]
      else case index_sub sep s of
             None \<Rightarrow> [s]
           | Some i \<Rightarrow> take i s # split_sub sep (drop (i + length sep) s))"
  by pat_completeness auto
termination
proof (relation "measure (\<lambda>(sep, s). length s)")
  fix sep s i assume "sep \<noteq> []" "index_sub sep s = Some i"
  then show "((sep, drop (i + length sep) s), (sep, s)) \<in> measure (\<lambda>(sep, s). length s)"
    using index_sub_Some [of sep s i] by (cases sep) auto
qed simp

declare split_sub.simps [simp del]

definition GetHeaderString :: "string \<Rightarrow> headers \<Rightarrow> string list outcome" where
  "GetHeaderString name0 hs =
     (let name = ToLower name0 in
      case map_of (hs_headers hs) name of
        Some hers \<Rightarrow>
          omapM (\<lambda>key. obind (Header_String key) (\<lambda>text.
             let s = split_sub (Header_Name key @ '':'') text
             in if 1 < length s then Ok (TrimSpace (s ! 1)) else Panic)) hers
      | None \<Rightarrow> Ok [])"

text \<open>\<^verbatim>\<open>DelHeader\<close>: with no argument it empties the container.\<close>

definition del_key :: "string \<Rightarrow> headers \<Rightarrow> headers" where
  "del_key name hs =
     hs\<lparr>hs_headers := AList.delete name (hs_headers hs),
        hs_headerOrder := remove1 name (hs_headerOrder hs)\<rparr>"

definition del_one :: "string \<Rightarrow> headers \<Rightarrow> headers" where
  "del_one name hs = del_key (ToLower name) hs"

definition DelHeader :: "string list \<Rightarrow> headers \<Rightarrow> headers" where
  "DelHeader names hs =
     (if 0 < length names then fold del_one names hs
      else hs\<lparr>hs_headers := [], hs_headerOrder := []\<rparr>)"

definition CloneHeaders :: "headers \<Rightarrow> Header list outcome" where
  "CloneHeaders hs = omapM Header_Copy (Headers hs)"

definition headers_String :: "headers \<Rightarrow> string outcome" where
  "headers_String hs =
     omap concat
       (omapM (\<lambda>name. omap concat
          (omapM (\<lambda>header. omap (\<lambda>text. text @ CRLF) (Header_String header)) (headers_at hs name)))
        (hs_headerOrder hs))"

section \<open>Typed access to the first header of a name\<close>

definition first_header :: "string \<Rightarrow> headers \<Rightarrow> Header option" where
  "first_header name hs = (case GetHeaders name hs of [] \<Rightarrow> None | h # _ \<Rightarrow> Some h)"

definition get_CallID :: "headers \<Rightarrow> string option" where
  "get_CallID hs = (case first_header ''Call-ID'' hs of Some (CallID c) \<Rightarrow> Some c | _ \<Rightarrow> None)"

definition get_Expires :: "headers \<Rightarrow> 32 word option" where
  "get_Expires hs = (case first_header ''Expires'' hs of Some (Expires e) \<Rightarrow> Some e | _ \<Rightarrow> None)"

definition get_Authorization :: "headers \<Rightarrow> Authorization option" where
  "get_Authorization hs =
     (case first_header ''Authorization'' hs of Some (AuthorizationHeader a) \<Rightarrow> Some a | _ \<Rightarrow> None)"

definition get_Via :: "headers \<Rightarrow> ViaHop list option" where
  "get_Via hs = (case first_header ''Via'' hs of Some (ViaHeader v) \<Rightarrow> Some v | _ \<Rightarrow> None)"

definition get_ViaHop :: "headers \<Rightarrow> ViaHop option" where
  "get_ViaHop hs =
     (case get_Via hs of
        None \<Rightarrow> None
      | Some hops \<Rightarrow> (case hops of [] \<Rightarrow> None | hop # _ \<Rightarrow> Some hop))"

definition get_From :: "headers \<Rightarrow> AddressHeader option" where
  "get_From hs = (case first_header ''From'' hs of Some (FromHeader f) \<Rightarrow> Some f | _ \<Rightarrow> None)"

definition get_To :: "headers \<Rightarrow> AddressHeader option" where
  "get_To hs = (case first_header ''To'' hs of Some (ToHeader t) \<Rightarrow> Some t | _ \<Rightarrow> None)"

definition get_CSeq :: "headers \<Rightarrow> CSeq option" where
  "get_CSeq hs = (case first_header ''CSeq'' hs of Some (CSeqHeader c) \<Rightarrow> Some c | _ \<Rightarrow> None)"

definition get_ContentLength :: "headers \<Rightarrow> 32 word option" where
  "get_ContentLength hs =
     (case first_header ''Content-Length'' hs of Some (ContentLength n) \<Rightarrow> Some n | _ \<Rightarrow> None)"

definition get_ContentType :: "headers \<Rightarrow> string option" where
  "get_ContentType hs =
     (case first_header ''Content-Type'' hs of Some (ContentType c) \<Rightarrow> Some c | _ \<Rightarrow> None)"

definition get_Contact :: "headers \<Rightarrow> AddressHeader option" where
  "get_Contact hs = (case first_header ''Contact'' hs of Some (ContactHeader c) \<Rightarrow> Some c | _ \<Rightarrow> None)"

section \<open>The invariant and the contract\<close>

definition entry_ok :: "string \<times> Header list \<Rightarrow> bool" where
  "entry_ok e \<longleftrightarrow> snd e \<noteq> [] \<and> (\<forall>h \<in> set (snd e). header_key h = fst e \<and> header_ok h)"

definition headers_ok :: "headers \<Rightarrow> bool" where
  "headers_ok hs \<longleftrightarrow>
     distinct (map fst (hs_headers hs)) \<and> distinct (hs_headerOrder hs) \<and>
     set (hs_headerOrder hs) = set (map fst (hs_headers hs)) \<and>
     list_all entry_ok (hs_headers hs)"

lemma headers_ok_empty [simp]: "headers_ok empty_headers"
  by (simp add: headers_ok_def empty_headers_def)

lemma headers_ok_dom:
  "headers_ok hs \<Longrightarrow> map_of (hs_headers hs) k = None \<longleftrightarrow> k \<notin> set (hs_headerOrder hs)"
  by (simp add: headers_ok_def map_of_eq_None_iff)

lemma headers_ok_entry:
  "headers_ok hs \<Longrightarrow> map_of (hs_headers hs) k = Some l \<Longrightarrow>
     l \<noteq> [] \<and> (\<forall>h \<in> set l. header_key h = k \<and> header_ok h)"
  by (drule map_of_SomeD) (auto simp: headers_ok_def list_all_iff entry_ok_def)

lemma entries_update:
  assumes "list_all entry_ok al" "entry_ok (k, l)"
  shows "list_all entry_ok (AList.update k l al)"
  using assms by (induction al) auto

lemma AddHeader_ok:
  assumes "headers_ok hs" "header_ok h"
  shows "AddHeader h hs =
    Ok (case map_of (hs_headers hs) (header_key h) of
          Some l \<Rightarrow> hs\<lparr>hs_headers := AList.update (header_key h) (l @ [h]) (hs_headers hs)\<rparr>
        | None \<Rightarrow> hs\<lparr>hs_headers := AList.update (header_key h) [h] (hs_headers hs),
                     hs_headerOrder := hs_headerOrder hs @ [header_key h]\<rparr>)"
proof (cases "map_of (hs_headers hs) (header_key h)")
  case None
  then show ?thesis by (simp add: AddHeader_def header_key_def Let_def)
next
  case (Some l)
  then obtain a r where l: "l = a # r" "header_ok a"
    using headers_ok_entry [OF assms(1) Some] by (cases l) auto
  then obtain s where "Header_String a = Ok s" using Header_String_ok by blast
  with Some l show ?thesis by (simp add: AddHeader_def header_key_def Let_def)
qed

lemma headers_ok_store:
  assumes "headers_ok hs" "l \<noteq> []" "\<forall>h \<in> set l. header_key h = k \<and> header_ok h"
    and "distinct ord" "set ord = insert k (set (hs_headerOrder hs))"
  shows "headers_ok (hs\<lparr>hs_headers := AList.update k l (hs_headers hs), hs_headerOrder := ord\<rparr>)"
proof -
  have "entry_ok (k, l)" using assms(2,3) by (simp add: entry_ok_def)
  with assms show ?thesis
    by (simp add: headers_ok_def entries_update distinct_update map_fst_update dom_update
        del: set_map) auto
qed

lemma headers_ok_AddHeader:
  assumes "headers_ok hs" "header_ok h" "AddHeader h hs = Ok hs'"
  shows "headers_ok hs'"
proof (cases "map_of (hs_headers hs) (header_key h)")
  case None
  then have "header_key h \<notin> set (hs_headerOrder hs)" using headers_ok_dom [OF assms(1)] by blast
  then show ?thesis
    using None AddHeader_ok [OF assms(1,2)] assms
      headers_ok_store [OF assms(1), of "[h]" "header_key h" "hs_headerOrder hs @ [header_key h]"]
    by (auto simp: headers_ok_def)
next
  case (Some l)
  then have "header_key h \<in> set (hs_headerOrder hs)"
    using headers_ok_dom [OF assms(1), of "header_key h"] by auto
  moreover have "hs' = hs\<lparr>hs_headers := AList.update (header_key h) (l @ [h]) (hs_headers hs),
      hs_headerOrder := hs_headerOrder hs\<rparr>"
    using Some AddHeader_ok [OF assms(1,2)] assms(3) by simp
  ultimately show ?thesis
    using headers_ok_entry [OF assms(1) Some] assms
      headers_ok_store [OF assms(1), of "l @ [h]" "header_key h" "hs_headerOrder hs"]
    by (auto simp: headers_ok_def)
qed

lemma headers_at_Nil: "headers_ok hs \<Longrightarrow> headers_at hs k \<noteq> [] \<longleftrightarrow> k \<in> set (hs_headerOrder hs)"
  using headers_ok_dom [of hs k] headers_ok_entry [of hs k]
  by (auto simp: headers_at_def split: option.split)

lemma headers_at_key:
  "headers_ok hs \<Longrightarrow> h \<in> set (headers_at hs k) \<Longrightarrow> header_key h = k \<and> header_ok h"
  by (cases "map_of (hs_headers hs) k") (auto simp: headers_at_def dest: headers_ok_entry)

interpretation hm: ordered_multimap header_key header_ok empty_headers AddHeader headers_at
  hs_headerOrder headers_ok
proof unfold_locales
  fix s h s' k
  assume *: "headers_ok s" "header_ok h" "AddHeader h s = Ok s'"
  note eq = AddHeader_ok [OF *(1,2)] *(3)
  show "headers_at s' k = (if k = header_key h then headers_at s k @ [h] else headers_at s k)"
    using eq by (auto simp: headers_at_def split: option.splits)
  show "hs_headerOrder s' = (if header_key h \<in> set (hs_headerOrder s) then hs_headerOrder s
          else hs_headerOrder s @ [header_key h])"
    using eq headers_ok_dom [OF *(1), of "header_key h"] by (auto split: option.splits)
  show "headers_ok s'" using * by (rule headers_ok_AddHeader)
next
  show "distinct (hs_headerOrder s)" if "headers_ok s" for s
    using that by (simp add: headers_ok_def)
qed (simp_all add: AddHeader_ok headers_at_Nil headers_at_key, simp add: empty_headers_def)

lemma PrependHeader_alt:
  "PrependHeader h hs =
     hs\<lparr>hs_headers := AList.update (header_key h) (h # headers_at hs (header_key h)) (hs_headers hs),
        hs_headerOrder := (if map_of (hs_headers hs) (header_key h) = None
                           then header_key h # hs_headerOrder hs else hs_headerOrder hs)\<rparr>"
  by (auto simp: PrependHeader_def headers_at_def header_key_def Let_def split: option.splits)

lemma headers_ok_PrependHeader:
  assumes "headers_ok hs" "header_ok h"
  shows "headers_ok (PrependHeader h hs)"
  unfolding PrependHeader_alt
  using assms headers_ok_dom [OF assms(1), of "header_key h"] headers_at_key [OF assms(1)]
  by (intro headers_ok_store) (auto simp: headers_ok_def split: if_splits)

lemma headers_ok_del:
  assumes "headers_ok hs"
  shows "headers_ok (del_key k hs)"
proof -
  have "list_all entry_ok (AList.delete k (hs_headers hs))"
    using assms by (auto simp: headers_ok_def list_all_iff AList.delete_eq)
  moreover have "distinct (map fst (AList.delete k (hs_headers hs)))"
    using assms by (simp add: headers_ok_def map_fst_delete)
  ultimately show ?thesis
    using assms by (auto simp: headers_ok_def del_key_def delete_keys)
qed

interpretation he: ordered_multimap_edit header_key header_ok empty_headers AddHeader headers_at
  hs_headerOrder headers_ok PrependHeader del_key
proof unfold_locales
  fix s h k k'
  show "headers_at (PrependHeader h s) k =
          (if k = header_key h then h # headers_at s k else headers_at s k)"
    by (auto simp: PrependHeader_alt headers_at_def)
  show "headers_at (del_key k s) k' = (if k' = k then [] else headers_at s k')"
    by (simp add: del_key_def headers_at_def)
  assume ok: "headers_ok s"
  show "hs_headerOrder (PrependHeader h s) =
     (if header_key h \<in> set (hs_headerOrder s) then hs_headerOrder s
      else header_key h # hs_headerOrder s)"
    using headers_ok_dom [OF ok, of "header_key h"] by (auto simp: PrependHeader_alt)
  show "hs_headerOrder (del_key k s) = filter (\<lambda>x. x \<noteq> k) (hs_headerOrder s)"
    using ok by (auto simp: del_key_def headers_ok_def distinct_remove1_removeAll removeAll_filter_not_eq
        intro: filter_cong)
qed (simp_all add: headers_ok_PrependHeader headers_ok_del)

section \<open>Behaviour of the operations\<close>

lemma GetHeaders_at: "GetHeaders name hs = headers_at hs (ToLower name)"
  by (simp add: GetHeaders_def headers_at_def)

lemma Headers_flat: "Headers hs = hm.flat hs"
  by (simp add: Headers_def hm.flat_def)

lemma add_headers_list: "add_headers hers hs = hm.add_list hers hs"
  by (induction hers arbitrary: hs) (simp_all add: fun_eq_iff cong: obind_cong)

lemma newHeaders_ok:
  assumes "\<forall>h \<in> set hers. header_ok h"
  obtains hs where "newHeaders hers = Ok hs" "headers_ok hs"
    "\<And>k. headers_at hs k = filter (\<lambda>h. header_key h = k) hers"
  using hm.add_list_ok [OF headers_ok_empty assms] hm.get_empty
  by (auto simp: newHeaders_def add_headers_list)

lemma GetHeaders_key:
  "headers_ok hs \<Longrightarrow> h \<in> set (GetHeaders name hs) \<Longrightarrow> header_key h = ToLower name \<and> header_ok h"
  unfolding GetHeaders_at by (rule headers_at_key)

lemma CloneHeaders_ok:
  "headers_ok hs \<Longrightarrow> CloneHeaders hs = Ok (map copy_of (Headers hs))"
  unfolding CloneHeaders_def Headers_flat
  by (intro omapM_Ok Header_Copy_ok hm.flat_ok)

lemma DelHeader_one: "DelHeader [name] hs = del_key (ToLower name) hs"
  by (simp add: DelHeader_def del_one_def)

lemma headers_ok_DelHeader: "headers_ok hs \<Longrightarrow> headers_ok (DelHeader names hs)"
proof -
  assume ok: "headers_ok hs"
  have "headers_ok (fold del_one names hs)"
    using ok by (induction names arbitrary: hs) (auto simp: del_one_def headers_ok_del)
  then show ?thesis
    by (auto simp: DelHeader_def headers_ok_def)
qed

lemma concat_concat_map: "concat (map (\<lambda>x. concat (f x)) xs) = concat (concat (map f xs))"
  by (induction xs) simp_all

lemma headers_String_line:
  assumes "list_all header_ok l"
  shows "omap concat (omapM (\<lambda>header. omap (\<lambda>text. text @ CRLF) (Header_String header)) l) =
    Ok (concat (map (\<lambda>h. (case Header_String h of Ok s \<Rightarrow> s | _ \<Rightarrow> []) @ CRLF) l))"
  using assms
proof (induction l)
  case (Cons h l)
  then obtain s where "Header_String h = Ok s" using Header_String_ok [of h] by auto
  with Cons show ?case by (auto simp: outcome_simps)
qed simp

text \<open>Printing a well-formed container: every header on a line of its own, in order.\<close>

lemma headers_String_ok:
  assumes "headers_ok hs"
  shows "headers_String hs =
    Ok (concat (map (\<lambda>h. (case Header_String h of Ok s \<Rightarrow> s | _ \<Rightarrow> []) @ CRLF) (Headers hs)))"
proof -
  have *: "list_all header_ok (headers_at hs k)" for k
    using headers_at_key [OF assms] by (auto simp: list_all_iff)
  show ?thesis
    unfolding headers_String_def headers_String_line [OF *]
    by (subst omapM_Ok [OF refl]) (simp add: Headers_def map_concat comp_def concat_concat_map)
qed

text \<open>The header that \<^verbatim>\<open>ReplaceHeader\<close> stores under a new name is found by name, but it is not listed.\<close>

lemma ReplaceHeader_alt:
  "ReplaceHeader h hs = hs\<lparr>hs_headers := AList.update (header_key h) [h] (hs_headers hs)\<rparr>"
  by (simp add: ReplaceHeader_def header_key_def Let_def)

lemma ReplaceHeader_hidden:
  assumes "header_key h \<notin> set (hs_headerOrder hs)"
  shows "Headers (ReplaceHeader h hs) = Headers hs" and "GetHeaders (Header_Name h) (ReplaceHeader h hs) = [h]"
proof -
  have "headers_at (ReplaceHeader h hs) k = headers_at hs k" if "k \<in> set (hs_headerOrder hs)" for k
    using that assms by (auto simp: ReplaceHeader_alt headers_at_def)
  then show "Headers (ReplaceHeader h hs) = Headers hs"
    unfolding Headers_def by (intro arg_cong [where f = concat] map_cong) (auto simp: ReplaceHeader_alt)
  show "GetHeaders (Header_Name h) (ReplaceHeader h hs) = [h]"
    by (simp add: GetHeaders_at headers_at_def ReplaceHeader_alt header_key_def)
qed

lemma headers_ok_ReplaceHeader:
  assumes "headers_ok hs" "header_ok h" "header_key h \<in> set (hs_headerOrder hs)"
  shows "headers_ok (ReplaceHeader h hs)"
  using headers_ok_store [OF assms(1), of "[h]" "header_key h" "hs_headerOrder hs"] assms
  by (auto simp: ReplaceHeader_alt headers_ok_def)

lemma index_sub_prefix: "index_sub p (p @ s) = Some 0"
  by (cases "p @ s") (auto simp: has_prefix_iff dest: sym)

lemma GetHeaderString_no_panic:
  assumes "headers_ok hs"
  shows "\<exists>vs. GetHeaderString name hs = Ok vs \<and> length vs = length (GetHeaders name hs)"
proof -
  let ?f = "\<lambda>key. obind (Header_String key) (\<lambda>text.
             let s = split_sub (Header_Name key @ '':'') text
             in if 1 < length s then Ok (TrimSpace (s ! 1)) else Panic)"
  have one: "\<exists>v. ?f h = Ok v" if ok: "header_ok h" for h
  proof -
    obtain s v where s: "Header_String h = Ok s" "s = (Header_Name h @ '':'') @ ('' '' @ v)"
      using Header_String_ok [OF ok] Header_String_prefix [of h] by fastforce
    have "1 < length (split_sub (Header_Name h @ '':'') s)"
      unfolding s(2) by (subst split_sub.simps, simp only: index_sub_prefix)
        (subst split_sub.simps, simp split: option.split)
    with s(1) show ?thesis by (simp add: Let_def)
  qed
  have "\<exists>vs. omapM ?f l = Ok vs" if "list_all header_ok l" for l
    using that by (induction l) (auto dest!: one)
  moreover have "list_all header_ok (headers_at hs (ToLower name))"
    using headers_at_key [OF assms] by (auto simp: list_all_iff)
  ultimately obtain vs where "omapM ?f (headers_at hs (ToLower name)) = Ok vs" by blast
  then show ?thesis
    by (intro exI [of _ vs])
      (auto simp: GetHeaderString_def GetHeaders_at headers_at_def omapM_length
        split: option.splits)
qed

section \<open>PrependHeaderAfter\<close>

text \<open>The order that \<^verbatim>\<open>PrependHeaderAfter\<close> means to produce.\<close>

fun insert_after :: "'a \<Rightarrow> 'a \<Rightarrow> 'a list \<Rightarrow> 'a list" where
  "insert_after x y [] = [x]"
| "insert_after x y (z # zs) = (if z = y then z # x # zs else z # insert_after x y zs)"

lemma insert_after_append: "y \<notin> set p \<Longrightarrow> insert_after x y (p @ y # q) = p @ y # x # q"
  by (induction p) auto

lemma order_scan_absent:
  "a \<notin> set ns \<Longrightarrow> fst (order_scan a h i ns xy) = fst xy"
  "h \<notin> set ns \<Longrightarrow> snd (order_scan a h i ns xy) = snd xy"
  by (induction a h i ns xy rule: order_scan.induct) auto

lemma order_scan_append:
  "order_scan a h i (p @ q) xy = order_scan a h (i + int (length p)) q (order_scan a h i p xy)"
  by (induction a h i p xy rule: order_scan.induct) (auto simp: add.assoc)

lemma order_scan_Cons:
  "order_scan a h i (n # ns) xy =
     order_scan a h (i + 1) ns (if n = a then i else fst xy, if n = h then i else snd xy)"
  by (cases xy) simp

lemma order_scan_found:
  "a \<notin> set q \<Longrightarrow> fst (order_scan a h i (p @ a # q) xy) = i + int (length p)"
  "h \<notin> set q \<Longrightarrow> snd (order_scan a h i (p @ h # q) xy) = i + int (length p)"
  by (simp_all add: order_scan_append order_scan_Cons order_scan_absent)

lemma go_slice_nat:
  "go_slice (int i) (int j) xs = take (j - i) (drop i xs)" "go_slice 0 (int j) xs = take j xs"
  "go_slice (int i + 1) (int j) xs = take (j - Suc i) (drop (Suc i) xs)"
  "go_slice (int i + 1) (int j + 1) xs = take (j - i) (drop (Suc i) xs)"
  "go_slice 0 (int j + 1) xs = take (Suc j) xs"
  by (simp_all add: go_slice_def nat_add_distrib)

lemma order_scan_pair:
  assumes "fst (order_scan a h i ns xy) = x" "snd (order_scan a h i ns xy) = y"
  shows "order_scan a h i ns xy = (x, y)"
  using assms by (metis prod.collapse)

lemma PrependHeaderAfter_order_new:
  assumes "hs_headerOrder hs = p @ a # q" "distinct (hs_headerOrder hs)" "ToLower afterName = a"
    and "map_of (hs_headers hs) a \<noteq> None" "header_key h \<notin> set (hs_headerOrder hs)"
  shows "hs_headerOrder (PrependHeaderAfter h afterName hs) = p @ a # header_key h # q"
proof -
  have "order_scan a (header_key h) 0 (p @ a # q) (- 1, - 1) = (int (length p), - 1)"
    using assms by (intro order_scan_pair) (auto simp: order_scan_found order_scan_absent)
  then show ?thesis using assms
    by (simp add: PrependHeaderAfter_def Let_def go_slice_nat flip: header_key_def)
      (simp add: go_slice_def nat_add_distrib)
qed

lemma PrependHeaderAfter_order_left:
  assumes "hs_headerOrder hs = p @ header_key h # q @ a # r" "distinct (hs_headerOrder hs)"
    and "ToLower afterName = a" "map_of (hs_headers hs) a \<noteq> None"
  shows "hs_headerOrder (PrependHeaderAfter h afterName hs) = p @ q @ a # header_key h # r"
proof -
  let ?k = "header_key h"
  have "fst (order_scan a ?k 0 ((p @ ?k # q) @ a # r) (- 1, - 1)) = int (length (p @ ?k # q))"
    using assms by (subst order_scan_found) auto
  moreover have "snd (order_scan a ?k 0 (p @ ?k # (q @ a # r)) (- 1, - 1)) = int (length p)"
    using assms by (subst order_scan_found) auto
  ultimately have "order_scan a ?k 0 (p @ ?k # q @ a # r) (- 1, - 1) =
      (int (length p + Suc (length q)), int (length p))"
    by (intro order_scan_pair) simp_all
  then show ?thesis using assms
    by (simp add: PrependHeaderAfter_def Let_def go_slice_nat flip: header_key_def)
      (simp add: go_slice_def nat_add_distrib)
qed

lemma PrependHeaderAfter_order_right:
  assumes "hs_headerOrder hs = p @ a # q @ header_key h # r" "distinct (hs_headerOrder hs)"
    and "ToLower afterName = a" "map_of (hs_headers hs) a \<noteq> None"
  shows "hs_headerOrder (PrependHeaderAfter h afterName hs) = p @ a # header_key h # q @ r"
proof -
  let ?k = "header_key h"
  have "fst (order_scan a ?k 0 (p @ a # (q @ ?k # r)) (- 1, - 1)) = int (length p)"
    using assms by (subst order_scan_found) auto
  moreover have "snd (order_scan a ?k 0 ((p @ a # q) @ ?k # r) (- 1, - 1)) = int (length (p @ a # q))"
    using assms by (subst order_scan_found) auto
  ultimately have "order_scan a ?k 0 (p @ a # q @ ?k # r) (- 1, - 1) =
      (int (length p), int (length p + Suc (length q)))"
    by (intro order_scan_pair) simp_all
  then show ?thesis using assms
    by (simp add: PrependHeaderAfter_def Let_def go_slice_nat flip: header_key_def)
      (simp add: go_slice_def nat_add_distrib)
qed

lemma PrependHeaderAfter_order:
  assumes ok: "headers_ok hs" and a: "ToLower afterName \<in> set (hs_headerOrder hs)"
    and ne: "header_key h \<noteq> ToLower afterName"
  shows "hs_headerOrder (PrependHeaderAfter h afterName hs) =
    insert_after (header_key h) (ToLower afterName) (removeAll (header_key h) (hs_headerOrder hs))"
proof -
  let ?k = "header_key h" and ?a = "ToLower afterName"
  obtain p q where pq: "hs_headerOrder hs = p @ ?a # q" using a by (meson split_list)
  have d: "distinct (hs_headerOrder hs)" using ok by (simp add: headers_ok_def)
  have m: "map_of (hs_headers hs) ?a \<noteq> None" using headers_ok_dom [OF ok] a by blast
  consider "?k \<in> set p" | "?k \<in> set q" | "?k \<notin> set p" "?k \<notin> set q" by blast
  then show ?thesis
  proof cases
    case 1
    then obtain p1 p2 where "p = p1 @ ?k # p2" by (meson split_list)
    with pq have ord: "hs_headerOrder hs = p1 @ ?k # p2 @ ?a # q" by simp
    with PrependHeaderAfter_order_left [OF ord d refl m] d ne show ?thesis
      by (simp add: insert_after_append [of _ "p1 @ p2", simplified])
  next
    case 2
    then obtain q1 q2 where "q = q1 @ ?k # q2" by (meson split_list)
    with pq have ord: "hs_headerOrder hs = p @ ?a # q1 @ ?k # q2" by simp
    with PrependHeaderAfter_order_right [OF ord d refl m] d ne show ?thesis
      by (simp add: insert_after_append)
  next
    case 3
    with PrependHeaderAfter_order_new [OF pq d refl m] pq d ne show ?thesis
      by (simp add: insert_after_append)
  qed
qed

lemma PrependHeaderAfter_at:
  assumes "headers_ok hs" "ToLower afterName \<in> set (hs_headerOrder hs)"
  shows "headers_at (PrependHeaderAfter h afterName hs) k =
    (if k = header_key h then h # headers_at hs k else headers_at hs k)"
proof -
  have m: "map_of (hs_headers hs) (ToLower afterName) \<noteq> None"
    using headers_ok_dom [OF assms(1)] assms(2) by blast
  obtain i j where scan: "order_scan (ToLower afterName) (header_key h) 0 (hs_headerOrder hs) (- 1, - 1) = (i, j)"
    by force
  have "j = - 1 \<longleftrightarrow> header_key h \<notin> set (hs_headerOrder hs)"
  proof (cases "header_key h \<in> set (hs_headerOrder hs)")
    case True
    then obtain p q where "hs_headerOrder hs = p @ header_key h # q" "header_key h \<notin> set q"
      by (meson split_list_last)
    with scan order_scan_found(2) [of "header_key h" q "ToLower afterName" 0 p "(- 1, - 1)"] True
    show ?thesis by simp
  next
    case False
    with scan order_scan_absent(2) [of "header_key h" "hs_headerOrder hs"] show ?thesis
      by (metis snd_conv)
  qed
  moreover have "map_of (hs_headers hs) (header_key h) = None" if "header_key h \<notin> set (hs_headerOrder hs)"
    using headers_ok_dom [OF assms(1)] that by blast
  ultimately show ?thesis using scan m
    by (auto simp: PrependHeaderAfter_def Let_def headers_at_def simp flip: header_key_def
        split: option.splits)
qed

section \<open>Properties\<close>

text \<open>
  C12: Adding a well-formed header to a well-formed container returns normally, keeps the
  container well formed, appends the header to the list of its name and to no other, and
  loses or duplicates none of the headers stored before.
\<close>

theorem AddHeader_correct:
  assumes "headers_ok hs" "header_ok h"
  shows "\<exists>hs'. AddHeader h hs = Ok hs' \<and> headers_ok hs' \<and>
    (\<forall>n. GetHeaders n hs' = GetHeaders n hs @ (if ToLower n = header_key h then [h] else [])) \<and>
    mset (Headers hs') = add_mset h (mset (Headers hs))"
proof -
  obtain hs' where hs': "AddHeader h hs = Ok hs'" using hm.add_total [OF assms] by blast
  then show ?thesis
    using hm.inv_add [OF assms hs'] hm.get_add [OF assms hs'] hm.mset_flat_add [OF assms hs']
    by (auto simp: GetHeaders_at Headers_flat)
qed

text \<open>Two headers of a container used by the witnesses: a Call-ID and two Max-Forwards.\<close>

lemma sample_headers_ok:
  "headers_ok \<lparr>hs_headers = [(''max-forwards'', [MaxForwards 70, MaxForwards 3]), (''call-id'', [CallID ''a''])],
     hs_headerOrder = [''call-id'', ''max-forwards'']\<rparr>"
  by (simp add: headers_ok_def entry_ok_def insert_commute)

theorem AddHeader_correct_witness:
  "\<exists>hs'. AddHeader (CallID ''b'') \<lparr>hs_headers = [(''max-forwards'', [MaxForwards 70, MaxForwards 3]), (''call-id'', [CallID ''a''])],
       hs_headerOrder = [''call-id'', ''max-forwards'']\<rparr> = Ok hs' \<and>
     GetHeaders ''call-id'' hs' = [CallID ''a'', CallID ''b'']"
proof -
  let ?hs = "\<lparr>hs_headers = [(''max-forwards'', [MaxForwards 70, MaxForwards 3]), (''call-id'', [CallID ''a''])],
       hs_headerOrder = [''call-id'', ''max-forwards'']\<rparr>"
  have lower: "ToLower ''call-id'' = ''call-id''" by code_simp
  obtain hs' where "AddHeader (CallID ''b'') ?hs = Ok hs'"
    "GetHeaders ''call-id'' hs' = GetHeaders ''call-id'' ?hs @
       (if ToLower ''call-id'' = header_key (CallID ''b'') then [CallID ''b''] else [])"
    using AddHeader_correct [OF sample_headers_ok, of "CallID ''b''"] by auto
  with lower show ?thesis by (simp add: GetHeaders_at headers_at_def)
qed

text \<open>
  Re-adding the listed headers of a well-formed container to an empty one rebuilds it:
  the same names in the same order, and the same headers under each name.
\<close>

theorem newHeaders_rebuilds:
  assumes "headers_ok hs"
  shows "\<exists>hs'. newHeaders (Headers hs) = Ok hs' \<and> headers_ok hs' \<and>
    hs_headerOrder hs' = hs_headerOrder hs \<and> (\<forall>n. GetHeaders n hs' = GetHeaders n hs)"
  using hm.rebuild [OF assms] by (auto simp: newHeaders_def add_headers_list Headers_flat GetHeaders_at)

theorem newHeaders_rebuilds_witness:
  "\<exists>hs'. newHeaders [CallID ''a'', MaxForwards 70, MaxForwards 3] = Ok hs' \<and>
     hs_headerOrder hs' = [''call-id'', ''max-forwards'']"
  using newHeaders_rebuilds [OF sample_headers_ok]
  by (auto simp: Headers_def headers_at_def)

text \<open>
  \<^verbatim>\<open>PrependHeaderAfter\<close> moves the name of the header directly behind the given name,
  keeps the other names in their order, and puts the header in front of the headers
  of its name.
\<close>

theorem PrependHeaderAfter_correct:
  assumes "headers_ok hs" "ToLower afterName \<in> set (hs_headerOrder hs)"
    and "header_key h \<noteq> ToLower afterName"
  shows "hs_headerOrder (PrependHeaderAfter h afterName hs) =
      insert_after (header_key h) (ToLower afterName) (removeAll (header_key h) (hs_headerOrder hs)) \<and>
    (\<forall>n. GetHeaders n (PrependHeaderAfter h afterName hs) =
      (if ToLower n = header_key h then h # GetHeaders n hs else GetHeaders n hs))"
  using PrependHeaderAfter_order [OF assms] PrependHeaderAfter_at [OF assms(1,2)]
  by (simp add: GetHeaders_at)

theorem PrependHeaderAfter_correct_witness:
  "hs_headerOrder (PrependHeaderAfter (CSeqHeader \<lparr>cs_SeqNo = 1, cs_MethodName = INVITE\<rparr>) ''call-id''
     \<lparr>hs_headers = [(''max-forwards'', [MaxForwards 70, MaxForwards 3]), (''call-id'', [CallID ''a''])],
       hs_headerOrder = [''call-id'', ''max-forwards'']\<rparr>) = [''call-id'', ''cseq'', ''max-forwards'']"
proof -
  have "ToLower ''call-id'' = ''call-id''" by code_simp
  then show ?thesis
    using PrependHeaderAfter_correct [OF sample_headers_ok, of "''call-id''"
        "CSeqHeader \<lparr>cs_SeqNo = 1, cs_MethodName = INVITE\<rparr>"] by simp
qed

text \<open>
  Deleting a name from a well-formed container keeps it well formed and removes exactly
  the headers stored under that name; the others keep their order.
\<close>

theorem DelHeader_correct:
  assumes "headers_ok hs"
  shows "headers_ok (DelHeader [name] hs) \<and>
    Headers (DelHeader [name] hs) = filter (\<lambda>h. header_key h \<noteq> ToLower name) (Headers hs)"
  using headers_ok_del [OF assms] he.flat_del [OF assms]
  by (simp add: DelHeader_one Headers_flat)

theorem DelHeader_correct_witness:
  "Headers (DelHeader [''call-id'']
     \<lparr>hs_headers = [(''max-forwards'', [MaxForwards 70, MaxForwards 3]), (''call-id'', [CallID ''a''])],
       hs_headerOrder = [''call-id'', ''max-forwards'']\<rparr>) = [MaxForwards 70, MaxForwards 3]"
proof -
  have "ToLower ''call-id'' = ''call-id''" by code_simp
  then show ?thesis
    using DelHeader_correct [OF sample_headers_ok, of "''call-id''"]
    by (simp add: Headers_def [of "\<lparr>hs_headers = h, hs_headerOrder = o'\<rparr>" for h o'] headers_at_def)
qed

text \<open>
  \<^verbatim>\<open>ReplaceHeader\<close> of a name that the container does not have stores a header that is
  found by its name but is never listed, and so never printed or sent.
\<close>

theorem ReplaceHeader_new_name_unlisted:
  assumes "header_key h \<notin> set (hs_headerOrder hs)"
  shows "GetHeaders (Header_Name h) (ReplaceHeader h hs) = [h] \<and>
    Headers (ReplaceHeader h hs) = Headers hs"
  using ReplaceHeader_hidden [OF assms] by simp

theorem ReplaceHeader_new_name_unlisted_witness:
  "GetHeaders ''Call-ID'' (ReplaceHeader (CallID ''a'') empty_headers) = [CallID ''a''] \<and>
   Headers (ReplaceHeader (CallID ''a'') empty_headers) = []"
  using ReplaceHeader_new_name_unlisted [of "CallID ''a''" empty_headers]
  by (simp add: empty_headers_def Headers_def [of "\<lparr>hs_headers = [], hs_headerOrder = []\<rparr>"])

end
