(* ===== verification/Gsip_Message.thy ===== *)
theory Gsip_Message
  imports Gsip_Headers
begin

text \<open>
  Messages: \<^verbatim>\<open>sip/message.go\<close>, \<^verbatim>\<open>sip/request.go\<close>, \<^verbatim>\<open>sip/response.go\<close> and \<^verbatim>\<open>sip/status.go\<close>. Go embeds
  the struct \<^verbatim>\<open>message\<close> in \<^verbatim>\<open>request\<close> and \<^verbatim>\<open>response\<close>; here they are record extensions. What the
  code draws at random (message identifiers of package \<^verbatim>\<open>uuid\<close>, branches, tags) is an
  argument, as is the address of a freshly allocated string.
\<close>

section \<open>Status codes\<close>

type_synonym StatusCode = "16 word"

definition statusTexts :: "(StatusCode \<times> string) list" where
  "statusTexts =
     [(100, ''Trying''),
      (180, ''Ringing''),
      (181, ''Call Is Being Forwarded''),
      (182, ''Queued''),
      (183, ''Session Progress''),
      (200, ''OK''),
      (300, ''Multiple Choices''),
      (301, ''Moved Permanently''),
      (302, ''Moved Temporarily''),
      (305, ''Use Proxy''),
      (380, ''Alternative Service''),
      (400, ''Bad Request''),
      (401, ''Unauthorized''),
      (402, ''Payment Required''),
      (403, ''Forbidden''),
      (404, ''Not Found''),
      (405, ''Method Not Allowed''),
      (406, ''Not Acceptable''),
      (407, ''Proxy Authentication Required''),
      (408, ''Request Timeout''),
      (410, ''Gone''),
      (413, ''Request Entity Too Large''),
      (414, ''Request-URI Too Long''),
      (415, ''Unsupported Media Type''),
      (416, ''Unsupported URI Scheme''),
      (420, ''Bad Extension''),
      (421, ''Extension Required''),
      (423, ''Interval Too Brief''),
      (480, ''No Response''),
      (481, ''Call/Transaction Does Not Exist''),
      (482, ''Loop Detected''),
      (483, ''Too Many Hops''),
      (484, ''Address Incomplete''),
      (485, ''Ambiguous''),
      (486, ''Busy Here''),
      (487, ''Request Terminated''),
      (488, ''Not Acceptable Here''),
      (491, ''Request Pending''),
      (493, ''Undecipherable''),
      (500, ''Server Internal Error''),
      (501, ''Not Implemented''),
      (502, ''Bad Gateway''),
      (503, ''Service Unavailable''),
      (504, ''Server Timeout''),
      (505, ''Version Not Supported''),
      (513, ''Message Too Large''),
      (600, ''Busy Everywhere''),
      (603, ''Decline''),
      (604, ''Does Not Exist Anywhere''),
      (606, ''Not Acceptable'')]"

definition StatusText :: "StatusCode \<Rightarrow> string" where
  "StatusText code = (case map_of statusTexts code of Some text \<Rightarrow> text | None \<Rightarrow> '''')"

section \<open>The message structs\<close>

text \<open>
  \<^verbatim>\<open>tx\<close> is a handle of a transaction; the field \<^verbatim>\<open>startLine\<close>, always the method \<^verbatim>\<open>StartLine\<close> of the
  message itself, is the function of that name below.
\<close>

record message =
  m_headers :: headers
  m_tx :: "nat option"
  m_messID :: string
  m_sipVersion :: string
  m_body :: string
  m_src :: string
  m_dest :: string

record request = message +
  r_method :: RequestMethod
  r_recipient :: "Uri option"

text \<open>\<^verbatim>\<open>previous\<close> holds handles of earlier responses.\<close>

record response = message +
  s_status :: StatusCode
  s_reason :: string
  s_previous :: "nat list"

text \<open>A value of the interface \<^verbatim>\<open>Message\<close>.\<close>

datatype Message = Req request | Res response

definition blank_request :: request where
  "blank_request =
     \<lparr>m_headers = empty_headers, m_tx = None, m_messID = '''', m_sipVersion = '''', m_body = '''',
      m_src = '''', m_dest = '''', r_method = '''', r_recipient = None\<rparr>"

definition blank_response :: response where
  "blank_response =
     \<lparr>m_headers = empty_headers, m_tx = None, m_messID = '''', m_sipVersion = '''', m_body = '''',
      m_src = '''', m_dest = '''', s_status = 0, s_reason = '''', s_previous = []\<rparr>"

section \<open>Writes through header pointers\<close>

text \<open>
  The accessors return pointers into the container. A write through one changes the
  first header of its name.
\<close>

definition write_first :: "string \<Rightarrow> (Header \<Rightarrow> Header) \<Rightarrow> headers \<Rightarrow> headers" where
  "write_first key f hs =
     (case map_of (hs_headers hs) key of
        Some (h # rest) \<Rightarrow> hs\<lparr>hs_headers := AList.update key (f h # rest) (hs_headers hs)\<rparr>
      | _ \<Rightarrow> hs)"

definition set_cseq_method :: "RequestMethod \<Rightarrow> headers \<Rightarrow> headers" where
  "set_cseq_method method hs =
     (case get_CSeq hs of
        Some c \<Rightarrow> write_first ''cseq'' (\<lambda>_. CSeqHeader (c\<lparr>cs_MethodName := method\<rparr>)) hs
      | None \<Rightarrow> hs)"

text \<open>\<^verbatim>\<open>viaHop.Params.Add(key, val)\<close> on the top hop; a nil hop or nil \<^verbatim>\<open>Params\<close> panics.\<close>

definition add_hop_param :: "string \<Rightarrow> MaybeString \<Rightarrow> headers \<Rightarrow> headers outcome" where
  "add_hop_param key val hs =
     (case get_Via hs of
        Some (hop # hops) \<Rightarrow>
          (case vh_Params hop of
             None \<Rightarrow> Panic
           | Some p \<Rightarrow>
               Ok (write_first ''via''
                    (\<lambda>_. ViaHeader (hop\<lparr>vh_Params := Some (Params_Add key val p)\<rparr> # hops)) hs))
      | _ \<Rightarrow> Panic)"

section \<open>Methods of message\<close>

definition SetBody :: "string \<Rightarrow> bool \<Rightarrow> 'a message_scheme \<Rightarrow> 'a message_scheme outcome" where
  "SetBody body setContentLength msg =
     (let msg1 = msg\<lparr>m_body := body\<rparr>;
          len = ContentLength (of_nat (length body))
      in if setContentLength then
           (if length (GetHeaders ''Content-Length'' (m_headers msg1)) = 0
            then omap (\<lambda>hs. msg1\<lparr>m_headers := hs\<rparr>) (AddHeader len (m_headers msg1))
            else Ok (msg1\<lparr>m_headers := write_first ''content-length'' (\<lambda>_. len) (m_headers msg1)\<rparr>))
         else Ok msg1)"

definition message_Transport :: "'a message_scheme \<Rightarrow> string" where
  "message_Transport msg =
     (case get_ViaHop (m_headers msg) of
        Some viaHop \<Rightarrow> vh_Transport viaHop
      | None \<Rightarrow> DefaultProtocol)"

text \<open>\<^verbatim>\<open>v, _ = params.Get(key)\<close>: nil when the key is absent, a panic on nil \<^verbatim>\<open>Params\<close>.\<close>

definition params_value :: "headerParams option \<Rightarrow> string \<Rightarrow> MaybeString outcome" where
  "params_value ps key =
     (case ps of
        None \<Rightarrow> Panic
      | Some p \<Rightarrow> Ok (case Params_Get p key of Some v \<Rightarrow> v | None \<Rightarrow> NilStr))"

definition DialogId :: "'a message_scheme \<Rightarrow> string outcome" where
  "DialogId msg =
     (let hs = m_headers msg;
          callId = (case get_CallID hs of Some c \<Rightarrow> c | None \<Rightarrow> '''')
      in obind (case get_From hs of Some from \<Rightarrow> params_value (ah_Params from) ''tag''
                | None \<Rightarrow> Ok NilStr) (\<lambda>fromTag.
         obind (case get_To hs of Some to \<Rightarrow> params_value (ah_Params to) ''tag''
                | None \<Rightarrow> Ok NilStr) (\<lambda>toTag.
         Ok (callId @ ''#'' @ ms_fmt fromTag @ ''#'' @ ms_fmt toTag))))"

primrec copy_headers :: "Header list \<Rightarrow> headers \<Rightarrow> headers outcome" where
  "copy_headers [] to = Ok to"
| "copy_headers (h # hers) to =
     obind (Header_Copy h) (\<lambda>h'. obind (AddHeader h' to) (copy_headers hers))"

definition CopyHeaders :: "string \<Rightarrow> headers \<Rightarrow> headers \<Rightarrow> headers outcome" where
  "CopyHeaders name from to = copy_headers (GetHeaders (ToLower name) from) to"

primrec CopyHeaders_all :: "string list \<Rightarrow> headers \<Rightarrow> headers \<Rightarrow> headers outcome" where
  "CopyHeaders_all [] from to = Ok to"
| "CopyHeaders_all (n # ns) from to = obind (CopyHeaders n from to) (CopyHeaders_all ns from)"

text \<open>\<^verbatim>\<open>message.String\<close>, given the start line.\<close>

definition message_text :: "string \<Rightarrow> headers \<Rightarrow> string \<Rightarrow> string outcome" where
  "message_text startLine hs body =
     omap (\<lambda>text. startLine @ CRLF @ text @ CRLF @ body) (headers_String hs)"

section \<open>Requests\<close>

definition SetMethod :: "RequestMethod \<Rightarrow> request \<Rightarrow> request" where
  "SetMethod method req =
     req\<lparr>r_method := method, m_headers := set_cseq_method method (m_headers req)\<rparr>"

definition DefaultViaHeader :: "string \<Rightarrow> Header" where
  "DefaultViaHeader randomness =
     ViaHeader
       [\<lparr>vh_ProtocolName = ''SIP'', vh_ProtocolVersion = ''2.0'', vh_Transport = DefaultProtocol,
         vh_Host = ''127.0.0.1'', vh_Port = Some 5060,
         vh_Params = Some (Params_Add ''branch'' (Str (GenerateBranch randomness))
                            (Params_Add ''rport'' NilStr NewParams))\<rparr>]"

definition CreateSimpleRequest :: "string \<Rightarrow> RequestMethod \<Rightarrow> string \<Rightarrow> request" where
  "CreateSimpleRequest uuid method remoteAddr =
     (SetMethod method
        (blank_request\<lparr>m_messID := uuid, m_sipVersion := SipVersion\<rparr>))\<lparr>m_dest := remoteAddr\<rparr>"

definition CreateRequest ::
  "string \<Rightarrow> string \<Rightarrow> string \<Rightarrow> RequestMethod \<Rightarrow> string \<Rightarrow> Uri option \<Rightarrow> Uri option \<Rightarrow> request outcome" where
  "CreateRequest uuid branchRandom callRandom method remoteAddr from to =
     (let headerList =
        [DefaultViaHeader branchRandom,
         FromHeader \<lparr>ah_DisplayName = NilStr, ah_Address = from, ah_Params = Some NewParams\<rparr>,
         ToHeader \<lparr>ah_DisplayName = NilStr, ah_Address = to, ah_Params = Some NewParams\<rparr>,
         CallID (RandString callRandom False),
         CSeqHeader \<lparr>cs_SeqNo = 1, cs_MethodName = INVITE\<rparr>,
         MaxForwards 70]
      in omap (\<lambda>hs. (SetMethod method
              (blank_request\<lparr>m_messID := uuid, m_headers := hs, m_sipVersion := SipVersion\<rparr>))
              \<lparr>m_dest := remoteAddr\<rparr>)
           (newHeaders headerList))"

definition IsInvite :: "request \<Rightarrow> bool" where "IsInvite req \<longleftrightarrow> r_method req = INVITE"
definition IsAck :: "request \<Rightarrow> bool" where "IsAck req \<longleftrightarrow> r_method req = ACK"
definition IsCancel :: "request \<Rightarrow> bool" where "IsCancel req \<longleftrightarrow> r_method req = CANCEL"

text \<open>\<^verbatim>\<open>fmt.Sprintf("%v:%v", host, port)\<close>.\<close>

definition host_port_text :: "string \<Rightarrow> Port \<Rightarrow> string" where
  "host_port_text host port = host @ '':'' @ port_text port"

text \<open>\<^verbatim>\<open>if received, ok := params.Get("received"); ok && received.String() != ""\<close>.\<close>

definition received_host :: "ViaHop \<Rightarrow> headerParams \<Rightarrow> string outcome" where
  "received_host viaHop p =
     (case Params_Get p ''received'' of
        Some received \<Rightarrow> omap (\<lambda>s. if s \<noteq> '''' then s else vh_Host viaHop) (ms_String received)
      | None \<Rightarrow> Ok (vh_Host viaHop))"

definition hop_port :: "string \<Rightarrow> ViaHop \<Rightarrow> Port" where
  "hop_port transport viaHop =
     (case vh_Port viaHop of Some p \<Rightarrow> p | None \<Rightarrow> DefaultPort transport)"

definition request_Source :: "request \<Rightarrow> string outcome" where
  "request_Source req =
     (if m_src req \<noteq> '''' then Ok (m_src req)
      else case get_ViaHop (m_headers req) of
        None \<Rightarrow> Ok ''''
      | Some viaHop \<Rightarrow>
          (case vh_Params viaHop of
             None \<Rightarrow> Panic
           | Some p \<Rightarrow>
               obind (received_host viaHop p) (\<lambda>host.
               let fallback = hop_port (message_Transport req) viaHop;
                   port = (case Params_Get p ''rport'' of
                             Some (Str s) \<Rightarrow> if s \<noteq> '''' then word_of_int (Atoi_value s) else fallback
                           | Some (StrPtr a s) \<Rightarrow>
                               if s \<noteq> '''' then word_of_int (Atoi_value s) else fallback
                           | _ \<Rightarrow> fallback)
               in Ok (host_port_text host port))))"

text \<open>\<^verbatim>\<open>Destination\<close>; the two unchecked type assertions panic on another type.\<close>

definition request_Destination :: "request \<Rightarrow> string outcome" where
  "request_Destination req =
     (if m_dest req \<noteq> '''' then Ok (m_dest req)
      else
        obind (case GetHeaders ''Route'' (m_headers req) of
                 [] \<Rightarrow> Ok None
               | RouteHeader [] # _ \<Rightarrow> Ok None
               | RouteHeader (SipUriPtr u # _) # _ \<Rightarrow> Ok (Some u)
               | RouteHeader (WildcardUriPtr # _) # _ \<Rightarrow> Panic
               | _ \<Rightarrow> Panic) (\<lambda>route.
        case (case route of Some u \<Rightarrow> Some u
                          | None \<Rightarrow> (case r_recipient req of Some (SipUriPtr u) \<Rightarrow> Some u | _ \<Rightarrow> None)) of
          None \<Rightarrow> Ok ''''
        | Some uri \<Rightarrow>
            Ok (host_port_text (addr_Host (u_FDomain uri))
                  (case addr_Port (u_FDomain uri) of
                     None \<Rightarrow> DefaultPort (message_Transport req)
                   | Some p \<Rightarrow> p))))"

text \<open>
  \<^verbatim>\<open>StartLine\<close> computes the recipient from the \<^verbatim>\<open>To\<close> header (from the destination for a
  REGISTER), stores it in the request and prints the request line.
\<close>

definition blank_uri :: SipUri where
  "blank_uri = \<lparr>u_FIsEncrypted = False, u_FUser = NilStr, u_FPassword = NilStr,
     u_FDomain = \<lparr>addr_Host = '''', addr_Port = None\<rparr>, u_FUriParams = None, u_FHeaders = None\<rparr>"

definition request_recipient :: "request \<Rightarrow> Uri outcome" where
  "request_recipient req =
     (if r_method req = REGISTER then
        obind (request_Destination req) (\<lambda>dest.
        let (host, port) = (case SplitHostPort dest of Ok hp \<Rightarrow> hp | _ \<Rightarrow> ('''', ''''));
            p = (case Atoi port of Ok i \<Rightarrow> Some (word_of_int i) | _ \<Rightarrow> None)
        in Ok (Uri_SetDomain \<lparr>addr_Host = host, addr_Port = p\<rparr> (SipUriPtr blank_uri)))
      else case get_To (m_headers req) of
        None \<Rightarrow> Ok (SipUriPtr blank_uri)
      | Some to \<Rightarrow>
          omap (\<lambda>u. Uri_SetHeaders None (Uri_SetUriParams None u)) (nil_uri_Copy (ah_Address to)))"

definition request_StartLine :: "request \<Rightarrow> (string \<times> request) outcome" where
  "request_StartLine req =
     omap (\<lambda>recipient.
        (r_method req @ '' '' @ Uri_String recipient @ '' '' @ m_sipVersion req,
         req\<lparr>r_recipient := Some recipient\<rparr>))
       (request_recipient req)"

definition request_String :: "request \<Rightarrow> (string \<times> request) outcome" where
  "request_String req =
     obind (request_StartLine req) (\<lambda>(line, req1).
     omap (\<lambda>text. (text, req1)) (message_text line (m_headers req1) (m_body req1)))"

definition request_Copy :: "string \<Rightarrow> request \<Rightarrow> request outcome" where
  "request_Copy uuid req =
     obind (request_Destination req) (\<lambda>dest.
     obind (nil_uri_Copy (r_recipient req)) (\<lambda>recipient.
     obind (CloneHeaders (m_headers req)) (\<lambda>hers.
     let newReq = (CreateSimpleRequest uuid (r_method req) dest)
                    \<lparr>m_sipVersion := m_sipVersion req, r_recipient := Some recipient\<rparr>
     in obind (add_headers hers (m_headers newReq)) (\<lambda>hs.
        SetBody (m_body req) True (newReq\<lparr>m_headers := hs\<rparr>)))))"

section \<open>Responses\<close>

definition SetStatusCode :: "StatusCode \<Rightarrow> response \<Rightarrow> response" where
  "SetStatusCode code res = res\<lparr>s_status := code, s_reason := StatusText code\<rparr>"

definition SetReason :: "string \<Rightarrow> response \<Rightarrow> response" where
  "SetReason reason res = res\<lparr>s_reason := reason\<rparr>"

definition NewResponse ::
  "string \<Rightarrow> string \<Rightarrow> string \<Rightarrow> StatusCode \<Rightarrow> string \<Rightarrow> Header list \<Rightarrow> string \<Rightarrow> response outcome" where
  "NewResponse uuid messID sipVersion statusCode reason hdrs body =
     obind (newHeaders hdrs) (\<lambda>hs.
     let res = SetReason reason (SetStatusCode statusCode
                 (blank_response\<lparr>m_messID := (if messID = '''' then uuid else messID),
                    m_sipVersion := sipVersion, m_headers := hs\<rparr>))
     in if TrimSpace body \<noteq> '''' then SetBody body True res else Ok res)"

definition response_StartLine :: "response \<Rightarrow> string" where
  "response_StartLine res =
     m_sipVersion res @ '' '' @ show_nat (unat (s_status res)) @ '' '' @ s_reason res"

definition response_String :: "response \<Rightarrow> string outcome" where
  "response_String res = message_text (response_StartLine res) (m_headers res) (m_body res)"

definition response_Copy :: "string \<Rightarrow> response \<Rightarrow> response outcome" where
  "response_Copy uuid res =
     obind (CloneHeaders (m_headers res)) (\<lambda>hdrs.
     NewResponse uuid '''' (m_sipVersion res) (s_status res) (s_reason res) hdrs (m_body res))"

definition IsProvisional :: "response \<Rightarrow> bool" where "IsProvisional res \<longleftrightarrow> s_status res < 200"
definition IsSuccess :: "response \<Rightarrow> bool" where
  "IsSuccess res \<longleftrightarrow> 200 \<le> s_status res \<and> s_status res < 300"
definition IsRedirection :: "response \<Rightarrow> bool" where
  "IsRedirection res \<longleftrightarrow> 300 \<le> s_status res \<and> s_status res < 400"
definition IsClientError :: "response \<Rightarrow> bool" where
  "IsClientError res \<longleftrightarrow> 400 \<le> s_status res \<and> s_status res < 500"
definition IsServerError :: "response \<Rightarrow> bool" where
  "IsServerError res \<longleftrightarrow> 500 \<le> s_status res \<and> s_status res < 600"
definition IsGlobalError :: "response \<Rightarrow> bool" where "IsGlobalError res \<longleftrightarrow> 600 \<le> s_status res"

definition response_Method :: "response \<Rightarrow> RequestMethod" where
  "response_Method res = (case get_CSeq (m_headers res) of Some seq \<Rightarrow> cs_MethodName seq | None \<Rightarrow> '''')"

definition response_IsAck :: "response \<Rightarrow> bool" where
  "response_IsAck res = (case get_CSeq (m_headers res) of Some seq \<Rightarrow> cs_MethodName seq = ACK | None \<Rightarrow> False)"

definition response_IsCancel :: "response \<Rightarrow> bool" where
  "response_IsCancel res =
     (case get_CSeq (m_headers res) of Some seq \<Rightarrow> cs_MethodName seq = CANCEL | None \<Rightarrow> False)"

text \<open>The headers every response takes from its request.\<close>

definition response_copied :: "string list" where
  "response_copied = [''Record-Route'', ''Via'', ''From'', ''To'', ''Call-ID'', ''CSeq'']"

text \<open>
  \<^verbatim>\<open>CreateResponse\<close>. The tag is a pointer to a fresh string (\<open>addr\<close>) of ten random digits.
\<close>

definition add_to_tag :: "nat \<Rightarrow> string \<Rightarrow> headers \<Rightarrow> headers outcome" where
  "add_to_tag addr tagRandom hs =
     (case get_To hs of
        None \<Rightarrow> Ok hs
      | Some to \<Rightarrow>
          (case ah_Params to of
             None \<Rightarrow> Panic
           | Some p \<Rightarrow>
               if Params_Has p ''tag'' then Ok hs
               else Ok (write_first ''to'' (\<lambda>_. ToHeader (to\<lparr>ah_Params :=
                      Some (Params_Add ''tag'' (StrPtr addr (RandString tagRandom True)) p)\<rparr>)) hs)))"

definition fill_response :: "nat \<Rightarrow> string \<Rightarrow> StatusCode \<Rightarrow> request \<Rightarrow> response \<Rightarrow> response outcome" where
  "fill_response addr tagRandom statusCode req res =
     obind (CopyHeaders_all response_copied (m_headers req) empty_headers) (\<lambda>hs1.
     obind (if statusCode = 100 then CopyHeaders ''Timestamp'' (m_headers req) hs1
            else add_to_tag addr tagRandom hs1) (\<lambda>hs2.
     obind (request_Destination req) (\<lambda>src.
     obind (request_Source req) (\<lambda>dest.
     Ok (res\<lparr>m_headers := hs2, m_body := m_body req, m_src := src, m_dest := dest\<rparr>)))))"

definition CreateResponse :: "string \<Rightarrow> nat \<Rightarrow> string \<Rightarrow> StatusCode \<Rightarrow> request \<Rightarrow> response outcome" where
  "CreateResponse uuid addr tagRandom statusCode req =
     fill_response addr tagRandom statusCode req
       (SetStatusCode statusCode
          (blank_response\<lparr>m_messID := uuid, m_sipVersion := m_sipVersion req\<rparr>))"

definition CreateResponseReason ::
  "string \<Rightarrow> nat \<Rightarrow> string \<Rightarrow> StatusCode \<Rightarrow> string \<Rightarrow> request \<Rightarrow> response outcome" where
  "CreateResponseReason uuid addr tagRandom statusCode reason req =
     fill_response addr tagRandom statusCode req
       (SetStatusCode statusCode
          ((SetReason reason (blank_response\<lparr>m_messID := uuid\<rparr>))\<lparr>m_sipVersion := m_sipVersion req\<rparr>))"

definition NewResponseFromRequest ::
  "string \<Rightarrow> string \<Rightarrow> request \<Rightarrow> StatusCode \<Rightarrow> string \<Rightarrow> string \<Rightarrow> response outcome" where
  "NewResponseFromRequest uuid resID req statusCode reason body =
     obind (NewResponse uuid resID (m_sipVersion req) statusCode reason [] '''') (\<lambda>res.
     obind (CopyHeaders_all response_copied (m_headers req) (m_headers res)) (\<lambda>hs1.
     obind (if statusCode = 100 then CopyHeaders ''Timestamp'' (m_headers req) hs1 else Ok hs1) (\<lambda>hs2.
     obind (request_Destination req) (\<lambda>src.
     obind (request_Source req) (\<lambda>dest.
     let res1 = res\<lparr>m_headers := hs2, m_src := src, m_dest := dest\<rparr>
     in if 0 < length body then SetBody body True res1 else Ok res1)))))"

text \<open>\<^verbatim>\<open>Destination\<close> of a response: \<^verbatim>\<open>rport.String()\<close> is called without a nil test.\<close>

definition response_Destination :: "response \<Rightarrow> string outcome" where
  "response_Destination res =
     (if m_dest res \<noteq> '''' then Ok (m_dest res)
      else case get_ViaHop (m_headers res) of
        None \<Rightarrow> Ok ''''
      | Some viaHop \<Rightarrow>
          (case vh_Params viaHop of
             None \<Rightarrow> Panic
           | Some p \<Rightarrow>
               obind (received_host viaHop p) (\<lambda>host.
               let fallback = hop_port (message_Transport res) viaHop
               in omap (host_port_text host)
                    (case Params_Get p ''rport'' of
                       Some rport \<Rightarrow>
                         omap (\<lambda>s. if s \<noteq> '''' then word_of_int (Atoi_value s) else fallback)
                           (ms_String rport)
                     | None \<Rightarrow> Ok fallback))))"

text \<open>The \<^verbatim>\<open>Route\<close> headers of an ACK, from the route or the record route of the response.\<close>

primrec routes_from_record :: "Header list \<Rightarrow> headers \<Rightarrow> headers outcome" where
  "routes_from_record [] hs = Ok hs"
| "routes_from_record (h # hers) hs =
     (case h of
        RecordRouteHeader addrs \<Rightarrow>
          obind (AddHeader (RouteHeader (map Uri_Copy addrs)) hs) (routes_from_record hers)
      | _ \<Rightarrow> Panic)"

definition CreateAck :: "string \<Rightarrow> string \<Rightarrow> response \<Rightarrow> request outcome" where
  "CreateAck uuid branchRandom res =
     (let ack = (CreateSimpleRequest uuid ACK (m_src res))\<lparr>m_sipVersion := m_sipVersion res\<rparr>;
          from = m_headers res
      in obind (CopyHeaders ''Via'' from (m_headers ack)) (\<lambda>hs1.
         obind (add_hop_param ''branch'' (Str (GenerateBranch branchRandom)) hs1) (\<lambda>hs2.
         obind (if 0 < length (GetHeaders ''Route'' from) then CopyHeaders ''Route'' from hs2
                else routes_from_record (GetHeaders ''Record-Route'' from) hs2) (\<lambda>hs3.
         obind (CopyHeaders_all [''From'', ''To'', ''Call-ID'', ''CSeq''] from hs3) (\<lambda>hs4.
         Ok (ack\<lparr>m_headers := set_cseq_method ACK hs4\<rparr>))))))"

definition CopyResponse :: "string \<Rightarrow> response \<Rightarrow> response outcome" where
  "CopyResponse uuid res =
     obind (omapM Header_Copy (Headers (m_headers res))) (\<lambda>hdrs.
     omap (\<lambda>newRes. newRes\<lparr>s_previous := s_previous res\<rparr>)
       (NewResponse uuid (m_messID res) (m_sipVersion res) (s_status res) (s_reason res) hdrs
          (m_body res)))"

section \<open>Methods of the interface Message\<close>

primrec Message_headers :: "Message \<Rightarrow> headers" where
  "Message_headers (Req r) = m_headers r"
| "Message_headers (Res r) = m_headers r"

primrec Message_Method :: "Message \<Rightarrow> RequestMethod" where
  "Message_Method (Req r) = r_method r"
| "Message_Method (Res r) = response_Method r"

primrec Message_Destination :: "Message \<Rightarrow> string outcome" where
  "Message_Destination (Req r) = request_Destination r"
| "Message_Destination (Res r) = response_Destination r"

primrec Message_Source :: "Message \<Rightarrow> string outcome" where
  "Message_Source (Req r) = request_Source r"
| "Message_Source (Res r) = Ok (m_src r)"

primrec Message_IsAck :: "Message \<Rightarrow> bool" where
  "Message_IsAck (Req r) = IsAck r"
| "Message_IsAck (Res r) = response_IsAck r"

primrec Message_IsCancel :: "Message \<Rightarrow> bool" where
  "Message_IsCancel (Req r) = IsCancel r"
| "Message_IsCancel (Res r) = response_IsCancel r"

primrec Message_Transaction :: "Message \<Rightarrow> nat option" where
  "Message_Transaction (Req r) = m_tx r"
| "Message_Transaction (Res r) = m_tx r"

section \<open>Lemmas on header access and copying\<close>

lemma ToLower_names [simp]:
  "ToLower ''Via'' = ''via''" "ToLower ''From'' = ''from''" "ToLower ''To'' = ''to''"
  "ToLower ''Call-ID'' = ''call-id''" "ToLower ''CSeq'' = ''cseq''"
  "ToLower ''Content-Length'' = ''content-length''" "ToLower ''Record-Route'' = ''record-route''"
  "ToLower ''Route'' = ''route''" "ToLower ''Timestamp'' = ''timestamp''"
  "ToLower ''Contact'' = ''contact''" "ToLower ''Expires'' = ''expires''"
  "ToLower ''via'' = ''via''" "ToLower ''from'' = ''from''" "ToLower ''to'' = ''to''"
  "ToLower ''call-id'' = ''call-id''" "ToLower ''cseq'' = ''cseq''"
  "ToLower ''record-route'' = ''record-route''" "ToLower ''route'' = ''route''"
  "ToLower ''timestamp'' = ''timestamp''"
  by code_simp+

lemma first_header_at:
  "first_header name hs = (case headers_at hs (ToLower name) of [] \<Rightarrow> None | h # _ \<Rightarrow> Some h)"
  by (simp add: first_header_def GetHeaders_at)

lemma write_first_at:
  "headers_at (write_first key f hs) k =
     (if k = key then (case headers_at hs key of [] \<Rightarrow> [] | h # r \<Rightarrow> f h # r) else headers_at hs k)"
  by (auto simp: write_first_def headers_at_def split: option.split list.split)

lemma write_first_order [simp]: "hs_headerOrder (write_first key f hs) = hs_headerOrder hs"
  by (simp add: write_first_def split: option.split list.split)

lemma headers_ok_write_first:
  assumes "headers_ok hs" "\<And>h. header_ok h \<Longrightarrow> header_key h = key \<Longrightarrow> header_ok (f h) \<and> header_key (f h) = key"
  shows "headers_ok (write_first key f hs)"
proof (cases "map_of (hs_headers hs) key")
  case None
  with assms show ?thesis by (simp add: write_first_def)
next
  case (Some l)
  then obtain h r where l: "l = h # r" using headers_ok_entry [OF assms(1)] by (cases l) auto
  have "key \<in> set (hs_headerOrder hs)" using headers_ok_dom [OF assms(1), of key] Some by auto
  moreover have "\<forall>x \<in> set (f h # r). header_key x = key \<and> header_ok x"
    using headers_ok_entry [OF assms(1) Some] assms(2) l by auto
  ultimately show ?thesis
    using headers_ok_store [OF assms(1), of "f h # r" key "hs_headerOrder hs"] Some l assms(1)
    by (auto simp: write_first_def headers_ok_def)
qed

text \<open>Only the two authorization names hold headers whose copy differs.\<close>

definition auth_key :: "string \<Rightarrow> bool" where
  "auth_key k \<longleftrightarrow> k = ''authorization'' \<or> k = ''proxy-authorization''"

lemma auth_key_header: "auth_key (header_key (AuthorizationHeader a))"
proof -
  have "ToLower ''Authorization'' = ''authorization''"
    "ToLower ''Proxy-Authorization'' = ''proxy-authorization''" by code_simp+
  then show ?thesis by (simp add: auth_key_def header_key_def Authorization_Name_def)
qed

lemma copy_of_plain:
  "\<not> auth_key (header_key h) \<Longrightarrow> copy_of h = h"
  using auth_key_header by (intro copy_of_same) auto

lemma map_copy_of_at:
  "headers_ok hs \<Longrightarrow> \<not> auth_key k \<Longrightarrow> map copy_of (headers_at hs k) = headers_at hs k"
  by (intro map_idI copy_of_plain) (auto dest: headers_at_key)

lemma copy_headers_eq:
  "\<forall>h \<in> set l. header_ok h \<Longrightarrow> copy_headers l to = add_headers (map copy_of l) to"
proof (induction l arbitrary: to)
  case (Cons h l)
  have "obind (AddHeader (copy_of h) to) (copy_headers l) =
        obind (AddHeader (copy_of h) to) (add_headers (map copy_of l))"
    using Cons by (intro obind_cong) auto
  with Cons.prems show ?case by (simp add: Header_Copy_ok)
qed simp

lemma CopyHeaders_ok:
  assumes "headers_ok from" "headers_ok to" "\<not> auth_key (ToLower name)"
  obtains to' where "CopyHeaders name from to = Ok to'" "headers_ok to'"
    "\<And>k. headers_at to' k = headers_at to k @ (if k = ToLower name then headers_at from k else [])"
proof -
  let ?l = "headers_at from (ToLower name)"
  have ok: "\<forall>h \<in> set ?l. header_ok h \<and> header_key h = ToLower name"
    using headers_at_key [OF assms(1)] by blast
  have eq: "CopyHeaders name from to = hm.add_list ?l to"
    using ok by (simp add: CopyHeaders_def GetHeaders_at copy_headers_eq add_headers_list
        map_copy_of_at [OF assms(1,3)])
  obtain to' where "hm.add_list ?l to = Ok to'" "headers_ok to'"
    "\<forall>k. headers_at to' k = headers_at to k @ filter (\<lambda>h. header_key h = k) ?l"
    using hm.add_list_ok [OF assms(2), of ?l] ok by auto
  moreover have "filter (\<lambda>h. header_key h = k) ?l = (if k = ToLower name then ?l else [])" for k
    using ok by (auto simp: filter_id_conv filter_empty_conv)
  ultimately show thesis using that eq by auto
qed

lemma CopyHeaders_all_ok:
  assumes "headers_ok from" "headers_ok to" "\<forall>n \<in> set ns. \<not> auth_key (ToLower n)"
    and "distinct (map ToLower ns)"
  obtains to' where "CopyHeaders_all ns from to = Ok to'" "headers_ok to'"
    "\<And>k. headers_at to' k = headers_at to k @ (if k \<in> ToLower ` set ns then headers_at from k else [])"
  using assms
proof (induction ns arbitrary: to thesis)
  case Nil
  then show ?case by simp
next
  case (Cons n ns)
  obtain t1 where t1: "CopyHeaders n from to = Ok t1" "headers_ok t1"
    "\<And>k. headers_at t1 k = headers_at to k @ (if k = ToLower n then headers_at from k else [])"
    using CopyHeaders_ok [OF Cons.prems(2,3), of n] Cons.prems(4) by auto
  obtain t2 where "CopyHeaders_all ns from t1 = Ok t2" "headers_ok t2"
    "\<And>k. headers_at t2 k = headers_at t1 k @ (if k \<in> ToLower ` set ns then headers_at from k else [])"
    using Cons.IH [OF _ Cons.prems(2) t1(2)] Cons.prems(4,5) by auto
  with t1 Cons.prems(5) show ?case by (intro Cons.prems(1) [of t2]) auto
qed

lemma headers_at_empty [simp]: "headers_at empty_headers k = []"
  by (simp add: headers_at_def empty_headers_def)

lemma get_To_at: "get_To hs = (case headers_at hs ''to'' of ToHeader t # _ \<Rightarrow> Some t | _ \<Rightarrow> None)"
  by (simp add: get_To_def first_header_at split: list.split Header.split)

lemma headers_ok_get_To:
  "headers_ok hs \<Longrightarrow> get_To hs = Some t \<Longrightarrow> address_ok t"
  using headers_at_key [of hs _ "''to''"]
  by (fastforce simp: get_To_at split: list.splits Header.splits)

lemma address_ok_tag:
  assumes "address_ok t" "ah_Params t = Some p"
  shows "address_ok (t\<lparr>ah_Params := Some (Params_Add k v p)\<rparr>)"
  using assms by (auto simp: address_ok_def split: option.splits)

lemma add_to_tag_ok:
  assumes "headers_ok hs"
  obtains hs' where "add_to_tag a r hs = Ok hs'" "headers_ok hs'"
    "\<And>k. k \<noteq> ''to'' \<Longrightarrow> headers_at hs' k = headers_at hs k"
    "\<And>t. get_To hs = Some t \<Longrightarrow> \<exists>t' p. get_To hs' = Some t' \<and> ah_Params t' = Some p \<and>
        Params_Has p ''tag'' \<and> ah_Address t' = ah_Address t"
proof (cases "get_To hs")
  case None
  with assms that [of hs] show ?thesis by (simp add: add_to_tag_def)
next
  case (Some t)
  then have ok: "address_ok t" using headers_ok_get_To [OF assms] by blast
  then obtain p where p: "ah_Params t = Some p" by (rule address_okE)
  show ?thesis
  proof (cases "Params_Has p ''tag''")
    case True
    with Some p assms that [of hs] show ?thesis by (simp add: add_to_tag_def)
  next
    case False
    let ?t = "t\<lparr>ah_Params := Some (Params_Add ''tag'' (StrPtr a (RandString r True)) p)\<rparr>"
    let ?hs = "write_first ''to'' (\<lambda>_. ToHeader ?t) hs"
    have "headers_ok ?hs"
      using ok p by (intro headers_ok_write_first [OF assms]) (simp add: address_ok_tag)
    moreover have "get_To ?hs = Some ?t"
      using Some by (simp add: get_To_at write_first_at split: list.splits)
    ultimately show ?thesis
      using Some p False that [of ?hs] by (simp add: add_to_tag_def write_first_at Params_Has_def)
  qed
qed

lemma Params_Has_Add [simp]: "Params_Has (Params_Add k v p) k' \<longleftrightarrow> k' = k \<or> Params_Has p k'"
  by (simp add: Params_Has_def)

section \<open>Behaviour of bodies and responses\<close>

lemma SetBody_ok:
  assumes "headers_ok (m_headers m)"
  obtains m' where "SetBody body True m = Ok m'" "headers_ok (m_headers m')" "m_body m' = body"
    "get_ContentLength (m_headers m') = Some (of_nat (length body))"
    "\<And>k. k \<noteq> ''content-length'' \<Longrightarrow> headers_at (m_headers m') k = headers_at (m_headers m) k"
proof (cases "headers_at (m_headers m) ''content-length''")
  case Nil
  let ?h = "ContentLength (of_nat (length body))"
  obtain hs where hs: "AddHeader ?h (m_headers m) = Ok hs"
    using hm.add_total [OF assms, of ?h] by auto
  then have "headers_ok hs" "headers_at hs k = (if k = ''content-length''
      then headers_at (m_headers m) k @ [?h] else headers_at (m_headers m) k)" for k
    using hm.inv_add [OF assms _ hs] hm.get_add [OF assms _ hs] by auto
  with hs Nil that [of "m\<lparr>m_body := body, m_headers := hs\<rparr>"] show ?thesis
    by (simp add: SetBody_def GetHeaders_at get_ContentLength_def first_header_at)
next
  case (Cons h r)
  let ?hs = "write_first ''content-length'' (\<lambda>_. ContentLength (of_nat (length body))) (m_headers m)"
  have "headers_ok ?hs" by (rule headers_ok_write_first [OF assms]) simp
  with Cons that [of "m\<lparr>m_body := body, m_headers := ?hs\<rparr>"] show ?thesis
    by (simp add: SetBody_def GetHeaders_at get_ContentLength_def first_header_at write_first_at)
qed

lemma response_copied_plain:
  "\<forall>n \<in> set response_copied. \<not> auth_key (ToLower n)" "distinct (map ToLower response_copied)"
  "ToLower ` set response_copied = {''record-route'', ''via'', ''from'', ''to'', ''call-id'', ''cseq''}"
  by (simp_all add: response_copied_def auth_key_def)

lemma fill_response_ok:
  assumes ok: "headers_ok (m_headers req)"
    and d: "request_Destination req = Ok d" and s: "request_Source req = Ok s"
  obtains res' where "fill_response a r code req res = Ok res'" "headers_ok (m_headers res')"
    "\<And>k. k \<in> {''record-route'', ''via'', ''from'', ''call-id'', ''cseq''} \<Longrightarrow>
        headers_at (m_headers res') k = headers_at (m_headers req) k"
    "\<And>t. code \<noteq> 100 \<Longrightarrow> get_To (m_headers req) = Some t \<Longrightarrow>
        \<exists>t' p. get_To (m_headers res') = Some t' \<and> ah_Params t' = Some p \<and> Params_Has p ''tag''
          \<and> ah_Address t' = ah_Address t"
    "s_status res' = s_status res" "s_reason res' = s_reason res" "m_src res' = d" "m_dest res' = s"
    "m_body res' = m_body req" "m_messID res' = m_messID res" "m_sipVersion res' = m_sipVersion res"
    "\<And>k. k \<notin> {''record-route'', ''via'', ''from'', ''to'', ''call-id'', ''cseq'', ''timestamp''} \<Longrightarrow> headers_at (m_headers res') k = []"
proof -
  obtain h1 where h1: "CopyHeaders_all response_copied (m_headers req) empty_headers = Ok h1"
    "headers_ok h1"
    "\<And>k. headers_at h1 k = (if k \<in> {''record-route'', ''via'', ''from'', ''to'', ''call-id'', ''cseq''}
        then headers_at (m_headers req) k else [])"
    using CopyHeaders_all_ok [OF ok headers_ok_empty response_copied_plain(1,2)]
    by (auto simp: response_copied_plain(3))
  show thesis
  proof (cases "code = 100")
    case True
    obtain h2 where h2: "CopyHeaders ''Timestamp'' (m_headers req) h1 = Ok h2" "headers_ok h2"
      "\<And>k. headers_at h2 k = headers_at h1 k @ (if k = ''timestamp'' then headers_at (m_headers req) k else [])"
      using CopyHeaders_ok [OF ok h1(2), of "''Timestamp''"] by (auto simp: auth_key_def)
    have eq: "fill_response a r code req res =
        Ok (res\<lparr>m_headers := h2, m_body := m_body req, m_src := d, m_dest := s\<rparr>)"
      using True h1(1) h2(1) d s by (simp add: fill_response_def)
    show thesis using h1(3) h2 True by (intro that [OF eq]) auto
  next
    case False
    obtain h2 where h2: "add_to_tag a r h1 = Ok h2" "headers_ok h2"
      "\<And>k. k \<noteq> ''to'' \<Longrightarrow> headers_at h2 k = headers_at h1 k"
      "\<And>t. get_To h1 = Some t \<Longrightarrow> \<exists>t' p. get_To h2 = Some t' \<and> ah_Params t' = Some p \<and>
        Params_Has p ''tag'' \<and> ah_Address t' = ah_Address t"
      by (rule add_to_tag_ok [OF h1(2), of a r]) (rule that)
    have "get_To h1 = get_To (m_headers req)" by (simp add: get_To_at h1(3))
    moreover have eq: "fill_response a r code req res =
        Ok (res\<lparr>m_headers := h2, m_body := m_body req, m_src := d, m_dest := s\<rparr>)"
      using False h1(1) h2(1) d s by (simp add: fill_response_def)
    ultimately show thesis using h1(3) h2 by (intro that [OF eq]) auto
  qed
qed

text \<open>\<^verbatim>\<open>SetStatusCode\<close> runs after \<^verbatim>\<open>SetReason\<close>: the given reason is always overwritten.\<close>

lemma CreateResponseReason_eq:
  "CreateResponseReason uuid a r code reason req = CreateResponse uuid a r code req"
  by (simp add: CreateResponseReason_def CreateResponse_def SetStatusCode_def SetReason_def)

section \<open>Properties\<close>

text \<open>
  C18: \<^verbatim>\<open>CreateResponse\<close> on a well-formed request returns a well-formed response with the
  given status and its standard text, the \<^verbatim>\<open>Record-Route\<close>, \<^verbatim>\<open>Via\<close>, \<^verbatim>\<open>From\<close>, \<^verbatim>\<open>Call-ID\<close> and \<^verbatim>\<open>CSeq\<close>
  headers of the request, its source and destination exchanged, and, unless the status
  is 100, a tag in the \<^verbatim>\<open>To\<close> header.
\<close>

theorem CreateResponse_correct:
  assumes "headers_ok (m_headers req)"
    and "request_Destination req = Ok d" "request_Source req = Ok s"
  shows "\<exists>res. CreateResponse uuid a r code req = Ok res \<and> headers_ok (m_headers res) \<and>
    s_status res = code \<and> s_reason res = StatusText code \<and> m_src res = d \<and> m_dest res = s \<and>
    (\<forall>n \<in> {''Record-Route'', ''Via'', ''From'', ''Call-ID'', ''CSeq''}.
       GetHeaders n (m_headers res) = GetHeaders n (m_headers req)) \<and>
    (\<forall>t. code \<noteq> 100 \<and> get_To (m_headers req) = Some t \<longrightarrow>
       (\<exists>t' p. get_To (m_headers res) = Some t' \<and> ah_Params t' = Some p \<and> Params_Has p ''tag'' \<and>
          ah_Address t' = ah_Address t))"
proof -
  let ?res = "SetStatusCode code (blank_response\<lparr>m_messID := uuid, m_sipVersion := m_sipVersion req\<rparr>)"
  obtain res where res: "fill_response a r code req ?res = Ok res" "headers_ok (m_headers res)"
    "\<And>k. k \<in> {''record-route'', ''via'', ''from'', ''call-id'', ''cseq''} \<Longrightarrow>
        headers_at (m_headers res) k = headers_at (m_headers req) k"
    "\<And>t. code \<noteq> 100 \<Longrightarrow> get_To (m_headers req) = Some t \<Longrightarrow>
        \<exists>t' p. get_To (m_headers res) = Some t' \<and> ah_Params t' = Some p \<and> Params_Has p ''tag''
          \<and> ah_Address t' = ah_Address t"
    "s_status res = s_status ?res" "s_reason res = s_reason ?res" "m_src res = d" "m_dest res = s"
    by (rule fill_response_ok [OF assms, of a r code ?res]) (rule that)
  have "\<forall>n \<in> {''Record-Route'', ''Via'', ''From'', ''Call-ID'', ''CSeq''}.
       GetHeaders n (m_headers res) = GetHeaders n (m_headers req)"
    using res(3) by (simp add: GetHeaders_at)
  then show ?thesis using res by (auto simp: CreateResponse_def SetStatusCode_def)
qed

theorem CreateResponse_correct_witness:
  "\<exists>res. CreateResponse ''id'' 0 ''xxxxxxxxxx'' 200
      (blank_request\<lparr>m_headers := \<lparr>hs_headers = [(''call-id'', [CallID ''a''])], hs_headerOrder = [''call-id'']\<rparr>,
         m_src := ''1.2.3.4:5060'', m_dest := ''5.6.7.8:5060''\<rparr>) = Ok res \<and>
     s_reason res = ''OK'' \<and> GetHeaders ''Call-ID'' (m_headers res) = [CallID ''a'']"
proof -
  let ?req = "blank_request\<lparr>m_headers := \<lparr>hs_headers = [(''call-id'', [CallID ''a''])], hs_headerOrder = [''call-id'']\<rparr>,
         m_src := ''1.2.3.4:5060'', m_dest := ''5.6.7.8:5060''\<rparr>"
  have "headers_ok (m_headers ?req)" by (simp add: headers_ok_def entry_ok_def)
  moreover have "request_Destination ?req = Ok ''5.6.7.8:5060''" "request_Source ?req = Ok ''1.2.3.4:5060''"
    by (simp_all add: request_Destination_def request_Source_def)
  moreover have "StatusText 200 = ''OK''" by (simp add: StatusText_def statusTexts_def)
  ultimately obtain res where "CreateResponse ''id'' 0 ''xxxxxxxxxx'' 200 ?req = Ok res"
    "s_reason res = ''OK''" "GetHeaders ''Call-ID'' (m_headers res) = GetHeaders ''Call-ID'' (m_headers ?req)"
    using CreateResponse_correct [of ?req "''5.6.7.8:5060''" "''1.2.3.4:5060''" "''id''" 0 "''xxxxxxxxxx''" 200]
    by auto
  then show ?thesis by (simp add: GetHeaders_at headers_at_def)
qed

text \<open>
  The reason given to \<^verbatim>\<open>CreateResponseReason\<close> has no effect: the call returns what
  \<^verbatim>\<open>CreateResponse\<close> returns, with the standard text of the status code.
\<close>

theorem CreateResponseReason_ignores_reason:
  "CreateResponseReason uuid a r code reason req = CreateResponse uuid a r code req"
  by (rule CreateResponseReason_eq)

text \<open>
  \<^verbatim>\<open>SetBody\<close> with the length asked for stores the body and a \<^verbatim>\<open>Content-Length\<close> header that
  is the length of the body, for bodies below 4 GiB, whether or not the message had one.
\<close>

theorem SetBody_sets_length:
  assumes "headers_ok (m_headers m)" "length body < 2 ^ 32"
  shows "\<exists>m' n. SetBody body True m = Ok m' \<and> m_body m' = body \<and> headers_ok (m_headers m') \<and>
    get_ContentLength (m_headers m') = Some n \<and> unat n = length body"
proof -
  obtain m' where "SetBody body True m = Ok m'" "headers_ok (m_headers m')" "m_body m' = body"
    "get_ContentLength (m_headers m') = Some (of_nat (length body))"
    by (rule SetBody_ok [OF assms(1), of body]) (rule that)
  moreover have "unat (of_nat (length body) :: 32 word) = length body"
    using assms(2) by (simp add: unat_of_nat)
  ultimately show ?thesis by blast
qed

theorem SetBody_sets_length_witness:
  "\<exists>m' n. SetBody ''hello'' True blank_response = Ok m' \<and> m_body m' = ''hello'' \<and>
     get_ContentLength (m_headers m') = Some n \<and> unat n = 5"
  using SetBody_sets_length [of blank_response "''hello''"] by (auto simp: blank_response_def)

end
