(* ===== verification/Gsip_Lexer.thy ===== *)
theory Gsip_Lexer
  imports Gsip_Message
begin

text \<open>
  The lexical part of \<^verbatim>\<open>sip/parser.go\<close>: parameter lists, host and port pairs, URIs, and the
  scanners for quoted and blank-separated text. An index or slice expression of the
  source that can be out of range is a branch with the outcome \<^const>\<open>Panic\<close>.
\<close>

section \<open>Parameter lists\<close>

text \<open>The local variables of the loop of \<^verbatim>\<open>ParseParams\<close>.\<close>

record pstate =
  pp_params :: headerParams
  pp_buffer :: string
  pp_key :: string
  pp_parsingKey :: bool
  pp_inQuotes :: bool

text \<open>
  The body of the loop of \<^verbatim>\<open>ParseParams\<close> on the byte \<open>c\<close>, followed by the text \<open>cs\<close>: it goes on to
  the next byte, leaves the loop, or returns an error. The cases of the \<^verbatim>\<open>switch\<close> are tried
  in the order of the source: \<^verbatim>\<open>end\<close>, \<^verbatim>\<open>sep\<close>, the quote, the equals sign. A delimiter 0 is
  the byte 0.
\<close>

datatype pctl = Continue pstate | Break | Return gerror

definition params_switch ::
  "char \<Rightarrow> char \<Rightarrow> bool \<Rightarrow> bool \<Rightarrow> char \<Rightarrow> string \<Rightarrow> pstate \<Rightarrow> pctl" where
  "params_switch sep fin quoteValues permitSingletons c cs st =
     (if c = fin then
        (if pp_inQuotes st then Continue (st\<lparr>pp_buffer := pp_buffer st @ byte_string fin\<rparr>)
         else Break)
      else if c = sep then
        (if pp_inQuotes st then Continue (st\<lparr>pp_buffer := pp_buffer st @ byte_string sep\<rparr>)
         else if pp_parsingKey st \<and> permitSingletons
         then Continue (st\<lparr>pp_params := Params_Add (pp_buffer st) NilStr (pp_params st),
                           pp_buffer := [], pp_parsingKey := True\<rparr>)
         else if pp_parsingKey st then Return (Errorf ''singleton param'')
         else Continue (st\<lparr>pp_params := Params_Add (pp_key st) (Str (pp_buffer st)) (pp_params st),
                           pp_buffer := [], pp_parsingKey := True\<rparr>))
      else if c = QUOTE then
        (if \<not> quoteValues then Continue (st\<lparr>pp_buffer := pp_buffer st @ [QUOTE]\<rparr>)
         else if pp_parsingKey st then Return (Errorf ''unexpected quote in parameter key'')
         else if \<not> pp_inQuotes st \<and> length (pp_buffer st) \<noteq> 0
         then Return (Errorf ''unexpected quote in params'')
         else if pp_inQuotes st \<and> cs \<noteq> [] \<and> hd cs \<noteq> sep
         then Return (Errorf ''unexpected character after quoted param'')
         else Continue (st\<lparr>pp_inQuotes := \<not> pp_inQuotes st\<rparr>))
      else if c = CHR ''='' then
        (if length (pp_buffer st) = 0 then Return (Errorf ''key of length 0 in params'')
         else if \<not> pp_parsingKey st then Return (Errorf ''unexpected '=' char in value token'')
         else Continue (st\<lparr>pp_key := pp_buffer st, pp_buffer := [], pp_parsingKey := False\<rparr>))
      else if \<not> pp_inQuotes st \<and> is_abnf_ws c then Continue st
      else Continue (st\<lparr>pp_buffer := pp_buffer st @ byte_string c\<rparr>))"

text \<open>The loop; it returns the variables and the text that is left.\<close>

primrec params_loop ::
  "char \<Rightarrow> char \<Rightarrow> bool \<Rightarrow> bool \<Rightarrow> string \<Rightarrow> pstate \<Rightarrow> (pstate \<times> string) outcome" where
  "params_loop sep fin quoteValues permitSingletons [] st = Ok (st, [])"
| "params_loop sep fin quoteValues permitSingletons (c # cs) st =
     (case params_switch sep fin quoteValues permitSingletons c cs st of
        Continue st' \<Rightarrow> params_loop sep fin quoteValues permitSingletons cs st'
      | Break \<Rightarrow> Ok (st, c # cs)
      | Return e \<Rightarrow> Fail e)"

text \<open>What follows the loop: the last parameter is stored.\<close>

definition params_finish :: "bool \<Rightarrow> pstate \<Rightarrow> headerParams outcome" where
  "params_finish permitSingletons st =
     (if pp_inQuotes st then Fail (Errorf ''unclosed quotes in parameter string'')
      else if pp_parsingKey st \<and> permitSingletons
      then Ok (Params_Add (pp_buffer st) NilStr (pp_params st))
      else if pp_parsingKey st then Fail (Errorf ''singleton param'')
      else Ok (Params_Add (pp_key st) (Str (pp_buffer st)) (pp_params st)))"

definition params_start :: pstate where
  "params_start = \<lparr>pp_params = NewParams, pp_buffer = [], pp_key = [], pp_parsingKey = True,
     pp_inQuotes = False\<rparr>"

text \<open>\<^verbatim>\<open>ParseParams\<close> returns the parameters and the number of bytes consumed.\<close>

definition ParseParams ::
  "string \<Rightarrow> char \<Rightarrow> char \<Rightarrow> char \<Rightarrow> bool \<Rightarrow> bool \<Rightarrow> (headerParams \<times> nat) outcome" where
  "ParseParams source start sep fin quoteValues permitSingletons =
     (if length source = 0 then Ok (NewParams, 0)
      else if start \<noteq> NUL \<and> hd source \<noteq> start
      then Fail (Errorf ''unexpected character at start of key-value section'')
      else obind (params_loop sep fin quoteValues permitSingletons
                    (if start \<noteq> NUL then tl source else source) params_start) (\<lambda>(st, rest).
           obind (params_finish permitSingletons st) (\<lambda>params.
           Ok (params, length source - length rest))))"

section \<open>Host and port\<close>

definition ParseHostPort :: "string \<Rightarrow> (string \<times> Port option) outcome" where
  "ParseHostPort rawText =
     (case index_char (CHR '':'') rawText of
        None \<Rightarrow> Ok (rawText, None)
      | Some colonIdx \<Rightarrow>
          omap (\<lambda>portRaw64. (take colonIdx rawText, Some (of_nat portRaw64)))
            (ParseUint (drop (Suc colonIdx) rawText) 16))"

section \<open>URIs\<close>

text \<open>The user-info part of a SIP URI: user, password and the text that follows.\<close>

definition parse_userinfo :: "string \<Rightarrow> MaybeString \<times> MaybeString \<times> string" where
  "parse_userinfo uriStr =
     (case index_char (CHR ''@'') uriStr of
        None \<Rightarrow> (NilStr, NilStr, uriStr)
      | Some endOfUserInfoPart \<Rightarrow>
          (case index_char (CHR '':'') uriStr of
             Some endOfUsernamePart \<Rightarrow>
               if endOfUserInfoPart < endOfUsernamePart
               then (Str (take endOfUserInfoPart uriStr), NilStr, drop (Suc endOfUserInfoPart) uriStr)
               else (Str (take endOfUsernamePart uriStr),
                     Str (drop (Suc endOfUsernamePart) (take endOfUserInfoPart uriStr)),
                     drop (Suc endOfUserInfoPart) uriStr)
           | None \<Rightarrow> (Str (take endOfUserInfoPart uriStr), NilStr, drop (Suc endOfUserInfoPart) uriStr)))"

text \<open>The parameters and headers of a SIP URI, which follow the host and port.\<close>

definition parse_uri_tail :: "string \<Rightarrow> (headerParams \<times> headerParams) outcome" where
  "parse_uri_tail uriStr =
     (if length uriStr = 0 then Ok (NewParams, NewParams)
      else obind (if hd uriStr = CHR '';''
                  then ParseParams uriStr (CHR '';'') (CHR '';'') (CHR ''?'') True True
                  else Ok (NewParams, 0)) (\<lambda>(uriParams, n).
           let rest = drop n uriStr
           in obind (ParseParams rest (CHR ''?'') (CHR ''&'') NUL True False) (\<lambda>(hdrs, n2).
              if 0 < length (drop n2 rest) then Fail (Errorf ''parse of SIP uri ended early'')
              else Ok (uriParams, hdrs))))"

definition uri_host_end :: "string \<Rightarrow> nat" where
  "uri_host_end uriStr =
     (case index_char (CHR '';'') uriStr of
        Some i \<Rightarrow> i
      | None \<Rightarrow> (case index_char (CHR ''?'') uriStr of Some i \<Rightarrow> i | None \<Rightarrow> length uriStr))"

definition ParseSipUri :: "string \<Rightarrow> SipUri outcome" where
  "ParseSipUri uriStr0 =
     (if length uriStr0 < 3 then Panic
      else if ToLower (take 3 uriStr0) \<noteq> ''sip'' then Fail (Errorf ''invalid SIP uri protocol name'')
      else let uriStr1 = drop 3 uriStr0 in
        if uriStr1 = [] then Panic
        else
          let encrypted = (ToLower (take 1 uriStr1) = ''s'');
              uriStr2 = (if encrypted then drop 1 uriStr1 else uriStr1)
          in if uriStr2 = [] then Panic
             else if hd uriStr2 \<noteq> CHR '':'' then Fail (Errorf ''no ':' after protocol name in SIP uri'')
             else
               let (user, pass, uriStr3) = parse_userinfo (tl uriStr2);
                   n = uri_host_end uriStr3
               in obind (ParseHostPort (take n uriStr3)) (\<lambda>(host, port).
                  obind (parse_uri_tail (drop n uriStr3)) (\<lambda>(uriParams, hdrs).
                  Ok \<lparr>u_FIsEncrypted = encrypted, u_FUser = user, u_FPassword = pass,
                      u_FDomain = \<lparr>addr_Host = host, addr_Port = port\<rparr>,
                      u_FUriParams = Some uriParams, u_FHeaders = Some hdrs\<rparr>)))"

definition ParseUri :: "string \<Rightarrow> Uri outcome" where
  "ParseUri uriStr =
     (if TrimSpace uriStr = ''*'' then Ok WildcardUriPtr
      else case index_char (CHR '':'') uriStr of
        None \<Rightarrow> Fail (Errorf ''no ':' in URI'')
      | Some colonIdx \<Rightarrow>
          (let schema = ToLower (take colonIdx uriStr)
           in if schema = ''sip'' \<or> schema = ''sips'' then omap SipUriPtr (ParseSipUri uriStr)
              else Fail (Errorf ''unsupported URI schema'')))"

section \<open>Scanners\<close>

type_synonym delimiter = "char \<times> char"

definition quotesDelim :: delimiter where "quotesDelim = (QUOTE, QUOTE)"

text \<open>
  \<^verbatim>\<open>findAnyUnescaped\<close>: the state is the end character of the quotation that is open, if any;
  \<^term>\<open>None\<close> stands for -1.
\<close>

fun find_unescaped_loop :: "string \<Rightarrow> delimiter list \<Rightarrow> nat \<Rightarrow> char option \<Rightarrow> string \<Rightarrow> nat option" where
  "find_unescaped_loop targets delims idx escape [] = None"
| "find_unescaped_loop targets delims idx escape (c # cs) =
     (if escape = None \<and> contains_sub targets (byte_string c) then Some idx
      else case escape of
        Some endEscape \<Rightarrow>
          find_unescaped_loop targets delims (Suc idx) (if c \<noteq> endEscape then escape else None) cs
      | None \<Rightarrow> find_unescaped_loop targets delims (Suc idx) (map_of delims c) cs)"

definition findAnyUnescaped :: "string \<Rightarrow> string \<Rightarrow> delimiter list \<Rightarrow> nat option" where
  "findAnyUnescaped text targets delims = find_unescaped_loop targets delims 0 None text"

definition findUnescaped :: "string \<Rightarrow> char \<Rightarrow> delimiter list \<Rightarrow> nat option" where
  "findUnescaped text target delims = findAnyUnescaped text (byte_string target) delims"

text \<open>\<^verbatim>\<open>SplitByWhitespace\<close> over the runes of the text.\<close>

fun split_ws_loop :: "string list \<Rightarrow> string \<Rightarrow> bool \<Rightarrow> string list \<Rightarrow> string list" where
  "split_ws_loop [] buffer inString result =
     (if 0 < length buffer then result @ [buffer] else result)"
| "split_ws_loop (s # ss) buffer inString result =
     (if contains_sub ('' '' @ [TAB]) s then
        (if inString then split_ws_loop ss [] False (result @ [buffer])
         else split_ws_loop ss buffer False result)
      else split_ws_loop ss (buffer @ s) True result)"

definition SplitByWhitespace :: "string \<Rightarrow> string list" where
  "SplitByWhitespace text = split_ws_loop (go_runes text) [] True []"

text \<open>\<^verbatim>\<open>GetNextHeaderLine\<close>: a logical header line and the number of lines it takes.\<close>

definition starts_with_space :: "string \<Rightarrow> bool" where
  "starts_with_space s \<longleftrightarrow> list_ex (has_prefix s) space_encodings"

fun next_header_loop :: "string list \<Rightarrow> string \<Rightarrow> nat \<Rightarrow> string \<times> nat" where
  "next_header_loop [] buffer consumed = (buffer, consumed)"
| "next_header_loop (l # ls) buffer consumed =
     (if \<not> starts_with_space l then (buffer, consumed)
      else next_header_loop ls (buffer @ '' '' @ TrimSpace l) (Suc consumed))"

definition GetNextHeaderLine :: "string list \<Rightarrow> string \<times> nat" where
  "GetNextHeaderLine contents =
     (case contents of
        [] \<Rightarrow> ('''', 0)
      | l # ls \<Rightarrow> if length l = 0 then ('''', 0) else next_header_loop ls l 1)"

section \<open>No run-time panics\<close>

lemma params_loop_no_panic [simp]: "params_loop sep fin q s cs st \<noteq> Panic"
  by (induction cs arbitrary: st) (auto split: pctl.split)

lemma params_loop_suffix:
  "params_loop sep fin q s cs st = Ok (st', r) \<Longrightarrow> length r \<le> length cs"
  by (induction cs arbitrary: st) (auto split: pctl.splits intro: le_SucI)

lemma params_finish_no_panic [simp]: "params_finish s st \<noteq> Panic"
  by (simp add: params_finish_def)

lemma ParseParams_no_panic [simp]: "ParseParams src start sep fin q s \<noteq> Panic"
  by (auto simp: ParseParams_def outcome_simps)

lemma ParseHostPort_no_panic [simp]: "ParseHostPort s \<noteq> Panic"
  by (auto simp: ParseHostPort_def outcome_simps split: option.split)

lemma parse_uri_tail_no_panic [simp]: "parse_uri_tail s \<noteq> Panic"
  by (auto simp: parse_uri_tail_def outcome_simps Let_def)

lemma ToLower_append [simp]: "ToLower (a @ b) = ToLower a @ ToLower b"
  by (simp add: ToLower_def)

lemma take_ToLower: "ToLower (take n s) = take n (ToLower s)"
  by (simp add: ToLower_def take_map)

lemma ParseSipUri_panic_iff:
  "ParseSipUri s = Panic \<longleftrightarrow> length s < 3 \<or> ToLower s = ''sip'' \<or> ToLower s = ''sips''"
proof (cases "length s < 3")
  case False
  then obtain a b c r where s: "s = a # b # c # r"
    by (cases s; cases "tl s"; cases "tl (tl s)") auto
  show ?thesis
  proof (cases r)
    case Nil
    with s show ?thesis by (auto simp: ParseSipUri_def ToLower_def)
  next
    case (Cons d r')
    with s show ?thesis
      by (cases r') (auto simp: ParseSipUri_def ToLower_def Let_def outcome_simps split: prod.split)
  qed
qed (simp add: ParseSipUri_def)

text \<open>\<^verbatim>\<open>ParseUri\<close> calls it only on text with a scheme and a colon: it never panics.\<close>

lemma ParseUri_no_panic [simp]: "ParseUri s \<noteq> Panic"
proof
  assume "ParseUri s = Panic"
  then obtain i where i: "index_char (CHR '':'') s = Some i"
    and sip: "ToLower (take i s) = ''sip'' \<or> ToLower (take i s) = ''sips''"
    and "ParseSipUri s = Panic"
    by (auto simp: ParseUri_def Let_def outcome_simps split: if_splits option.splits)
  then have short: "length s < 3 \<or> ToLower s = ''sip'' \<or> ToLower s = ''sips''"
    by (simp add: ParseSipUri_panic_iff)
  have len: "i < length s" "s ! i = CHR '':''" using index_char_Some [OF i] by auto
  have "length (ToLower (take i s)) = 3 \<or> length (ToLower (take i s)) = 4"
    using sip by (elim disjE) (simp_all del: length_ToLower)
  then have "length (take i s) = 3 \<or> length (take i s) = 4" by (simp only: length_ToLower)
  with len have "4 \<le> length s" by auto
  with short have s4: "ToLower s = ''sips''" by (auto dest: arg_cong [where f = length])
  have "length (ToLower s) = 4" unfolding s4 by simp
  then have "length s = 4" by (simp only: length_ToLower)
  with len \<open>length (take i s) = 3 \<or> length (take i s) = 4\<close> have "i = 3" by auto
  with len have "ToLower s ! 3 = lower_char (CHR '':'')" by (simp add: ToLower_def)
  then have "lower_char (CHR '':'') = CHR ''s''" unfolding s4 by simp
  then show False by (simp add: lower_char_def byte_def)
qed

section \<open>Round trip of parameter lists\<close>

text \<open>
  Keys and values that survive printing and parsing: visible ASCII without the
  delimiters; a value may hold blanks, it is quoted then.
\<close>

definition token_char :: "char \<Rightarrow> char \<Rightarrow> char \<Rightarrow> bool" where
  "token_char sep fin c \<longleftrightarrow> is_graph c \<and> c \<noteq> sep \<and> c \<noteq> fin \<and> c \<noteq> QUOTE \<and> c \<noteq> CHR ''=''"

definition quoted_char :: "char \<Rightarrow> bool" where
  "quoted_char c \<longleftrightarrow> (is_graph c \<or> is_abnf_ws c) \<and> c \<noteq> QUOTE \<and> c \<noteq> CHR ''=''"

primrec param_clean :: "char \<Rightarrow> char \<Rightarrow> bool \<Rightarrow> MaybeString \<Rightarrow> bool" where
  "param_clean sep fin quoted NilStr = True"
| "param_clean sep fin quoted (Str v) =
     (list_all (token_char sep fin) v \<or> quoted \<and> contains_ws v \<and> list_all quoted_char v)"
| "param_clean sep fin quoted (StrPtr a v) = False"

definition params_clean :: "char \<Rightarrow> char \<Rightarrow> bool \<Rightarrow> headerParams \<Rightarrow> bool" where
  "params_clean sep fin quoted p \<longleftrightarrow>
     params_ok p \<and>
     list_all (\<lambda>(k, v). k \<noteq> [] \<and> list_all (token_char sep fin) k \<and> param_clean sep fin quoted v)
       (hp_params p)"

lemma token_char_graph: "token_char sep fin c \<Longrightarrow> is_graph c"
  by (simp add: token_char_def)

lemma token_no_ws: "list_all (token_char sep fin) v \<Longrightarrow> \<not> contains_ws v"
  by (induction v) (auto simp: contains_ws_def token_char_def)

lemma quoted_byte_string [simp]: "quoted_char c \<Longrightarrow> byte_string c = [c]"
  by (auto simp: quoted_char_def is_abnf_ws_def byte_string_def is_graph_def byte_def TAB_def)

lemma loop_token:
  "list_all (token_char sep fin) ks \<Longrightarrow> \<not> pp_inQuotes st \<Longrightarrow>
     params_loop sep fin q s (ks @ r) st = params_loop sep fin q s r (st\<lparr>pp_buffer := pp_buffer st @ ks\<rparr>)"
  by (induction ks arbitrary: st) (simp_all add: params_switch_def token_char_def)

lemma loop_quoted:
  "list_all quoted_char v \<Longrightarrow> pp_inQuotes st \<Longrightarrow> sep \<noteq> QUOTE \<Longrightarrow> fin \<noteq> QUOTE \<Longrightarrow>
     params_loop sep fin q s (v @ r) st = params_loop sep fin q s r (st\<lparr>pp_buffer := pp_buffer st @ v\<rparr>)"
proof (induction v arbitrary: st)
  case (Cons c v)
  then have "c \<noteq> QUOTE" "c \<noteq> CHR ''=''" "byte_string c = [c]" by (auto simp: quoted_char_def)
  with Cons show ?case by (auto simp: params_switch_def)
qed simp

text \<open>The variables after a parameter has been read and before it is stored.\<close>

definition pending :: "headerParams \<Rightarrow> string \<Rightarrow> string \<Rightarrow> MaybeString \<Rightarrow> pstate" where
  "pending p k0 k v =
     (case v of
        NilStr \<Rightarrow> \<lparr>pp_params = p, pp_buffer = k, pp_key = k0, pp_parsingKey = True, pp_inQuotes = False\<rparr>
      | Str w \<Rightarrow> \<lparr>pp_params = p, pp_buffer = w, pp_key = k, pp_parsingKey = False, pp_inQuotes = False\<rparr>
      | StrPtr a w \<Rightarrow> \<lparr>pp_params = p, pp_buffer = w, pp_key = k, pp_parsingKey = False, pp_inQuotes = False\<rparr>)"

definition fresh :: "headerParams \<Rightarrow> string \<Rightarrow> pstate" where
  "fresh p k0 = \<lparr>pp_params = p, pp_buffer = [], pp_key = k0, pp_parsingKey = True, pp_inQuotes = False\<rparr>"

definition good_delims :: "char \<Rightarrow> char \<Rightarrow> bool" where
  "good_delims sep fin \<longleftrightarrow> sep \<noteq> fin \<and> sep \<noteq> QUOTE \<and> fin \<noteq> QUOTE \<and> sep \<noteq> CHR ''='' \<and> fin \<noteq> CHR ''=''"

lemma switch_equals:
  "good_delims sep fin \<Longrightarrow> pp_buffer st \<noteq> [] \<Longrightarrow> pp_parsingKey st \<Longrightarrow>
     params_switch sep fin q s (CHR ''='') cs st =
       Continue (st\<lparr>pp_key := pp_buffer st, pp_buffer := [], pp_parsingKey := False\<rparr>)"
  by (auto simp: params_switch_def good_delims_def QUOTE_def)

lemma switch_open:
  "good_delims sep fin \<Longrightarrow> \<not> pp_inQuotes st \<Longrightarrow> \<not> pp_parsingKey st \<Longrightarrow> pp_buffer st = [] \<Longrightarrow>
     params_switch sep fin True s QUOTE cs st = Continue (st\<lparr>pp_inQuotes := True\<rparr>)"
  by (auto simp: params_switch_def good_delims_def)

lemma switch_close:
  "good_delims sep fin \<Longrightarrow> pp_inQuotes st \<Longrightarrow> \<not> pp_parsingKey st \<Longrightarrow> cs = [] \<or> hd cs = sep \<Longrightarrow>
     params_switch sep fin True s QUOTE cs st = Continue (st\<lparr>pp_inQuotes := False\<rparr>)"
  by (auto simp: params_switch_def good_delims_def)

lemma loop_one_param:
  assumes d: "good_delims sep fin" and k: "k \<noteq> []" "list_all (token_char sep fin) k"
    and v: "param_clean sep fin qd v" and r: "qd \<Longrightarrow> r = [] \<or> hd r = sep"
  shows "params_loop sep fin True s (k @ param_value_text v @ r) (fresh p k0) =
    params_loop sep fin True s r (pending p k0 k v)"
proof (cases v)
  case NilStr
  then show ?thesis using k by (simp add: param_value_text_def loop_token fresh_def pending_def)
next
  case (Str w)
  show ?thesis
  proof (cases "contains_ws w")
    case False
    with Str v have "list_all (token_char sep fin) w" by auto
    with Str False k d show ?thesis
      by (simp add: param_value_text_def loop_token fresh_def pending_def switch_equals)
  next
    case True
    with Str v have w: "qd" "list_all quoted_char w" using token_no_ws by auto
    have "sep \<noteq> QUOTE" "fin \<noteq> QUOTE" using d by (auto simp: good_delims_def)
    with Str True k d w r [OF w(1)] show ?thesis
      by (simp add: param_value_text_def loop_token loop_quoted fresh_def pending_def switch_equals
          switch_open switch_close)
  qed
next
  case (StrPtr a w)
  with v show ?thesis by simp
qed

lemma switch_sep:
  assumes "good_delims sep fin" "param_clean sep fin qd v" "v = NilStr \<Longrightarrow> s"
  shows "\<exists>k1. \<forall>cs. params_switch sep fin q s sep cs (pending p k0 k v) = Continue (fresh (Params_Add k v p) k1)"
  using assms by (cases v) (auto simp: params_switch_def good_delims_def pending_def fresh_def)

lemma finish_pending:
  "param_clean sep fin qd v \<Longrightarrow> (v = NilStr \<Longrightarrow> s) \<Longrightarrow>
     params_finish s (pending p k0 k v) = Ok (Params_Add k v p)"
  by (cases v) (auto simp: params_finish_def pending_def)

text \<open>The printed bindings, and the loop over them.\<close>

fun print_params :: "char \<Rightarrow> (string \<times> MaybeString) list \<Rightarrow> string" where
  "print_params sep [] = []"
| "print_params sep [(k, v)] = k @ param_value_text v"
| "print_params sep ((k, v) # kvs) = k @ param_value_text v @ [sep] @ print_params sep kvs"

lemma print_params_Cons:
  "kvs \<noteq> [] \<Longrightarrow> print_params sep ((k, v) # kvs) = k @ param_value_text v @ [sep] @ print_params sep kvs"
  by (cases kvs) auto

lemma ToString_loop_print:
  assumes "params_ok p" "set kvs \<subseteq> set (hp_params p)" "kvs \<noteq> []"
  shows "Params_ToString_loop sep p first (map fst kvs) =
    (if first then [] else [sep]) @ print_params sep kvs"
  using assms(2,3)
proof (induction kvs arbitrary: first)
  case (Cons kv kvs)
  obtain k v where kv: "kv = (k, v)" by force
  with Cons.prems assms(1) have "Params_Get p k = Some v"
    by (simp add: Params_Get_def params_ok_def)
  with Cons kv show ?case by (cases kvs) (auto simp: print_params_Cons)
qed simp

lemma Params_ToString_print:
  "params_ok p \<Longrightarrow> hp_params p \<noteq> [] \<Longrightarrow> Params_ToString sep p = print_params sep (hp_params p)"
  using ToString_loop_print [of p "hp_params p" sep True]
  by (simp add: Params_ToString_def Params_Keys_def params_ok_def)

lemma loop_params:
  assumes d: "good_delims sep fin" and r: "r = [] \<or> hd r = fin \<and> \<not> qd"
    and "list_all (\<lambda>(k, v). k \<noteq> [] \<and> list_all (token_char sep fin) k \<and> param_clean sep fin qd v) kvs"
    and "kvs \<noteq> []" and sing: "\<forall>(k, v) \<in> set kvs. v = NilStr \<longrightarrow> s"
  shows "\<exists>st. params_loop sep fin True s (print_params sep kvs @ r) (fresh p k0) = Ok (st, r) \<and>
    params_finish s st = Ok (ps.add_all kvs p)"
  using assms(3-5)
proof (induction kvs arbitrary: p k0)
  case (Cons kv kvs)
  obtain k v where kv: "kv = (k, v)" by force
  with Cons.prems have k: "k \<noteq> []" "list_all (token_char sep fin) k" and v: "param_clean sep fin qd v"
    and s: "v = NilStr \<Longrightarrow> s" by auto
  show ?case
  proof (cases "kvs = []")
    case True
    have stop: "params_loop sep fin True s r (pending p k0 k v) = Ok (pending p k0 k v, r)"
    proof (cases r)
      case (Cons c cs)
      with r have "c = fin" by simp
      moreover have "\<not> pp_inQuotes (pending p k0 k v)" by (simp add: pending_def split: MaybeString.split)
      ultimately show ?thesis using Cons by (simp add: params_switch_def)
    qed simp
    have "params_loop sep fin True s (k @ param_value_text v @ r) (fresh p k0) =
        params_loop sep fin True s r (pending p k0 k v)"
      using r by (intro loop_one_param [OF d k v]) auto
    with True kv stop finish_pending [OF v s] show ?thesis by simp
  next
    case False
    obtain k1 where "params_switch sep fin True s sep cs (pending p k0 k v) =
        Continue (fresh (Params_Add k v p) k1)" for cs
      using switch_sep [OF d v s, of True p k0 k] by blast
    then show ?thesis using False kv Cons
      by (simp add: print_params_Cons loop_one_param [OF d k v])
  qed
qed simp

lemma ParseParams_print:
  assumes "good_delims sep fin" "params_clean sep fin qd p" "hp_params p \<noteq> []"
    and r: "r = [] \<or> hd r = fin \<and> \<not> qd" and "start \<noteq> NUL"
    and sing: "\<forall>(k, v) \<in> set (hp_params p). v = NilStr \<longrightarrow> s"
  shows "ParseParams (start # Params_ToString sep p @ r) start sep fin True s =
    Ok (p, Suc (length (Params_ToString sep p)))"
proof -
  have ok: "params_ok p" using assms(2) by (simp add: params_clean_def)
  obtain st where "params_loop sep fin True s (print_params sep (hp_params p) @ r) (fresh NewParams []) = Ok (st, r)"
    "params_finish s st = Ok (ps.add_all (hp_params p) NewParams)"
    using loop_params [OF assms(1) r, of "hp_params p" s NewParams "[]"] assms(2,3) sing
    by (auto simp: params_clean_def)
  moreover have "ps.add_all (hp_params p) NewParams = p"
    using Params_Copy_eq_add_all [OF ok] Params_Copy_id [OF ok] by simp
  ultimately show ?thesis using assms
    by (simp add: ParseParams_def params_start_def fresh_def Params_ToString_print [OF ok])
qed

section \<open>Round trips of host and port and of URIs\<close>

lemma ParseHostPort_print:
  assumes "CHR '':'' \<notin> set (addr_Host a)"
  shows "ParseHostPort (Addr_String a) = Ok (addr_Host a, addr_Port a)"
proof (cases "addr_Port a")
  case None
  with assms show ?thesis by (simp add: ParseHostPort_def Addr_String_def)
next
  case (Some p)
  have "index_char (CHR '':'') (addr_Host a @ CHR '':'' # port_text p) = Some (length (addr_Host a))"
    using assms by (rule index_char_append)
  with Some show ?thesis by (simp add: ParseHostPort_def Addr_String_def ParseUint_port_text)
qed

text \<open>The text that follows host and port in a printed URI.\<close>

definition uri_tail_text :: "headerParams \<Rightarrow> headerParams \<Rightarrow> string" where
  "uri_tail_text p h =
     params_section '';'' (CHR '';'') (Some p) @ params_section ''?'' (CHR ''&'') (Some h)"

definition uri_char :: "char \<Rightarrow> bool" where
  "uri_char c \<longleftrightarrow> is_graph c \<and> c \<noteq> CHR '':'' \<and> c \<noteq> CHR '';'' \<and> c \<noteq> CHR ''?'' \<and> c \<noteq> CHR ''@''"

definition user_char :: "char \<Rightarrow> bool" where
  "user_char c \<longleftrightarrow> is_graph c \<and> c \<noteq> CHR '':'' \<and> c \<noteq> CHR ''@''"

text \<open>
  The URIs whose printed form denotes them: visible ASCII without the delimiters of the
  part it stands in, no quoted values, header values present, and no \<^verbatim>\<open>@\<close> behind the host
  of a URI without user.
\<close>

definition userinfo_clean :: "MaybeString \<Rightarrow> MaybeString \<Rightarrow> bool" where
  "userinfo_clean user pass \<longleftrightarrow>
     (case user of
        NilStr \<Rightarrow> pass = NilStr
      | Str u \<Rightarrow> u \<noteq> [] \<and> list_all user_char u \<and>
          (case pass of NilStr \<Rightarrow> True
           | Str w \<Rightarrow> w \<noteq> [] \<and> list_all (\<lambda>c. is_graph c \<and> c \<noteq> CHR ''@'') w
           | _ \<Rightarrow> False)
      | _ \<Rightarrow> False)"

definition uri_clean :: "SipUri \<Rightarrow> bool" where
  "uri_clean u \<longleftrightarrow>
     (case (u_FUriParams u, u_FHeaders u) of
        (Some p, Some h) \<Rightarrow>
          params_clean (CHR '';'') (CHR ''?'') False p \<and> params_clean (CHR ''&'') NUL False h \<and>
          list_all (\<lambda>(k, v). v \<noteq> NilStr) (hp_params h) \<and>
          CHR '';'' \<notin> set (params_section ''?'' (CHR ''&'') (Some h)) \<and>
          (u_FUser u = NilStr \<longrightarrow> CHR ''@'' \<notin> set (uri_tail_text p h))
      | _ \<Rightarrow> False) \<and>
     list_all uri_char (addr_Host (u_FDomain u)) \<and>
     userinfo_clean (u_FUser u) (u_FPassword u)"

lemma good_delims_uri [simp]: "good_delims (CHR '';'') (CHR ''?'')" "good_delims (CHR ''&'') NUL"
  by (simp_all add: good_delims_def QUOTE_def NUL_def)

lemma section_none: "hp_params p = [] \<Longrightarrow> params_section i c (Some p) = []"
  by (simp add: params_section_def Params_Length_def)

lemma section_some:
  "hp_params p \<noteq> [] \<Longrightarrow> params_section i c (Some p) = i @ Params_ToString c p"
  by (simp add: params_section_def Params_Length_def)

lemma params_clean_empty: "params_clean sep fin qd p \<Longrightarrow> hp_params p = [] \<Longrightarrow> p = NewParams"
  by (cases p) (auto simp: params_clean_def params_ok_def NewParams_def)

lemma parse_headers_print:
  assumes "params_clean (CHR ''&'') NUL False h" "list_all (\<lambda>(k, v). v \<noteq> NilStr) (hp_params h)"
  shows "ParseParams (params_section ''?'' (CHR ''&'') (Some h)) (CHR ''?'') (CHR ''&'') NUL True False =
    Ok (h, length (params_section ''?'' (CHR ''&'') (Some h)))"
proof (cases "hp_params h = []")
  case True
  with params_clean_empty [OF assms(1)] show ?thesis by (simp add: section_none ParseParams_def)
next
  case False
  then show ?thesis
    using ParseParams_print [OF good_delims_uri(2) assms(1) False, of "[]" "CHR ''?''" False] assms(2)
    by (auto simp: section_some NUL_def list_all_iff)
qed

lemma parse_uri_tail_print:
  assumes "params_clean (CHR '';'') (CHR ''?'') False p" "params_clean (CHR ''&'') NUL False h"
    and "list_all (\<lambda>(k, v). v \<noteq> NilStr) (hp_params h)"
  shows "parse_uri_tail (uri_tail_text p h) = Ok (p, h)"
proof (cases "hp_params p = []")
  case True
  then have p: "p = NewParams" using assms(1) params_clean_empty by blast
  show ?thesis
  proof (cases "hp_params h = []")
    case True
    with p \<open>hp_params p = []\<close> params_clean_empty [OF assms(2)] show ?thesis
      by (simp add: parse_uri_tail_def uri_tail_text_def section_none)
  next
    case False
    have "uri_tail_text p h = CHR ''?'' # Params_ToString (CHR ''&'') h"
      using False \<open>hp_params p = []\<close> by (simp add: uri_tail_text_def section_none section_some)
    with False p parse_headers_print [OF assms(2,3)] show ?thesis
      by (simp add: parse_uri_tail_def section_some)
  qed
next
  case False
  let ?h = "params_section ''?'' (CHR ''&'') (Some h)"
  have "?h = [] \<or> hd ?h = CHR ''?'' \<and> \<not> False" by (simp add: params_section_def)
  then have "ParseParams (CHR '';'' # Params_ToString (CHR '';'') p @ ?h) (CHR '';'') (CHR '';'') (CHR ''?'') True True =
      Ok (p, Suc (length (Params_ToString (CHR '';'') p)))"
    using assms(1) False by (intro ParseParams_print) (auto simp: NUL_def)
  with False parse_headers_print [OF assms(2,3)] show ?thesis
    by (simp add: parse_uri_tail_def uri_tail_text_def section_some)
qed

lemma parse_userinfo_print:
  assumes "userinfo_clean (u_FUser u) (u_FPassword u)"
    and "u_FUser u = NilStr \<Longrightarrow> CHR ''@'' \<notin> set rest"
  shows "parse_userinfo (SipUri_userinfo u @ rest) = (u_FUser u, u_FPassword u, rest)"
proof (cases "u_FUser u")
  case NilStr
  with assms show ?thesis
    by (simp add: parse_userinfo_def SipUri_userinfo_def userinfo_clean_def)
next
  case (Str us)
  then have us: "us \<noteq> []" "CHR ''@'' \<notin> set us" "CHR '':'' \<notin> set us"
    using assms(1) by (auto simp: userinfo_clean_def list_all_iff user_char_def)
  show ?thesis
  proof (cases "u_FPassword u")
    case NilStr
    have "index_char (CHR ''@'') (us @ CHR ''@'' # rest) = Some (length us)"
      using us by (intro index_char_append)
    moreover have "index_char (CHR '':'') (us @ CHR ''@'' # rest) =
        map_option (\<lambda>i. length us + Suc i) (index_char (CHR '':'') rest)"
      using us by (simp add: index_char_append_notin option.map_comp comp_def)
    ultimately show ?thesis using Str NilStr us
      by (simp add: parse_userinfo_def SipUri_userinfo_def split: option.split)
  next
    case (Str pw)
    then have pw: "pw \<noteq> []" "CHR ''@'' \<notin> set pw"
      using assms(1) \<open>u_FUser u = Str us\<close> by (auto simp: userinfo_clean_def list_all_iff)
    have "index_char (CHR ''@'') ((us @ CHR '':'' # pw) @ CHR ''@'' # rest) = Some (length (us @ CHR '':'' # pw))"
      using us pw by (intro index_char_append) auto
    moreover have "index_char (CHR '':'') (us @ CHR '':'' # (pw @ CHR ''@'' # rest)) = Some (length us)"
      using us by (intro index_char_append)
    ultimately show ?thesis using Str \<open>u_FUser u = Str us\<close> us pw
      by (simp add: parse_userinfo_def SipUri_userinfo_def)
  next
    case (StrPtr a w)
    with assms(1) Str show ?thesis by (simp add: userinfo_clean_def)
  qed
next
  case (StrPtr a w)
  with assms(1) show ?thesis by (simp add: userinfo_clean_def)
qed

lemma uri_host_end_print:
  assumes "CHR '';'' \<notin> set d" "CHR ''?'' \<notin> set d"
    and "CHR '';'' \<notin> set (params_section ''?'' (CHR ''&'') (Some h))"
  shows "uri_host_end (d @ uri_tail_text p h) = length d"
proof (cases "hp_params p = []")
  case False
  then show ?thesis using assms
    by (simp add: uri_host_end_def uri_tail_text_def section_some index_char_append)
next
  case True
  then have no_semi: "index_char (CHR '';'') (d @ uri_tail_text p h) = None"
    using assms by (auto simp: uri_tail_text_def section_none)
  show ?thesis
  proof (cases "hp_params h = []")
    case False
    with True assms(2) have "index_char (CHR ''?'') (d @ uri_tail_text p h) = Some (length d)"
      by (simp add: uri_tail_text_def section_none section_some index_char_append)
    with no_semi show ?thesis by (simp add: uri_host_end_def)
  next
    case True
    with \<open>hp_params p = []\<close> assms have "uri_tail_text p h = []" by (simp add: uri_tail_text_def section_none)
    with assms show ?thesis by (simp add: uri_host_end_def)
  qed
qed

lemma ParseSipUri_print:
  assumes "uri_clean u"
  shows "ParseSipUri (SipUri_String u) = Ok u"
proof -
  obtain p h where ph: "u_FUriParams u = Some p" "u_FHeaders u = Some h"
    "params_clean (CHR '';'') (CHR ''?'') False p" "params_clean (CHR ''&'') NUL False h"
    "list_all (\<lambda>(k, v). v \<noteq> NilStr) (hp_params h)"
    "CHR '';'' \<notin> set (params_section ''?'' (CHR ''&'') (Some h))"
    "u_FUser u = NilStr \<longrightarrow> CHR ''@'' \<notin> set (uri_tail_text p h)"
    using assms by (auto simp: uri_clean_def split: option.splits)
  have ui: "userinfo_clean (u_FUser u) (u_FPassword u)" using assms by (simp add: uri_clean_def)
  let ?d = "Addr_String (u_FDomain u)"
  have host: "\<forall>c \<in> set (addr_Host (u_FDomain u)). uri_char c"
    using assms by (simp add: uri_clean_def list_all_iff)
  have d: "CHR '';'' \<notin> set ?d" "CHR ''?'' \<notin> set ?d" "CHR ''@'' \<notin> set ?d"
    using host by (auto simp: Addr_String_def uri_char_def split: option.splits)
  have hp: "ParseHostPort ?d = Ok (addr_Host (u_FDomain u), addr_Port (u_FDomain u))"
    using host by (intro ParseHostPort_print) (auto simp: uri_char_def)
  let ?rest = "?d @ uri_tail_text p h"
  have str: "SipUri_String u =
      (if u_FIsEncrypted u then ''sips:'' else ''sip:'') @ SipUri_userinfo u @ ?rest"
    using ph by (simp add: SipUri_String_def uri_tail_text_def)
  have pu: "parse_userinfo (SipUri_userinfo u @ ?rest) = (u_FUser u, u_FPassword u, ?rest)"
    using ui d ph(7) by (intro parse_userinfo_print) auto
  have he: "uri_host_end ?rest = length ?d" using d ph(6) by (intro uri_host_end_print)
  have lower: "ToLower ''sip'' = ''sip''" "ToLower ''s'' = ''s''" "ToLower '':'' = '':''" by code_simp+
  show ?thesis
    using ph lower unfolding str
    by (cases "u_FIsEncrypted u")
      (simp_all add: ParseSipUri_def pu he hp parse_uri_tail_print)
qed

lemma trim_with_last:
  "\<forall>e \<in> set es. c \<notin> set e \<Longrightarrow> \<exists>y. trim_with es (x @ [c]) = y @ [c]"
proof (induction es "x @ [c]" arbitrary: x rule: trim_with.induct)
  case (1 es)
  show ?case
  proof (cases "find (\<lambda>e. e \<noteq> [] \<and> has_prefix (x @ [c]) e) es")
    case None
    then show ?thesis by (subst trim_with.simps) auto
  next
    case (Some e)
    then have e: "e \<in> set es" "has_prefix (x @ [c]) e"
      by (metis (no_types, lifting) find_Some_iff nth_mem)+
    then obtain u where u: "x @ [c] = e @ u" by (auto simp: has_prefix_iff)
    have "u \<noteq> []" using u e(1) "1.prems" by (metis append_Nil2 in_set_conv_decomp)
    then obtain v where v: "u = v @ [c]" using u by (metis append_butlast_last_id last_appendR last_snoc)
    with u have "drop (length e) (x @ [c]) = v @ [c]" by simp
    with 1(1) [OF Some] "1.prems" Some show ?thesis by (subst trim_with.simps) auto
  qed
qed

text \<open>Trimming never reaches a visible first character.\<close>

lemma TrimSpace_hd:
  assumes "is_graph c" shows "\<exists>s'. TrimSpace (c # s) = c # s'"
proof -
  have "trim_with space_encodings (c # s) = c # s"
  proof (intro trim_with_stop ballI disjI2 notI)
    fix e assume e: "e \<in> set space_encodings" "has_prefix (c # s) e"
    then have "e \<noteq> []" using space_encodings_first by blast
    with e(2) have "c \<in> set e" by (cases e) (auto simp: has_prefix_def)
    with e(1) assms show False using space_encodings_no_graph by blast
  qed
  moreover obtain y where "trim_with (map rev space_encodings) (rev s @ [c]) = y @ [c]"
    using trim_with_last [of "map rev space_encodings" c "rev s"] space_encodings_no_graph assms by auto
  ultimately show ?thesis by (simp add: TrimSpace_def)
qed

lemma ParseUri_print:
  assumes "uri_clean u"
  shows "ParseUri (SipUri_String u) = Ok (SipUriPtr u)"
proof -
  have lower: "ToLower ''sip'' = ''sip''" "ToLower ''sips'' = ''sips''" by code_simp+
  obtain rest where str: "SipUri_String u = (if u_FIsEncrypted u then ''sips:'' else ''sip:'') @ rest"
    by (simp add: SipUri_String_def)
  then obtain rest' where "SipUri_String u = CHR ''s'' # rest'" by (cases "u_FIsEncrypted u") auto
  moreover have "is_graph (CHR ''s'')" by (simp add: is_graph_def byte_def)
  ultimately have "TrimSpace (SipUri_String u) \<noteq> ''*''"
    using TrimSpace_hd [of "CHR ''s''" rest'] by auto
  moreover have "index_char (CHR '':'') (SipUri_String u) = Some (if u_FIsEncrypted u then 4 else 3)"
    unfolding str by simp
  ultimately show ?thesis using ParseSipUri_print [OF assms] str lower
    by (simp add: ParseUri_def split: if_splits)
qed

section \<open>Properties\<close>

text \<open>
  Printing a parameter collection and parsing the text returns the collection, for keys
  and values of visible ASCII characters without the delimiters; a value with blanks is
  written between quotes and read back.
\<close>

theorem ParseParams_roundtrip:
  assumes "good_delims sep fin" "params_clean sep fin True p" "0 < Params_Length p" "start \<noteq> NUL"
  shows "ParseParams (start # Params_ToString sep p) start sep fin True True =
    Ok (p, Suc (length (Params_ToString sep p)))"
  using ParseParams_print [OF assms(1,2), of "[]" start True] assms(3,4)
  by (auto simp: Params_Length_def)

theorem ParseParams_roundtrip_witness:
  "ParseParams (CHR '';'' # Params_ToString (CHR '';'')
       \<lparr>hp_params = [(''lr'', NilStr), (''q'', Str ''a b'')], hp_paramOrder = [''lr'', ''q'']\<rparr>)
     (CHR '';'') (CHR '';'') (CHR ''?'') True True =
   Ok (\<lparr>hp_params = [(''lr'', NilStr), (''q'', Str ''a b'')], hp_paramOrder = [''lr'', ''q'']\<rparr>, 11)"
proof -
  let ?p = "\<lparr>hp_params = [(''lr'', NilStr), (''q'', Str ''a b'')], hp_paramOrder = [''lr'', ''q'']\<rparr>"
  have "params_clean (CHR '';'') (CHR ''?'') True ?p"
    by (simp add: params_clean_def params_ok_def token_char_def quoted_char_def contains_ws_def
        is_abnf_ws_def is_graph_def byte_def QUOTE_def)
  moreover have "length (Params_ToString (CHR '';'') ?p) = 10"
    by (simp add: Params_ToString_def Params_Keys_def Params_Get_def param_value_text_def
        contains_ws_def is_abnf_ws_def)
  moreover have "0 < Params_Length ?p" by (simp add: Params_Length_def)
  moreover have "CHR '';'' \<noteq> NUL" by (simp add: NUL_def)
  ultimately show ?thesis
    using ParseParams_roundtrip [of "CHR '';''" "CHR ''?''" ?p "CHR '';''"] by simp
qed

text \<open>
  C19: Parsing a printed SIP or SIPS URI returns the URI: user, password, host, port,
  parameters and headers are all recovered.
\<close>

theorem ParseUri_roundtrip:
  assumes "uri_clean u"
  shows "ParseUri (Uri_String (SipUriPtr u)) = Ok (SipUriPtr u)"
  using ParseUri_print [OF assms] by simp

theorem ParseUri_roundtrip_witness:
  "ParseUri ''sips:bob:pw@example.com:5061;lr?a=b'' =
     Ok (SipUriPtr \<lparr>u_FIsEncrypted = True, u_FUser = Str ''bob'', u_FPassword = Str ''pw'',
       u_FDomain = \<lparr>addr_Host = ''example.com'', addr_Port = Some 5061\<rparr>,
       u_FUriParams = Some \<lparr>hp_params = [(''lr'', NilStr)], hp_paramOrder = [''lr'']\<rparr>,
       u_FHeaders = Some \<lparr>hp_params = [(''a'', Str ''b'')], hp_paramOrder = [''a'']\<rparr>\<rparr>)"
proof -
  let ?u = "\<lparr>u_FIsEncrypted = True, u_FUser = Str ''bob'', u_FPassword = Str ''pw'',
       u_FDomain = \<lparr>addr_Host = ''example.com'', addr_Port = Some 5061\<rparr>,
       u_FUriParams = Some \<lparr>hp_params = [(''lr'', NilStr)], hp_paramOrder = [''lr'']\<rparr>,
       u_FHeaders = Some \<lparr>hp_params = [(''a'', Str ''b'')], hp_paramOrder = [''a'']\<rparr>\<rparr>"
  have "uri_clean ?u"
    by (simp add: uri_clean_def userinfo_clean_def params_clean_def params_ok_def token_char_def
        uri_char_def user_char_def is_graph_def byte_def QUOTE_def NUL_def params_section_def
        Params_Length_def Params_ToString_def Params_Keys_def Params_Get_def param_value_text_def
        contains_ws_def is_abnf_ws_def TAB_def)
  moreover have "port_text 5061 = ''5061''"
    by (simp add: port_text_def show_nat.simps digit_char_def char_of_def bit_Suc_0_iff)
  then have "Uri_String (SipUriPtr ?u) = ''sips:bob:pw@example.com:5061;lr?a=b''"
    by (simp add: SipUri_String_def SipUri_userinfo_def Addr_String_def params_section_def
        Params_Length_def Params_ToString_def Params_Keys_def Params_Get_def param_value_text_def
        contains_ws_def is_abnf_ws_def TAB_def)
  ultimately show ?thesis using ParseUri_roundtrip [of ?u] by simp
qed

text \<open>
  C40: \<^verbatim>\<open>ParseUri\<close> returns a URI or an error on every text, although \<^verbatim>\<open>ParseSipUri\<close>, which it calls,
  panics on exactly the texts shorter than three bytes and on the bare scheme names.
\<close>

theorem ParseUri_total:
  "ParseUri s \<noteq> Panic \<and>
   (ParseSipUri s = Panic \<longleftrightarrow> length s < 3 \<or> ToLower s = ''sip'' \<or> ToLower s = ''sips'')"
  by (simp add: ParseSipUri_panic_iff)

end
