(* ===== verification/Gsip_Parser.thy ===== *)
theory Gsip_Parser
  imports Gsip_Lexer
begin

text \<open>
  The header and start-line parsers of \<^verbatim>\<open>sip/parser.go\<close> and \<^verbatim>\<open>sip/auth.go\<close>. An error that the
  source returns beside other results is the outcome \<^const>\<open>Fail\<close>: every caller drops the
  other results when the error is not nil.
\<close>

section \<open>Addresses\<close>

text \<open>
  \<^verbatim>\<open>ParseAddressValue\<close>. The text is empty after trimming when the address is all blanks:
  \<^verbatim>\<open>addressText[0]\<close> is out of range then. An opening angle bracket without a closing one
  gives the slice \<^verbatim>\<open>addressText[:-1]\<close>: the source tests the index for 0 instead of -1.
\<close>

definition address_display :: "string \<Rightarrow> (MaybeString \<times> string) outcome" where
  "address_display addressText =
     (case findUnescaped addressText (CHR ''<'') [quotesDelim] of
        Some firstAngleBracket \<Rightarrow>
          if 0 < firstAngleBracket then
            (if hd addressText = QUOTE then
               (case index_char QUOTE (tl addressText) of
                  None \<Rightarrow> Fail (Errorf ''unclosed quotes in header text'')
                | Some nextQuote \<Rightarrow>
                    Ok (Str (take nextQuote (tl addressText)), drop (Suc nextQuote) (tl addressText)))
             else
               Ok (Str (TrimSpace (take firstAngleBracket addressText)),
                   drop firstAngleBracket addressText))
          else Ok (NilStr, addressText)
      | None \<Rightarrow> Ok (NilStr, addressText))"

text \<open>The bounds of the URI: its text and the text of the parameters.\<close>

definition address_bounds :: "MaybeString \<Rightarrow> string \<Rightarrow> (string \<times> string) outcome" where
  "address_bounds displayName addressText =
     (if addressText = [] then Panic
      else if hd addressText \<noteq> CHR ''<'' then
        (if displayName \<noteq> NilStr then Fail (Errorf ''invalid character following display name'')
         else let endOfUri = (case index_char (CHR '';'') addressText of
                                Some i \<Rightarrow> i | None \<Rightarrow> length addressText)
              in Ok (take endOfUri addressText, drop endOfUri addressText))
      else
        (case index_char (CHR ''>'') (tl addressText) of
           None \<Rightarrow> Panic
         | Some endOfUri \<Rightarrow>
             if endOfUri = 0 then Fail (Errorf ''unclosed angle bracket in address'')
             else Ok (take endOfUri (tl addressText), drop (Suc endOfUri) (tl addressText))))"

definition ParseAddressValue :: "string \<Rightarrow> (MaybeString \<times> Uri \<times> headerParams) outcome" where
  "ParseAddressValue addressText =
     (if length addressText = 0 then Fail (Errorf ''address-type header has empty body'')
      else
        obind (address_display (TrimSpace addressText)) (\<lambda>(displayName, text).
        obind (address_bounds displayName (TrimSpace text)) (\<lambda>(uriText, paramText).
        obind (ParseUri uriText) (\<lambda>uri.
        if length paramText = 0 then Ok (displayName, uri, NewParams)
        else obind (ParseParams paramText (CHR '';'') (CHR '';'') (CHR '','') True True) (\<lambda>(params, n).
             Ok (displayName, uri, params))))))"

text \<open>
  \<^verbatim>\<open>ParseAddressValues\<close>: the addresses between the commas outside quotes and brackets. The
  characters that matter are ASCII, so the loop over the runes is one over the bytes;
  \<open>seg\<close> is the text since the last comma.
\<close>

fun address_loop ::
  "string \<Rightarrow> bool \<Rightarrow> bool \<Rightarrow> string \<Rightarrow> (MaybeString \<times> Uri \<times> headerParams) list outcome" where
  "address_loop seg inBrackets inQuotes [] = Ok []"
| "address_loop seg inBrackets inQuotes (c # cs) =
     (if c = CHR ''<'' \<and> \<not> inQuotes then address_loop (seg @ [c]) True inQuotes cs
      else if c = CHR ''>'' \<and> \<not> inQuotes then address_loop (seg @ [c]) False inQuotes cs
      else if c = QUOTE then address_loop (seg @ [c]) inBrackets (\<not> inQuotes) cs
      else if \<not> inQuotes \<and> \<not> inBrackets \<and> c = CHR '','' then
        obind (ParseAddressValue seg) (\<lambda>a. omap (Cons a) (address_loop [] inBrackets inQuotes cs))
      else address_loop (seg @ [c]) inBrackets inQuotes cs)"

definition ParseAddressValues :: "string \<Rightarrow> (MaybeString \<times> Uri \<times> headerParams) list outcome" where
  "ParseAddressValues addresses = address_loop [] False False (addresses @ '','')"

text \<open>The header that \<^verbatim>\<open>parseAddressHeader\<close> builds from the address at an index.\<close>

definition address_header ::
  "string \<Rightarrow> nat \<Rightarrow> MaybeString \<times> Uri \<times> headerParams \<Rightarrow> Header outcome" where
  "address_header headerName idx a =
     (let (displayName, uri, params) = a;
          h = \<lparr>ah_DisplayName = displayName, ah_Address = Some uri, ah_Params = Some params\<rparr>
      in if headerName = ''to'' \<or> headerName = ''t'' then
           (if 0 < idx then Fail (Errorf ''multiple to: headers in message'')
            else if uri = WildcardUriPtr then Fail (Errorf ''wildcard uri not permitted in to: header'')
            else Ok (ToHeader h))
         else if headerName = ''from'' \<or> headerName = ''f'' then
           (if 0 < idx then Fail (Errorf ''multiple from: headers in message'')
            else if uri = WildcardUriPtr then Fail (Errorf ''wildcard uri not permitted in from: header'')
            else Ok (FromHeader h))
         else
           (if Uri_IsWildcard uri \<and> 0 < Params_Length params
            then Fail (Errorf ''wildcard contact header should contain no parameters'')
            else if Uri_IsWildcard uri \<and> displayName \<noteq> NilStr
            then Fail (Errorf ''wildcard contact header should contain no display name'')
            else Ok (ContactHeader h)))"

definition parseAddressHeader :: "string \<Rightarrow> string \<Rightarrow> Header list outcome" where
  "parseAddressHeader headerName headerText =
     (if headerName \<in> {''to'', ''from'', ''contact'', ''t'', ''f'', ''m''} then
        obind (ParseAddressValues headerText) (\<lambda>as.
        omapM (\<lambda>(idx, a). address_header headerName idx a) (enumerate 0 as))
      else Ok [])"

section \<open>The other header parsers\<close>

definition maxCseq :: nat where "maxCseq = 2147483647"

definition parseCSeq :: "string \<Rightarrow> string \<Rightarrow> Header list outcome" where
  "parseCSeq headerName headerText =
     (let parts = SplitByWhitespace headerText in
      if length parts \<noteq> 2 then Fail (Errorf ''CSeq field should have precisely one whitespace section'')
      else obind (ParseUint (parts ! 0) 32) (\<lambda>seqno.
           if maxCseq < seqno then Fail (Errorf ''invalid CSeq: exceeds maximum permitted value'')
           else let method = TrimSpace (parts ! 1)
                in if CHR '';'' \<in> set method then Fail (Errorf ''unexpected ';' in CSeq body'')
                   else Ok [CSeqHeader \<lparr>cs_SeqNo = of_nat seqno, cs_MethodName = method\<rparr>]))"

definition parseCallId :: "string \<Rightarrow> string \<Rightarrow> Header list outcome" where
  "parseCallId headerName headerText =
     (let callId = TrimSpace headerText in
      if contains_ws callId then Fail (Errorf ''unexpected whitespace in CallID header body'')
      else if CHR '';'' \<in> set callId then Fail (Errorf ''unexpected semicolon in CallID header body'')
      else if length callId = 0 then Fail (Errorf ''empty Call-ID body'')
      else Ok [CallID callId])"

text \<open>
  One section of \<^verbatim>\<open>parseViaHeader\<close>. The variable \<^verbatim>\<open>err\<close> may still hold the error of the
  parameters of the section before: it is tested after the protocol fields. \<open>sentByIdx\<close>
  is \<^verbatim>\<open>IndexAny\<close> (-1 when there is no blank) plus the number of leading blanks plus 1.
\<close>

definition ws_index :: "string \<Rightarrow> int" where
  "ws_index s = (if contains_ws s then int (length (takeWhile (\<lambda>c. \<not> is_abnf_ws c) s)) else - 1)"

definition via_sent_protocol :: "string \<Rightarrow> (string \<times> string \<times> string \<times> string) outcome" where
  "via_sent_protocol section =
     (let parts = split_on (CHR ''/'') section in
      if length parts < 3 then Fail (Errorf ''not enough protocol parts in via header'')
      else
        let part2 = join ''/'' (drop 2 parts);
            initialSpaces = length (takeWhile is_abnf_ws part2);
            sentByIdx = ws_index (drop initialSpaces part2) + int initialSpaces + 1
        in if sentByIdx = 0 then Fail (Errorf ''expected whitespace after sent-protocol part'')
           else if sentByIdx = 1 then Fail (Errorf ''empty transport field in via header'')
           else
             let protocolName = TrimSpace (parts ! 0);
                 protocolVersion = TrimSpace (parts ! 1);
                 transport = TrimSpace (take (nat (sentByIdx - 1)) part2)
             in if length protocolName = 0 then Fail (Errorf ''no protocol name provided in via header'')
                else if length protocolVersion = 0 then Fail (Errorf ''no version provided in via header'')
                else if length transport = 0 then Fail (Errorf ''no transport provided in via header'')
                else Ok (protocolName, protocolVersion, transport, drop (nat sentByIdx) part2))"

definition via_sent_by :: "string \<Rightarrow> string \<Rightarrow> string \<Rightarrow> string \<Rightarrow> (ViaHop \<times> gerror option) outcome" where
  "via_sent_by protocolName protocolVersion transport viaBody =
     (let hop = (\<lambda>host port params.
            \<lparr>vh_ProtocolName = protocolName, vh_ProtocolVersion = protocolVersion,
             vh_Transport = transport, vh_Host = host, vh_Port = port, vh_Params = Some params\<rparr>)
      in case index_char (CHR '';'') viaBody of
           None \<Rightarrow> omap (\<lambda>(host, port). (hop host port NewParams, None)) (ParseHostPort viaBody)
         | Some paramsIdx \<Rightarrow>
             obind (ParseHostPort (take paramsIdx viaBody)) (\<lambda>(host, port).
             case ParseParams (drop paramsIdx viaBody) (CHR '';'') (CHR '';'') NUL True True of
               Ok (params, n) \<Rightarrow> Ok (hop host port params, None)
             | Fail e \<Rightarrow> Ok (hop host port NewParams, Some e)
             | Panic \<Rightarrow> Panic))"

definition via_section :: "gerror option \<Rightarrow> string \<Rightarrow> (ViaHop \<times> gerror option) outcome" where
  "via_section err section =
     obind (via_sent_protocol section) (\<lambda>(protocolName, protocolVersion, transport, viaBody).
     case err of
       Some e \<Rightarrow> Fail e
     | None \<Rightarrow> via_sent_by protocolName protocolVersion transport viaBody)"

fun via_sections :: "gerror option \<Rightarrow> ViaHop list \<Rightarrow> string list \<Rightarrow> Header list outcome" where
  "via_sections err via [] = (case err of None \<Rightarrow> Ok [ViaHeader via] | Some e \<Rightarrow> Fail e)"
| "via_sections err via (section # sections) =
     obind (via_section err section) (\<lambda>(hop, err'). via_sections err' (via @ [hop]) sections)"

definition parseViaHeader :: "string \<Rightarrow> string \<Rightarrow> Header list outcome" where
  "parseViaHeader headerName headerText = via_sections None [] (split_on (CHR '','') headerText)"

definition parse_uint32 :: "string \<Rightarrow> 32 word outcome" where
  "parse_uint32 headerText = omap of_nat (ParseUint (TrimSpace headerText) 32)"

definition parseMaxForwards :: "string \<Rightarrow> string \<Rightarrow> Header list outcome" where
  "parseMaxForwards headerName headerText = omap (\<lambda>n. [MaxForwards n]) (parse_uint32 headerText)"

definition parseExpires :: "string \<Rightarrow> string \<Rightarrow> Header list outcome" where
  "parseExpires headerName headerText = omap (\<lambda>n. [Expires n]) (parse_uint32 headerText)"

definition parseContentLength :: "string \<Rightarrow> string \<Rightarrow> Header list outcome" where
  "parseContentLength headerName headerText = omap (\<lambda>n. [ContentLength n]) (parse_uint32 headerText)"

definition parseUserAgent :: "string \<Rightarrow> string \<Rightarrow> Header list outcome" where
  "parseUserAgent headerName headerText = Ok [UserAgentHeader (TrimSpace headerText)]"

definition parseContentType :: "string \<Rightarrow> string \<Rightarrow> Header list outcome" where
  "parseContentType headerName headerText = Ok [ContentType (TrimSpace headerText)]"

definition parseAccept :: "string \<Rightarrow> string \<Rightarrow> Header list outcome" where
  "parseAccept headerName headerText = Ok [Accept (TrimSpace headerText)]"

definition comma_list :: "string \<Rightarrow> string list" where
  "comma_list headerText = map TrimSpace (split_on (CHR '','') headerText)"

definition parseAllow :: "string \<Rightarrow> string \<Rightarrow> Header list outcome" where
  "parseAllow headerName headerText = Ok [AllowHeader (comma_list headerText)]"

definition parseRequire :: "string \<Rightarrow> string \<Rightarrow> Header list outcome" where
  "parseRequire headerName headerText = Ok [RequireHeader (comma_list headerText)]"

definition parseSupported :: "string \<Rightarrow> string \<Rightarrow> Header list outcome" where
  "parseSupported headerName headerText = Ok [SupportedHeader (comma_list headerText)]"

definition parseRouteHeader :: "string \<Rightarrow> string \<Rightarrow> Header list outcome" where
  "parseRouteHeader headerName headerText =
     omap (\<lambda>as. [RouteHeader (map (\<lambda>(_, uri, _). uri) as)]) (ParseAddressValues headerText)"

definition parseRecordRouteHeader :: "string \<Rightarrow> string \<Rightarrow> Header list outcome" where
  "parseRecordRouteHeader headerName headerText =
     omap (\<lambda>as. [RecordRouteHeader (map (\<lambda>(_, uri, _). uri) as)]) (ParseAddressValues headerText)"

section \<open>Authorization\<close>

definition CreateAuthorization :: Authorization where
  "CreateAuthorization =
     \<lparr>au_name = '''', au_mode = '''', au_Realm = '''', au_Nonce = '''', au_Algorithm = ''MD5'',
      au_Username = '''', au_Password = '''', au_Uri = '''', au_Response = '''', au_Method = '''',
      au_Other = Some NewParams\<rparr>"

text \<open>
  The matches of the regular expression \<^verbatim>\<open>([\w]+)="([^"]+)"\<close>: a maximal run of word characters,
  an equals sign, and a non-empty text between quotes. Where a run is not followed by
  such a text, the search goes on behind the run.
\<close>

definition is_word :: "char \<Rightarrow> bool" where
  "is_word c \<longleftrightarrow>
     is_digit c \<or> 65 \<le> byte c \<and> byte c \<le> 90 \<or> 97 \<le> byte c \<and> byte c \<le> 122 \<or> c = CHR ''_''"

lemma dropWhile_shorter:
  assumes "takeWhile P s \<noteq> []" shows "length (dropWhile P s) < length s"
proof -
  have "length (takeWhile P s) + length (dropWhile P s) = length s"
    by (metis length_append takeWhile_dropWhile_id)
  moreover have "0 < length (takeWhile P s)" using assms by simp
  ultimately show ?thesis by linarith
qed

function auth_matches :: "string \<Rightarrow> (string \<times> string) list" where
  "auth_matches s =
     (if s = [] then []
      else
        let w = takeWhile is_word s; r = dropWhile is_word s in
        if w = [] then auth_matches (tl s)
        else if take 2 r = [CHR ''='', QUOTE] then
          (let v = takeWhile (\<lambda>c. c \<noteq> QUOTE) (drop 2 r); r3 = dropWhile (\<lambda>c. c \<noteq> QUOTE) (drop 2 r)
           in if v \<noteq> [] \<and> r3 \<noteq> [] then (w, v) # auth_matches (tl r3) else auth_matches r)
        else auth_matches r)"
  by pat_completeness auto
termination
proof (relation "measure length")
  fix s :: string and w r
  assume "s \<noteq> []" "w = takeWhile is_word s" "r = dropWhile is_word s" "w \<noteq> []"
  then have less: "length r < length s" by (simp add: dropWhile_shorter)
  show "(r, s) \<in> measure length" "(r, s) \<in> measure length" using less by simp_all
  fix v r3
  assume "r3 = dropWhile (\<lambda>c. c \<noteq> QUOTE) (drop 2 r)"
  then have "length r3 \<le> length r" by (metis length_dropWhile_le length_drop diff_le_self le_trans)
  with less show "(tl r3, s) \<in> measure length" by simp
qed auto

declare auth_matches.simps [simp del]

definition auth_set :: "string \<times> string \<Rightarrow> Authorization \<Rightarrow> Authorization outcome" where
  "auth_set kv auth =
     (let (k, v) = kv in
      if k = ''realm'' then Ok (auth\<lparr>au_Realm := v\<rparr>)
      else if k = ''algorithm'' then Ok (auth\<lparr>au_Algorithm := v\<rparr>)
      else if k = ''nonce'' then Ok (auth\<lparr>au_Nonce := v\<rparr>)
      else if k = ''username'' then Ok (auth\<lparr>au_Username := v\<rparr>)
      else if k = ''uri'' then Ok (auth\<lparr>au_Uri := v\<rparr>)
      else if k = ''response'' then Ok (auth\<lparr>au_Response := v\<rparr>)
      else if k = ''method'' then Ok (auth\<lparr>au_Method := v\<rparr>)
      else case au_Other auth of
             None \<Rightarrow> Panic
           | Some p \<Rightarrow> Ok (auth\<lparr>au_Other := Some (Params_Add k (Str v) p)\<rparr>))"

primrec auth_set_all :: "(string \<times> string) list \<Rightarrow> Authorization \<Rightarrow> Authorization outcome" where
  "auth_set_all [] auth = Ok auth"
| "auth_set_all (kv # kvs) auth = obind (auth_set kv auth) (auth_set_all kvs)"

definition ParseAuthorization :: "string \<Rightarrow> Authorization \<Rightarrow> Authorization outcome" where
  "ParseAuthorization value auth =
     auth_set_all (auth_matches value)
       (if contains_sub (ToLower value) ''capability'' then auth\<lparr>au_mode := ''Capability''\<rparr> else auth)"

definition parseAuthorization :: "string \<Rightarrow> string \<Rightarrow> Header list outcome" where
  "parseAuthorization headerName headerData =
     omap (\<lambda>auth. [AuthorizationHeader auth])
       (ParseAuthorization headerData (CreateAuthorization\<lparr>au_name := headerName\<rparr>))"

section \<open>ParseHeader\<close>

text \<open>The table of \<^verbatim>\<open>defaultHeaderParsers\<close>, with the keys as the source spells them.\<close>

type_synonym HeaderParser = "string \<Rightarrow> string \<Rightarrow> Header list outcome"

definition defaultHeaderParsers :: "(string \<times> HeaderParser) list" where
  "defaultHeaderParsers =
     [(''to'', parseAddressHeader), (''t'', parseAddressHeader), (''from'', parseAddressHeader),
      (''f'', parseAddressHeader), (''contact'', parseAddressHeader), (''m'', parseAddressHeader),
      (''Call-ID'', parseCallId), (''cseq'', parseCSeq), (''via'', parseViaHeader),
      (''v'', parseViaHeader), (''max-forwards'', parseMaxForwards),
      (''content-length'', parseContentLength), (''l'', parseContentLength),
      (''expires'', parseExpires), (''user-agent'', parseUserAgent), (''allow'', parseAllow),
      (''content-type'', parseContentType), (''accept'', parseAccept), (''c'', parseContentType),
      (''require'', parseRequire), (''supported'', parseSupported), (''route'', parseRouteHeader),
      (''record-route'', parseRecordRouteHeader), (''Authorization'', parseAuthorization),
      (''Proxy-Authorization'', parseAuthorization)]"

text \<open>\<^verbatim>\<open>SetHeaderParser\<close>, and the table that \<^verbatim>\<open>NewParser\<close> builds with it.\<close>

definition SetHeaderParser ::
  "string \<Rightarrow> HeaderParser \<Rightarrow> (string \<times> HeaderParser) list \<Rightarrow> (string \<times> HeaderParser) list" where
  "SetHeaderParser headerName headerParser table = AList.update (ToLower headerName) headerParser table"

definition parser_table :: "(string \<times> HeaderParser) list" where
  "parser_table = fold (\<lambda>(n, f). SetHeaderParser n f) defaultHeaderParsers []"

text \<open>\<^verbatim>\<open>ParseHeader(text, p)\<close>; the table is the one of \<open>p\<close>, or the default one for nil.\<close>

definition ParseHeader :: "(string \<times> HeaderParser) list \<Rightarrow> string \<Rightarrow> Header list outcome" where
  "ParseHeader headerParsers headerText =
     (case index_char (CHR '':'') headerText of
        None \<Rightarrow> Fail (Errorf ''field name with no value in header'')
      | Some colonIdx \<Rightarrow>
          (let fieldName = TrimSpace (take colonIdx headerText);
               lowerFieldName = ToLower fieldName;
               fieldText = TrimSpace (drop (Suc colonIdx) headerText)
           in case map_of headerParsers lowerFieldName of
                Some headerParser \<Rightarrow> headerParser lowerFieldName fieldText
              | None \<Rightarrow> Ok [GenericHeader fieldName fieldText]))"

text \<open>\<^verbatim>\<open>headers.AddHeaderString\<close> calls it with a nil parser.\<close>

definition AddHeaderString :: "string \<Rightarrow> string \<Rightarrow> headers \<Rightarrow> headers outcome" where
  "AddHeaderString headName value hs =
     obind (ParseHeader defaultHeaderParsers (headName @ '':'' @ value)) (\<lambda>hers. add_headers hers hs)"

section \<open>Start lines\<close>

definition isRequest :: "string \<Rightarrow> bool" where
  "isRequest startLine \<longleftrightarrow>
     (let parts = split_on (CHR '' '') startLine in
      length (filter ((=) (CHR '' '')) startLine) = 2 \<and> \<not> length parts < 3 \<and>
      \<not> length (parts ! 2) < 3 \<and> ToUpper (take 3 (parts ! 2)) = ''SIP'')"

definition isResponse :: "string \<Rightarrow> bool" where
  "isResponse startLine \<longleftrightarrow>
     (let parts = split_on (CHR '' '') startLine in
      \<not> length (filter ((=) (CHR '' '')) startLine) < 2 \<and> \<not> length parts < 3 \<and>
      \<not> length (parts ! 0) < 3 \<and> ToUpper (take 3 (parts ! 0)) = ''SIP'')"

definition ParseRequestLine :: "string \<Rightarrow> (RequestMethod \<times> Uri \<times> string) outcome" where
  "ParseRequestLine requestLine =
     (let parts = split_on (CHR '' '') requestLine in
      if length parts \<noteq> 3 then Fail (Errorf ''request line should have 2 spaces'')
      else obind (ParseUri (parts ! 1)) (\<lambda>recipient.
           if recipient = WildcardUriPtr then Fail (Errorf ''wildcard URI '*' not permitted in request line'')
           else Ok (ToUpper (parts ! 0), recipient, parts ! 2)))"

definition ParseStatusLine :: "string \<Rightarrow> (string \<times> StatusCode \<times> string) outcome" where
  "ParseStatusLine statusLine =
     (let parts = split_on (CHR '' '') statusLine in
      if length parts < 3 then Fail (Errorf ''status line has too few spaces'')
      else omap (\<lambda>statusCodeRaw. (parts ! 0, of_nat statusCodeRaw, join '' '' (drop 2 parts)))
             (ParseUint (parts ! 1) 16))"

text \<open>\<^verbatim>\<open>getBodyLength\<close>: the number of bytes after the first empty line, -1 without one.\<close>

definition getBodyLength :: "string \<Rightarrow> int" where
  "getBodyLength data =
     (case index_sub (CRLF @ CRLF) data of
        None \<Rightarrow> - 1
      | Some idx \<Rightarrow> int (length data) - int (idx + 4))"

section \<open>Parsed headers are well formed\<close>

lemma params_switch_ok:
  "params_switch sep fin q s c cs st = Continue st' \<Longrightarrow> params_ok (pp_params st) \<Longrightarrow> params_ok (pp_params st')"
  by (auto simp: params_switch_def split: if_splits)

lemma params_loop_ok:
  "params_loop sep fin q s cs st = Ok (st', r) \<Longrightarrow> params_ok (pp_params st) \<Longrightarrow> params_ok (pp_params st')"
  by (induction cs arbitrary: st) (auto split: pctl.splits dest: params_switch_ok)

lemma ParseParams_ok: "ParseParams src a b c d e = Ok (p, n) \<Longrightarrow> params_ok p"
  by (auto simp: ParseParams_def outcome_simps params_finish_def params_start_def split: if_splits
      dest!: params_loop_ok)

lemma ParseSipUri_ok: "ParseSipUri s = Ok u \<Longrightarrow> sipuri_ok u"
  by (auto simp: ParseSipUri_def Let_def outcome_simps sipuri_ok_def parse_uri_tail_def
      split: if_splits prod.splits dest: ParseParams_ok)

lemma ParseUri_ok: "ParseUri s = Ok u \<Longrightarrow> uri_ok u"
  by (auto simp: ParseUri_def Let_def outcome_simps split: if_splits option.splits dest: ParseSipUri_ok)

lemma ParseAddressValue_ok:
  "ParseAddressValue s = Ok (d, u, p) \<Longrightarrow> uri_ok u \<and> params_ok p"
  by (auto simp: ParseAddressValue_def outcome_simps split: if_splits dest: ParseUri_ok ParseParams_ok)

lemma address_loop_ok:
  "address_loop seg b q cs = Ok as \<Longrightarrow> (d, u, p) \<in> set as \<Longrightarrow> uri_ok u \<and> params_ok p"
proof (induction seg b q cs arbitrary: as rule: address_loop.induct)
  case (2 seg b q c cs)
  then show ?case
    by (auto simp: outcome_simps split: if_splits dest: ParseAddressValue_ok)
qed simp

lemma ParseAddressValues_ok:
  "ParseAddressValues s = Ok as \<Longrightarrow> (d, u, p) \<in> set as \<Longrightarrow> uri_ok u \<and> params_ok p"
  unfolding ParseAddressValues_def by (rule address_loop_ok)

lemma omapM_set: "omapM f xs = Ok ys \<Longrightarrow> y \<in> set ys \<Longrightarrow> \<exists>x \<in> set xs. f x = Ok y"
  by (induction xs arbitrary: ys) (auto simp: outcome_simps)

lemma address_header_ok:
  "address_header n i (d, u, p) = Ok h \<Longrightarrow> uri_ok u \<Longrightarrow> params_ok p \<Longrightarrow> header_ok h"
  by (auto simp: address_header_def address_ok_def Let_def split: if_splits)

lemma parseAddressHeader_ok:
  assumes "parseAddressHeader n s = Ok hs" "h \<in> set hs"
  shows "header_ok h"
proof (cases "n \<in> {''to'', ''from'', ''contact'', ''t'', ''f'', ''m''}")
  case True
  then obtain as where as: "ParseAddressValues s = Ok as"
    "omapM (\<lambda>(idx, a). address_header n idx a) (enumerate 0 as) = Ok hs"
    using assms(1) unfolding parseAddressHeader_def by (auto simp: outcome_simps)
  from omapM_set [OF as(2) assms(2)] obtain i a
    where "(i, a) \<in> set (enumerate 0 as)" "address_header n i a = Ok h" by auto
  moreover obtain d u p where "a = (d, u, p)" by (cases a)
  moreover have "a \<in> set as" using calculation(1) by (auto simp: in_set_enumerate_eq)
  ultimately show ?thesis
    using ParseAddressValues_ok [OF as(1), of d u p] address_header_ok [of n i d u p h] by simp
next
  case False
  with assms show ?thesis by (simp add: parseAddressHeader_def)
qed

lemma via_sent_by_ok:
  assumes "via_sent_by n v tr b = Ok (hop, err')" shows "hop_ok hop"
proof (cases "index_char (CHR '';'') b")
  case (Some i)
  with assms show ?thesis
    by (cases "ParseParams (drop i b) (CHR '';'') (CHR '';'') NUL True True")
      (auto simp: via_sent_by_def outcome_simps hop_ok_def dest: ParseParams_ok)
qed (use assms in \<open>auto simp: via_sent_by_def outcome_simps hop_ok_def\<close>)

lemma via_section_ok: "via_section err s = Ok (hop, err') \<Longrightarrow> hop_ok hop"
  by (auto simp: via_section_def outcome_simps split: option.splits dest: via_sent_by_ok)

lemma via_sections_ok:
  "via_sections err via ss = Ok hs \<Longrightarrow> list_all hop_ok via \<Longrightarrow> h \<in> set hs \<Longrightarrow> header_ok h"
proof (induction ss arbitrary: err via)
  case (Cons s ss)
  then obtain hop e where *: "via_section err s = Ok (hop, e)" "via_sections e (via @ [hop]) ss = Ok hs"
    by (auto simp: outcome_simps)
  then have "list_all hop_ok (via @ [hop])" using Cons.prems(2) via_section_ok by auto
  with Cons.IH [OF *(2)] Cons.prems(3) show ?case by blast
qed (auto split: option.splits)

lemma auth_set_all_ok:
  "auth_set_all kvs a = Ok a' \<Longrightarrow> opt_params_ok (au_Other a) \<Longrightarrow> opt_params_ok (au_Other a')"
proof (induction kvs arbitrary: a)
  case (Cons kv kvs)
  have "opt_params_ok (au_Other b)" if "auth_set kv a = Ok b" for b
    using that Cons.prems(2)
    by (auto simp: auth_set_def Let_def opt_params_ok_def split: prod.splits if_splits option.splits)
  with Cons show ?case by (auto simp: outcome_simps)
qed simp

lemma parseAuthorization_ok: "parseAuthorization n s = Ok hs \<Longrightarrow> h \<in> set hs \<Longrightarrow> header_ok h"
  by (auto simp: parseAuthorization_def ParseAuthorization_def outcome_simps CreateAuthorization_def
      split: if_splits dest!: auth_set_all_ok)

lemma route_headers_ok:
  "ParseAddressValues s = Ok as \<Longrightarrow> list_all uri_ok (map (\<lambda>(_, uri, _). uri) as)"
  using ParseAddressValues_ok [of s as] by (auto simp: list_all_iff)

text \<open>The parsers of the code, as the tables list them, return well-formed headers only.\<close>

definition sound_parser :: "HeaderParser \<Rightarrow> bool" where
  "sound_parser f \<longleftrightarrow> (\<forall>n s hs. f n s = Ok hs \<longrightarrow> list_all header_ok hs)"

lemma sound_parsers:
  "sound_parser parseAddressHeader" "sound_parser parseCallId" "sound_parser parseCSeq"
  "sound_parser parseViaHeader" "sound_parser parseMaxForwards" "sound_parser parseContentLength"
  "sound_parser parseExpires" "sound_parser parseUserAgent" "sound_parser parseAllow"
  "sound_parser parseContentType" "sound_parser parseAccept" "sound_parser parseRequire"
  "sound_parser parseSupported" "sound_parser parseRouteHeader" "sound_parser parseRecordRouteHeader"
  "sound_parser parseAuthorization"
proof -
  show "sound_parser parseAddressHeader" "sound_parser parseAuthorization"
    using parseAddressHeader_ok parseAuthorization_ok by (auto simp: sound_parser_def list_all_iff)
  show "sound_parser parseViaHeader"
    using via_sections_ok [of None "[]"] by (auto simp: sound_parser_def parseViaHeader_def list_all_iff)
  show "sound_parser parseRouteHeader" "sound_parser parseRecordRouteHeader"
    by (auto simp: sound_parser_def parseRouteHeader_def parseRecordRouteHeader_def outcome_simps
        dest: route_headers_ok simp del: list.pred_map)
qed (auto simp: sound_parser_def parseCallId_def parseCSeq_def parseMaxForwards_def
    parseContentLength_def parseExpires_def parseUserAgent_def parseAllow_def parseContentType_def
    parseAccept_def parseRequire_def parseSupported_def Let_def outcome_simps split: if_splits)

lemma default_table_sound: "(n, f) \<in> set defaultHeaderParsers \<Longrightarrow> sound_parser f"
  unfolding defaultHeaderParsers_def using sound_parsers by auto

lemma set_update_subset: "set (AList.update k v al) \<subseteq> insert (k, v) (set al)"
  by (induction al) auto

lemma update_table_sound:
  "\<forall>(n, f) \<in> set tb. sound_parser f \<Longrightarrow> sound_parser g \<Longrightarrow> \<forall>(n, f) \<in> set (SetHeaderParser m g tb). sound_parser f"
  using set_update_subset [of "ToLower m" g tb] by (auto simp: SetHeaderParser_def)

lemma fold_table_sound:
  "\<forall>(n, f) \<in> set tb. sound_parser f \<Longrightarrow> \<forall>(n, f) \<in> set new. sound_parser f \<Longrightarrow>
     \<forall>(n, f) \<in> set (fold (\<lambda>(n, f). SetHeaderParser n f) new tb). sound_parser f"
proof (induction new arbitrary: tb)
  case (Cons nf new)
  then show ?case using update_table_sound [OF Cons.prems(1), of "snd nf" "fst nf"]
    by (cases nf) auto
qed simp

definition sound_table :: "(string \<times> HeaderParser) list \<Rightarrow> bool" where
  "sound_table tb \<longleftrightarrow> (\<forall>n f. map_of tb n = Some f \<longrightarrow> sound_parser f)"

lemma sound_tables: "sound_table defaultHeaderParsers" "sound_table parser_table"
proof -
  show "sound_table defaultHeaderParsers"
    by (auto simp: sound_table_def dest!: map_of_SomeD default_table_sound)
  have "\<forall>(n, f) \<in> set parser_table. sound_parser f"
    unfolding parser_table_def using default_table_sound by (intro fold_table_sound) auto
  then show "sound_table parser_table" by (auto simp: sound_table_def dest!: map_of_SomeD)
qed

lemma ParseHeader_ok:
  assumes "sound_table tb" "ParseHeader tb s = Ok hs"
  shows "list_all header_ok hs"
  using assms
  by (auto simp: ParseHeader_def Let_def sound_table_def sound_parser_def split: option.splits)

section \<open>The table of a parser\<close>

lemma parser_table_eq:
  "parser_table =
     [(''to'', parseAddressHeader), (''t'', parseAddressHeader), (''from'', parseAddressHeader),
      (''f'', parseAddressHeader), (''contact'', parseAddressHeader), (''m'', parseAddressHeader),
      (''call-id'', parseCallId), (''cseq'', parseCSeq), (''via'', parseViaHeader),
      (''v'', parseViaHeader), (''max-forwards'', parseMaxForwards),
      (''content-length'', parseContentLength), (''l'', parseContentLength),
      (''expires'', parseExpires), (''user-agent'', parseUserAgent), (''allow'', parseAllow),
      (''content-type'', parseContentType), (''accept'', parseAccept), (''c'', parseContentType),
      (''require'', parseRequire), (''supported'', parseSupported), (''route'', parseRouteHeader),
      (''record-route'', parseRecordRouteHeader), (''authorization'', parseAuthorization),
      (''proxy-authorization'', parseAuthorization)]"
  by (simp add: parser_table_def defaultHeaderParsers_def SetHeaderParser_def ToLower_def
      lower_char_def byte_def char_of_def bit_Suc_0_iff)

lemma TrimSpace_blank [simp]: "TrimSpace (CHR '' '' # s) = TrimSpace s"
proof -
  have sp: "[CHR '' ''] \<in> set space_encodings"
    by (simp add: space_encodings_def char_of_def bit_Suc_0_iff)
  have only: "e = [CHR '' '']" if e: "e \<in> set space_encodings" "has_prefix (CHR '' '' # s) e" for e
  proof -
    have "list_all (\<lambda>e. byte (hd e) = 32 \<longrightarrow> length e = 1) space_encodings"
      by (simp add: space_encodings_def upt_rec)
    moreover have "e \<noteq> []" using space_encodings_no_graph [OF e(1)] by blast
    then obtain c r where cr: "e = c # r" by (cases e) auto
    then have r: "e = CHR '' '' # r" using e(2) by (simp add: has_prefix_def)
    moreover have "byte (CHR '' '') = 32" by (simp add: byte_def)
    ultimately have "length e = 1" using e(1) by (fastforce simp: list_all_iff)
    with r show ?thesis by simp
  qed
  have "find (\<lambda>e. e \<noteq> [] \<and> has_prefix (CHR '' '' # s) e) space_encodings = Some [CHR '' '']"
  proof (cases "find (\<lambda>e. e \<noteq> [] \<and> has_prefix (CHR '' '' # s) e) space_encodings")
    case None
    with sp show ?thesis by (auto simp: find_None_iff has_prefix_def)
  next
    case (Some e)
    then have "e \<in> set space_encodings \<and> has_prefix (CHR '' '' # s) e"
      by (metis (no_types, lifting) find_Some_iff nth_mem)
    with Some only show ?thesis by blast
  qed
  then have "trim_with space_encodings (CHR '' '' # s) = trim_with space_encodings s"
    by (subst trim_with.simps) simp
  then show ?thesis by (simp add: TrimSpace_def)
qed

text \<open>A header line that was printed is cut into its name and its value.\<close>

lemma ParseHeader_line:
  assumes "list_all is_graph name" "CHR '':'' \<notin> set name"
  shows "ParseHeader tb (name @ '': '' @ v) =
    (case map_of tb (ToLower name) of
       Some f \<Rightarrow> f (ToLower name) (TrimSpace v)
     | None \<Rightarrow> Ok [GenericHeader name (TrimSpace v)])"
proof -
  have "index_char (CHR '':'') (name @ CHR '':'' # '' '' @ v) = Some (length name)"
    using assms(2) by (rule index_char_append)
  then show ?thesis using TrimSpace_all_graph [OF assms(1)] by (simp add: ParseHeader_def Let_def)
qed

section \<open>Splitting at blanks\<close>

lemma contains_sub_ws: "contains_sub ('' '' @ [TAB]) [c] \<longleftrightarrow> is_abnf_ws c"
  by (auto simp: contains_sub_def has_prefix_def is_abnf_ws_def)

lemma split_ws_word:
  "\<forall>c \<in> set w. \<not> is_abnf_ws c \<Longrightarrow> w \<noteq> [] \<or> b \<Longrightarrow>
     split_ws_loop (map (\<lambda>c. [c]) w @ ss) buf b res = split_ws_loop ss (buf @ w) True res"
proof (induction w arbitrary: buf b)
  case (Cons c w)
  then show ?case using contains_sub_ws [of c] by simp
qed simp

lemma split_ws_two:
  assumes "\<forall>c \<in> set a. \<not> is_abnf_ws c \<and> byte c < 128" "\<forall>c \<in> set b. \<not> is_abnf_ws c \<and> byte c < 128" "b \<noteq> []"
  shows "SplitByWhitespace (a @ CHR '' '' # b) = [a, b]"
proof -
  have "go_runes (a @ CHR '' '' # b) = map (\<lambda>c. [c]) (a @ CHR '' '' # b)"
    using assms by (intro go_runes_ascii) (auto simp: byte_def)
  moreover have "contains_sub ('' '' @ [TAB]) [CHR '' '']" by (simp add: contains_sub_def has_prefix_def)
  ultimately show ?thesis
    using assms split_ws_word [of a True "[CHR '' ''] # map (\<lambda>c. [c]) b" "[]" "[]"]
      split_ws_word [of b False "[]" "[]" "[a]"]
    by (simp add: SplitByWhitespace_def)
qed

lemma graph_ascii: "is_graph c \<Longrightarrow> \<not> is_abnf_ws c \<and> byte c < 128"
  by (simp add: is_graph_def is_abnf_ws_def byte_def TAB_def) auto

section \<open>Scanning a list of addresses\<close>

text \<open>
  The state of the quotation and bracket flags behind a text that holds no separating
  comma; \<^term>\<open>None\<close> when it holds one.
\<close>

fun addr_scan :: "bool \<Rightarrow> bool \<Rightarrow> string \<Rightarrow> (bool \<times> bool) option" where
  "addr_scan b q [] = Some (b, q)"
| "addr_scan b q (c # cs) =
     (if c = CHR ''<'' \<and> \<not> q then addr_scan True q cs
      else if c = CHR ''>'' \<and> \<not> q then addr_scan False q cs
      else if c = QUOTE then addr_scan b (\<not> q) cs
      else if \<not> q \<and> \<not> b \<and> c = CHR '','' then None
      else addr_scan b q cs)"

lemma address_loop_scan:
  "addr_scan b q t = Some (b', q') \<Longrightarrow> address_loop seg b q (t @ r) = address_loop (seg @ t) b' q' r"
  by (induction b q t arbitrary: seg rule: addr_scan.induct) (auto simp: QUOTE_def split: if_splits)

lemma address_loop_comma:
  "address_loop seg False False (CHR '','' # r) =
     obind (ParseAddressValue seg) (\<lambda>a. omap (Cons a) (address_loop [] False False r))"
  by (simp add: QUOTE_def)

lemma ParseAddressValues_one:
  "addr_scan False False t = Some (False, False) \<Longrightarrow>
     ParseAddressValues t = omap (\<lambda>a. [a]) (ParseAddressValue t)"
  using address_loop_scan [of False False t False False "[]" "'',''"] address_loop_comma [of t "[]"]
  by (cases "ParseAddressValue t") (simp_all add: ParseAddressValues_def del: address_loop.simps(2))

lemma addr_scan_blanks: "set bl \<subseteq> {CHR '' ''} \<Longrightarrow> addr_scan b q bl = Some (b, q)"
  by (induction bl) (auto simp: QUOTE_def)

lemma TrimSpace_blanks: "set bl \<subseteq> {CHR '' ''} \<Longrightarrow> TrimSpace bl = []"
  by (induction bl) auto

lemma ParseAddressValue_blank:
  "bl \<noteq> [] \<Longrightarrow> set bl \<subseteq> {CHR '' ''} \<Longrightarrow> ParseAddressValue bl = Panic"
  by (simp add: ParseAddressValue_def TrimSpace_blanks address_display_def findUnescaped_def
      findAnyUnescaped_def address_bounds_def)

section \<open>Reading back printed start lines and headers\<close>

lemma CSeq_print:
  assumes "list_all is_graph m" "m \<noteq> []" "CHR '';'' \<notin> set m"
    and "Header_String (CSeqHeader \<lparr>cs_SeqNo = n, cs_MethodName = m\<rparr>) = Ok text"
  shows "if unat n \<le> maxCseq
    then ParseHeader parser_table text = Ok [CSeqHeader \<lparr>cs_SeqNo = n, cs_MethodName = m\<rparr>]
    else \<exists>e. ParseHeader parser_table text = Fail e"
proof -
  let ?v = "show_nat (unat n) @ '' '' @ m"
  have graph: "list_all is_graph (show_nat (unat n))" by (rule show_nat_graph)
  have split: "SplitByWhitespace (show_nat (unat n) @ CHR '' '' # m) = [show_nat (unat n), m]"
    using assms graph graph_ascii by (intro split_ws_two) (auto simp: list_all_iff)
  have num: "ParseUint (show_nat (unat n)) 32 = Ok (unat n)"
    using unsigned_less [of n] by (intro ParseUint_show) simp
  have "is_graph (hd ?v)" "is_graph (last ?v)"
    using graph assms(1,2) show_nat_ne [of "unat n"] by (auto simp: list_all_iff hd_append)
  then have trim: "TrimSpace ?v = ?v" by (intro TrimSpace_graph) auto
  have "list_all is_graph ''CSeq''" by (simp add: is_graph_def byte_def)
  then have "ParseHeader parser_table text = parseCSeq ''cseq'' ?v"
    using assms(4) ParseHeader_line [of "''CSeq''" parser_table ?v] trim
    by (simp add: parser_table_eq)
  with split num TrimSpace_all_graph [OF assms(1)] assms(3) show ?thesis
    by (auto simp: parseCSeq_def)
qed

lemma StatusLine_print:
  assumes "CHR '' '' \<notin> set (m_sipVersion res)"
  shows "ParseStatusLine (response_StartLine res) = Ok (m_sipVersion res, s_status res, s_reason res)"
proof -
  let ?n = "show_nat (unat (s_status res))"
  have "CHR '' '' \<notin> set ?n" using show_nat_graph [of "unat (s_status res)"]
    by (auto simp: list_all_iff)
  then have parts: "split_on (CHR '' '') (response_StartLine res) =
      m_sipVersion res # ?n # split_on (CHR '' '') (s_reason res)"
    using assms by (simp add: response_StartLine_def split_on_append)
  have "ParseUint ?n 16 = Ok (unat (s_status res))"
    using unsigned_less [of "s_status res"] by (intro ParseUint_show) simp
  moreover have "0 < length (split_on (CHR '' '') (s_reason res))" by simp
  ultimately show ?thesis unfolding ParseStatusLine_def Let_def parts
    by (simp del: length_greater_0_conv)
qed

section \<open>Properties\<close>

text \<open>
  C20: Every header that \<^verbatim>\<open>ParseHeader\<close> returns, with the table of a parser or with the default
  one, is well formed, so that none of its methods panics: it prints, copies, and can be
  added to any well-formed container.
\<close>

theorem ParseHeader_wellformed:
  assumes "tb \<in> {parser_table, defaultHeaderParsers}" "ParseHeader tb text = Ok hers" "h \<in> set hers"
  shows "header_ok h \<and> (\<exists>s. Header_String h = Ok s) \<and> Header_Copy h = Ok (copy_of h) \<and>
    (headers_ok hs \<longrightarrow> (\<exists>hs'. AddHeader h hs = Ok hs'))"
proof -
  have "header_ok h"
    using ParseHeader_ok [OF _ assms(2)] assms(1,3) sound_tables by (auto simp: list_all_iff)
  then show ?thesis using Header_String_ok Header_Copy_ok hm.add_total by blast
qed

theorem ParseHeader_wellformed_witness:
  "ParseHeader defaultHeaderParsers ''X: b'' = Ok [GenericHeader ''X'' ''b''] \<and>
   (\<exists>hs'. AddHeader (GenericHeader ''X'' ''b'') empty_headers = Ok hs')"
proof -
  have *: "is_graph (CHR ''X'')" "is_graph (CHR ''b'')" by (simp_all add: is_graph_def byte_def)
  have "ToLower ''X'' = ''x''" by (simp add: ToLower_def lower_char_def byte_def char_of_def bit_Suc_0_iff)
  with * have "ParseHeader defaultHeaderParsers ''X: b'' = Ok [GenericHeader ''X'' ''b'']"
    using ParseHeader_line [of "''X''" defaultHeaderParsers "''b''"] TrimSpace_all_graph [of "''b''"]
    by (simp add: defaultHeaderParsers_def)
  then show ?thesis
    using ParseHeader_wellformed [of defaultHeaderParsers "''X: b''" "[GenericHeader ''X'' ''b'']"
        "GenericHeader ''X'' ''b''" empty_headers] by simp
qed

text \<open>
  A CSeq header printed and parsed comes back unchanged, for every number up to
  2147483647 and a method of visible ASCII characters without a semicolon; a number
  above that limit is never accepted.
\<close>

theorem CSeq_roundtrip:
  assumes "list_all is_graph m" "m \<noteq> []" "CHR '';'' \<notin> set m"
    and "Header_String (CSeqHeader \<lparr>cs_SeqNo = n, cs_MethodName = m\<rparr>) = Ok text"
  shows "if unat n \<le> maxCseq
    then ParseHeader parser_table text = Ok [CSeqHeader \<lparr>cs_SeqNo = n, cs_MethodName = m\<rparr>]
    else \<exists>e. ParseHeader parser_table text = Fail e"
  using assms by (rule CSeq_print)

theorem CSeq_roundtrip_witness:
  "ParseHeader parser_table ''CSeq: 7 INVITE'' =
     Ok [CSeqHeader \<lparr>cs_SeqNo = 7, cs_MethodName = ''INVITE''\<rparr>]"
proof -
  have "show_nat 7 = ''7''" by (simp add: show_nat.simps digit_char_def char_of_def bit_Suc_0_iff)
  then show ?thesis
    using CSeq_roundtrip [of "''INVITE''" 7 "''CSeq: 7 INVITE''"]
    by (simp add: is_graph_def byte_def maxCseq_def)
qed

text \<open>
  A Contact header with a blank element between two commas, behind an address that
  parses, makes the parser panic: the address text is empty after trimming and its first
  byte is read. The same holds for every header that lists addresses.
\<close>

theorem blank_address_panics:
  assumes "addr_scan False False a = Some (False, False)" "is_ok (ParseAddressValue a)"
    and "bl \<noteq> []" "set bl \<subseteq> {CHR '' ''}"
  shows "parseAddressHeader ''contact'' (a @ '','' @ bl @ '','' @ rest) = Panic"
proof -
  obtain x where "ParseAddressValue a = Ok x" using assms(2) by (auto simp: is_ok_iff)
  then have "ParseAddressValues (a @ '','' @ bl @ '','' @ rest) = Panic"
    using assms ParseAddressValue_blank [OF assms(3,4)]
    by (simp add: ParseAddressValues_def address_loop_scan address_loop_comma addr_scan_blanks
        del: address_loop.simps(2))
  then show ?thesis by (simp add: parseAddressHeader_def)
qed

theorem blank_address_panics_witness:
  "parseAddressHeader ''contact'' ''<sip:h>, ,<sip:k>'' = Panic"
proof -
  have g: "list_all is_graph ''<sip:h>''" "list_all is_graph ''sip:h''"
    by (simp_all add: is_graph_def byte_def)
  have low: "ToLower ''sip'' = ''sip''" "ToLower '':'' = '':''" by code_simp+
  have "is_ok (ParseAddressValue ''<sip:h>'')"
    using TrimSpace_all_graph [OF g(1)] TrimSpace_all_graph [OF g(2)] low
    by (simp add: ParseAddressValue_def address_display_def findUnescaped_def findAnyUnescaped_def
        contains_sub_def byte_string_def byte_def has_prefix_def address_bounds_def ParseUri_def
        ParseSipUri_def parse_userinfo_def uri_host_end_def ParseHostPort_def parse_uri_tail_def)
  then show ?thesis
    using blank_address_panics [of "''<sip:h>''" "'' ''" "''<sip:k>''"] by (simp add: QUOTE_def)
qed

text \<open>
  A status line printed and parsed gives back the version, the status code and the
  whole reason phrase, blanks included, for every code and every version without blank.
\<close>

theorem StatusLine_roundtrip:
  assumes "CHR '' '' \<notin> set (m_sipVersion res)"
  shows "ParseStatusLine (response_StartLine res) = Ok (m_sipVersion res, s_status res, s_reason res)"
  using assms by (rule StatusLine_print)

theorem StatusLine_roundtrip_witness:
  "ParseStatusLine (response_StartLine (blank_response\<lparr>m_sipVersion := SipVersion, s_status := 404, s_reason := ''Not Found''\<rparr>)) =
     Ok (SipVersion, 404, ''Not Found'')"
  using StatusLine_roundtrip [of "blank_response\<lparr>m_sipVersion := SipVersion, s_status := 404, s_reason := ''Not Found''\<rparr>"]
  by (simp add: SipVersion_def)

text \<open>
  A request line printed from a clean URI is recognised as a request and parsed back to
  its method in upper case, its URI and its version.
\<close>

theorem RequestLine_roundtrip:
  assumes "uri_clean u" "CHR '' '' \<notin> set method" "CHR '' '' \<notin> set (SipUri_String u)"
  shows "isRequest (method @ '' '' @ SipUri_String u @ '' '' @ SipVersion) \<and>
    ParseRequestLine (method @ '' '' @ SipUri_String u @ '' '' @ SipVersion) =
      Ok (ToUpper method, SipUriPtr u, SipVersion)"
proof -
  have v: "CHR '' '' \<notin> set SipVersion" "ToUpper (take 3 SipVersion) = ''SIP''" "length SipVersion = 7"
    by (simp_all add: SipVersion_def ToUpper_def upper_char_def byte_def)
  let ?l = "method @ '' '' @ SipUri_String u @ '' '' @ SipVersion"
  have parts: "split_on (CHR '' '') ?l = [method, SipUri_String u, SipVersion]"
    using assms v(1) by (simp add: gostr_simps)
  then have "length (filter ((=) (CHR '' '')) ?l) = 2"
    using length_split_on [of "CHR '' ''" ?l] by simp
  then show ?thesis using parts v ParseUri_print [OF assms(1)]
    by (simp add: isRequest_def ParseRequestLine_def)
qed

theorem RequestLine_roundtrip_witness:
  "ParseRequestLine ''INVITE sip:h SIP/2.0'' =
     Ok (''INVITE'', SipUriPtr (blank_uri\<lparr>u_FDomain := \<lparr>addr_Host = ''h'', addr_Port = None\<rparr>,
       u_FUriParams := Some NewParams, u_FHeaders := Some NewParams\<rparr>), ''SIP/2.0'')"
proof -
  let ?u = "blank_uri\<lparr>u_FDomain := \<lparr>addr_Host = ''h'', addr_Port = None\<rparr>,
       u_FUriParams := Some NewParams, u_FHeaders := Some NewParams\<rparr>"
  have "uri_clean ?u"
    by (simp add: uri_clean_def userinfo_clean_def params_clean_def params_ok_def uri_char_def
        is_graph_def byte_def params_section_def Params_Length_def NewParams_def blank_uri_def
        uri_tail_text_def)
  moreover have "SipUri_String ?u = ''sip:h''"
    by (simp add: SipUri_String_def SipUri_userinfo_def Addr_String_def params_section_def
        Params_Length_def NewParams_def blank_uri_def)
  moreover have "ToUpper ''INVITE'' = ''INVITE''" by (simp add: ToUpper_def upper_char_def byte_def)
  ultimately show ?thesis using RequestLine_roundtrip [of ?u "''INVITE''"] by (simp add: SipVersion_def)
qed

text \<open>
  A header added by \<^verbatim>\<open>AddHeaderString\<close> under the name Call-ID is stored as a generic header, and
  \<^verbatim>\<open>CallID()\<close> does not find it: the default table has the key in mixed case and is looked up
  in lower case. A parser, which lowers the keys, reads the same line as a Call-ID.
\<close>

theorem AddHeaderString_CallID_generic:
  assumes "list_all is_graph v" "v \<noteq> []" "CHR '';'' \<notin> set v"
  shows "(\<exists>hs. AddHeaderString ''Call-ID'' v empty_headers = Ok hs \<and> get_CallID hs = None \<and>
      GetHeaders ''Call-ID'' hs = [GenericHeader ''Call-ID'' v]) \<and>
    ParseHeader parser_table (''Call-ID: '' @ v) = Ok [CallID v]"
proof -
  have g: "list_all is_graph ''Call-ID''" by (simp add: is_graph_def byte_def)
  have trim: "TrimSpace v = v" "TrimSpace ''Call-ID'' = ''Call-ID''"
    using assms(1) g by (auto intro: TrimSpace_all_graph)
  have "ParseHeader defaultHeaderParsers (''Call-ID'' @ '':'' @ v) = Ok [GenericHeader ''Call-ID'' v]"
    using trim by (simp add: ParseHeader_def defaultHeaderParsers_def)
  moreover have "header_key (GenericHeader ''Call-ID'' v) = ''call-id''" by (simp add: header_key_def)
  moreover have "\<not> contains_ws v" using assms(1)
    by (induction v) (auto simp: contains_ws_def)
  moreover have "ParseHeader parser_table (''Call-ID: '' @ v) = parseCallId ''call-id'' v"
    using ParseHeader_line [OF g, of parser_table v] trim by (simp add: parser_table_eq)
  ultimately show ?thesis using trim assms
    by (simp add: AddHeaderString_def AddHeader_def empty_headers_def get_CallID_def first_header_at
        GetHeaders_at headers_at_def parseCallId_def Let_def)
qed

theorem AddHeaderString_CallID_generic_witness:
  "ParseHeader parser_table ''Call-ID: x1'' = Ok [CallID ''x1''] \<and>
   (\<exists>hs. AddHeaderString ''Call-ID'' ''x1'' empty_headers = Ok hs \<and> get_CallID hs = None)"
  using AddHeaderString_CallID_generic [of "''x1''"] by (auto simp: is_graph_def byte_def)

end
