(* ===== verification/Gsip_Stream.thy ===== *)
theory Gsip_Stream
  imports Gsip_Parser
begin

text \<open>
  The parser goroutine of \<^verbatim>\<open>sip/parser.go\<close> over the buffer of \<^verbatim>\<open>sip/parserbuffer.go\<close>. The bytes that
  were written and not yet consumed are a list; a read that would wait for more bytes is
  \<^term>\<open>None\<close>. One step is one turn of the loop of \<^verbatim>\<open>parse\<close>, up to the message or error that it
  sends; a turn that would wait leaves the state as it was.
\<close>

section \<open>Readers that wait for input\<close>

text \<open>
  A reader turns a prefix of its input into one event. What it makes of an input does
  not change when more bytes follow, and an event consumes some bytes.
\<close>

locale chunked_reader =
  fixes step :: "'s \<Rightarrow> 'b list \<Rightarrow> ('e \<times> 's \<times> 'b list) option"
  assumes step_more: "step s x = Some (e, s', r) \<Longrightarrow> step s (x @ y) = Some (e, s', r @ y)"
    and step_consumes: "step s x = Some (e, s', r) \<Longrightarrow> length r < length x"
begin

function run :: "'s \<Rightarrow> 'b list \<Rightarrow> 'e list \<times> 's \<times> 'b list" where
  "run s x =
     (case step s x of
        None \<Rightarrow> ([], s, x)
      | Some (e, s', r) \<Rightarrow> (case run s' r of (es, s'', r') \<Rightarrow> (e # es, s'', r')))"
  by pat_completeness auto
termination
  by (relation "measure (\<lambda>(s, x). length x)") (auto dest: step_consumes)

declare run.simps [simp del]

lemma run_None: "step s x = None \<Longrightarrow> run s x = ([], s, x)"
  by (simp add: run.simps)

lemma run_Some:
  "step s x = Some (e, s', r) \<Longrightarrow> run s x = (case run s' r of (es, s'', r') \<Rightarrow> (e # es, s'', r'))"
  by (subst run.simps) simp

text \<open>The reader has stopped only where it waits.\<close>

lemma run_waits: "run s x = (es, s', r) \<Longrightarrow> step s' r = None"
proof (induction s x arbitrary: es rule: run.induct)
  case (1 s x)
  show ?case
  proof (cases "step s x")
    case None
    with "1.prems" show ?thesis by (simp add: run_None)
  next
    case (Some t)
    obtain e s1 r1 where "t = (e, s1, r1)" by (cases t)
    with Some 1 show ?thesis by (auto simp: run_Some split: prod.splits)
  qed
qed

text \<open>Reading two pieces one after the other is reading their concatenation.\<close>

lemma run_append:
  "run s x = (es, s', r) \<Longrightarrow> run s' (r @ y) = (es2, s2, r2) \<Longrightarrow> run s (x @ y) = (es @ es2, s2, r2)"
proof (induction s x arbitrary: es rule: run.induct)
  case (1 s x)
  show ?case
  proof (cases "step s x")
    case None
    with "1.prems" show ?thesis by (simp add: run_None)
  next
    case (Some t)
    obtain e s1 r1 where t: "t = (e, s1, r1)" by (cases t)
    obtain es1 where es1: "run s1 r1 = (es1, s', r)" "es = e # es1"
      using "1.prems"(1) Some t by (auto simp: run_Some split: prod.splits)
    with "1.IH" [OF Some t [symmetric] refl] "1.prems"(2) have "run s1 (r1 @ y) = (es1 @ es2, s2, r2)" by blast
    moreover have "step s (x @ y) = Some (e, s1, r1 @ y)" using Some t by (intro step_more) simp
    ultimately show ?thesis using es1(2) by (simp add: run_Some)
  qed
qed

primrec feed :: "'b list list \<Rightarrow> 's \<times> 'b list \<Rightarrow> 'e list \<times> 's \<times> 'b list" where
  "feed [] sx = ([], sx)"
| "feed (c # cs) sx =
     (case run (fst sx) (snd sx @ c) of
        (es, sx') \<Rightarrow> (case feed cs sx' of (es', sx'') \<Rightarrow> (es @ es', sx'')))"

text \<open>The events depend on the bytes only, not on how they were cut into pieces.\<close>

lemma feed_concat:
  assumes "step s x = None"
  shows "feed cs (s, x) = run s (x @ concat cs)"
  using assms
proof (induction cs arbitrary: s x)
  case (Cons c cs)
  obtain es s1 x1 where run1: "run s (x @ c) = (es, s1, x1)" by (cases "run s (x @ c)")
  then have "step s1 x1 = None" by (rule run_waits)
  then have "feed cs (s1, x1) = run s1 (x1 @ concat cs)" by (rule Cons.IH)
  moreover obtain es2 s2 x2 where run2: "run s1 (x1 @ concat cs) = (es2, s2, x2)"
    by (cases "run s1 (x1 @ concat cs)")
  moreover have "run s ((x @ c) @ concat cs) = (es @ es2, s2, x2)" using run1 run2 by (rule run_append)
  ultimately show ?case using run1 by simp
qed (simp add: run_None)

end

section \<open>The buffer\<close>

text \<open>
  \<^verbatim>\<open>NextLine\<close>: read up to a carriage return, then one byte; the line ends if that byte is a
  line feed, otherwise both are part of the line and reading goes on behind them.
\<close>

lemma drop_Cons_shorter: "drop n x = b # r \<Longrightarrow> length r < length x"
  by (drule arg_cong [where f = length]) simp

function NextLine :: "string \<Rightarrow> string \<Rightarrow> (string \<times> string) option" where
  "NextLine buffer input =
     (case index_char CR input of
        None \<Rightarrow> None
      | Some i \<Rightarrow>
          (case drop (Suc i) input of
             [] \<Rightarrow> None
           | b # rest \<Rightarrow>
               if b = LF then Some (buffer @ take i input, rest)
               else NextLine (buffer @ take (Suc i) input @ [b]) rest))"
  by pat_completeness auto
termination
proof (relation "measure (\<lambda>(buffer, input). length input)")
  fix input :: string and i b rest
  assume "drop (Suc i) input = b # rest"
  then have "length rest < length input" by (rule drop_Cons_shorter)
  then show "((buffer, rest), (buffer', input)) \<in> measure (\<lambda>(buffer, input). length input)" for buffer buffer'
    by simp
qed simp

declare NextLine.simps [simp del]

text \<open>\<^verbatim>\<open>NextChunk\<close>: exactly \<open>n\<close> bytes, or wait.\<close>

definition NextChunk :: "nat \<Rightarrow> string \<Rightarrow> (string \<times> string) option" where
  "NextChunk n input = (if length input < n then None else Some (take n input, drop n input))"

section \<open>The parser\<close>

datatype event = Parsed Message | ParseErr gerror | Crashed

text \<open>
  \<open>pr_pending\<close> is set between an error on a start line and the skip of the rest of its
  datagram: the length of that start line. \<open>pr_dead\<close> records that the goroutine panicked.
  Identifiers are drawn from \<open>uuids\<close>, \<open>pr_count\<close> of them so far.
\<close>

record parser =
  pr_streamed :: bool
  pr_input :: string
  pr_bodyLengths :: "(int \<times> int) list"
  pr_pending :: "nat option"
  pr_count :: nat
  pr_stopped :: bool
  pr_dead :: bool

definition NewParser :: "bool \<Rightarrow> parser" where
  "NewParser streamed = \<lparr>pr_streamed = streamed, pr_input = '''', pr_bodyLengths = [],
     pr_pending = None, pr_count = 0, pr_stopped = False, pr_dead = False\<rparr>"

text \<open>\<^verbatim>\<open>Write\<close> returns the number of bytes it reports as written.\<close>

definition parser_Write :: "string \<Rightarrow> parser \<Rightarrow> nat outcome \<times> parser" where
  "parser_Write data p =
     (if pr_stopped p then (Fail (WriteError ''cannot write data to stopped parser''), p)
      else if \<not> pr_streamed p \<and> getBodyLength data = - 1 then (Ok 0, p)
      else
        (Ok (length data),
         p\<lparr>pr_bodyLengths := (if pr_streamed p then pr_bodyLengths p
                             else pr_bodyLengths p @ [(getBodyLength data, int (length data))]),
           pr_input := pr_input p @ data\<rparr>))"

text \<open>The message that a start line begins.\<close>

definition parse_start :: "string \<Rightarrow> string \<Rightarrow> Message outcome" where
  "parse_start uuid startLine =
     (if isRequest startLine then
        obind (ParseRequestLine startLine) (\<lambda>(method, recipient, sipVersion).
        Ok (Req ((CreateSimpleRequest uuid method (Addr_String (Uri_Domain recipient)))
                   \<lparr>m_sipVersion := sipVersion\<rparr>)))
      else if isResponse startLine then
        obind (ParseStatusLine startLine) (\<lambda>(sipVersion, statusCode, reason).
        omap Res (NewResponse uuid '''' sipVersion statusCode reason [] ''''))
      else Fail (Errorf ''transmission is not a SIP message''))"

text \<open>\<^verbatim>\<open>flushBuffer\<close>: a header that does not parse is skipped.\<close>

definition flush_header :: "string \<Rightarrow> Header list \<Rightarrow> Header list outcome" where
  "flush_header buffer hers =
     (if 0 < length buffer then
        (case ParseHeader parser_table buffer of
           Ok new \<Rightarrow> Ok (hers @ new)
         | Fail e \<Rightarrow> Ok hers
         | Panic \<Rightarrow> Panic)
      else Ok hers)"

lemma NextLine_shorter: "NextLine buf x = Some (line, r) \<Longrightarrow> length r < length x"
proof (induction buf x arbitrary: line r rule: NextLine.induct)
  case (1 buf x)
  show ?case
  proof (cases "index_char CR x")
    case None
    with "1.prems" show ?thesis by (simp add: NextLine.simps [of buf x])
  next
    case (Some i)
    show ?thesis
    proof (cases "drop (Suc i) x")
      case Nil
      with Some "1.prems" show ?thesis by (simp add: NextLine.simps [of buf x])
    next
      case (Cons b rest)
      then have len: "length rest < length x" by (rule drop_Cons_shorter)
      show ?thesis
      proof (cases "b = LF")
        case True
        with Some Cons len "1.prems" show ?thesis by (simp add: NextLine.simps [of buf x])
      next
        case False
        with Some Cons "1.prems" have "NextLine (buf @ take (Suc i) x @ [b]) rest = Some (line, r)"
          by (simp add: NextLine.simps [of buf x])
        then have "length r < length rest" using "1.IH" [OF Some Cons False] by blast
        with len show ?thesis by simp
      qed
    qed
  qed
qed

text \<open>The loop over the lines of the header section.\<close>

function header_section :: "string \<Rightarrow> Header list \<Rightarrow> string \<Rightarrow> (Header list \<times> string) outcome option" where
  "header_section buffer hers input =
     (case NextLine [] input of
        None \<Rightarrow> None
      | Some (line, rest) \<Rightarrow>
          if length line = 0 then Some (omap (\<lambda>hers'. (hers', rest)) (flush_header buffer hers))
          else if \<not> is_abnf_ws (hd line) then
            (case flush_header buffer hers of
               Ok hers' \<Rightarrow> header_section line hers' rest
             | Fail e \<Rightarrow> Some (Fail e)
             | Panic \<Rightarrow> Some Panic)
          else if 0 < length buffer then header_section (buffer @ '' '' @ line) hers rest
          else header_section buffer hers rest)"
  by pat_completeness auto
termination
  by (relation "measure (\<lambda>(buffer, hers, input). length input)") (auto dest: NextLine_shorter)

declare header_section.simps [simp del]

primrec set_Message_headers :: "headers \<Rightarrow> Message \<Rightarrow> Message" where
  "set_Message_headers hs (Req r) = Req (r\<lparr>m_headers := hs\<rparr>)"
| "set_Message_headers hs (Res r) = Res (r\<lparr>m_headers := hs\<rparr>)"

primrec set_Message_body :: "string \<Rightarrow> Message \<Rightarrow> Message" where
  "set_Message_body body (Req r) = Req (r\<lparr>m_body := body\<rparr>)"
| "set_Message_body body (Res r) = Res (r\<lparr>m_body := body\<rparr>)"

primrec Message_String :: "Message \<Rightarrow> string outcome" where
  "Message_String (Req r) = omap fst (request_String r)"
| "Message_String (Res r) = response_String r"

text \<open>
  The length of the body of a message with its headers stored. In streamed mode it is that
  of the only \<^verbatim>\<open>Content-Length\<close> header; the error values print the message.
\<close>

definition streamed_length :: "Message \<Rightarrow> nat outcome" where
  "streamed_length msg =
     (case GetHeaders ''Content-Length'' (Message_headers msg) of
        [] \<Rightarrow> obind (Message_String msg) (\<lambda>_. Fail (MalformedMessageError ''missing required 'Content-Length' header''))
      | [h] \<Rightarrow> (case h of ContentLength n \<Rightarrow> Ok (unat n) | _ \<Rightarrow> Panic)
      | hers \<Rightarrow>
          obind (omapM Header_String hers) (\<lambda>_.
          obind (Message_String msg) (\<lambda>_. Fail (MalformedMessageError ''multiple 'Content-Length' headers''))))"

text \<open>The body that is read, stored unless it is blank, and the message that is sent.\<close>

definition deliver :: "Message \<Rightarrow> nat \<Rightarrow> string \<Rightarrow> parser \<Rightarrow> (event \<times> parser) option" where
  "deliver msg contentLength input p =
     (case NextChunk contentLength input of
        None \<Rightarrow> None
      | Some (body, rest) \<Rightarrow>
          Some (Parsed (if TrimSpace body \<noteq> '''' then set_Message_body body msg else msg),
                p\<lparr>pr_input := rest\<rparr>))"

definition read_body :: "Message \<Rightarrow> string \<Rightarrow> parser \<Rightarrow> (event \<times> parser) option" where
  "read_body msg input p =
     (if pr_streamed p then
        (case streamed_length msg of
           Panic \<Rightarrow> Some (Crashed, p\<lparr>pr_dead := True, pr_input := input\<rparr>)
         | Fail e \<Rightarrow> Some (ParseErr e, p\<lparr>pr_input := input\<rparr>)
         | Ok contentLength \<Rightarrow> deliver msg contentLength input p)
      else
        (case pr_bodyLengths p of
           [] \<Rightarrow> None
         | (bl, len) # q \<Rightarrow> deliver msg (nat bl) input (p\<lparr>pr_bodyLengths := q\<rparr>)))"

text \<open>The turn of the loop behind the start line.\<close>

definition after_start :: "Message \<Rightarrow> string \<Rightarrow> parser \<Rightarrow> (event \<times> parser) option" where
  "after_start msg rest p =
     (case header_section [] [] rest of
        None \<Rightarrow> None
      | Some Panic \<Rightarrow> Some (Crashed, p\<lparr>pr_dead := True, pr_input := rest\<rparr>)
      | Some (Fail e) \<Rightarrow> Some (Crashed, p\<lparr>pr_dead := True, pr_input := rest\<rparr>)
      | Some (Ok (hers, rest2)) \<Rightarrow>
          (case add_headers hers (Message_headers msg) of
             Ok hs \<Rightarrow> read_body (set_Message_headers hs msg) rest2 (p\<lparr>pr_count := Suc (pr_count p)\<rparr>)
           | _ \<Rightarrow> Some (Crashed, p\<lparr>pr_dead := True, pr_input := rest2\<rparr>)))"

definition read_message :: "(nat \<Rightarrow> string) \<Rightarrow> parser \<Rightarrow> (event \<times> parser) option" where
  "read_message uuids p =
     (case NextLine [] (pr_input p) of
        None \<Rightarrow> None
      | Some (startLine, rest) \<Rightarrow>
          (case parse_start (uuids (pr_count p)) startLine of
             Panic \<Rightarrow> Some (Crashed, p\<lparr>pr_dead := True, pr_input := rest\<rparr>)
           | Fail e \<Rightarrow>
               Some (ParseErr InvalidStartLineError,
                     p\<lparr>pr_input := rest,
                       pr_pending := (if pr_streamed p then None else Some (length startLine))\<rparr>)
           | Ok msg \<Rightarrow> after_start msg rest p))"

text \<open>
  One turn of the loop of \<^verbatim>\<open>parse\<close>. A pending skip takes the lengths of the datagram from the
  queue; \<^verbatim>\<open>make([]byte, n)\<close> panics for a negative \<^verbatim>\<open>n\<close>.
\<close>

definition parse_step :: "(nat \<Rightarrow> string) \<Rightarrow> parser \<Rightarrow> (event \<times> parser) option" where
  "parse_step uuids p =
     (if pr_dead p then None
      else case pr_pending p of
        None \<Rightarrow> read_message uuids p
      | Some n \<Rightarrow>
          (case pr_bodyLengths p of
             [] \<Rightarrow> None
           | (bl, len) # q \<Rightarrow>
               (let skip = len - int n - 2 in
                if skip < 0 then Some (Crashed, p\<lparr>pr_dead := True, pr_bodyLengths := q\<rparr>)
                else case NextChunk (nat skip) (pr_input p) of
                  None \<Rightarrow> None
                | Some (_, rest) \<Rightarrow>
                    read_message uuids (p\<lparr>pr_pending := None, pr_bodyLengths := q, pr_input := rest\<rparr>))))"

text \<open>
  \<^verbatim>\<open>ParseMessage\<close> writes the data to a fresh parser and waits for its first event; \<^term>\<open>None\<close>
  is waiting forever.
\<close>

definition ParseMessage :: "(nat \<Rightarrow> string) \<Rightarrow> string \<Rightarrow> Message outcome option" where
  "ParseMessage uuids msgData =
     (case parser_Write msgData (NewParser False) of
        (Fail e, p) \<Rightarrow> Some (Fail e)
      | (Panic, p) \<Rightarrow> Some Panic
      | (Ok n, p) \<Rightarrow>
          (case parse_step uuids p of
             None \<Rightarrow> None
           | Some (Parsed msg, p') \<Rightarrow> Some (Ok msg)
           | Some (ParseErr e, p') \<Rightarrow> Some (Fail e)
           | Some (Crashed, p') \<Rightarrow> Some Panic))"

section \<open>A parsed message has no transaction\<close>

lemma set_Message_Transaction [simp]:
  "Message_Transaction (set_Message_headers hs msg) = Message_Transaction msg"
  "Message_Transaction (set_Message_body body msg) = Message_Transaction msg"
  by (cases msg; simp)+

lemma parse_start_Transaction: "parse_start uuid line = Ok msg \<Longrightarrow> Message_Transaction msg = None"
  by (auto simp: parse_start_def NewResponse_def CreateSimpleRequest_def outcome_simps Let_def blank_request_def blank_response_def
      newHeaders_def SetMethod_def SetStatusCode_def SetReason_def split: if_splits)

lemma read_message_Transaction: "read_message uuids p = Some (Parsed msg, p') \<Longrightarrow> Message_Transaction msg = None"
  by (auto simp: read_message_def after_start_def read_body_def deliver_def dest!: parse_start_Transaction
      split: option.splits prod.splits outcome.splits if_splits list.splits)

lemma parsed_no_transaction: "parse_step uuids p = Some (Parsed msg, p') \<Longrightarrow> Message_Transaction msg = None"
  by (auto simp: parse_step_def Let_def split: if_splits option.splits list.splits prod.splits intro: read_message_Transaction)

section \<open>More input does not change what was read\<close>

lemma index_char_more: "index_char c x = Some i \<Longrightarrow> index_char c (x @ y) = Some i"
  by (induction x arbitrary: i) (auto split: if_splits)

lemma drop_more: "drop n x = b # r \<Longrightarrow> drop n (x @ y) = b # r @ y"
  by (induction x arbitrary: n) (auto simp: drop_Cons split: nat.splits)

lemma NextLine_unfold:
  assumes "index_char CR x = Some i" "drop (Suc i) x = b # rest"
  shows "NextLine buf x =
    (if b = LF then Some (buf @ take i x, rest) else NextLine (buf @ take (Suc i) x @ [b]) rest)"
  using assms by (simp add: NextLine.simps [of buf x])

lemma NextLine_SomeE:
  assumes "NextLine buf x = Some lr"
  obtains i b rest where "index_char CR x = Some i" "drop (Suc i) x = b # rest"
  using assms by (auto simp: NextLine.simps [of buf x] split: option.splits list.splits)

lemma NextLine_more: "NextLine buf x = Some (l, r) \<Longrightarrow> NextLine buf (x @ y) = Some (l, r @ y)"
proof (induction buf x rule: NextLine.induct)
  case (1 buf x)
  obtain i b rest where i: "index_char CR x = Some i" "drop (Suc i) x = b # rest"
    using "1.prems" by (rule NextLine_SomeE)
  have i': "index_char CR (x @ y) = Some i" "drop (Suc i) (x @ y) = b # rest @ y"
    using index_char_more [OF i(1)] drop_more [OF i(2)] by blast+
  have "i < length x" using index_char_Some [OF i(1)] by blast
  then show ?case
    using "1.prems" "1.IH" [OF i] NextLine_unfold [OF i] NextLine_unfold [OF i']
    by (auto split: if_splits)
qed

lemma flush_header_not_Fail [simp]: "flush_header buf hers \<noteq> Fail e"
  by (auto simp: flush_header_def split: outcome.split)

lemma header_section_line:
  assumes "NextLine [] x = Some (line, rest)"
  shows "header_section buf hers x =
    (if length line = 0 then Some (omap (\<lambda>hers'. (hers', rest)) (flush_header buf hers))
     else if \<not> is_abnf_ws (hd line) then
       (case flush_header buf hers of
          Ok hers' \<Rightarrow> header_section line hers' rest
        | Fail e \<Rightarrow> Some (Fail e)
        | Panic \<Rightarrow> Some Panic)
     else if 0 < length buf then header_section (buf @ '' '' @ line) hers rest
     else header_section buf hers rest)"
  using assms by (simp add: header_section.simps [of buf hers x])

lemma header_section_wait: "NextLine [] x = None \<Longrightarrow> header_section buf hers x = None"
  by (simp add: header_section.simps [of buf hers x])

lemma header_section_more:
  "header_section buf hers x = Some res \<Longrightarrow>
     header_section buf hers (x @ y) = Some (omap (\<lambda>(h, r). (h, r @ y)) res) \<and>
     (\<forall>h r. res = Ok (h, r) \<longrightarrow> length r < length x)"
proof (induction buf hers x rule: header_section.induct)
  case (1 buf hers x)
  show ?case
  proof (cases "NextLine [] x")
    case None
    with "1.prems" show ?thesis by (simp add: header_section_wait)
  next
    case (Some lr)
    obtain line rest where l: "NextLine [] x = Some (line, rest)" using Some by (cases lr) auto
    note l' = NextLine_more [OF l, of y] and IH = "1.IH" [OF Some, of line rest]
    have len: "length rest < length x" using l by (rule NextLine_shorter)
    show ?thesis
      using Some l len IH "1.prems"
      by (cases "flush_header buf hers")
        (auto simp: header_section_line [OF l] header_section_line [OF l'] split: if_splits intro: less_trans)
  qed
qed

lemma NextChunk_more: "NextChunk n x = Some (b, r) \<Longrightarrow> NextChunk n (x @ y) = Some (b, r @ y)"
  by (auto simp: NextChunk_def split: if_splits)

lemma deliver_more:
  "deliver msg n x p = Some (e, p') \<Longrightarrow>
     deliver msg n (x @ y) (p\<lparr>pr_input := z\<rparr>) = Some (e, p'\<lparr>pr_input := pr_input p' @ y\<rparr>)"
  by (auto simp: deliver_def NextChunk_def split: if_splits)

lemma read_body_more:
  assumes "pr_streamed p" "read_body msg x p = Some (e, p')"
  shows "read_body msg (x @ y) (p\<lparr>pr_input := z\<rparr>) = Some (e, p'\<lparr>pr_input := pr_input p' @ y\<rparr>)"
  using assms deliver_more [of msg _ x p e p' y z]
  by (cases "streamed_length msg") (auto simp: read_body_def)

lemma count_input_swap: "p\<lparr>pr_input := z, pr_count := n\<rparr> = p\<lparr>pr_count := n, pr_input := z\<rparr>"
  by (cases p) simp

lemma after_start_more:
  assumes "pr_streamed p" "after_start msg x p = Some (e, p')"
  shows "after_start msg (x @ y) (p\<lparr>pr_input := z\<rparr>) = Some (e, p'\<lparr>pr_input := pr_input p' @ y\<rparr>)"
proof (cases "header_section [] [] x")
  case None
  with assms show ?thesis by (simp add: after_start_def)
next
  case (Some res)
  note more = header_section_more [OF Some, of y]
  show ?thesis
  proof (cases res)
    case (Ok hr)
    obtain hers rest2 where hr: "hr = (hers, rest2)" by force
    show ?thesis
    proof (cases "add_headers hers (Message_headers msg)")
      case Oh: (Ok hs)
      have "pr_streamed (p\<lparr>pr_count := Suc (pr_count p)\<rparr>)" using assms(1) by simp
      from read_body_more [OF this, of "set_Message_headers hs msg" rest2 e p' y z]
      show ?thesis using assms(2) Some Ok hr Oh more by (simp add: after_start_def count_input_swap)
    qed (use assms(2) Some Ok hr more in \<open>auto simp: after_start_def\<close>)
  qed (use assms(2) Some more in \<open>auto simp: after_start_def\<close>)
qed

lemma read_message_more:
  assumes "pr_streamed p" "read_message uuids p = Some (e, p')"
  shows "read_message uuids (p\<lparr>pr_input := pr_input p @ y\<rparr>) =
    Some (e, p'\<lparr>pr_input := pr_input p' @ y\<rparr>)"
proof (cases "NextLine [] (pr_input p)")
  case None
  with assms show ?thesis by (simp add: read_message_def)
next
  case (Some lr)
  obtain line rest where lr: "NextLine [] (pr_input p) = Some (line, rest)" using Some by (cases lr) auto
  note lr' = NextLine_more [OF lr, of y]
  show ?thesis
    using assms lr lr' after_start_more [OF assms(1), of _ rest e p' y "pr_input p @ y"]
    by (cases "parse_start (uuids (pr_count p)) line") (auto simp: read_message_def)
qed

text \<open>What a turn leaves: in streamed mode it changes the count, the dead flag and the input.\<close>

lemma read_body_fields:
  assumes "read_body msg x p = Some (e, p')"
  shows "length (pr_input p') \<le> length x"
    and "pr_streamed p \<Longrightarrow> p' = p\<lparr>pr_dead := pr_dead p', pr_input := pr_input p'\<rparr>"
  using assms
  by (auto simp: read_body_def deliver_def NextChunk_def split: if_splits outcome.splits list.splits prod.splits)

lemma after_start_fields:
  assumes "after_start msg x p = Some (e, p')"
  shows "length (pr_input p') \<le> length x"
    and "pr_streamed p \<Longrightarrow> p' = p\<lparr>pr_count := pr_count p', pr_dead := pr_dead p', pr_input := pr_input p'\<rparr>"
proof -
  obtain res where res: "header_section [] [] x = Some res"
    using assms by (auto simp: after_start_def split: option.splits)
  have len: "res = Ok (h, r) \<Longrightarrow> length r < length x" for h r
    using header_section_more [OF res, of "[]"] by blast
  show "length (pr_input p') \<le> length x"
    using assms res len read_body_fields(1)
    by (auto simp: after_start_def split: outcome.splits prod.splits) force+
  show "pr_streamed p \<Longrightarrow> p' = p\<lparr>pr_count := pr_count p', pr_dead := pr_dead p', pr_input := pr_input p'\<rparr>"
    using assms res
    by (auto simp: after_start_def split: outcome.splits prod.splits dest!: read_body_fields(2))
      (cases p; cases p'; simp)
qed

lemma read_message_fields:
  assumes "read_message uuids p = Some (e, p')"
  shows "length (pr_input p') < length (pr_input p)"
    and "pr_streamed p \<Longrightarrow> pr_pending p = None \<Longrightarrow>
      p' = p\<lparr>pr_count := pr_count p', pr_dead := pr_dead p', pr_input := pr_input p'\<rparr>"
proof -
  obtain line rest where l: "NextLine [] (pr_input p) = Some (line, rest)"
    using assms by (auto simp: read_message_def split: option.splits)
  note len = NextLine_shorter [OF l]
  show "length (pr_input p') < length (pr_input p)"
    using assms l len
    by (cases "parse_start (uuids (pr_count p)) line")
      (auto simp: read_message_def dest!: after_start_fields(1))
  show "pr_streamed p \<Longrightarrow> pr_pending p = None \<Longrightarrow>
      p' = p\<lparr>pr_count := pr_count p', pr_dead := pr_dead p', pr_input := pr_input p'\<rparr>"
    using assms l
    by (cases "parse_start (uuids (pr_count p)) line")
      (auto simp: read_message_def dest!: after_start_fields(2) intro: parser.equality)
qed

lemma parse_step_decreases:
  assumes "parse_step uuids p = Some (e, p')"
  shows "2 * length (pr_input p') + (if pr_dead p' then 0 else 1) <
    2 * length (pr_input p) + (if pr_dead p then 0 else 1)"
proof -
  have d: "\<not> pr_dead p" using assms by (simp add: parse_step_def split: if_splits)
  show ?thesis
  proof (cases "pr_pending p")
    case None
    then have "read_message uuids p = Some (e, p')" using assms d by (simp add: parse_step_def)
    from read_message_fields(1) [OF this] d show ?thesis by simp
  next
    case (Some n)
    then obtain bl len q where q: "pr_bodyLengths p = (bl, len) # q"
      using assms d by (auto simp: parse_step_def split: list.splits)
    show ?thesis
    proof (cases "len - int n - 2 < 0")
      case True
      with assms d Some q show ?thesis by (auto simp: parse_step_def)
    next
      case False
      let ?p = "p\<lparr>pr_pending := None, pr_bodyLengths := q,
        pr_input := drop (nat (len - int n - 2)) (pr_input p)\<rparr>"
      have "read_message uuids ?p = Some (e, p')"
        using False assms d Some q by (auto simp: parse_step_def Let_def NextChunk_def split: if_splits)
      from read_message_fields(1) [OF this] have "length (pr_input p') < length (pr_input p)"
        by simp
      with d show ?thesis by simp
    qed
  qed
qed

text \<open>All events of the parser up to the point where it waits.\<close>

function drain :: "(nat \<Rightarrow> string) \<Rightarrow> parser \<Rightarrow> event list \<times> parser" where
  "drain uuids p =
     (case parse_step uuids p of
        None \<Rightarrow> ([], p)
      | Some (e, p') \<Rightarrow> (case drain uuids p' of (es, p'') \<Rightarrow> (e # es, p'')))"
  by pat_completeness auto
termination
proof (relation "measure (\<lambda>(u, p). 2 * length (pr_input p) + (if pr_dead p then 0 else 1))")
  fix uuids p ep e p'
  assume "parse_step uuids p = Some ep" "(e, p') = ep"
  then show "((uuids, p'), (uuids, p)) \<in> measure (\<lambda>(u, p). 2 * length (pr_input p) + (if pr_dead p then 0 else 1))"
    using parse_step_decreases [of uuids p e p'] by simp
qed simp

declare drain.simps [simp del]

text \<open>Write pieces of input one after the other, reading what can be read after each.\<close>

primrec write_all :: "(nat \<Rightarrow> string) \<Rightarrow> string list \<Rightarrow> parser \<Rightarrow> event list \<times> parser" where
  "write_all uuids [] p = ([], p)"
| "write_all uuids (c # cs) p =
     (case drain uuids (snd (parser_Write c p)) of
        (es, p') \<Rightarrow> (case write_all uuids cs p' of (es', p'') \<Rightarrow> (es @ es', p'')))"

section \<open>The streamed parser is a chunked reader\<close>

definition stream_parser :: "nat \<times> bool \<Rightarrow> string \<Rightarrow> parser" where
  "stream_parser cd x = (NewParser True)\<lparr>pr_count := fst cd, pr_dead := snd cd, pr_input := x\<rparr>"

definition stream_step ::
  "(nat \<Rightarrow> string) \<Rightarrow> nat \<times> bool \<Rightarrow> string \<Rightarrow> (event \<times> (nat \<times> bool) \<times> string) option" where
  "stream_step uuids cd x =
     (case parse_step uuids (stream_parser cd x) of
        None \<Rightarrow> None
      | Some (e, p) \<Rightarrow> Some (e, (pr_count p, pr_dead p), pr_input p))"

lemma stream_parser_fields [simp]:
  "pr_streamed (stream_parser cd x)" "pr_pending (stream_parser cd x) = None"
  "pr_input (stream_parser cd x) = x" "pr_count (stream_parser cd x) = fst cd"
  "pr_dead (stream_parser cd x) = snd cd" "pr_stopped (stream_parser cd x) = False"
  by (simp_all add: stream_parser_def NewParser_def)

lemma parse_step_stream:
  "parse_step uuids (stream_parser cd x) = (if snd cd then None else read_message uuids (stream_parser cd x))"
  by (simp add: parse_step_def)

lemma stream_parser_more: "(stream_parser cd x)\<lparr>pr_input := x @ y\<rparr> = stream_parser cd (x @ y)"
  by (simp add: stream_parser_def)

interpretation sr: chunked_reader "stream_step uuids" for uuids
proof
  fix s x e s' r y
  assume "stream_step uuids s x = Some (e, s', r)"
  then obtain p where p: "\<not> snd s" "read_message uuids (stream_parser s x) = Some (e, p)"
    "s' = (pr_count p, pr_dead p)" "r = pr_input p"
    by (auto simp: stream_step_def parse_step_stream split: if_splits option.splits)
  from read_message_more [OF _ p(2), of y] have
    "read_message uuids (stream_parser s (x @ y)) = Some (e, p\<lparr>pr_input := pr_input p @ y\<rparr>)"
    by (simp add: stream_parser_more)
  with p show "stream_step uuids s (x @ y) = Some (e, s', r @ y)"
    by (simp add: stream_step_def parse_step_stream)
  show "length r < length x" using read_message_fields(1) [OF p(2)] p(4) by simp
qed

lemma parse_step_stream_parser:
  assumes "parse_step uuids (stream_parser cd x) = Some (e, p)"
  shows "p = stream_parser (pr_count p, pr_dead p) (pr_input p)"
proof -
  have "read_message uuids (stream_parser cd x) = Some (e, p)"
    using assms by (simp add: parse_step_stream split: if_splits)
  then have "p = (stream_parser cd x)\<lparr>pr_count := pr_count p, pr_dead := pr_dead p, pr_input := pr_input p\<rparr>"
    by (rule read_message_fields(2)) simp_all
  also have "\<dots> = stream_parser (pr_count p, pr_dead p) (pr_input p)"
    by (simp add: stream_parser_def)
  finally show ?thesis .
qed

lemma drain_stream:
  "drain uuids (stream_parser cd x) =
     (case sr.run uuids cd x of (es, cd', r) \<Rightarrow> (es, stream_parser cd' r))"
proof (induction cd x rule: sr.run.induct [where uuids = uuids])
  case (1 cd x)
  show ?case
  proof (cases "parse_step uuids (stream_parser cd x)")
    case None
    then have "stream_step uuids cd x = None" by (simp add: stream_step_def)
    with None show ?thesis by (simp add: drain.simps [of uuids "stream_parser cd x"] sr.run_None)
  next
    case (Some ep)
    obtain e p where ep: "ep = (e, p)" by force
    let ?cd = "(pr_count p, pr_dead p)"
    have st: "stream_step uuids cd x = Some (e, ?cd, pr_input p)" using Some ep by (simp add: stream_step_def)
    have p: "p = stream_parser ?cd (pr_input p)" using Some ep by (intro parse_step_stream_parser) simp
    have "drain uuids (stream_parser ?cd (pr_input p)) =
        (case sr.run uuids ?cd (pr_input p) of (es, cd', r) \<Rightarrow> (es, stream_parser cd' r))"
      by (rule "1.IH" [OF st refl refl])
    with Some ep p sr.run_Some [OF st] show ?thesis
      by (simp add: drain.simps [of uuids "stream_parser cd x"] split: prod.splits)
  qed
qed

lemma write_stream:
  "snd (parser_Write c (stream_parser cd x)) = stream_parser cd (x @ c)"
  by (simp add: parser_Write_def) (simp add: stream_parser_def NewParser_def)

lemma write_all_stream:
  "write_all uuids cs (stream_parser cd x) =
     (case sr.feed uuids cs (cd, x) of (es, cd', r) \<Rightarrow> (es, stream_parser cd' r))"
proof (induction cs arbitrary: cd x)
  case (Cons c cs)
  then show ?case by (simp add: write_stream drain_stream split: prod.split)
qed simp

lemma write_all_concat:
  "write_all uuids cs (NewParser True) = write_all uuids [concat cs] (NewParser True)"
proof -
  have p: "NewParser True = stream_parser (0, False) []" by (simp add: stream_parser_def NewParser_def)
  have "NextLine [] [] = None" by (simp add: NextLine.simps)
  then have "stream_step uuids (0, False) [] = None"
    by (simp add: stream_step_def parse_step_stream read_message_def)
  from sr.feed_concat [OF this] show ?thesis
    by (simp add: p write_all_stream sr.feed_concat del: sr.feed.simps)
qed

section \<open>Reading back printed lines\<close>

lemma NextLine_line:
  assumes "CR \<notin> set l"
  shows "NextLine [] (l @ CRLF @ rest) = Some (l, rest)"
proof -
  have "index_char CR (l @ CR # LF # rest) = Some (length l)" using assms by (rule index_char_append)
  then show ?thesis by (simp add: NextLine.simps [of "[]"] CRLF_def)
qed

definition print_lines :: "string list \<Rightarrow> string" where
  "print_lines ls = concat (map (\<lambda>l. l @ CRLF) ls)"

lemma print_lines_simps [simp]:
  "print_lines [] = []" "print_lines (l # ls) = l @ CRLF @ print_lines ls"
  by (simp_all add: print_lines_def)

text \<open>A printed header line that is read back as the header it came from.\<close>

definition header_reads_back :: "Header \<Rightarrow> string \<Rightarrow> bool" where
  "header_reads_back h text \<longleftrightarrow>
     Header_String h = Ok text \<and> text \<noteq> [] \<and> \<not> is_abnf_ws (hd text) \<and> CR \<notin> set text \<and>
     ParseHeader parser_table text = Ok [h]"

lemma header_section_lines:
  assumes "list_all2 header_reads_back hers texts"
    and "buf = [] \<or> (\<exists>h. ParseHeader parser_table buf = Ok [h] \<and> pre = [h])" "buf = [] \<Longrightarrow> pre = []"
  shows "header_section buf acc (print_lines texts @ CRLF @ body) = Some (Ok (acc @ pre @ hers, body))"
  using assms
proof (induction hers texts arbitrary: buf pre acc rule: list_all2_induct)
  case Nil
  have "NextLine [] (CRLF @ body) = Some ([], body)" using NextLine_line [of "[]"] by simp
  with Nil show ?case by (auto simp: header_section_line flush_header_def)
next
  case (Cons h hers tx texts)
  from Cons.hyps(1) have t: "tx \<noteq> []" "\<not> is_abnf_ws (hd tx)" "CR \<notin> set tx"
    "ParseHeader parser_table tx = Ok [h]" by (simp_all add: header_reads_back_def)
  have line: "NextLine [] (tx @ CRLF @ print_lines texts @ CRLF @ body) =
      Some (tx, print_lines texts @ CRLF @ body)" using t(3) by (rule NextLine_line)
  have flush: "flush_header buf acc = Ok (acc @ pre)"
    using Cons.prems by (auto simp: flush_header_def)
  have "header_section tx (acc @ pre) (print_lines texts @ CRLF @ body) =
      Some (Ok ((acc @ pre) @ [h] @ hers, body))"
    by (rule Cons.IH) (use t in auto)
  with line flush t show ?case by (simp add: header_section_line)
qed

lemma index_blank_skip:
  "CR \<notin> set l \<Longrightarrow> index_sub (CRLF @ CRLF) (l @ r) = map_option ((+) (length l)) (index_sub (CRLF @ CRLF) r)"
  by (induction l; cases "index_sub (CRLF @ CRLF) r") (auto simp: has_prefix_def CRLF_def)

lemma index_blank_line:
  assumes "x \<noteq> CR"
  shows "index_sub (CRLF @ CRLF) (CRLF @ x # r) = map_option ((+) 2) (index_sub (CRLF @ CRLF) (x # r))"
proof -
  have "LF \<noteq> CR" by (simp add: LF_def CR_def)
  with assms show ?thesis
    by (cases "index_sub (CRLF @ CRLF) (x # r)") (auto simp: has_prefix_def CRLF_def)
qed

lemma index_blank_lines:
  assumes "\<forall>l \<in> set ls. l \<noteq> [] \<and> CR \<notin> set l" "ls \<noteq> []"
  shows "index_sub (CRLF @ CRLF) (print_lines ls @ CRLF @ body) = Some (length (print_lines ls) - 2)"
  using assms
proof (induction ls)
  case (Cons l ls)
  show ?case
  proof (cases ls)
    case Nil
    have "index_sub (CRLF @ CRLF) (CRLF @ CRLF @ body) = Some 0"
      by (simp add: has_prefix_def CRLF_def)
    with Nil Cons.prems show ?thesis by (simp add: index_blank_skip) (simp add: CRLF_def)
  next
    case (Cons l2 ls2)
    then obtain x l2' where x: "l2 = x # l2'" "x \<noteq> CR"
      using Cons.prems(1) by (cases l2) auto
    with Cons have eq: "print_lines ls @ CRLF @ body = x # (l2' @ CRLF @ print_lines ls2 @ CRLF @ body)" by simp
    have "index_sub (CRLF @ CRLF) (print_lines ls @ CRLF @ body) = Some (length (print_lines ls) - 2)"
      using Cons.IH Cons.prems(1) \<open>ls = l2 # ls2\<close> by simp
    moreover have "2 \<le> length (print_lines ls)" using \<open>ls = l2 # ls2\<close> by (simp add: CRLF_def)
    ultimately show ?thesis
      using Cons.prems(1) eq index_blank_line [OF x(2), of "l2' @ CRLF @ print_lines ls2 @ CRLF @ body"]
      by (simp add: index_blank_skip) (simp add: CRLF_def)
  qed
qed simp

lemma headers_String_lines:
  assumes "headers_ok hs" "list_all2 header_reads_back (Headers hs) texts"
  shows "headers_String hs = Ok (print_lines texts)"
proof -
  have "concat (map (\<lambda>h. (case Header_String h of Ok s \<Rightarrow> s | _ \<Rightarrow> []) @ CRLF) l) = print_lines ts"
    if "list_all2 header_reads_back l ts" for l ts
    using that by (induction l ts rule: list_all2_induct) (auto simp: header_reads_back_def)
  with assms show ?thesis by (simp add: headers_String_ok)
qed

section \<open>Properties\<close>

text \<open>
  C6: The messages and errors that a streamed parser delivers, and the state it ends in,
  depend on the bytes written only, not on how they are cut into \<^verbatim>\<open>Write\<close> calls.
\<close>

theorem streamed_chunking_invariant:
  "write_all uuids cs (NewParser True) = write_all uuids [concat cs] (NewParser True)"
  by (rule write_all_concat)

text \<open>
  C34: A turn of the parser that delivers an event consumes input, in both modes, or ends the
  goroutine; between two writes the parser therefore delivers only finitely many events,
  at most two for each buffered byte plus one.
\<close>

theorem drain_bounded:
  "length (fst (drain uuids p)) \<le> 2 * length (pr_input p) + 1"
proof -
  have "length (fst (drain uuids p)) \<le> 2 * length (pr_input p) + (if pr_dead p then 0 else 1)"
  proof (induction uuids p rule: drain.induct)
    case (1 uuids p)
    show ?case
    proof (cases "parse_step uuids p")
      case None
      then show ?thesis by (simp add: drain.simps [of uuids p])
    next
      case (Some ep)
      obtain e p' where ep: "ep = (e, p')" by force
      have "length (fst (drain uuids p)) = Suc (length (fst (drain uuids p')))"
        using Some ep by (simp add: drain.simps [of uuids p] split: prod.split)
      also have "\<dots> \<le> Suc (2 * length (pr_input p') + (if pr_dead p' then 0 else 1))"
        using "1.IH" [OF Some ep [symmetric]] by simp
      also have "\<dots> \<le> 2 * length (pr_input p) + (if pr_dead p then 0 else 1)"
        using parse_step_decreases [of uuids p e p'] Some ep by simp
      finally show ?thesis .
    qed
  qed
  also have "\<dots> \<le> 2 * length (pr_input p) + 1" by simp
  finally show ?thesis .
qed

text \<open>
  \<^verbatim>\<open>ParseMessage\<close> on data without an empty line never returns: \<^verbatim>\<open>Write\<close> reports no error and
  hands nothing to the parser, whose result the caller waits for.
\<close>

theorem ParseMessage_without_blank_line_hangs:
  assumes "\<not> contains_sub data (CRLF @ CRLF)"
  shows "ParseMessage uuids data = None"
proof -
  have "getBodyLength data = - 1" using assms by (simp add: getBodyLength_def contains_sub_def)
  moreover have "NextLine [] [] = None" by (simp add: NextLine.simps)
  ultimately show ?thesis
    by (simp add: ParseMessage_def parser_Write_def NewParser_def parse_step_def read_message_def)
qed

theorem ParseMessage_without_blank_line_hangs_witness:
  "ParseMessage (\<lambda>_. ''id'') ''OPTIONS sip:h SIP/2.0'' = None"
  by (rule ParseMessage_without_blank_line_hangs)
    (simp add: contains_sub_def has_prefix_def CRLF_def CR_def LF_def)

text \<open>
  A printed response whose header lines are read back is read back whole.
\<close>

lemma ParseMessage_response_lines:
  assumes ok: "headers_ok (m_headers res)"
    and hdrs: "list_all2 header_reads_back (Headers (m_headers res)) texts"
    and start: "\<not> isRequest (response_StartLine res)" "isResponse (response_StartLine res)"
      "CR \<notin> set (response_StartLine res)" "CHR '' '' \<notin> set (m_sipVersion res)"
    and body: "m_body res = '''' \<or> TrimSpace (m_body res) \<noteq> ''''"
    and printed: "response_String res = Ok text"
  shows "\<exists>res'. ParseMessage uuids text = Some (Ok (Res res')) \<and>
    m_sipVersion res' = m_sipVersion res \<and> s_status res' = s_status res \<and>
    s_reason res' = s_reason res \<and> m_body res' = m_body res \<and> m_messID res' = uuids 0 \<and>
    hs_headerOrder (m_headers res') = hs_headerOrder (m_headers res) \<and>
    (\<forall>n. GetHeaders n (m_headers res') = GetHeaders n (m_headers res))"
proof -
  let ?l = "response_StartLine res" and ?b = "m_body res"
  have tx: "text = print_lines (?l # texts) @ CRLF @ ?b"
    using printed headers_String_lines [OF ok hdrs] by (auto simp: response_String_def message_text_def)
  have ne: "?l \<noteq> []" by (simp add: response_StartLine_def)
  have "\<forall>l \<in> set texts. l \<noteq> [] \<and> CR \<notin> set l"
    using hdrs by (auto simp: list_all2_conv_all_nth header_reads_back_def in_set_conv_nth)
  then have idx: "index_sub (CRLF @ CRLF) text = Some (length (print_lines (?l # texts)) - 2)"
    unfolding tx using ne start(3) by (intro index_blank_lines) auto
  have "2 \<le> length (print_lines (?l # texts))" by (simp add: CRLF_def)
  then have bl: "getBodyLength text = int (length ?b)"
    using idx by (simp add: getBodyLength_def) (simp add: tx CRLF_def)
  have line: "NextLine [] text = Some (?l, print_lines texts @ CRLF @ ?b)"
    unfolding tx using NextLine_line [OF start(3)] by simp
  have hs: "header_section [] [] (print_lines texts @ CRLF @ ?b) = Some (Ok (Headers (m_headers res), ?b))"
    using header_section_lines [OF hdrs, of "[]" "[]" "[]"] by simp
  let ?r0 = "SetReason (s_reason res) (SetStatusCode (s_status res)
      (blank_response\<lparr>m_messID := uuids 0, m_sipVersion := m_sipVersion res\<rparr>))"
  have ps: "parse_start (uuids 0) ?l = Ok (Res ?r0)"
    using start StatusLine_print [OF start(4)]
    by (simp add: parse_start_def NewResponse_def newHeaders_def SetReason_def SetStatusCode_def blank_response_def)
  obtain hs' where hs': "add_headers (Headers (m_headers res)) empty_headers = Ok hs'"
    "hs_headerOrder hs' = hs_headerOrder (m_headers res)"
    "\<forall>n. GetHeaders n hs' = GetHeaders n (m_headers res)"
    using hm.rebuild [OF ok] by (auto simp: add_headers_list Headers_flat GetHeaders_at)
  have empty: "m_headers ?r0 = empty_headers" "m_body ?r0 = ''''"
    by (simp_all add: SetReason_def SetStatusCode_def blank_response_def)
  define r1 where "r1 = ?r0\<lparr>m_headers := hs', m_body := ?b\<rparr>"
  have "ParseMessage uuids text = Some (Ok (Res r1))"
    using bl line hs ps hs'(1) empty body
    by (auto simp: ParseMessage_def parser_Write_def NewParser_def parse_step_def read_message_def
        after_start_def read_body_def deliver_def NextChunk_def r1_def)
  then show ?thesis using hs' by (auto simp: r1_def SetReason_def SetStatusCode_def)
qed

end
