(* ===== verification/Gsip_Tx.thy ===== *)
theory Gsip_Tx
  imports Gsip_Stream
begin

text \<open>
  What the client and the server transactions share (\<^verbatim>\<open>transaction/base.go\<close>, \<^verbatim>\<open>transaction/tx.go\<close>):
  the timer values, the keys under which the transaction layer stores and finds a
  transaction, and the contract of the state machine library that drives both.
\<close>

section \<open>Timer values\<close>

text \<open>A \<^verbatim>\<open>time.Duration\<close> is a signed 64-bit number of nanoseconds.\<close>

type_synonym Duration = "64 word"

definition T1 :: Duration where "T1 = 500000000"
definition T2 :: Duration where "T2 = 4000000000"
definition T4 :: Duration where "T4 = 5000000000"
definition TimeA :: Duration where "TimeA = T1"
definition TimeB :: Duration where "TimeB = 64 * T1"
definition TimeD :: Duration where "TimeD = 32000000000"
definition TimeE :: Duration where "TimeE = T1"
definition TimeG :: Duration where "TimeG = T1"
definition TimeH :: Duration where "TimeH = 64 * T1"
definition TimeI :: Duration where "TimeI = T4"
definition TimeJ :: Duration where "TimeJ = 64 * T1"
definition TimeK :: Duration where "TimeK = T4"
definition Time1xx :: Duration where "Time1xx = 200000000"

lemmas time_defs = T1_def T2_def T4_def TimeA_def TimeB_def TimeD_def TimeE_def TimeG_def TimeH_def
  TimeI_def TimeJ_def TimeK_def Time1xx_def

section \<open>Transaction keys\<close>

type_synonym TxKey = string

text \<open>
  The branch parameter of the top hop. \<^verbatim>\<open>branch.String()\<close> is called as soon as the parameter
  is present, and panics when it has no value; nil \<^verbatim>\<open>Params\<close> panic too.
\<close>

definition magic_branch :: "string \<Rightarrow> bool" where
  "magic_branch b \<longleftrightarrow> b \<noteq> '''' \<and> has_prefix b RFC3261BranchMagicCookie \<and>
     trim_prefix b RFC3261BranchMagicCookie \<noteq> ''''"

definition hop_branch :: "ViaHop \<Rightarrow> string option outcome" where
  "hop_branch hop =
     (case vh_Params hop of
        None \<Rightarrow> Panic
      | Some p \<Rightarrow>
          (case Params_Get p ''branch'' of
             None \<Rightarrow> Ok None
           | Some branch \<Rightarrow> omap (\<lambda>b. if magic_branch b then Some b else None) (ms_String branch)))"

text \<open>The key of a request or response whose branch does not have the cookie of RFC 3261.\<close>

definition rfc2543_key :: "RequestMethod \<Rightarrow> CSeq \<Rightarrow> ViaHop \<Rightarrow> headers \<Rightarrow> TxKey outcome" where
  "rfc2543_key method seq hop hs =
     (case get_From hs of
        None \<Rightarrow> Fail (Errorf '''From' header not found'')
      | Some from \<Rightarrow>
          (case ah_Params from of
             None \<Rightarrow> Panic
           | Some p \<Rightarrow>
               (case Params_Get p ''tag'' of
                  None \<Rightarrow> Fail (Errorf '''tag' param not found in 'From' header'')
                | Some fromTag \<Rightarrow>
                    (case get_CallID hs of
                       None \<Rightarrow> Fail (Errorf '''Call-ID' header not found'')
                     | Some callId \<Rightarrow>
                         obind (ms_String fromTag) (\<lambda>tag.
                         obind (Header_String (CallID callId)) (\<lambda>callText.
                         obind (ViaHop_String hop) (\<lambda>hopText.
                         Ok (join ''__''
                           [tag, callText, method, show_nat (unat (cs_SeqNo seq)), hopText]))))))))"

definition MakeServerTxKey :: "Message \<Rightarrow> TxKey outcome" where
  "MakeServerTxKey msg =
     (let hs = Message_headers msg
      in case get_ViaHop hs of
           None \<Rightarrow> Fail (Errorf '''Via' header not found or empty'')
         | Some firstViaHop \<Rightarrow>
             (case get_CSeq hs of
                None \<Rightarrow> Fail (Errorf '''CSeq' header not found'')
              | Some seq \<Rightarrow>
                  let method = (if cs_MethodName seq = ACK \<or> cs_MethodName seq = CANCEL then INVITE
                                else cs_MethodName seq)
                  in obind (hop_branch firstViaHop) (\<lambda>branch.
                     case branch of
                       Some b \<Rightarrow>
                         Ok (join ''__''
                           [b, vh_Host firstViaHop,
                            port_text (hop_port (vh_Transport firstViaHop) firstViaHop), method])
                     | None \<Rightarrow> rfc2543_key method seq firstViaHop hs)))"

definition MakeClientTxKey :: "Message \<Rightarrow> TxKey outcome" where
  "MakeClientTxKey msg =
     (let hs = Message_headers msg
      in case get_CSeq hs of
           None \<Rightarrow> Fail (Errorf '''CSeq' header not found'')
         | Some cseq \<Rightarrow>
             let method = (if cs_MethodName cseq = ACK then INVITE else cs_MethodName cseq)
             in (case get_ViaHop hs of
                   None \<Rightarrow> Fail (Errorf '''Via' header not found or empty'')
                 | Some firstViaHop \<Rightarrow>
                     obind (hop_branch firstViaHop) (\<lambda>branch.
                     case branch of
                       None \<Rightarrow> Fail (Errorf '''branch' not found or empty in 'Via' header'')
                     | Some b \<Rightarrow> Ok (join ''__'' [b, method]))))"

section \<open>The state machine library\<close>

text \<open>
  Both transactions are driven by \<^verbatim>\<open>discoviking/fsm\<close>: \<^verbatim>\<open>Define\<close> takes for each state the outcomes
  (next state, action) of its inputs, and starts in the first state; \<^verbatim>\<open>Spin\<close> gives the machine
  an input. An action may return a further input (\<^term>\<open>None\<close> is \<^verbatim>\<open>NO_INPUT\<close>). The call of
  \<^verbatim>\<open>Spin\<close> is a parameter of the model. \<^term>\<open>None\<close> as its result is a call that never returns.
\<close>

type_synonym 't turn = "'t outcome option"

primrec tbind :: "'a turn \<Rightarrow> ('a \<Rightarrow> 'b turn) \<Rightarrow> 'b turn" where
  "tbind None f = None"
| "tbind (Some r) f = (case r of Ok x \<Rightarrow> f x | Fail e \<Rightarrow> Some (Fail e) | Panic \<Rightarrow> Some Panic)"

type_synonym ('t, 'i) action = "'t \<Rightarrow> ('t \<times> 'i option) turn"
type_synonym ('s, 'i, 't) fsm_table = "'s \<Rightarrow> 'i \<Rightarrow> ('s \<times> ('t, 'i) action) option"
type_synonym ('t, 'i) spinner = "'i \<Rightarrow> 't \<Rightarrow> ('t \<times> gerror option) turn"

definition NO_ACTION :: "('t, 'i) action" where "NO_ACTION t = Some (Ok (t, None))"

text \<open>
  What \<^verbatim>\<open>Spin\<close> is documented to do: an input without an outcome is an error and changes
  nothing; otherwise the machine goes to the next state, runs the action, and goes on with
  the input that the action returns.
\<close>

definition spin_law ::
  "('t \<Rightarrow> 's) \<Rightarrow> ('s \<Rightarrow> 't \<Rightarrow> 't) \<Rightarrow> ('s, 'i, 't) fsm_table \<Rightarrow> ('t, 'i) spinner \<Rightarrow> bool" where
  "spin_law current goto table spin \<longleftrightarrow>
     (\<forall>i t. case table (current t) i of
        None \<Rightarrow> \<exists>e. spin i t = Some (Ok (t, Some e))
      | Some (s, act) \<Rightarrow>
          spin i t = tbind (act (goto s t)) (\<lambda>(t', next).
            case next of None \<Rightarrow> Some (Ok (t', None)) | Some i' \<Rightarrow> spin i' t'))"

text \<open>\<^verbatim>\<open>if err := tx.fsm.Spin(in); err != nil \{ log \}\<close>.\<close>

definition spin_logged :: "('t, 'i) spinner \<Rightarrow> 'i \<Rightarrow> 't \<Rightarrow> 't turn" where
  "spin_logged spin i tx = tbind (spin i tx) (\<lambda>(tx', e). Some (Ok tx'))"

definition no_input :: "'t turn \<Rightarrow> ('t \<times> 'i option) turn" where
  "no_input r = tbind r (\<lambda>tx. Some (Ok (tx, None)))"

subsection \<open>What both transactions use\<close>

datatype TxError = TxTimeoutError TxKey | TxTransportError TxKey "gerror option"

text \<open>
  What the surroundings contribute to a call: the result of \<^verbatim>\<open>tpl.Send\<close>, the choice of a \<^verbatim>\<open>select\<close>
  whose two cases are both ready (\<^term>\<open>True\<close>: the case \<^verbatim>\<open><-tx.done\<close>), and the identifiers, addresses
  and random text that a new message takes.
\<close>

record tx_env =
  e_Send :: "Message \<Rightarrow> gerror option"
  e_pickDone :: bool
  e_uuid :: string
  e_addr :: nat
  e_random :: string

lemma tbind_simps [simp]:
  "tbind (Some (Ok x)) f = f x" "tbind (Some (Fail e)) f = Some (Fail e)" "tbind (Some Panic) f = Some Panic"
  by simp_all

lemma tbind_no_input [simp]:
  "tbind (no_input r) (\<lambda>(t', next). case next of None \<Rightarrow> Some (Ok (t', None)) | Some i' \<Rightarrow> f i' t') = no_input r"
  by (cases r) (auto simp: no_input_def split: outcome.split)

lemma tbind_assoc: "tbind (tbind r f) g = tbind r (\<lambda>x. tbind (f x) g)"
  by (cases r) (auto split: outcome.split)

lemma tbind_eq_Ok: "tbind r f = Some (Ok y) \<longleftrightarrow> (\<exists>x. r = Some (Ok x) \<and> f x = Some (Ok y))"
  by (cases r) (auto split: outcome.splits)

lemma no_input_eq_Ok: "no_input r = Some (Ok (tx, e)) \<longleftrightarrow> r = Some (Ok tx) \<and> e = None"
  by (auto simp: no_input_def tbind_eq_Ok)

lemma spin_lawD:
  assumes "spin_law current goto table spin"
  shows "case table (current t) i of
        None \<Rightarrow> \<exists>e. spin i t = Some (Ok (t, Some e))
      | Some (s, act) \<Rightarrow>
          spin i t = tbind (act (goto s t)) (\<lambda>(t', next).
            case next of None \<Rightarrow> Some (Ok (t', None)) | Some i' \<Rightarrow> spin i' t')"
  using assms unfolding spin_law_def by blast

lemma spin_law_undefined:
  assumes "spin_law current goto table spin" "table (current t) i = None"
  shows "\<exists>e. spin i t = Some (Ok (t, Some e))"
  using spin_lawD [OF assms(1), where t = t and i = i] assms(2) by simp

lemma spin_law_step:
  assumes "spin_law current goto table spin" "table (current t) i = Some (s, act)"
  shows "spin i t = tbind (act (goto s t)) (\<lambda>(t', next).
    case next of None \<Rightarrow> Some (Ok (t', None)) | Some i' \<Rightarrow> spin i' t')"
  using spin_lawD [OF assms(1), where t = t and i = i] assms(2) by simp

text \<open>The loop that keeps to the documentation.\<close>

partial_function (option) spin_loop ::
  "('t \<Rightarrow> 's) \<Rightarrow> ('s \<Rightarrow> 't \<Rightarrow> 't) \<Rightarrow> ('s, 'i, 't) fsm_table \<Rightarrow> 'i \<Rightarrow> 't \<Rightarrow> ('t \<times> gerror option) turn" where
  "spin_loop current goto table i t =
     (case table (current t) i of
        None \<Rightarrow> Some (Ok (t, Some (Errorf ''no outcome'')))
      | Some (s, act) \<Rightarrow>
          Option.bind (act (goto s t)) (\<lambda>r. case r of
              Ok (t', next) \<Rightarrow>
                (case next of None \<Rightarrow> Some (Ok (t', None)) | Some i' \<Rightarrow> spin_loop current goto table i' t')
            | Fail e \<Rightarrow> Some (Fail e)
            | Panic \<Rightarrow> Some Panic))"

lemma spin_loop_law: "spin_law current goto table (spin_loop current goto table)"
proof -
  have "case table (current t) i of
        None \<Rightarrow> \<exists>e. spin_loop current goto table i t = Some (Ok (t, Some e))
      | Some (s, act) \<Rightarrow>
          spin_loop current goto table i t = tbind (act (goto s t)) (\<lambda>(t', next).
            case next of None \<Rightarrow> Some (Ok (t', None)) | Some i' \<Rightarrow> spin_loop current goto table i' t')" for i t
  proof (cases "table (current t) i")
    case None
    then show ?thesis by (subst spin_loop.simps) simp
  next
    case (Some sa)
    obtain s act where sa: "sa = (s, act)" by (cases sa)
    show ?thesis
      using Some sa
      by (subst spin_loop.simps)
        (cases "act (goto s t)", auto split: outcome.splits prod.splits option.splits)
  qed
  then show ?thesis by (simp add: spin_law_def)
qed

section \<open>Lemmas on keys\<close>

text \<open>A key depends on four headers only.\<close>

definition same_key_headers :: "headers \<Rightarrow> headers \<Rightarrow> bool" where
  "same_key_headers a b \<longleftrightarrow>
     (\<forall>k \<in> {''via'', ''cseq'', ''from'', ''call-id''}. headers_at a k = headers_at b k)"

lemma same_key_accessors:
  assumes "same_key_headers a b"
  shows "get_ViaHop a = get_ViaHop b" "get_CSeq a = get_CSeq b" "get_From a = get_From b"
    "get_CallID a = get_CallID b"
proof -
  have "first_header n a = first_header n b" if "ToLower n \<in> {''via'', ''cseq'', ''from'', ''call-id''}" for n
    using assms that unfolding first_header_at same_key_headers_def by metis
  from this [of "''Via''"] this [of "''CSeq''"] this [of "''From''"] this [of "''Call-ID''"]
  show "get_ViaHop a = get_ViaHop b" "get_CSeq a = get_CSeq b" "get_From a = get_From b"
    "get_CallID a = get_CallID b"
    by (simp_all add: get_ViaHop_def get_Via_def get_CSeq_def get_From_def get_CallID_def)
qed

lemma key_accessors_cong:
  assumes "get_ViaHop (Message_headers m) = get_ViaHop (Message_headers m')"
    "get_CSeq (Message_headers m) = get_CSeq (Message_headers m')"
    "get_From (Message_headers m) = get_From (Message_headers m')"
    "get_CallID (Message_headers m) = get_CallID (Message_headers m')"
  shows "MakeServerTxKey m = MakeServerTxKey m'" "MakeClientTxKey m = MakeClientTxKey m'"
  unfolding MakeServerTxKey_def MakeClientTxKey_def rfc2543_key_def Let_def assms by (rule refl)+

lemma key_headers_cong:
  assumes "same_key_headers (Message_headers m) (Message_headers m')"
  shows "MakeServerTxKey m = MakeServerTxKey m'" "MakeClientTxKey m = MakeClientTxKey m'"
  using same_key_accessors [OF assms] key_accessors_cong by blast+

lemma rfc2543_key_cong:
  assumes "get_From hs = get_From hs'" "get_CallID hs = get_CallID hs'"
  shows "rfc2543_key m \<lparr>cs_SeqNo = n, cs_MethodName = c\<rparr> hop hs =
    rfc2543_key m \<lparr>cs_SeqNo = n, cs_MethodName = c'\<rparr> hop hs'"
  unfolding rfc2543_key_def assms CSeq.select_convs by (rule refl)

lemma INVITE_no_us [simp]: "CHR ''_'' \<notin> set INVITE"
  by (simp add: INVITE_def)

lemma last_sep_unique:
  fixes a :: string
  assumes "a @ c # b = a' @ c # b'" "c \<notin> set b" "c \<notin> set b'"
  shows "a = a' \<and> b = b'"
proof -
  have "rev b @ c # rev a = rev b' @ c # rev a'"
    using arg_cong [OF assms(1), of rev] by simp
  moreover from this have "length b = length b'"
    using index_char_append [of c "rev b" "rev a"] index_char_append [of c "rev b'" "rev a'"] assms(2,3) by simp
  ultimately show ?thesis by simp
qed

lemma join_sep_unique:
  assumes "a @ ''__'' @ b = a' @ ''__'' @ b'" "CHR ''_'' \<notin> set b" "CHR ''_'' \<notin> set b'"
  shows "a = a' \<and> b = b'"
  using last_sep_unique [of "a @ ''_''" "CHR ''_''" b "a' @ ''_''" b'] assms by simp

lemma port_text_us [simp]: "CHR ''_'' \<notin> set (port_text p)"
  by (intro port_text_notin) (simp add: is_digit_def byte_def)

lemma port_text_inject: "port_text p = port_text q \<Longrightarrow> p = q"
  by (auto simp: port_text_def show_nat_inject unsigned_word_eqI)

text \<open>A server key determines its four parts.\<close>

lemma server_key_parts:
  assumes "join ''__'' [b, h, port_text p, m] = join ''__'' [b', h', port_text p', m']"
    and "CHR ''_'' \<notin> set h \<union> set h' \<union> set m \<union> set m'"
  shows "b = b' \<and> h = h' \<and> p = p' \<and> m = m'"
proof -
  have "(b @ ''__'' @ h @ ''__'' @ port_text p) @ ''__'' @ m = (b' @ ''__'' @ h' @ ''__'' @ port_text p') @ ''__'' @ m'"
    using assms(1) by simp
  then have 1: "m = m'" "(b @ ''__'' @ h) @ ''__'' @ port_text p = (b' @ ''__'' @ h') @ ''__'' @ port_text p'"
    using join_sep_unique [of "b @ ''__'' @ h @ ''__'' @ port_text p" m "b' @ ''__'' @ h' @ ''__'' @ port_text p'" m'] assms(2)
    by simp_all
  from join_sep_unique [OF 1(2)] have 2: "p = p'" "b @ ''__'' @ h = b' @ ''__'' @ h'"
    by (auto dest: port_text_inject)
  from join_sep_unique [OF 2(2)] assms(2) 1(1) 2(1) show ?thesis by auto
qed

definition tx_method :: "RequestMethod \<Rightarrow> RequestMethod" where
  "tx_method m = (if m = ACK \<or> m = CANCEL then INVITE else m)"

text \<open>The parts of a key of RFC 3261.\<close>

definition key_parts :: "headers \<Rightarrow> (string \<times> string \<times> Port \<times> RequestMethod) option" where
  "key_parts hs =
     (case (get_ViaHop hs, get_CSeq hs) of
        (Some hop, Some seq) \<Rightarrow>
          (case hop_branch hop of
             Ok (Some b) \<Rightarrow> Some (b, vh_Host hop, hop_port (vh_Transport hop) hop, tx_method (cs_MethodName seq))
           | _ \<Rightarrow> None)
      | _ \<Rightarrow> None)"

lemma key_parts_server:
  "key_parts (Message_headers msg) = Some (b, h, p, m) \<Longrightarrow>
     MakeServerTxKey msg = Ok (join ''__'' [b, h, port_text p, m])"
  by (auto simp: key_parts_def MakeServerTxKey_def tx_method_def Let_def
      split: option.splits outcome.splits)

lemma branch_of_generated:
  assumes "length r \<noteq> 0" "vh_Params hop = Some (Params_Add ''branch'' (Str (GenerateBranch r)) p)"
  shows "hop_branch hop = Ok (Some (GenerateBranch r))"
proof -
  have "magic_branch (GenerateBranch r)"
    using assms(1) RandString_length [of r False]
    by (auto simp: magic_branch_def GenerateBranch_eq simp del: RandString_length)
  then show ?thesis using assms(2) by (simp add: hop_branch_def Params_Get_Add)
qed

text \<open>What an ACK keeps of its response.\<close>

lemma routes_from_record_at:
  "headers_ok hs \<Longrightarrow> \<forall>h \<in> set hers. header_ok h \<Longrightarrow> routes_from_record hers hs = Ok hs' \<Longrightarrow>
     headers_ok hs' \<and> (\<forall>k. k \<noteq> ''route'' \<longrightarrow> headers_at hs' k = headers_at hs k)"
proof (induction hers arbitrary: hs)
  case (Cons h hers)
  from Cons.prems(3) obtain addrs hs1 where h: "h = RecordRouteHeader addrs"
    and hs1: "AddHeader (RouteHeader (map Uri_Copy addrs)) hs = Ok hs1" "routes_from_record hers hs1 = Ok hs'"
    by (cases h) (auto simp: outcome_simps)
  have ok: "header_ok (RouteHeader (map Uri_Copy addrs))"
    using Cons.prems(2) h by (simp add: uris_Copy_id)
  have "headers_ok hs1" using headers_ok_AddHeader [OF Cons.prems(1) ok hs1(1)] .
  moreover have "k \<noteq> ''route'' \<Longrightarrow> headers_at hs1 k = headers_at hs k" for k
    using hm.get_add [OF Cons.prems(1) ok hs1(1)] by (simp add: header_key_simps)
  ultimately show ?case using Cons.IH [of hs1] Cons.prems(2) hs1(2) by auto
qed simp

lemma get_Via_at: "get_Via hs = (case headers_at hs ''via'' of ViaHeader v # _ \<Rightarrow> Some v | _ \<Rightarrow> None)"
  by (simp add: get_Via_def first_header_at split: list.split)

lemma get_CSeq_at: "get_CSeq hs = (case headers_at hs ''cseq'' of CSeqHeader c # _ \<Rightarrow> Some c | _ \<Rightarrow> None)"
  by (simp add: get_CSeq_def first_header_at split: list.split)

lemma set_cseq_method_at:
  assumes "get_CSeq hs = Some c"
  shows "get_CSeq (set_cseq_method m hs) = Some (c\<lparr>cs_MethodName := m\<rparr>)"
    and "k \<noteq> ''cseq'' \<Longrightarrow> headers_at (set_cseq_method m hs) k = headers_at hs k"
proof -
  obtain rest where "headers_at hs ''cseq'' = CSeqHeader c # rest"
    using assms by (auto simp: get_CSeq_at split: list.splits Header.splits)
  with assms show "get_CSeq (set_cseq_method m hs) = Some (c\<lparr>cs_MethodName := m\<rparr>)"
    by (simp add: set_cseq_method_def get_CSeq_at write_first_at)
  show "k \<noteq> ''cseq'' \<Longrightarrow> headers_at (set_cseq_method m hs) k = headers_at hs k"
    using assms by (simp add: set_cseq_method_def write_first_at)
qed

lemma ViaHop_params:
  assumes "headers_ok hs" "get_Via hs = Some (hop # hops)"
  obtains p where "vh_Params hop = Some p" "params_ok p" "list_all hop_ok hops"
proof -
  obtain rest where "headers_at hs ''via'' = ViaHeader (hop # hops) # rest"
    using assms(2) by (auto simp: get_Via_at split: list.splits Header.splits)
  then have "header_ok (ViaHeader (hop # hops))"
    using headers_at_key [OF assms(1), of "ViaHeader (hop # hops)" "''via''"] by simp
  then show thesis using that by (auto simp: hop_ok_def opt_params_ok_def split: option.splits)
qed

text \<open>Writing a parameter of the top hop.\<close>

lemma add_hop_param_at:
  assumes "headers_ok hs" "get_Via hs = Some (hop # hops)" "add_hop_param key val hs = Ok hs'"
  shows "headers_ok hs'" "k \<noteq> ''via'' \<Longrightarrow> headers_at hs' k = headers_at hs k"
    "\<exists>p. get_Via hs' = Some (hop\<lparr>vh_Params := Some (Params_Add key val p)\<rparr> # hops)"
proof -
  obtain p where p: "vh_Params hop = Some p" "params_ok p" "list_all hop_ok hops"
    by (rule ViaHop_params [OF assms(1,2)])
  let ?v = "ViaHeader (hop\<lparr>vh_Params := Some (Params_Add key val p)\<rparr> # hops)"
  have hs': "hs' = write_first ''via'' (\<lambda>_. ?v) hs"
    using assms(2,3) p(1) by (simp add: add_hop_param_def)
  show "headers_ok hs'"
    unfolding hs' using p by (intro headers_ok_write_first assms(1))
      (simp add: header_key_simps hop_ok_def opt_params_ok_def params_ok_Add)
  show "k \<noteq> ''via'' \<Longrightarrow> headers_at hs' k = headers_at hs k" by (simp add: hs' write_first_at)
  show "\<exists>p. get_Via hs' = Some (hop\<lparr>vh_Params := Some (Params_Add key val p)\<rparr> # hops)"
    using assms(2) by (auto simp: hs' get_Via_at write_first_at split: list.splits)
qed

lemma ack_routes_at:
  assumes "headers_ok from" "headers_ok hs"
    and "(if 0 < length (GetHeaders ''Route'' from) then CopyHeaders ''Route'' from hs
          else routes_from_record (GetHeaders ''Record-Route'' from) hs) = Ok hs'"
  shows "headers_ok hs' \<and> (\<forall>k. k \<noteq> ''route'' \<longrightarrow> headers_at hs' k = headers_at hs k)"
proof (cases "0 < length (GetHeaders ''Route'' from)")
  case True
  obtain t where t: "CopyHeaders ''Route'' from hs = Ok t" "headers_ok t"
    "\<And>k. headers_at t k = headers_at hs k @ (if k = ToLower ''Route'' then headers_at from k else [])"
    by (rule CopyHeaders_ok [OF assms(1,2), of "''Route''"]) (auto simp: auth_key_def)
  with True assms(3) show ?thesis by simp
next
  case False
  have "\<forall>h \<in> set (GetHeaders ''Record-Route'' from). header_ok h"
    using headers_at_key [OF assms(1)] by (auto simp: GetHeaders_at)
  with False assms show ?thesis using routes_from_record_at by auto
qed

lemma CreateAck_parts:
  assumes ok: "headers_ok (m_headers res)" and ack: "CreateAck uuid r res = Ok ack"
    and hop: "get_ViaHop (m_headers res) = Some hop" and seq: "get_CSeq (m_headers res) = Some seq"
    and r: "length r \<noteq> 0"
  shows "key_parts (m_headers ack) =
    Some (GenerateBranch r, vh_Host hop, hop_port (vh_Transport hop) hop, INVITE)"
proof -
  let ?from = "m_headers res" and ?hs0 = "m_headers (CreateSimpleRequest uuid ACK (m_src res))"
  obtain hops where via: "get_Via ?from = Some (hop # hops)"
    using hop by (auto simp: get_ViaHop_def split: option.splits list.splits)
  have h0: "headers_ok ?hs0" "headers_at ?hs0 k = []" for k
    by (simp_all add: CreateSimpleRequest_def SetMethod_def blank_request_def set_cseq_method_def
        get_CSeq_at)
  obtain hs1 hs2 hs3 hs4 where steps:
    "CopyHeaders ''Via'' ?from ?hs0 = Ok hs1" "add_hop_param ''branch'' (Str (GenerateBranch r)) hs1 = Ok hs2"
    "(if 0 < length (GetHeaders ''Route'' ?from) then CopyHeaders ''Route'' ?from hs2
          else routes_from_record (GetHeaders ''Record-Route'' ?from) hs2) = Ok hs3"
    "CopyHeaders_all [''From'', ''To'', ''Call-ID'', ''CSeq''] ?from hs3 = Ok hs4"
    "m_headers ack = set_cseq_method ACK hs4"
    using ack by (auto simp: CreateAck_def Let_def outcome_simps)
  obtain t where t: "CopyHeaders ''Via'' ?from ?hs0 = Ok t" "headers_ok t"
    "\<And>k. headers_at t k = headers_at ?hs0 k @ (if k = ToLower ''Via'' then headers_at ?from k else [])"
    by (rule CopyHeaders_ok [OF ok h0(1), of "''Via''"]) (auto simp: auth_key_def)
  with steps(1) have h1: "headers_ok hs1" "get_Via hs1 = Some (hop # hops)" "headers_at hs1 ''cseq'' = []"
    using via h0(2) by (auto simp: get_Via_at)
  note h2 = add_hop_param_at [OF h1(1,2) steps(2)]
  from h2(3) obtain p where p:
    "get_Via hs2 = Some (hop\<lparr>vh_Params := Some (Params_Add ''branch'' (Str (GenerateBranch r)) p)\<rparr> # hops)"
    by blast
  note h3 = ack_routes_at [OF ok h2(1) steps(3)]
  obtain u where u: "CopyHeaders_all [''From'', ''To'', ''Call-ID'', ''CSeq''] ?from hs3 = Ok u"
    "\<And>k. headers_at u k = headers_at hs3 k @
       (if k \<in> ToLower ` set [''From'', ''To'', ''Call-ID'', ''CSeq''] then headers_at ?from k else [])"
    by (rule CopyHeaders_all_ok [OF ok conjunct1 [OF h3], of "[''From'', ''To'', ''Call-ID'', ''CSeq'']"])
      (auto simp: auth_key_def)
  have "headers_at hs4 ''cseq'' = headers_at ?from ''cseq''" "headers_at hs4 ''via'' = headers_at hs2 ''via''"
    using u steps(4) h3 h2(2) h1(3) by auto
  then have "get_CSeq hs4 = Some seq" "get_Via hs4 = get_Via hs2"
    using seq by (simp_all add: get_CSeq_at get_Via_at)
  then have "get_CSeq (m_headers ack) = Some (seq\<lparr>cs_MethodName := ACK\<rparr>)"
    "get_Via (m_headers ack) = get_Via hs2"
    using set_cseq_method_at [of hs4 seq] steps(5) by (auto simp: get_Via_at)
  then show ?thesis
    using p branch_of_generated [OF r, of "hop\<lparr>vh_Params := Some (Params_Add ''branch'' (Str (GenerateBranch r)) p)\<rparr>" p]
    by (simp add: key_parts_def get_ViaHop_def tx_method_def hop_port_def)
qed

section \<open>Properties\<close>

lemma CreateResponse_keys:
  assumes "headers_ok (m_headers req)" "request_Destination req = Ok d" "request_Source req = Ok s"
  shows "\<exists>res. CreateResponse uuid a r code req = Ok res \<and>
    MakeServerTxKey (Res res) = MakeServerTxKey (Req req) \<and>
    MakeClientTxKey (Res res) = MakeClientTxKey (Req req)"
proof -
  let ?res = "SetStatusCode code (blank_response\<lparr>m_messID := uuid, m_sipVersion := m_sipVersion req\<rparr>)"
  obtain res where res: "fill_response a r code req ?res = Ok res"
    "\<And>k. k \<in> {''record-route'', ''via'', ''from'', ''call-id'', ''cseq''} \<Longrightarrow>
        headers_at (m_headers res) k = headers_at (m_headers req) k"
    by (rule fill_response_ok [OF assms, of a r code ?res]) (rule that)
  then have "same_key_headers (Message_headers (Res res)) (Message_headers (Req req))"
    by (simp add: same_key_headers_def)
  with res(1) key_headers_cong show ?thesis by (auto simp: CreateResponse_def)
qed

text \<open>
  C25: The response that \<^verbatim>\<open>CreateResponse\<close> makes for a request has the server key and the client
  key of the request, whatever its branch looks like: it is found by the same transactions.
\<close>

theorem CreateResponse_keeps_keys:
  assumes "headers_ok (m_headers req)" "request_Destination req = Ok d" "request_Source req = Ok s"
  shows "\<exists>res. CreateResponse uuid a r code req = Ok res \<and>
    MakeServerTxKey (Res res) = MakeServerTxKey (Req req) \<and>
    MakeClientTxKey (Res res) = MakeClientTxKey (Req req)"
  by (rule CreateResponse_keys [OF assms])

definition sample_hop :: "MaybeString \<Rightarrow> ViaHop" where
  "sample_hop branch = \<lparr>vh_ProtocolName = ''SIP'', vh_ProtocolVersion = ''2.0'', vh_Transport = ''UDP'',
     vh_Host = ''h'', vh_Port = Some 5060,
     vh_Params = Some (Params_Add ''branch'' branch NewParams)\<rparr>"

definition sample_msg_headers :: "MaybeString \<Rightarrow> RequestMethod \<Rightarrow> headers" where
  "sample_msg_headers branch method =
     \<lparr>hs_headers = [(''via'', [ViaHeader [sample_hop branch]]),
        (''cseq'', [CSeqHeader \<lparr>cs_SeqNo = 1, cs_MethodName = method\<rparr>])],
      hs_headerOrder = [''via'', ''cseq'']\<rparr>"

lemma sample_accessors:
  "get_ViaHop (sample_msg_headers branch method) = Some (sample_hop branch)"
  "get_CSeq (sample_msg_headers branch method) = Some \<lparr>cs_SeqNo = 1, cs_MethodName = method\<rparr>"
  "headers_ok (sample_msg_headers branch method)"
  "get_From (sample_msg_headers branch method) = None" "get_CallID (sample_msg_headers branch method) = None"
  by (simp_all add: get_From_def get_CallID_def first_header_at get_ViaHop_def get_Via_at get_CSeq_at headers_at_def sample_msg_headers_def
      headers_ok_def entry_ok_def header_key_simps sample_hop_def hop_ok_def opt_params_ok_def params_ok_Add)

lemma sample_parts:
  "key_parts (sample_msg_headers (Str ''z9hG4bKa'') INVITE) = Some (''z9hG4bKa'', ''h'', 5060, INVITE)"
  by (simp add: key_parts_def sample_accessors sample_hop_def hop_branch_def Params_Get_Add magic_branch_def
      has_prefix_def trim_prefix_def RFC3261BranchMagicCookie_def hop_port_def tx_method_def INVITE_def
      ACK_def CANCEL_def)

theorem CreateResponse_keeps_keys_witness:
  "\<exists>res. CreateResponse ''id'' 0 ''xxxxxxxxxx'' 200
      (blank_request\<lparr>m_headers := sample_msg_headers (Str ''z9hG4bKa'') INVITE, m_src := ''s'', m_dest := ''d''\<rparr>) = Ok res \<and>
    MakeServerTxKey (Res res) = Ok (join ''__'' [''z9hG4bKa'', ''h'', port_text 5060, INVITE])"
proof -
  let ?req = "blank_request\<lparr>m_headers := sample_msg_headers (Str ''z9hG4bKa'') INVITE, m_src := ''s'', m_dest := ''d''\<rparr>"
  have "MakeServerTxKey (Req ?req) = Ok (join ''__'' [''z9hG4bKa'', ''h'', port_text 5060, INVITE])"
    by (rule key_parts_server) (simp add: sample_parts)
  moreover have "request_Destination ?req = Ok ''d''" "request_Source ?req = Ok ''s''"
    by (simp_all add: request_Destination_def request_Source_def)
  ultimately show ?thesis
    using CreateResponse_keeps_keys [of ?req "''d''" "''s''" "''id''" 0 "''xxxxxxxxxx''" 200]
    by (auto simp: sample_accessors)
qed

text \<open>
  An ACK or a CANCEL with the top hop, the sender, the call and the sequence number of an INVITE
  has the server key of the INVITE, by both generations of the protocol; as a client
  transaction an ACK has the key of the INVITE and a CANCEL a key of its own.
\<close>

theorem ack_cancel_match_invite:
  assumes "get_ViaHop (m_headers req) = get_ViaHop (m_headers inv0)"
    and "get_From (m_headers req) = get_From (m_headers inv0)"
    and "get_CallID (m_headers req) = get_CallID (m_headers inv0)"
    and "get_CSeq (m_headers inv0) = Some \<lparr>cs_SeqNo = n, cs_MethodName = INVITE\<rparr>"
    and "get_CSeq (m_headers req) = Some \<lparr>cs_SeqNo = n, cs_MethodName = m\<rparr>" "m \<in> {ACK, CANCEL}"
  shows "MakeServerTxKey (Req req) = MakeServerTxKey (Req inv0) \<and>
    (if m = ACK then MakeClientTxKey (Req req) = MakeClientTxKey (Req inv0)
     else \<forall>key. MakeClientTxKey (Req inv0) = Ok key \<longrightarrow> MakeClientTxKey (Req req) \<noteq> Ok key)"
proof -
  have ne: "INVITE \<noteq> ACK" "INVITE \<noteq> CANCEL" "CANCEL \<noteq> ACK" "CHR ''_'' \<notin> set INVITE" "CHR ''_'' \<notin> set CANCEL"
    by (simp_all add: INVITE_def ACK_def CANCEL_def)
  have "MakeServerTxKey (Req req) = MakeServerTxKey (Req inv0)"
    unfolding MakeServerTxKey_def Let_def Message_headers.simps assms(1,4,5) option.case CSeq.select_convs
      rfc2543_key_cong [OF assms(2,3), where c = m and c' = INVITE] using assms(6) ne by auto
  moreover have "m = ACK \<Longrightarrow> MakeClientTxKey (Req req) = MakeClientTxKey (Req inv0)"
    using assms ne by (simp add: MakeClientTxKey_def)
  moreover have "MakeClientTxKey (Req req) \<noteq> Ok key"
    if c: "m = CANCEL" and k: "MakeClientTxKey (Req inv0) = Ok key" for key
  proof
    assume req: "MakeClientTxKey (Req req) = Ok key"
    obtain b where "key = b @ ''__'' @ INVITE"
      using assms(4) ne k by (auto simp: MakeClientTxKey_def outcome_simps split: option.splits)
    moreover obtain b' where "key = b' @ ''__'' @ CANCEL"
      using assms(5) ne c req by (auto simp: MakeClientTxKey_def outcome_simps split: option.splits)
    ultimately show False using join_sep_unique [of b INVITE b' CANCEL] ne by simp
  qed
  ultimately show ?thesis using assms(6) by auto
qed

theorem ack_cancel_match_invite_witness:
  "MakeServerTxKey (Req (blank_request\<lparr>m_headers := sample_msg_headers (Str ''z9hG4bKa'') CANCEL\<rparr>)) =
     Ok (join ''__'' [''z9hG4bKa'', ''h'', port_text 5060, INVITE])"
proof -
  let ?inv = "blank_request\<lparr>m_headers := sample_msg_headers (Str ''z9hG4bKa'') INVITE\<rparr>"
  have "MakeServerTxKey (Req ?inv) = Ok (join ''__'' [''z9hG4bKa'', ''h'', port_text 5060, INVITE])"
    by (rule key_parts_server) (simp add: sample_parts)
  then show ?thesis
    using ack_cancel_match_invite [of "blank_request\<lparr>m_headers := sample_msg_headers (Str ''z9hG4bKa'') CANCEL\<rparr>" ?inv 1 CANCEL]
    by (simp add: sample_accessors)
qed

text \<open>
  C26: Two messages whose branches have the cookie of RFC 3261 and whose hosts and transaction methods hold no underscore have
  the same server key exactly if their branches, hosts, ports and methods agree. The proviso is needed: the parts
  are joined by two underscores, so a branch that ends in an underscore and a host that begins with one
  give the key of another transaction.
\<close>

theorem server_key_match_iff:
  assumes "key_parts (Message_headers msg) = Some (b, h, p, m)"
    and "key_parts (Message_headers msg') = Some (b', h', p', m')"
  shows "(CHR ''_'' \<notin> set h \<union> set h' \<union> set m \<union> set m' \<longrightarrow>
      (MakeServerTxKey msg = MakeServerTxKey msg' \<longleftrightarrow> b = b' \<and> h = h' \<and> p = p' \<and> m = m')) \<and>
    (b' = b @ ''_'' \<and> h = ''_'' @ h' \<and> p = p' \<and> m = m' \<longrightarrow> MakeServerTxKey msg = MakeServerTxKey msg')"
proof -
  note keys = key_parts_server [OF assms(1)] key_parts_server [OF assms(2)]
  have "MakeServerTxKey msg = MakeServerTxKey msg' \<longleftrightarrow> b = b' \<and> h = h' \<and> p = p' \<and> m = m'"
    if "CHR ''_'' \<notin> set h \<union> set h' \<union> set m \<union> set m'"
    using server_key_parts [of b h p m b' h' p' m'] that by (auto simp: keys simp del: join.simps)
  moreover have "MakeServerTxKey msg = MakeServerTxKey msg'" if "b' = b @ ''_''" "h = ''_'' @ h'" "p = p'" "m = m'"
    using that by (simp add: keys)
  ultimately show ?thesis by blast
qed

theorem server_key_match_iff_witness:
  "MakeServerTxKey (Req (blank_request\<lparr>m_headers := sample_msg_headers (Str ''z9hG4bKa'') INVITE\<rparr>)) =
   MakeServerTxKey (Res (blank_response\<lparr>m_headers := sample_msg_headers (Str ''z9hG4bKa'') INVITE\<rparr>))"
proof -
  have "CHR ''_'' \<notin> set INVITE" by (simp add: INVITE_def)
  then show ?thesis
    using server_key_match_iff [of "Req (blank_request\<lparr>m_headers := sample_msg_headers (Str ''z9hG4bKa'') INVITE\<rparr>)"
        "''z9hG4bKa''" "''h''" 5060 INVITE
        "Res (blank_response\<lparr>m_headers := sample_msg_headers (Str ''z9hG4bKa'') INVITE\<rparr>)"
        "''z9hG4bKa''" "''h''" 5060 INVITE]
    by (simp add: sample_parts)
qed

text \<open>
  The ACK that the client transaction sends for a failure response of an INVITE is made by
  \<^verbatim>\<open>CreateAck\<close>, which draws a new branch. Unless that draw repeats the branch of the INVITE, the
  ACK does not have the server key of the INVITE, so the server transaction that waits
  for it never finds it.
\<close>

theorem failure_ack_unmatched:
  assumes "headers_ok (m_headers res)" "CreateAck uuid r res = Ok ack" "length r \<noteq> 0"
    and "key_parts (m_headers res) = Some (b, h, p, INVITE)" "b \<noteq> GenerateBranch r" "CHR ''_'' \<notin> set h"
  shows "\<exists>k k'. MakeServerTxKey (Req ack) = Ok k \<and> MakeServerTxKey (Res res) = Ok k' \<and> k \<noteq> k'"
proof -
  obtain hop seq where hs: "get_ViaHop (m_headers res) = Some hop" "get_CSeq (m_headers res) = Some seq"
    "h = vh_Host hop" "p = hop_port (vh_Transport hop) hop"
    using assms(4) by (auto simp: key_parts_def split: option.splits outcome.splits)
  have "key_parts (Message_headers (Req ack)) = Some (GenerateBranch r, h, p, INVITE)"
    using CreateAck_parts [OF assms(1,2) hs(1,2) assms(3)] hs(3,4) by simp
  from key_parts_server [OF this] key_parts_server [of "Res res" b h p INVITE] assms(4)
  show ?thesis
    using server_key_parts [of "GenerateBranch r" h p INVITE b h p INVITE] assms(5,6)
    by (auto simp: INVITE_def simp del: join.simps)
qed

theorem failure_ack_unmatched_witness:
  "\<exists>ack k k'. CreateAck ''id'' ''r'' (blank_response\<lparr>m_headers := sample_msg_headers (Str ''z9hG4bKa'') INVITE\<rparr>) = Ok ack \<and>
     MakeServerTxKey (Req ack) = Ok k \<and>
     MakeServerTxKey (Res (blank_response\<lparr>m_headers := sample_msg_headers (Str ''z9hG4bKa'') INVITE\<rparr>)) = Ok k' \<and> k \<noteq> k'"
proof -
  let ?res = "blank_response\<lparr>m_headers := sample_msg_headers (Str ''z9hG4bKa'') INVITE\<rparr>"
  have "is_ok (CreateAck ''id'' ''r'' ?res)" by code_simp
  then obtain ack where "CreateAck ''id'' ''r'' ?res = Ok ack" by (auto simp: is_ok_iff)
  moreover have "''z9hG4bKa'' \<noteq> GenerateBranch ''r''" by code_simp
  ultimately show ?thesis
    using failure_ack_unmatched [of ?res "''id''" "''r''" ack "''z9hG4bKa''" "''h''" 5060]
    by (simp add: sample_accessors sample_parts)
qed

text \<open>
  A message whose top \<^verbatim>\<open>Via\<close> hop carries a \<^verbatim>\<open>branch\<close> parameter without a value makes the
  computation of both keys panic, wherever the message has a \<^verbatim>\<open>CSeq\<close> header.
\<close>

theorem nil_branch_panics:
  assumes "get_ViaHop (Message_headers msg) = Some hop" "vh_Params hop = Some p"
    and "Params_Get p ''branch'' = Some NilStr" "get_CSeq (Message_headers msg) = Some seq"
  shows "MakeServerTxKey msg = Panic \<and> MakeClientTxKey msg = Panic"
  using assms by (simp add: MakeServerTxKey_def MakeClientTxKey_def hop_branch_def Let_def)

theorem nil_branch_panics_witness:
  "MakeServerTxKey (Req (blank_request\<lparr>m_headers := sample_msg_headers NilStr INVITE\<rparr>)) = Panic"
  using nil_branch_panics [of "Req (blank_request\<lparr>m_headers := sample_msg_headers NilStr INVITE\<rparr>)" "sample_hop NilStr"
      "Params_Add ''branch'' NilStr NewParams"]
  by (simp add: sample_accessors sample_hop_def Params_Get_Add)

end
