(* ===== verification/Gsip_Client_Tx.thy ===== *)
theory Gsip_Client_Tx
  imports Gsip_Tx
begin

text \<open>
  The client transaction of \<^verbatim>\<open>transaction/client_tx.go\<close>: its state, the two state machines, the
  actions, and the calls and timers that drive them. The transport layer is the interface
  the transaction was created with: its \<^verbatim>\<open>Send\<close> is an argument. A timer is the duration it was
  last set to; a channel is the list of the values sent on it so far.
\<close>

section \<open>State\<close>

datatype ClientState =
    clientStateCalling
  | clientStateProceeding
  | clientStateCompleted
  | clientStateTerminated

datatype ClientInput =
    clientInput1xx
  | clientInput2xx
  | clientInput300Plus
  | clientInputTimerA
  | clientInputTimerB
  | clientInputTimerD
  | clientInputTransportErr
  | clientInputDelete

text \<open>
  \<open>ct_state\<close> is the current state of \<^verbatim>\<open>tx.fsm\<close>. \<open>ct_closed\<close> says that \<^verbatim>\<open>closeOnce\<close> ran, which closes
  the channels \<^verbatim>\<open>done\<close>, \<^verbatim>\<open>responses\<close> and \<^verbatim>\<open>errs\<close>. \<open>ct_sent\<close> lists the messages handed to the transport layer.
\<close>

record clientTx =
  ct_id :: nat
  ct_key :: TxKey
  ct_origin :: request
  ct_state :: ClientState
  ct_lastResp :: "response option"
  ct_lastErr :: "gerror option"
  ct_responses :: "response list"
  ct_errs :: "TxError list"
  ct_closed :: bool
  ct_timeATime :: Duration
  ct_timerA :: "Duration option"
  ct_timerB :: "Duration option"
  ct_timeDTime :: Duration
  ct_timerD :: "Duration option"
  ct_reliable :: bool
  ct_sent :: "Message list"

type_synonym client_action = "(clientTx, ClientInput) action"
type_synonym client_spinner = "(clientTx, ClientInput) spinner"

text \<open>\<^verbatim>\<open>NewClientTx\<close>; \<open>IsReliable\<close> is the method of the transport layer.\<close>

definition NewClientTx :: "nat \<Rightarrow> (string \<Rightarrow> bool) \<Rightarrow> request \<Rightarrow> clientTx outcome" where
  "NewClientTx handle IsReliable origin =
     omap (\<lambda>key.
       \<lparr>ct_id = handle, ct_key = key, ct_origin = origin, ct_state = clientStateCalling,
        ct_lastResp = None, ct_lastErr = None, ct_responses = [], ct_errs = [], ct_closed = False,
        ct_timeATime = 0, ct_timerA = None, ct_timerB = None, ct_timeDTime = 0, ct_timerD = None,
        ct_reliable = (case get_ViaHop (m_headers origin) of
                         Some viaHop \<Rightarrow> IsReliable (vh_Transport viaHop) | None \<Rightarrow> False),
        ct_sent = []\<rparr>)
       (MakeClientTxKey (Req origin))"

section \<open>Helpers of the actions\<close>

definition client_goto :: "ClientState \<Rightarrow> clientTx \<Rightarrow> clientTx" where
  "client_goto s tx = tx\<lparr>ct_state := s\<rparr>"

definition client_send :: "tx_env \<Rightarrow> Message \<Rightarrow> clientTx \<Rightarrow> gerror option \<times> clientTx" where
  "client_send env msg tx = (e_Send env msg, tx\<lparr>ct_sent := ct_sent tx @ [msg]\<rparr>)"

definition client_stopA :: "clientTx \<Rightarrow> clientTx" where "client_stopA tx = tx\<lparr>ct_timerA := None\<rparr>"

text \<open>
  \<^verbatim>\<open>ack\<close> has a value receiver: the error of its \<^verbatim>\<open>Send\<close> is stored in a copy of the transaction.
\<close>

definition client_ack :: "tx_env \<Rightarrow> client_spinner \<Rightarrow> clientTx \<Rightarrow> clientTx turn" where
  "client_ack env spin tx =
     (case ct_lastResp tx of
        None \<Rightarrow> Some Panic
      | Some lastResp \<Rightarrow>
          tbind (Some (CreateAck (e_uuid env) (e_random env) lastResp)) (\<lambda>ackRequest.
          case client_send env (Req ackRequest) tx of
            (None, tx1) \<Rightarrow> Some (Ok tx1)
          | (Some err, tx1) \<Rightarrow> spin_logged spin clientInputTransportErr tx1))"

definition client_resend :: "tx_env \<Rightarrow> client_spinner \<Rightarrow> clientTx \<Rightarrow> clientTx turn" where
  "client_resend env spin tx =
     (case client_send env (Req (ct_origin tx)) tx of
        (err, tx1) \<Rightarrow>
          let tx2 = tx1\<lparr>ct_lastErr := err\<rparr>
          in (case err of
                None \<Rightarrow> Some (Ok tx2)
              | Some _ \<Rightarrow> spin_logged spin clientInputTransportErr tx2))"

text \<open>
  Both cases of the \<^verbatim>\<open>select\<close> are ready once the channels are closed, and the send on the
  closed channel panics.
\<close>

definition client_passUp :: "tx_env \<Rightarrow> clientTx \<Rightarrow> clientTx turn" where
  "client_passUp env tx =
     (case ct_lastResp tx of
        None \<Rightarrow> Some (Ok tx)
      | Some lastResp \<Rightarrow>
          if ct_closed tx then (if e_pickDone env then Some (Ok tx) else Some Panic)
          else Some (Ok (tx\<lparr>ct_responses := ct_responses tx @ [lastResp]\<rparr>)))"

text \<open>
  The error of \<^verbatim>\<open>transportErr\<close> prints the last response: without one, \<^verbatim>\<open>res.Short()\<close> panics, and the
  deferred \<^verbatim>\<open>recover\<close> ends the call without an error being sent.
\<close>

definition client_transportErr :: "clientTx \<Rightarrow> clientTx" where
  "client_transportErr tx =
     (case ct_lastResp tx of
        None \<Rightarrow> tx
      | Some res \<Rightarrow>
          if ct_closed tx then tx
          else tx\<lparr>ct_errs := ct_errs tx @ [TxTransportError (ct_key tx) (ct_lastErr tx)]\<rparr>)"

definition client_timeoutErr :: "clientTx \<Rightarrow> clientTx" where
  "client_timeoutErr tx =
     (if ct_closed tx then tx else tx\<lparr>ct_errs := ct_errs tx @ [TxTimeoutError (ct_key tx)]\<rparr>)"

definition client_delete :: "clientTx \<Rightarrow> clientTx" where
  "client_delete tx =
     (if ct_closed tx then tx
      else tx\<lparr>ct_timerA := None, ct_timerB := None, ct_timerD := None, ct_closed := True\<rparr>)"

section \<open>Actions\<close>

definition actionInviteResend :: "tx_env \<Rightarrow> client_spinner \<Rightarrow> client_action" where
  "actionInviteResend env spin tx =
     (let t = ct_timeATime tx * 2
      in case ct_timerA tx of
           None \<Rightarrow> Some Panic
         | Some _ \<Rightarrow> no_input (client_resend env spin (tx\<lparr>ct_timeATime := t, ct_timerA := Some t\<rparr>)))"

definition actionNonInviteResend :: "tx_env \<Rightarrow> client_spinner \<Rightarrow> client_action" where
  "actionNonInviteResend env spin tx =
     (let t2 = ct_timeATime tx * 2; t = (if T2 <s t2 then T2 else t2)
      in case ct_timerA tx of
           None \<Rightarrow> Some Panic
         | Some _ \<Rightarrow> no_input (client_resend env spin (tx\<lparr>ct_timeATime := t, ct_timerA := Some t\<rparr>)))"

definition actionPassUp :: "tx_env \<Rightarrow> client_action" where
  "actionPassUp env tx = no_input (tbind (client_passUp env tx) (\<lambda>tx1. Some (Ok (client_stopA tx1))))"

definition client_startD :: "clientTx \<Rightarrow> clientTx" where
  "client_startD tx = (client_stopA tx)\<lparr>ct_timerD := Some (ct_timeDTime tx)\<rparr>"

definition actionInviteFinal :: "tx_env \<Rightarrow> client_spinner \<Rightarrow> client_action" where
  "actionInviteFinal env spin tx =
     no_input (tbind (client_passUp env tx) (\<lambda>tx1.
       tbind (client_ack env spin tx1) (\<lambda>tx2. Some (Ok (client_startD tx2)))))"

definition actionNonInviteFinal :: "tx_env \<Rightarrow> client_action" where
  "actionNonInviteFinal env tx =
     no_input (tbind (client_passUp env tx) (\<lambda>tx1. Some (Ok (client_startD tx1))))"

definition actionAck :: "tx_env \<Rightarrow> client_spinner \<Rightarrow> client_action" where
  "actionAck env spin tx = no_input (client_ack env spin tx)"

definition client_actionTransErr :: client_action where
  "client_actionTransErr tx = Some (Ok (client_stopA (client_transportErr tx), Some clientInputDelete))"

definition actionTimeout :: client_action where
  "actionTimeout tx = Some (Ok (client_stopA (client_timeoutErr tx), Some clientInputDelete))"

definition actionPassUpDelete :: "tx_env \<Rightarrow> client_action" where
  "actionPassUpDelete env tx =
     tbind (client_passUp env tx) (\<lambda>tx1. Some (Ok (client_stopA tx1, Some clientInputDelete)))"

definition client_actionDelete :: client_action where
  "client_actionDelete tx = Some (Ok (client_delete tx, None))"

section \<open>The state machines\<close>

text \<open>
  The outcomes that \<^verbatim>\<open>initInviteFSM\<close> and \<^verbatim>\<open>initNonInviteFSM\<close> define. \<open>spin\<close> is the \<^verbatim>\<open>Spin\<close> that an action
  calls while it runs.
\<close>

definition initInviteFSM :: "tx_env \<Rightarrow> client_spinner \<Rightarrow> (ClientState, ClientInput, clientTx) fsm_table" where
  "initInviteFSM env spin s i =
     (case s of
        clientStateCalling \<Rightarrow>
          (case i of
             clientInput1xx \<Rightarrow> Some (clientStateProceeding, actionPassUp env)
           | clientInput2xx \<Rightarrow> Some (clientStateTerminated, actionPassUpDelete env)
           | clientInput300Plus \<Rightarrow> Some (clientStateCompleted, actionInviteFinal env spin)
           | clientInputTimerA \<Rightarrow> Some (clientStateCalling, actionInviteResend env spin)
           | clientInputTimerB \<Rightarrow> Some (clientStateTerminated, actionTimeout)
           | clientInputTransportErr \<Rightarrow> Some (clientStateTerminated, client_actionTransErr)
           | _ \<Rightarrow> None)
      | clientStateProceeding \<Rightarrow>
          (case i of
             clientInput1xx \<Rightarrow> Some (clientStateProceeding, actionPassUp env)
           | clientInput2xx \<Rightarrow> Some (clientStateTerminated, actionPassUpDelete env)
           | clientInput300Plus \<Rightarrow> Some (clientStateCompleted, actionInviteFinal env spin)
           | clientInputTimerA \<Rightarrow> Some (clientStateProceeding, NO_ACTION)
           | clientInputTimerB \<Rightarrow> Some (clientStateProceeding, NO_ACTION)
           | _ \<Rightarrow> None)
      | clientStateCompleted \<Rightarrow>
          (case i of
             clientInput1xx \<Rightarrow> Some (clientStateCompleted, NO_ACTION)
           | clientInput2xx \<Rightarrow> Some (clientStateCompleted, NO_ACTION)
           | clientInput300Plus \<Rightarrow> Some (clientStateCompleted, actionAck env spin)
           | clientInputTransportErr \<Rightarrow> Some (clientStateTerminated, client_actionTransErr)
           | clientInputTimerA \<Rightarrow> Some (clientStateCompleted, NO_ACTION)
           | clientInputTimerB \<Rightarrow> Some (clientStateCompleted, NO_ACTION)
           | clientInputTimerD \<Rightarrow> Some (clientStateTerminated, client_actionDelete)
           | _ \<Rightarrow> None)
      | clientStateTerminated \<Rightarrow>
          (case i of
             clientInput1xx \<Rightarrow> Some (clientStateTerminated, NO_ACTION)
           | clientInput2xx \<Rightarrow> Some (clientStateTerminated, NO_ACTION)
           | clientInput300Plus \<Rightarrow> Some (clientStateTerminated, NO_ACTION)
           | clientInputTimerA \<Rightarrow> Some (clientStateTerminated, NO_ACTION)
           | clientInputTimerB \<Rightarrow> Some (clientStateTerminated, NO_ACTION)
           | clientInputTimerD \<Rightarrow> Some (clientStateTerminated, NO_ACTION)
           | clientInputDelete \<Rightarrow> Some (clientStateTerminated, client_actionDelete)
           | _ \<Rightarrow> None))"

definition initNonInviteFSM :: "tx_env \<Rightarrow> client_spinner \<Rightarrow> (ClientState, ClientInput, clientTx) fsm_table" where
  "initNonInviteFSM env spin s i =
     (case s of
        clientStateCalling \<Rightarrow>
          (case i of
             clientInput1xx \<Rightarrow> Some (clientStateProceeding, actionPassUp env)
           | clientInput2xx \<Rightarrow> Some (clientStateCompleted, actionNonInviteFinal env)
           | clientInput300Plus \<Rightarrow> Some (clientStateCompleted, actionNonInviteFinal env)
           | clientInputTimerA \<Rightarrow> Some (clientStateCalling, actionNonInviteResend env spin)
           | clientInputTimerB \<Rightarrow> Some (clientStateTerminated, actionTimeout)
           | clientInputTransportErr \<Rightarrow> Some (clientStateTerminated, client_actionTransErr)
           | _ \<Rightarrow> None)
      | clientStateProceeding \<Rightarrow>
          (case i of
             clientInput1xx \<Rightarrow> Some (clientStateProceeding, actionPassUp env)
           | clientInput2xx \<Rightarrow> Some (clientStateCompleted, actionNonInviteFinal env)
           | clientInput300Plus \<Rightarrow> Some (clientStateCompleted, actionNonInviteFinal env)
           | clientInputTimerA \<Rightarrow> Some (clientStateProceeding, actionNonInviteResend env spin)
           | clientInputTimerB \<Rightarrow> Some (clientStateTerminated, actionTimeout)
           | clientInputTransportErr \<Rightarrow> Some (clientStateTerminated, client_actionTransErr)
           | _ \<Rightarrow> None)
      | clientStateCompleted \<Rightarrow>
          (case i of
             clientInput1xx \<Rightarrow> Some (clientStateCompleted, NO_ACTION)
           | clientInput2xx \<Rightarrow> Some (clientStateCompleted, NO_ACTION)
           | clientInput300Plus \<Rightarrow> Some (clientStateCompleted, NO_ACTION)
           | clientInputTimerA \<Rightarrow> Some (clientStateCompleted, NO_ACTION)
           | clientInputTimerB \<Rightarrow> Some (clientStateCompleted, NO_ACTION)
           | clientInputTimerD \<Rightarrow> Some (clientStateTerminated, client_actionDelete)
           | _ \<Rightarrow> None)
      | clientStateTerminated \<Rightarrow>
          (case i of
             clientInput1xx \<Rightarrow> Some (clientStateTerminated, NO_ACTION)
           | clientInput2xx \<Rightarrow> Some (clientStateTerminated, NO_ACTION)
           | clientInput300Plus \<Rightarrow> Some (clientStateTerminated, NO_ACTION)
           | clientInputTimerA \<Rightarrow> Some (clientStateTerminated, NO_ACTION)
           | clientInputTimerB \<Rightarrow> Some (clientStateTerminated, NO_ACTION)
           | clientInputTimerD \<Rightarrow> Some (clientStateTerminated, NO_ACTION)
           | clientInputDelete \<Rightarrow> Some (clientStateTerminated, client_actionDelete)
           | _ \<Rightarrow> None))"

definition client_initFSM :: "tx_env \<Rightarrow> client_spinner \<Rightarrow> bool \<Rightarrow> (ClientState, ClientInput, clientTx) fsm_table" where
  "client_initFSM env spin invite = (if invite then initInviteFSM env spin else initNonInviteFSM env spin)"

text \<open>
  The call of \<^verbatim>\<open>Spin\<close> on a transaction of either kind. The first hypothesis on the library is
  its documented behaviour (\<^term>\<open>spin_law\<close>); that a call of \<^verbatim>\<open>Spin\<close> from within an action
  behaves the same way is the case \<open>nested = spin\<close>.
\<close>

type_synonym client_spin = "tx_env \<Rightarrow> bool \<Rightarrow> client_spinner"

definition client_spins :: "client_spin \<Rightarrow> client_spin \<Rightarrow> bool" where
  "client_spins nested spin \<longleftrightarrow>
     (\<forall>env invite. spin_law ct_state client_goto (client_initFSM env (nested env invite) invite) (spin env invite))"

section \<open>The calls and the timers\<close>

definition ct_invite :: "clientTx \<Rightarrow> bool" where "ct_invite tx \<longleftrightarrow> IsInvite (ct_origin tx)"

definition client_Init :: "client_spin \<Rightarrow> tx_env \<Rightarrow> clientTx \<Rightarrow> (clientTx \<times> gerror option) turn" where
  "client_Init spin env tx =
     (case client_send env (Req (ct_origin tx)) (tx\<lparr>ct_state := clientStateCalling\<rparr>) of
        (Some err, tx1) \<Rightarrow>
          tbind (spin_logged (spin env (ct_invite tx)) clientInputTransportErr (tx1\<lparr>ct_lastErr := Some err\<rparr>))
            (\<lambda>tx2. Some (Ok (tx2, Some err)))
      | (None, tx1) \<Rightarrow>
          let tx2 = (if ct_reliable tx1 then tx1\<lparr>ct_timeDTime := 0\<rparr>
                     else if ct_invite tx1
                     then tx1\<lparr>ct_timeATime := TimeA, ct_timeDTime := TimeD, ct_timerA := Some TimeA\<rparr>
                     else tx1\<lparr>ct_timeATime := TimeE, ct_timeDTime := TimeK, ct_timerA := Some TimeE\<rparr>);
              tx3 = tx2\<lparr>ct_timerB := Some TimeB\<rparr>
          in Some (Ok (tx3, ct_lastErr tx3)))"

definition response_input :: "response \<Rightarrow> ClientInput" where
  "response_input res =
     (if IsProvisional res then clientInput1xx else if IsSuccess res then clientInput2xx else clientInput300Plus)"

definition client_Receive :: "client_spin \<Rightarrow> tx_env \<Rightarrow> Message \<Rightarrow> clientTx \<Rightarrow> (clientTx \<times> gerror option) turn" where
  "client_Receive spin env msg tx =
     (case msg of
        Req req \<Rightarrow>
          (case Message_String msg of
             Panic \<Rightarrow> Some Panic
           | _ \<Rightarrow> Some (Ok (tx, Some (UnexpectedMessageError ''recevied unexpected request''))))
      | Res res \<Rightarrow>
          spin env (ct_invite tx) (response_input res) (tx\<lparr>ct_lastResp := Some (res\<lparr>m_tx := Some (ct_id tx)\<rparr>)\<rparr>))"

definition client_Close :: "clientTx \<Rightarrow> clientTx" where
  "client_Close tx = (if ct_closed tx then tx else client_delete tx)"

text \<open>
  What can happen to a transaction: a message from the transport layer, a timer that was
  started and runs out, a call of \<^verbatim>\<open>Close\<close>. A timer may still run out after it was stopped.
\<close>

datatype client_event = CReceive Message | CTimerA | CTimerB | CTimerD | CClose

primrec client_step :: "client_spin \<Rightarrow> tx_env \<Rightarrow> client_event \<Rightarrow> clientTx \<Rightarrow> clientTx turn" where
  "client_step spin env (CReceive msg) tx = tbind (client_Receive spin env msg tx) (\<lambda>(tx', e). Some (Ok tx'))"
| "client_step spin env CTimerA tx = spin_logged (spin env (ct_invite tx)) clientInputTimerA tx"
| "client_step spin env CTimerB tx = spin_logged (spin env (ct_invite tx)) clientInputTimerB tx"
| "client_step spin env CTimerD tx = spin_logged (spin env (ct_invite tx)) clientInputTimerD tx"
| "client_step spin env CClose tx = Some (Ok (client_Close tx))"

primrec client_steps :: "client_spin \<Rightarrow> (tx_env \<times> client_event) list \<Rightarrow> clientTx \<Rightarrow> clientTx turn" where
  "client_steps spin [] tx = Some (Ok tx)"
| "client_steps spin (ee # es) tx =
     tbind (client_step spin (fst ee) (snd ee) tx) (client_steps spin es)"

inductive client_reachable :: "client_spin \<Rightarrow> clientTx \<Rightarrow> bool" for spin where
  created: "NewClientTx handle IsReliable origin = Ok tx \<Longrightarrow> client_Init spin env tx = Some (Ok (tx', e)) \<Longrightarrow>
    client_reachable spin tx'"
| stepped: "client_reachable spin tx \<Longrightarrow> client_step spin env ev tx = Some (Ok tx') \<Longrightarrow> client_reachable spin tx'"

section \<open>The machines in closed form\<close>

lemma client_spinsD:
  assumes "client_spins nested spin"
  shows "spin_law ct_state client_goto (client_initFSM env (nested env invite) invite) (spin env invite)"
  using assms by (simp add: client_spins_def)

lemma client_spin_step:
  assumes "client_spins nested spin"
    and "client_initFSM env (nested env invite) invite (ct_state tx) i = Some (s, act)"
  shows "spin env invite i tx = tbind (act (client_goto s tx)) (\<lambda>(t', next).
    case next of None \<Rightarrow> Some (Ok (t', None)) | Some i' \<Rightarrow> spin env invite i' t')"
  by (rule spin_law_step [OF client_spinsD [OF assms(1)] assms(2)])

lemma client_spin_undefined:
  assumes "client_spins nested spin"
    and "client_initFSM env (nested env invite) invite (ct_state tx) i = None"
  shows "\<exists>e. spin env invite i tx = Some (Ok (tx, Some e))"
  by (rule spin_law_undefined [OF client_spinsD [OF assms(1)] assms(2)])

lemmas client_table_defs = client_initFSM_def initInviteFSM_def initNonInviteFSM_def

lemma goto_fields [simp]:
  "ct_state (client_goto s tx) = s" "ct_timerA (client_goto s tx) = ct_timerA tx"
  "ct_lastResp (client_goto s tx) = ct_lastResp tx" "ct_origin (client_goto s tx) = ct_origin tx"
  "ct_invite (client_goto s tx) = ct_invite tx"
  by (simp_all add: client_goto_def ct_invite_def)

lemma client_passUp_state: "client_passUp env tx = Some (Ok tx') \<Longrightarrow> ct_state tx' = ct_state tx"
  by (auto simp: client_passUp_def split: option.splits if_splits)

text \<open>The end of a transaction.\<close>

lemma client_spin_Delete:
  assumes "client_spins nested spin" "ct_state tx = clientStateTerminated"
  shows "spin env invite clientInputDelete tx = Some (Ok (client_delete tx, None))"
proof -
  have "client_goto clientStateTerminated tx = tx" using assms(2) by (simp add: client_goto_def)
  then show ?thesis
    using client_spin_step [OF assms(1), of env invite tx clientInputDelete clientStateTerminated client_actionDelete]
      assms(2) by (simp add: client_table_defs client_actionDelete_def)
qed

definition client_fails :: "bool \<Rightarrow> ClientState \<Rightarrow> bool" where
  "client_fails invite s \<longleftrightarrow>
     s = clientStateCalling \<or> s = (if invite then clientStateCompleted else clientStateProceeding)"

definition client_failed :: "clientTx \<Rightarrow> clientTx" where
  "client_failed tx = client_delete (client_stopA (client_transportErr (client_goto clientStateTerminated tx)))"

lemma helpers_state [simp]:
  "ct_state (client_stopA tx) = ct_state tx" "ct_state (client_transportErr tx) = ct_state tx"
  "ct_state (client_timeoutErr tx) = ct_state tx" "ct_state (client_delete tx) = ct_state tx"
  "ct_state (client_startD tx) = ct_state tx"
  by (simp_all add: client_stopA_def client_transportErr_def client_timeoutErr_def client_delete_def
      client_startD_def split: option.split)

lemma client_spin_TransportErr:
  assumes "client_spins nested spin"
  shows "spin_logged (spin env invite) clientInputTransportErr tx =
    Some (Ok (if client_fails invite (ct_state tx) then client_failed tx else tx))"
proof (cases "client_fails invite (ct_state tx)")
  case True
  then have "client_initFSM env (nested env invite) invite (ct_state tx) clientInputTransportErr =
      Some (clientStateTerminated, client_actionTransErr)"
    by (auto simp: client_fails_def client_table_defs split: if_splits)
  from client_spin_step [OF assms this] show ?thesis
    using True by (simp add: spin_logged_def client_actionTransErr_def client_failed_def
        client_spin_Delete [OF assms])
next
  case False
  then have "client_initFSM env (nested env invite) invite (ct_state tx) clientInputTransportErr = None"
    by (auto simp: client_fails_def client_table_defs split: if_splits ClientState.splits)
  from client_spin_undefined [OF assms this] show ?thesis using False by (auto simp: spin_logged_def)
qed

section \<open>The invariant\<close>

text \<open>
  At most one final response reaches the user, and nothing after it, and what reaches it carries the transaction; a terminated
  transaction is closed; a closed one has its retransmission and timeout timers off;
  only the request, and for an INVITE its ACKs, are sent.
\<close>

definition responses_ok :: "clientTx \<Rightarrow> bool" where
  "responses_ok tx \<longleftrightarrow>
     list_all IsProvisional (butlast (ct_responses tx)) \<and>
     (ct_state tx \<in> {clientStateCalling, clientStateProceeding} \<longrightarrow> list_all IsProvisional (ct_responses tx)) \<and>
     (\<forall>r \<in> set (ct_responses tx). m_tx r = Some (ct_id tx)) \<and>
     (\<forall>r. ct_lastResp tx = Some r \<longrightarrow> m_tx r = Some (ct_id tx))"

definition sent_ok :: "clientTx \<Rightarrow> bool" where
  "sent_ok tx \<longleftrightarrow>
     (\<forall>m \<in> set (ct_sent tx). m = Req (ct_origin tx) \<or> (ct_invite tx \<and> (\<exists>a. m = Req a \<and> r_method a = ACK)))"

definition client_ok :: "clientTx \<Rightarrow> bool" where
  "client_ok tx \<longleftrightarrow>
     responses_ok tx \<and> sent_ok tx \<and>
     (ct_state tx = clientStateTerminated \<longrightarrow> ct_closed tx) \<and>
     (ct_closed tx \<longrightarrow> ct_timerA tx = None \<and> ct_timerB tx = None)"

lemmas client_helper_defs = client_goto_def client_send_def client_stopA_def client_passUp_def client_transportErr_def
  client_timeoutErr_def client_delete_def client_startD_def client_failed_def ct_invite_def

lemma client_passUp_SomeD:
  assumes "client_passUp env tx = Some (Ok tx')"
  shows "tx' = tx \<and> (ct_lastResp tx = None \<or> ct_closed tx) \<or>
    (\<exists>r. ct_lastResp tx = Some r \<and> \<not> ct_closed tx \<and> tx' = tx\<lparr>ct_responses := ct_responses tx @ [r]\<rparr>)"
  using assms by (auto simp: client_passUp_def split: option.splits if_splits)

lemma CreateAck_method:
  assumes "CreateAck uuid r res = Ok ack" shows "r_method ack = ACK"
  using assms by (auto simp: CreateAck_def Let_def outcome_simps CreateSimpleRequest_def SetMethod_def)

lemma client_resend_SomeD:
  assumes "client_spins nested spin" "client_resend env (spin env invite) tx = Some (Ok tx')"
  shows "\<exists>tx1. tx1 = tx\<lparr>ct_sent := ct_sent tx @ [Req (ct_origin tx)], ct_lastErr := e_Send env (Req (ct_origin tx))\<rparr> \<and>
    (tx' = tx1 \<or> client_fails invite (ct_state tx) \<and> tx' = client_failed tx1)"
  using assms(2)
  by (auto simp: client_resend_def client_send_def client_spin_TransportErr [OF assms(1)] Let_def split: option.splits if_splits)

lemma client_ack_SomeD:
  assumes "client_spins nested spin" "client_ack env (spin env invite) tx = Some (Ok tx')"
  shows "\<exists>r a tx1. ct_lastResp tx = Some r \<and> CreateAck (e_uuid env) (e_random env) r = Ok a \<and>
    tx1 = tx\<lparr>ct_sent := ct_sent tx @ [Req a]\<rparr> \<and>
    (tx' = tx1 \<or> client_fails invite (ct_state tx) \<and> tx' = client_failed tx1)"
  using assms(2)
  by (auto simp: client_ack_def client_send_def client_spin_TransportErr [OF assms(1)]
      split: option.splits if_splits outcome.splits)

text \<open>The inputs that come from outside, the response inputs with their response.\<close>

definition input_ok :: "ClientInput \<Rightarrow> clientTx \<Rightarrow> bool" where
  "input_ok i tx \<longleftrightarrow>
     i \<in> {clientInputTimerA, clientInputTimerB, clientInputTimerD, clientInputTransportErr} \<or>
     (\<exists>r. ct_lastResp tx = Some r \<and> i = response_input r)"

lemma response_input_simps [simp]:
  "response_input r = clientInput1xx \<longleftrightarrow> IsProvisional r"
  "clientInput1xx = response_input r \<longleftrightarrow> IsProvisional r"
  "clientInput2xx = response_input r \<longleftrightarrow> \<not> IsProvisional r \<and> IsSuccess r"
  "clientInput300Plus = response_input r \<longleftrightarrow> \<not> IsProvisional r \<and> \<not> IsSuccess r"
  "clientInputDelete \<noteq> response_input r"
  by (auto simp: response_input_def)

text \<open>What one input leaves behind, by the action it runs.\<close>

lemma client_spin_result:
  assumes law: "client_spins spin spin" and res: "spin env invite i tx = Some (Ok (tx', e))"
    and i: "input_ok i tx"
  obtains (same) "tx' = tx"
  | (stay) "tx' = client_goto (ct_state tx) tx"
  | (provisional) tx1 where "i = clientInput1xx" "ct_state tx \<in> {clientStateCalling, clientStateProceeding}"
      "client_passUp env (client_goto clientStateProceeding tx) = Some (Ok tx1)" "tx' = client_stopA tx1"
  | (success) tx1 where "invite" "i = clientInput2xx" "ct_state tx \<in> {clientStateCalling, clientStateProceeding}"
      "client_passUp env (client_goto clientStateTerminated tx) = Some (Ok tx1)" "tx' = client_delete (client_stopA tx1)"
  | (failure) tx1 tx2 where "invite" "i = clientInput300Plus" "ct_state tx \<in> {clientStateCalling, clientStateProceeding}"
      "client_passUp env (client_goto clientStateCompleted tx) = Some (Ok tx1)"
      "client_ack env (spin env invite) tx1 = Some (Ok tx2)" "tx' = client_startD tx2"
  | (final) tx1 where "\<not> invite" "i \<in> {clientInput2xx, clientInput300Plus}"
      "ct_state tx \<in> {clientStateCalling, clientStateProceeding}"
      "client_passUp env (client_goto clientStateCompleted tx) = Some (Ok tx1)" "tx' = client_startD tx1"
  | (again) "invite" "i = clientInput300Plus" "ct_state tx = clientStateCompleted"
      "client_ack env (spin env invite) (client_goto clientStateCompleted tx) = Some (Ok tx')"
  | (resend) a t where "i = clientInputTimerA" "ct_timerA tx = Some a"
      "ct_state tx = clientStateCalling \<or> ct_state tx = clientStateProceeding \<and> \<not> invite"
      "client_resend env (spin env invite)
         ((client_goto (ct_state tx) tx)\<lparr>ct_timeATime := t, ct_timerA := Some t\<rparr>) = Some (Ok tx')"
  | (timeout) "i = clientInputTimerB" "ct_state tx = clientStateCalling \<or> ct_state tx = clientStateProceeding \<and> \<not> invite"
      "tx' = client_delete (client_stopA (client_timeoutErr (client_goto clientStateTerminated tx)))"
  | (expire) "i = clientInputTimerD" "ct_state tx = clientStateCompleted"
      "tx' = client_delete (client_goto clientStateTerminated tx)"
  | (broken) "i = clientInputTransportErr" "client_fails invite (ct_state tx)" "tx' = client_failed tx"
proof (cases "client_initFSM env (spin env invite) invite (ct_state tx) i")
  case None
  with client_spin_undefined [OF law None] res show thesis by (intro same) auto
next
  case (Some sa)
  obtain s act where sa: "sa = (s, act)" by (cases sa)
  note step = client_spin_step [OF law Some [unfolded sa]]
  have i2: "i \<noteq> clientInputDelete" using i by (auto simp: input_ok_def)
  note del = client_spin_Delete [OF law]
  show thesis
  proof (cases "ct_state tx")
    case clientStateTerminated
    with Some sa step res i2 stay show thesis
      by (auto simp: client_table_defs NO_ACTION_def split: if_splits ClientInput.splits)
  next
    case clientStateCompleted
    with Some sa step res i2 stay again expire broken del show thesis
      by (cases i) (auto simp: client_table_defs NO_ACTION_def actionAck_def client_actionDelete_def client_actionTransErr_def
          client_failed_def client_fails_def no_input_eq_Ok split: if_splits)
  next
    case clientStateCalling
    with Some sa step res i2 provisional success failure final resend timeout broken del show thesis
      by (cases i) (auto simp: client_table_defs actionPassUp_def actionPassUpDelete_def actionInviteFinal_def
          actionNonInviteFinal_def actionTimeout_def actionInviteResend_def actionNonInviteResend_def
          client_actionDelete_def client_actionTransErr_def Let_def
          client_failed_def client_fails_def no_input_eq_Ok tbind_assoc tbind_eq_Ok client_passUp_state split: if_splits option.splits)
  next
    case clientStateProceeding
    with Some sa step res i2 stay provisional success failure final resend timeout broken del show thesis
      by (cases i) (auto simp: client_table_defs actionPassUp_def actionPassUpDelete_def actionInviteFinal_def
          actionNonInviteFinal_def actionTimeout_def actionInviteResend_def actionNonInviteResend_def NO_ACTION_def
          client_actionDelete_def client_actionTransErr_def Let_def
          client_failed_def client_fails_def no_input_eq_Ok tbind_assoc tbind_eq_Ok client_passUp_state split: if_splits option.splits)
  qed
qed

lemma client_ok_lastResp: "client_ok tx \<Longrightarrow> m_tx r = Some (ct_id tx) \<Longrightarrow> client_ok (tx\<lparr>ct_lastResp := Some r\<rparr>)"
  by (simp add: client_ok_def responses_ok_def sent_ok_def ct_invite_def)

lemma client_invite_lastResp [simp]: "ct_invite (tx\<lparr>ct_lastResp := r\<rparr>) = ct_invite tx"
  by (simp add: ct_invite_def)

text \<open>A transaction that is given up after a failed send.\<close>

lemma client_ok_failed:
  assumes "responses_ok tx" "sent_ok tx" "ct_closed tx \<Longrightarrow> ct_timerA tx = None \<and> ct_timerB tx = None"
  shows "client_ok (client_failed tx)"
  using assms by (auto simp: client_ok_def client_helper_defs responses_ok_def sent_ok_def split: option.split)

lemma client_ok_startD: "client_ok tx \<Longrightarrow> client_ok (client_startD tx)"
  by (auto simp: client_ok_def client_helper_defs responses_ok_def sent_ok_def)

text \<open>Passing up a response on the way to the next state.\<close>

lemma passUp_ok:
  assumes "client_ok tx" "ct_state tx \<in> {clientStateCalling, clientStateProceeding}"
    and "client_passUp env (client_goto s tx) = Some (Ok tx')" "ct_lastResp tx = Some r"
    and "IsProvisional r \<or> s \<in> {clientStateCompleted, clientStateTerminated}"
  shows "responses_ok tx' \<and> sent_ok tx' \<and> ct_invite tx' = ct_invite tx \<and> ct_lastResp tx' = Some r \<and>
    ct_state tx' = s \<and> (ct_closed tx' \<longrightarrow> ct_timerA tx' = None \<and> ct_timerB tx' = None)"
proof -
  have "list_all IsProvisional (ct_responses tx)" using assms(1,2) by (auto simp: client_ok_def responses_ok_def)
  moreover have "list_all IsProvisional (butlast (ct_responses tx))"
    using assms(1) by (simp add: client_ok_def responses_ok_def)
  ultimately show ?thesis
    using client_passUp_SomeD [OF assms(3)] assms(1,4,5)
    by (auto simp: client_ok_def responses_ok_def sent_ok_def client_goto_def ct_invite_def)
qed

lemma client_ack_ok:
  assumes "client_spins nested spin" "client_ack env (spin env invite) tx = Some (Ok tx')"
    and "responses_ok tx" "sent_ok tx" "ct_invite tx" "ct_state tx = clientStateCompleted"
    and "ct_closed tx \<longrightarrow> ct_timerA tx = None \<and> ct_timerB tx = None"
  shows "client_ok tx'"
proof -
  obtain r a tx1 where *: "CreateAck (e_uuid env) (e_random env) r = Ok a"
    "tx1 = tx\<lparr>ct_sent := ct_sent tx @ [Req a]\<rparr>" "tx' = tx1 \<or> tx' = client_failed tx1"
    using client_ack_SomeD [OF assms(1,2)] by blast
  have tx1: "responses_ok tx1" "sent_ok tx1" "ct_state tx1 = clientStateCompleted"
    "ct_closed tx1 \<longrightarrow> ct_timerA tx1 = None \<and> ct_timerB tx1 = None"
    using *(2) assms(3-7) CreateAck_method [OF *(1)] by (auto simp: responses_ok_def sent_ok_def ct_invite_def)
  then have "client_ok tx1" by (simp add: client_ok_def)
  moreover have "client_ok (client_failed tx1)" by (rule client_ok_failed) (use tx1 in auto)
  ultimately show ?thesis using *(3) by auto
qed

lemma client_resend_ok:
  assumes "client_spins nested spin" "client_resend env (spin env invite) (tx\<lparr>ct_timeATime := t, ct_timerA := Some t\<rparr>) = Some (Ok tx')"
    and "client_ok tx" "ct_timerA tx = Some a"
  shows "client_ok tx'"
proof -
  have active: "\<not> ct_closed tx" using assms(3,4) by (auto simp: client_ok_def)
  obtain tx1 where tx1: "tx1 = tx\<lparr>ct_timeATime := t, ct_timerA := Some t, ct_sent := ct_sent tx @ [Req (ct_origin tx)],
       ct_lastErr := e_Send env (Req (ct_origin tx))\<rparr>" "tx' = tx1 \<or> tx' = client_failed tx1"
    using client_resend_SomeD [OF assms(1,2)] by auto
  have "client_ok tx1"
    using assms(3) active tx1(1) by (auto simp: client_ok_def responses_ok_def sent_ok_def ct_invite_def)
  moreover from this have "client_ok (client_failed tx1)" by (intro client_ok_failed) (auto simp: client_ok_def)
  ultimately show ?thesis using tx1(2) by auto
qed

lemma client_ok_spin:
  assumes law: "client_spins spin spin" and res: "spin env (ct_invite tx) i tx = Some (Ok (tx', e))"
    and i: "input_ok i tx" and ok: "client_ok tx"
  shows "client_ok tx'"
  using law res i
proof (cases rule: client_spin_result)
  case (provisional tx1)
  then obtain r where "ct_lastResp tx = Some r" "IsProvisional r" using i by (auto simp: input_ok_def)
  with passUp_ok [OF ok provisional(2,3)] show ?thesis
    unfolding provisional(4) by (auto simp: client_ok_def responses_ok_def sent_ok_def client_stopA_def ct_invite_def)
next
  case (success tx1)
  then obtain r where "ct_lastResp tx = Some r" using i by (auto simp: input_ok_def)
  with passUp_ok [OF ok success(3,4)] show ?thesis
    unfolding success(5)
    by (auto simp: client_ok_def responses_ok_def sent_ok_def client_stopA_def client_delete_def ct_invite_def)
next
  case (failure tx1 tx2)
  then obtain r where "ct_lastResp tx = Some r" using i by (auto simp: input_ok_def)
  with passUp_ok [OF ok failure(3,4)] failure(1) have "client_ok tx2"
    by (intro client_ack_ok [OF law failure(5)]) auto
  then show ?thesis unfolding failure(6) by (rule client_ok_startD)
next
  case (final tx1)
  then obtain r where "ct_lastResp tx = Some r" using i by (auto simp: input_ok_def)
  with passUp_ok [OF ok final(3,4)] have "client_ok tx1" by (auto simp: client_ok_def)
  then show ?thesis unfolding final(5) by (rule client_ok_startD)
next
  case again
  have "client_goto clientStateCompleted tx = tx" using again by (simp add: client_goto_def)
  with again ok show ?thesis by (intro client_ack_ok [OF law again(4)]) (auto simp: client_ok_def)
next
  case (resend a t)
  have "client_goto (ct_state tx) tx = tx" by (simp add: client_goto_def)
  then show ?thesis using client_resend_ok [OF law _ ok resend(2)] resend(4) by metis
next
  case broken
  have "client_ok (client_failed tx)" by (rule client_ok_failed) (use ok in \<open>auto simp: client_ok_def\<close>)
  with broken show ?thesis by simp
qed (use ok in \<open>auto simp: client_ok_def responses_ok_def sent_ok_def client_helper_defs\<close>)

lemma client_ok_Close: "client_ok tx \<Longrightarrow> client_ok (client_Close tx)"
  by (auto simp: client_Close_def client_delete_def client_ok_def responses_ok_def sent_ok_def ct_invite_def)

lemma client_ok_step:
  assumes law: "client_spins spin spin" and ok: "client_ok tx" and step: "client_step spin env ev tx = Some (Ok tx')"
  shows "client_ok tx'"
proof (cases ev)
  case (CReceive msg)
  show ?thesis
  proof (cases msg)
    case (Req req)
    with CReceive step ok show ?thesis by (auto simp: client_Receive_def split: outcome.splits)
  next
    case (Res res)
    let ?tx = "tx\<lparr>ct_lastResp := Some (res\<lparr>m_tx := Some (ct_id tx)\<rparr>)\<rparr>"
    have "response_input (res\<lparr>m_tx := Some (ct_id tx)\<rparr>) = response_input res"
      by (simp add: response_input_def IsProvisional_def IsSuccess_def)
    then have "input_ok (response_input res) ?tx" by (simp add: input_ok_def)
    moreover obtain e where "spin env (ct_invite ?tx) (response_input res) ?tx = Some (Ok (tx', e))"
      using step CReceive Res by (auto simp: client_Receive_def tbind_eq_Ok)
    moreover have "client_ok ?tx" using ok by (intro client_ok_lastResp) simp_all
    ultimately show ?thesis using client_ok_spin [OF law] by blast
  qed
next
  case CClose
  with step ok show ?thesis by (auto intro: client_ok_Close)
qed (use step ok client_ok_spin [OF law] in \<open>auto simp: spin_logged_def tbind_eq_Ok input_ok_def\<close>)

lemma client_ok_Init:
  assumes law: "client_spins spin spin" and new: "NewClientTx handle IsReliable origin = Ok tx"
    and init: "client_Init spin env tx = Some (Ok (tx', e))"
  shows "client_ok tx'"
proof -
  let ?tx = "tx\<lparr>ct_state := clientStateCalling, ct_sent := ct_sent tx @ [Req (ct_origin tx)]\<rparr>"
  have ok: "client_ok ?tx" "client_ok (?tx\<lparr>ct_lastErr := err\<rparr>)" "\<not> ct_closed ?tx" for err
    using new by (auto simp: NewClientTx_def outcome_simps client_ok_def responses_ok_def sent_ok_def ct_invite_def)
  show ?thesis
  proof (cases "e_Send env (Req (ct_origin tx))")
    case None
    with init ok show ?thesis
      by (auto simp: client_Init_def client_send_def Let_def client_ok_def responses_ok_def sent_ok_def ct_invite_def
          split: if_splits)
  next
    case (Some err)
    have "tx' = client_failed (?tx\<lparr>ct_lastErr := Some err\<rparr>)"
      using init Some client_spin_TransportErr [OF law]
      by (auto simp: client_Init_def client_send_def tbind_eq_Ok client_fails_def)
    moreover have "client_ok (client_failed (?tx\<lparr>ct_lastErr := Some err\<rparr>))"
      by (rule client_ok_failed) (use ok(2) [of "Some err"] in \<open>auto simp: client_ok_def\<close>)
    ultimately show ?thesis by simp
  qed
qed

lemma early_outcomes:
  assumes "s \<in> {clientStateCalling, clientStateProceeding}"
  shows "client_initFSM env nested invite s clientInput1xx = Some (clientStateProceeding, actionPassUp env)"
    "client_initFSM env nested True s clientInput2xx = Some (clientStateTerminated, actionPassUpDelete env)"
    "client_initFSM env nested True s clientInput300Plus = Some (clientStateCompleted, actionInviteFinal env nested)"
    "client_initFSM env nested False s clientInput2xx = Some (clientStateCompleted, actionNonInviteFinal env)"
    "client_initFSM env nested False s clientInput300Plus = Some (clientStateCompleted, actionNonInviteFinal env)"
  using assms by (auto simp: client_table_defs)

lemma late_outcomes:
  "client_initFSM env nested invite clientStateTerminated (response_input r) = Some (clientStateTerminated, NO_ACTION)"
  "client_initFSM env nested invite clientStateCompleted (response_input r) =
     Some (clientStateCompleted,
       if invite \<and> \<not> IsProvisional r \<and> \<not> IsSuccess r then actionAck env nested else NO_ACTION)"
  by (auto simp: client_table_defs response_input_def)

lemma client_steps_append:
  "client_steps spin (xs @ ys) tx = tbind (client_steps spin xs tx) (client_steps spin ys)"
proof (induction xs arbitrary: tx)
  case (Cons x xs)
  have "client_steps spin (xs @ ys) = (\<lambda>t. tbind (client_steps spin xs t) (client_steps spin ys))"
    by (rule ext) (rule Cons.IH)
  then show ?case by (simp add: tbind_assoc)
qed simp

text \<open>The interval between two retransmissions, \<open>n\<close> of them after the first.\<close>

definition client_backoff :: "bool \<Rightarrow> Duration \<Rightarrow> Duration" where
  "client_backoff invite t = (if invite then t * 2 else if T2 <s t * 2 then T2 else t * 2)"

lemma client_backoff_invite: "(client_backoff True ^^ n) t = t * 2 ^ n"
  by (induction n) (simp_all add: client_backoff_def mult.assoc mult.commute)

lemma client_backoff_other: "(client_backoff False ^^ n) T1 = (if n < 3 then T1 * 2 ^ n else T2)"
proof (induction n)
  case (Suc n)
  have b: "client_backoff False T1 = T1 * 2" "client_backoff False (T1 * 2) = T1 * 4"
    "client_backoff False (T1 * 4) = T2" "client_backoff False T2 = T2"
    by (simp_all add: client_backoff_def T1_def T2_def word_sless_alt)
  consider "n = 0" | "n = 1" | "n = 2" | "n \<ge> 3" by linarith
  then have "client_backoff False (if n < 3 then T1 * 2 ^ n else T2) = (if Suc n < 3 then T1 * 2 ^ Suc n else T2)"
    using b by cases simp_all
  with Suc show ?case by simp
qed simp

lemma client_TimerA_Calling:
  assumes "client_spins nested spin" "ct_state tx = clientStateCalling" "ct_timerA tx = Some a"
    and "e_Send env (Req (ct_origin tx)) = None"
  shows "client_step spin env CTimerA tx =
    Some (Ok (tx\<lparr>ct_timeATime := client_backoff (ct_invite tx) (ct_timeATime tx),
       ct_timerA := Some (client_backoff (ct_invite tx) (ct_timeATime tx)),
       ct_lastErr := None, ct_sent := ct_sent tx @ [Req (ct_origin tx)]\<rparr>))"
proof -
  have same: "client_goto clientStateCalling tx = tx" using assms(2) by (simp add: client_goto_def)
  have "client_initFSM env (nested env (ct_invite tx)) (ct_invite tx) (ct_state tx) clientInputTimerA =
    Some (clientStateCalling, (if ct_invite tx then actionInviteResend env (nested env (ct_invite tx))
       else actionNonInviteResend env (nested env (ct_invite tx))))"
    using assms(2) by (simp add: client_table_defs)
  from client_spin_step [OF assms(1) this] show ?thesis
    using assms(3,4) same
    by (simp add: spin_logged_def actionInviteResend_def actionNonInviteResend_def client_resend_def client_send_def
        client_backoff_def no_input_def Let_def)
qed

lemma client_retransmits:
  assumes "client_spins nested spin" "ct_state tx = clientStateCalling" "ct_timerA tx = Some a"
    and "e_Send env (Req (ct_origin tx)) = None"
  shows "\<exists>tx' b. client_steps spin (replicate n (env, CTimerA)) tx = Some (Ok tx') \<and>
    ct_sent tx' = ct_sent tx @ replicate n (Req (ct_origin tx)) \<and> ct_state tx' = clientStateCalling \<and>
    ct_timeATime tx' = (client_backoff (ct_invite tx) ^^ n) (ct_timeATime tx) \<and>
    ct_timerA tx' = Some b \<and> (0 < n \<longrightarrow> b = ct_timeATime tx') \<and> ct_origin tx' = ct_origin tx \<and>
    ct_responses tx' = ct_responses tx \<and> ct_errs tx' = ct_errs tx"
proof (induction n)
  case 0
  with assms show ?case by simp
next
  case (Suc n)
  then obtain tx1 b where tx1: "client_steps spin (replicate n (env, CTimerA)) tx = Some (Ok tx1)"
    "ct_sent tx1 = ct_sent tx @ replicate n (Req (ct_origin tx))" "ct_state tx1 = clientStateCalling"
    "ct_timeATime tx1 = (client_backoff (ct_invite tx) ^^ n) (ct_timeATime tx)" "ct_timerA tx1 = Some b"
    "ct_origin tx1 = ct_origin tx" "ct_responses tx1 = ct_responses tx" "ct_errs tx1 = ct_errs tx" by blast
  have "ct_invite tx1 = ct_invite tx" using tx1(6) by (simp add: ct_invite_def)
  then have "client_step spin env CTimerA tx1 = Some (Ok (tx1\<lparr>
       ct_timeATime := client_backoff (ct_invite tx) (ct_timeATime tx1),
       ct_timerA := Some (client_backoff (ct_invite tx) (ct_timeATime tx1)),
       ct_lastErr := None, ct_sent := ct_sent tx1 @ [Req (ct_origin tx)]\<rparr>))"
    using client_TimerA_Calling [OF assms(1) tx1(3,5), of env] assms(4) tx1(6) by simp
  moreover have "replicate (Suc n) (env, CTimerA) = replicate n (env, CTimerA) @ [(env, CTimerA)]"
    by (simp add: replicate_append_same)
  ultimately have "client_steps spin (replicate (Suc n) (env, CTimerA)) tx = Some (Ok (tx1\<lparr>
       ct_timeATime := client_backoff (ct_invite tx) (ct_timeATime tx1),
       ct_timerA := Some (client_backoff (ct_invite tx) (ct_timeATime tx1)),
       ct_lastErr := None, ct_sent := ct_sent tx1 @ [Req (ct_origin tx)]\<rparr>))"
    using tx1(1) by (simp only: client_steps_append tbind_simps client_steps.simps fst_conv snd_conv)
  with tx1(2-) show ?case by (simp add: replicate_append_same del: replicate.simps(2)) (simp add: replicate_append_same)
qed

section \<open>A machine that keeps to the documentation\<close>

lemma client_initFSM_nested:
  assumes "\<And>tx. spin_logged f clientInputTransportErr tx = spin_logged g clientInputTransportErr tx"
  shows "client_initFSM env f invite = client_initFSM env g invite"
proof -
  have "client_ack env f = client_ack env g" "client_resend env f = client_resend env g"
    unfolding client_ack_def [abs_def] client_resend_def [abs_def] assms by (rule refl)+
  then have "actionAck env f = actionAck env g" "actionInviteFinal env f = actionInviteFinal env g"
    "actionInviteResend env f = actionInviteResend env g" "actionNonInviteResend env f = actionNonInviteResend env g"
    unfolding actionAck_def [abs_def] actionInviteFinal_def [abs_def] actionInviteResend_def [abs_def]
      actionNonInviteResend_def [abs_def] by (simp_all only:)
  then show ?thesis
    unfolding client_initFSM_def initInviteFSM_def [abs_def] initNonInviteFSM_def [abs_def] by (simp only:)
qed

definition client_loop :: "client_spin \<Rightarrow> client_spin" where
  "client_loop nested env invite = spin_loop ct_state client_goto (client_initFSM env (nested env invite) invite)"

lemma client_loop_spins: "client_spins nested (client_loop nested)"
  by (simp add: client_spins_def client_loop_def spin_loop_law)

definition client_machine :: client_spin where
  "client_machine = client_loop (client_loop (\<lambda>_ _ _ _. None))"

lemma client_machine_spins: "client_spins client_machine client_machine"
proof -
  have "client_initFSM env (client_machine env invite) invite =
      client_initFSM env (client_loop (\<lambda>_ _ _ _. None) env invite) invite" for env invite
    by (rule client_initFSM_nested)
      (simp add: client_machine_def client_spin_TransportErr [OF client_loop_spins])
  then show ?thesis
    using client_loop_spins [of "client_loop (\<lambda>_ _ _ _. None)"] by (simp add: client_spins_def client_machine_def)
qed

section \<open>Properties\<close>

text \<open>
  C2: In every reachable state of a client transaction the user has been given provisional responses
  followed by at most one final response; a terminated transaction has closed its channels;
  a closed one has no retransmission or timeout timer; and it has only sent its own request
  and, for an INVITE, ACKs.
\<close>

theorem client_invariant:
  assumes "client_spins spin spin" "client_reachable spin tx"
  shows "list_all IsProvisional (butlast (ct_responses tx)) \<and>
    (ct_state tx = clientStateTerminated \<longrightarrow> ct_closed tx) \<and>
    (ct_closed tx \<longrightarrow> ct_timerA tx = None \<and> ct_timerB tx = None) \<and>
    (\<forall>m \<in> set (ct_sent tx). m = Req (ct_origin tx) \<or>
       (ct_invite tx \<and> (\<exists>a. m = Req a \<and> r_method a = ACK)))"
proof -
  have "client_ok tx"
    using assms(2) by induction (blast intro: client_ok_Init [OF assms(1)] client_ok_step [OF assms(1)])+
  then show ?thesis by (auto simp: client_ok_def responses_ok_def sent_ok_def)
qed

definition sample_env :: tx_env where
  "sample_env = \<lparr>e_Send = (\<lambda>_. None), e_pickDone = True, e_uuid = ''id'', e_addr = 0, e_random = ''r''\<rparr>"

definition sample_invite :: request where
  "sample_invite = blank_request\<lparr>m_headers := sample_msg_headers (Str ''z9hG4bKa'') INVITE, r_method := INVITE\<rparr>"

definition sample_client :: clientTx where
  "sample_client =
     \<lparr>ct_id = 0, ct_key = join ''__'' [''z9hG4bKa'', INVITE], ct_origin = sample_invite,
      ct_state = clientStateCalling, ct_lastResp = None, ct_lastErr = None, ct_responses = [], ct_errs = [],
      ct_closed = False, ct_timeATime = 0, ct_timerA = None, ct_timerB = None, ct_timeDTime = 0,
      ct_timerD = None, ct_reliable = False, ct_sent = []\<rparr>"

lemma sample_client_new: "NewClientTx 0 (\<lambda>_. False) sample_invite = Ok sample_client"
proof -
  have "magic_branch ''z9hG4bKa''"
    by (simp add: magic_branch_def has_prefix_def trim_prefix_def RFC3261BranchMagicCookie_def)
  then have "hop_branch (sample_hop (Str ''z9hG4bKa'')) = Ok (Some ''z9hG4bKa'')"
    by (simp add: hop_branch_def sample_hop_def Params_Get_Add)
  moreover have "INVITE \<noteq> ACK" by (simp add: INVITE_def ACK_def)
  ultimately have "MakeClientTxKey (Req sample_invite) = Ok (join ''__'' [''z9hG4bKa'', INVITE])"
    by (simp add: MakeClientTxKey_def sample_invite_def sample_accessors)
  then show ?thesis by (simp add: NewClientTx_def sample_client_def sample_invite_def sample_accessors)
qed

definition sample_started :: clientTx where
  "sample_started = sample_client\<lparr>ct_sent := [Req sample_invite], ct_timeATime := TimeA,
     ct_timeDTime := TimeD, ct_timerA := Some TimeA, ct_timerB := Some TimeB\<rparr>"

lemma sample_client_Init: "client_Init spin sample_env sample_client = Some (Ok (sample_started, None))"
  by (simp add: client_Init_def client_send_def sample_env_def sample_client_def sample_started_def ct_invite_def
      IsInvite_def sample_invite_def Let_def)

theorem client_invariant_witness:
  "client_reachable client_machine (client_Close sample_started) \<and> ct_closed (client_Close sample_started) \<and>
   ct_timerB sample_started = Some TimeB \<and> ct_timerB (client_Close sample_started) = None"
proof -
  have "client_reachable client_machine sample_started"
    using sample_client_new sample_client_Init by (rule client_reachable.created)
  then have reach: "client_reachable client_machine (client_Close sample_started)"
    by (rule client_reachable.stepped [where ev = CClose]) simp
  moreover have "ct_closed (client_Close sample_started)"
    by (simp add: client_Close_def client_delete_def)
  moreover have "ct_timerB sample_started = Some TimeB" by (simp add: sample_started_def)
  ultimately show ?thesis using client_invariant [OF client_machine_spins reach] by blast
qed

text \<open>
  C10: What \<^verbatim>\<open>Receive\<close> does with a response before the final one, for every response: a provisional
  response is passed up and stops the retransmissions; a success ends an INVITE transaction
  and closes it; a failure of an INVITE is passed up, acknowledged and starts timer D; any final
  response of another request is passed up and starts timer D.
\<close>

theorem client_Receive_correct:
  assumes law: "client_spins nested spin" and active: "\<not> ct_closed tx"
    and early: "ct_state tx \<in> {clientStateCalling, clientStateProceeding}"
    and r: "r = res\<lparr>m_tx := Some (ct_id tx)\<rparr>"
    and tx1: "tx1 = tx\<lparr>ct_lastResp := Some r, ct_responses := ct_responses tx @ [r]\<rparr>"
  shows "client_Receive spin env (Res res) tx =
    (if IsProvisional res then Some (Ok (tx1\<lparr>ct_state := clientStateProceeding, ct_timerA := None\<rparr>, None))
     else if \<not> ct_invite tx then
       Some (Ok (tx1\<lparr>ct_state := clientStateCompleted, ct_timerA := None, ct_timerD := Some (ct_timeDTime tx)\<rparr>, None))
     else if IsSuccess res then
       Some (Ok (tx1\<lparr>ct_state := clientStateTerminated, ct_timerA := None, ct_timerB := None, ct_timerD := None,
          ct_closed := True\<rparr>, None))
     else case CreateAck (e_uuid env) (e_random env) r of
            Ok a \<Rightarrow>
              (let tx2 = tx1\<lparr>ct_state := clientStateCompleted, ct_sent := ct_sent tx @ [Req a]\<rparr>
               in if e_Send env (Req a) = None
                  then Some (Ok (tx2\<lparr>ct_timerA := None, ct_timerD := Some (ct_timeDTime tx)\<rparr>, None))
                  else no_input (tbind (spin_logged (nested env True) clientInputTransportErr tx2)
                         (\<lambda>tx3. Some (Ok (client_startD tx3)))))
          | Fail e \<Rightarrow> Some (Fail e)
          | Panic \<Rightarrow> Some Panic)"
proof -
  let ?tx = "tx\<lparr>ct_lastResp := Some r\<rparr>"
  have rec: "client_Receive spin env (Res res) tx = spin env (ct_invite tx) (response_input res) ?tx"
    by (simp add: client_Receive_def r)
  have st: "ct_state ?tx \<in> {clientStateCalling, clientStateProceeding}" using early by simp
  note step = client_spin_step [OF law] and outs = early_outcomes [OF st]
  note helpers = client_passUp_def client_goto_def client_stopA_def client_startD_def tx1 active
  consider "IsProvisional res" | "\<not> IsProvisional res" "\<not> ct_invite tx"
    | "\<not> IsProvisional res" "ct_invite tx" "IsSuccess res" | "\<not> IsProvisional res" "ct_invite tx" "\<not> IsSuccess res"
    by blast
  then show ?thesis
  proof cases
    case 1
    then show ?thesis unfolding rec
      using step [OF outs(1)] by (simp add: response_input_def actionPassUp_def no_input_def helpers)
  next
    case 2
    then show ?thesis unfolding rec
      using step [OF outs(4)] step [OF outs(5)]
      by (simp add: response_input_def actionNonInviteFinal_def no_input_def helpers)
  next
    case 3
    then show ?thesis unfolding rec
      using step [OF outs(2)] client_spin_Delete [OF law]
      by (simp add: response_input_def actionPassUpDelete_def client_delete_def helpers)
  next
    case 4
    have swap: "tx\<lparr>ct_lastResp := Some r, ct_state := clientStateCompleted, ct_responses := ct_responses tx @ [r]\<rparr> =
        tx1\<lparr>ct_state := clientStateCompleted\<rparr>" by (simp add: tx1)
    have "spin env True clientInput300Plus ?tx =
        no_input (tbind (client_ack env (nested env True) (tx1\<lparr>ct_state := clientStateCompleted\<rparr>))
          (\<lambda>tx2. Some (Ok (client_startD tx2))))"
      using step [OF outs(3)] swap by (simp add: actionInviteFinal_def client_passUp_def client_goto_def active)
    with 4 show ?thesis unfolding rec
      by (cases "CreateAck (e_uuid env) (e_random env) r")
        (auto simp: response_input_def client_ack_def client_send_def no_input_def Let_def client_startD_def
          client_stopA_def tx1 split: option.split)
  qed
qed

theorem client_Receive_correct_witness:
  "client_Receive client_machine sample_env (Res (blank_response\<lparr>s_status := 180\<rparr>)) sample_started =
     Some (Ok (sample_started\<lparr>ct_lastResp := Some (blank_response\<lparr>s_status := 180, m_tx := Some 0\<rparr>),
       ct_responses := [blank_response\<lparr>s_status := 180, m_tx := Some 0\<rparr>],
       ct_state := clientStateProceeding, ct_timerA := None\<rparr>, None))"
  using client_Receive_correct [OF client_machine_spins, of sample_started _ "blank_response\<lparr>s_status := 180\<rparr>" _ sample_env]
  by (simp add: sample_started_def sample_client_def IsProvisional_def)

text \<open>
  C31: A response that arrives in \<^verbatim>\<open>Completed\<close> or \<^verbatim>\<open>Terminated\<close> is never passed up. Its only effect, besides
  being remembered as the last one, is that a failure in \<^verbatim>\<open>Completed\<close> of an INVITE is acknowledged
  again with one message.
\<close>

theorem client_late_response:
  assumes law: "client_spins spin spin" and late: "ct_state tx \<in> {clientStateCompleted, clientStateTerminated}"
    and rec: "client_Receive spin env (Res res) tx = Some (Ok (tx', e))"
  shows "ct_responses tx' = ct_responses tx \<and>
    (if ct_state tx = clientStateCompleted \<and> ct_invite tx \<and> \<not> IsProvisional res \<and> \<not> IsSuccess res
     then \<exists>a. r_method a = ACK \<and> ct_sent tx' = ct_sent tx @ [Req a]
     else ct_sent tx' = ct_sent tx \<and> ct_state tx' = ct_state tx)"
proof -
  let ?r = "res\<lparr>m_tx := Some (ct_id tx)\<rparr>" and ?i = "response_input res"
  let ?tx = "tx\<lparr>ct_lastResp := Some (res\<lparr>m_tx := Some (ct_id tx)\<rparr>)\<rparr>"
  have sp: "IsProvisional ?r = IsProvisional res" "IsSuccess ?r = IsSuccess res" "response_input ?r = ?i"
    by (simp_all add: IsProvisional_def IsSuccess_def response_input_def)
  have res: "spin env (ct_invite tx) ?i ?tx = Some (Ok (tx', e))" using rec by (simp add: client_Receive_def)
  have ack: "ct_responses tx' = ct_responses ?tx \<and> (\<exists>a. r_method a = ACK \<and> ct_sent tx' = ct_sent ?tx @ [Req a])"
    if "client_ack env (spin env (ct_invite tx)) (client_goto clientStateCompleted ?tx) = Some (Ok tx')"
    using client_ack_SomeD [OF law that] CreateAck_method
    by (auto simp: client_helper_defs split: option.splits)
  show ?thesis
  proof (cases "ct_state tx = clientStateTerminated")
    case True
    then show ?thesis
      using res client_spin_step [OF law, of env "ct_invite tx" ?tx ?i] late_outcomes(1)
      by (auto simp: NO_ACTION_def client_goto_def)
  next
    case False
    then have comp: "ct_state tx = clientStateCompleted" using late by simp
    with res client_spin_step [OF law, of env "ct_invite tx" ?tx ?i] late_outcomes(2) ack show ?thesis
      by (auto simp: NO_ACTION_def actionAck_def no_input_eq_Ok client_goto_def)
  qed
qed

definition sample_completed :: clientTx where
  "sample_completed = sample_started\<lparr>ct_state := clientStateCompleted, ct_timerA := None\<rparr>"

theorem client_late_response_witness:
  "\<exists>tx' e. client_Receive client_machine sample_env (Res (blank_response\<lparr>s_status := 200\<rparr>)) sample_completed =
      Some (Ok (tx', e)) \<and> ct_responses tx' = [] \<and> ct_sent tx' = [Req sample_invite]"
proof -
  let ?res = "blank_response\<lparr>s_status := 200\<rparr>"
  let ?tx = "sample_completed\<lparr>ct_lastResp := Some (?res\<lparr>m_tx := Some 0\<rparr>)\<rparr>"
  have "client_machine sample_env (ct_invite sample_completed) (response_input ?res) ?tx = Some (Ok (?tx, None))"
    using client_spin_step [OF client_machine_spins, of sample_env "ct_invite sample_completed" ?tx "response_input ?res"]
      late_outcomes(2) [of sample_env _ "ct_invite sample_completed" ?res]
    by (simp add: sample_completed_def sample_started_def sample_client_def IsProvisional_def IsSuccess_def NO_ACTION_def
        client_goto_def)
  then have "client_Receive client_machine sample_env (Res ?res) sample_completed = Some (Ok (?tx, None))"
    by (simp add: client_Receive_def sample_completed_def sample_started_def sample_client_def)
  with client_late_response [OF client_machine_spins _ this] show ?thesis
    by (simp add: sample_completed_def sample_started_def sample_client_def IsProvisional_def IsSuccess_def)
qed

text \<open>
  C27: While no response has come, each expiry of timer A sends the request once more, and the interval
  doubles: without limit for an INVITE, up to T2 for any other request.
\<close>

theorem client_retransmission_schedule:
  assumes "client_spins nested spin" "ct_state tx = clientStateCalling" "ct_timerA tx = Some a"
    and "ct_timeATime tx = T1" "e_Send env (Req (ct_origin tx)) = None"
  shows "\<exists>tx'. client_steps spin (replicate n (env, CTimerA)) tx = Some (Ok tx') \<and>
    ct_sent tx' = ct_sent tx @ replicate n (Req (ct_origin tx)) \<and> ct_state tx' = clientStateCalling \<and>
    ct_timeATime tx' = (if ct_invite tx \<or> n < 3 then T1 * 2 ^ n else T2) \<and>
    (0 < n \<longrightarrow> ct_timerA tx' = Some (ct_timeATime tx'))"
proof -
  have "(client_backoff (ct_invite tx) ^^ n) (ct_timeATime tx) = (if ct_invite tx \<or> n < 3 then T1 * 2 ^ n else T2)"
    unfolding assms(4) by (cases "ct_invite tx") (simp_all add: client_backoff_invite client_backoff_other)
  with client_retransmits [OF assms(1-3,5), of n] show ?thesis by metis
qed

theorem client_retransmission_schedule_witness:
  "\<exists>tx'. client_steps client_machine (replicate 3 (sample_env, CTimerA)) sample_started = Some (Ok tx') \<and>
     ct_sent tx' = replicate 4 (Req sample_invite) \<and> ct_timeATime tx' = 4000000000"
proof -
  have eq: "ct_timeATime sample_started = T1" "ct_sent sample_started = [Req sample_invite]"
    "ct_origin sample_started = sample_invite"
    by (simp_all add: sample_started_def sample_client_def TimeA_def)
  have "ct_invite sample_started" by (simp add: ct_invite_def eq IsInvite_def sample_invite_def)
  then show ?thesis
    using client_retransmission_schedule [OF client_machine_spins, of sample_started TimeA sample_env 3] eq
    by (auto simp: sample_started_def sample_client_def sample_env_def TimeA_def T1_def numeral_eq_Suc)
qed

text \<open>
  Timer B ends a transaction that has seen no response: the user gets a timeout error on the
  open channel, the channels are closed and the timers are off. An INVITE that has seen a
  provisional response ignores it.
\<close>

theorem client_timeout:
  assumes law: "client_spins nested spin" and active: "\<not> ct_closed tx"
    and early: "ct_state tx \<in> {clientStateCalling, clientStateProceeding}"
  shows "client_step spin env CTimerB tx =
    Some (Ok (if ct_invite tx \<and> ct_state tx = clientStateProceeding then tx
      else tx\<lparr>ct_state := clientStateTerminated, ct_errs := ct_errs tx @ [TxTimeoutError (ct_key tx)],
        ct_timerA := None, ct_timerB := None, ct_timerD := None, ct_closed := True\<rparr>))"
proof (cases "ct_invite tx \<and> ct_state tx = clientStateProceeding")
  case True
  then have "client_initFSM env (nested env (ct_invite tx)) (ct_invite tx) (ct_state tx) clientInputTimerB =
    Some (clientStateProceeding, NO_ACTION)" by (simp add: client_table_defs)
  from client_spin_step [OF law this] True show ?thesis
    by (simp add: spin_logged_def NO_ACTION_def client_goto_def)
next
  case False
  then have "client_initFSM env (nested env (ct_invite tx)) (ct_invite tx) (ct_state tx) clientInputTimerB =
    Some (clientStateTerminated, actionTimeout)" using early by (auto simp: client_table_defs)
  from client_spin_step [OF law this] show ?thesis
    using False active client_spin_Delete [OF law]
    by (auto simp: spin_logged_def actionTimeout_def client_helper_defs)
qed

theorem client_timeout_witness:
  "\<exists>tx'. client_step client_machine sample_env CTimerB sample_started = Some (Ok tx') \<and>
     ct_errs tx' = [TxTimeoutError (join ''__'' [''z9hG4bKa'', INVITE])] \<and> ct_closed tx'"
  using client_timeout [OF client_machine_spins, of sample_started sample_env]
  by (simp add: sample_started_def sample_client_def)

text \<open>
  When the very first send of a request fails, \<^verbatim>\<open>Init\<close> returns the error and the transaction is
  terminated and closed, but the error channel is closed without any error on it: making the
  error prints the last response, of which there is none.
\<close>

theorem client_Init_failure_silent:
  assumes law: "client_spins nested spin" and new: "NewClientTx handle IsReliable origin = Ok tx"
    and err: "e_Send env (Req origin) = Some err"
  shows "\<exists>tx'. client_Init spin env tx = Some (Ok (tx', Some err)) \<and> ct_state tx' = clientStateTerminated \<and>
    ct_closed tx' \<and> ct_lastErr tx' = Some err \<and> ct_errs tx' = []"
proof -
  have tx: "ct_origin tx = origin" "ct_lastResp tx = None" "ct_errs tx = []" "\<not> ct_closed tx"
    using new by (auto simp: NewClientTx_def outcome_simps)
  have "spin_logged (spin env (ct_invite tx)) clientInputTransportErr
      (tx\<lparr>ct_state := clientStateCalling, ct_sent := ct_sent tx @ [Req origin], ct_lastErr := Some err\<rparr>) =
    Some (Ok (client_failed (tx\<lparr>ct_state := clientStateCalling, ct_sent := ct_sent tx @ [Req origin], ct_lastErr := Some err\<rparr>)))"
    by (simp add: client_spin_TransportErr [OF law] client_fails_def)
  with tx err show ?thesis by (simp add: client_Init_def client_send_def client_helper_defs)
qed

theorem client_Init_failure_silent_witness:
  "\<exists>tx'. client_Init client_machine (sample_env\<lparr>e_Send := (\<lambda>_. Some (NetError ''down''))\<rparr>) sample_client =
      Some (Ok (tx', Some (NetError ''down''))) \<and> ct_errs tx' = []"
  using client_Init_failure_silent [OF client_machine_spins sample_client_new,
      of "sample_env\<lparr>e_Send := (\<lambda>_. Some (NetError ''down''))\<rparr>" "NetError ''down''"]
  by auto

text \<open>
  A response that arrives between a call of \<^verbatim>\<open>Close\<close> and the removal of the transaction may panic:
  with the channels closed both cases of the \<^verbatim>\<open>select\<close> are ready, and one of them sends on a closed
  channel. Nothing of the call recovers from it.
\<close>

theorem client_closed_response_race:
  assumes law: "client_spins nested spin" and early: "ct_state tx \<in> {clientStateCalling, clientStateProceeding}"
    and panic: "\<not> e_pickDone env"
  shows "client_Receive spin env (Res res) (client_Close tx) = Some Panic"
proof -
  let ?tx = "(client_Close tx)\<lparr>ct_lastResp := Some (res\<lparr>m_tx := Some (ct_id (client_Close tx))\<rparr>)\<rparr>"
  have closed: "ct_closed ?tx" "ct_state ?tx = ct_state tx"
    by (simp_all add: client_Close_def client_delete_def)
  then have pass: "client_passUp env (client_goto s ?tx) = Some Panic" for s
    using panic by (simp add: client_passUp_def client_goto_def)
  have st: "ct_state ?tx \<in> {clientStateCalling, clientStateProceeding}" using early closed(2) by simp
  note outs = early_outcomes [OF st] and step = client_spin_step [OF law]
  have "spin env inv (response_input res) ?tx = Some Panic" for inv
    using step [OF outs(1)] step [OF outs(2)] step [OF outs(3)] step [OF outs(4)] step [OF outs(5)]
    by (cases inv) (auto simp: response_input_def actionPassUp_def actionPassUpDelete_def actionInviteFinal_def
        actionNonInviteFinal_def no_input_def pass)
  then show ?thesis by (simp add: client_Receive_def)
qed

theorem client_closed_response_race_witness:
  "client_Receive client_machine (sample_env\<lparr>e_pickDone := False\<rparr>) (Res (blank_response\<lparr>s_status := 180\<rparr>))
     (client_Close sample_started) = Some Panic"
  using client_closed_response_race [OF client_machine_spins, of sample_started "sample_env\<lparr>e_pickDone := False\<rparr>"]
  by (simp add: sample_started_def sample_client_def)

end
