(* ===== verification/Gsip_Server_Tx.thy ===== *)
theory Gsip_Server_Tx
  imports Gsip_Client_Tx
begin

text \<open>
  The server transaction of \<^verbatim>\<open>transaction/server_tx.go\<close>: its state, the two state machines, the
  actions, and the calls and timers that drive them. The conventions are those of the
  client transaction.
\<close>

section \<open>State\<close>

datatype ServerState =
    serverStateTrying
  | serverStateProceeding
  | serverStateCompleted
  | serverStateConfirmed
  | serverStateTerminated

datatype ServerInput =
    serverInputRequest
  | serverInputAck
  | serverInputCancel
  | serverInputUser1xx
  | serverInputUser2xx
  | serverInputUser300Plus
  | serverInputTimerG
  | serverInputTimerH
  | serverInputTimerI
  | serverInputTimerJ
  | serverInputTransportErr
  | serverInputDelete

record serverTx =
  st_id :: nat
  st_key :: TxKey
  st_origin :: request
  st_state :: ServerState
  st_lastResp :: "response option"
  st_lastErr :: "gerror option"
  st_errs :: "TxError list"
  st_closed :: bool
  st_lastAck :: "request option"
  st_lastCancel :: "request option"
  st_requests :: "request list"
  st_timerG :: "Duration option"
  st_timeGTime :: Duration
  st_timerH :: "Duration option"
  st_timerI :: "Duration option"
  st_timeITime :: Duration
  st_timerJ :: "Duration option"
  st_timer1xx :: "Duration option"
  st_reliable :: bool
  st_sent :: "Message list"

type_synonym server_action = "(serverTx, ServerInput) action"
type_synonym server_spinner = "(serverTx, ServerInput) spinner"

definition NewServerTx :: "nat \<Rightarrow> (string \<Rightarrow> bool) \<Rightarrow> request \<Rightarrow> serverTx outcome" where
  "NewServerTx handle IsReliable origin =
     omap (\<lambda>key.
       \<lparr>st_id = handle, st_key = key, st_origin = origin, st_state = serverStateTrying,
        st_lastResp = None, st_lastErr = None, st_errs = [], st_closed = False,
        st_lastAck = None, st_lastCancel = None, st_requests = [], st_timerG = None, st_timeGTime = 0,
        st_timerH = None, st_timerI = None, st_timeITime = 0, st_timerJ = None, st_timer1xx = None,
        st_reliable = (case get_ViaHop (m_headers origin) of
                         Some viaHop \<Rightarrow> IsReliable (vh_Transport viaHop) | None \<Rightarrow> False),
        st_sent = []\<rparr>)
       (MakeServerTxKey (Req origin))"

section \<open>Helpers of the actions\<close>

definition server_goto :: "ServerState \<Rightarrow> serverTx \<Rightarrow> serverTx" where
  "server_goto s tx = tx\<lparr>st_state := s\<rparr>"

definition server_send :: "tx_env \<Rightarrow> Message \<Rightarrow> serverTx \<Rightarrow> gerror option \<times> serverTx" where
  "server_send env msg tx = (e_Send env msg, tx\<lparr>st_sent := st_sent tx @ [msg]\<rparr>)"

text \<open>A nil response only prints as such in this error, and the deferred \<^verbatim>\<open>recover\<close> hides a closed channel.\<close>

definition server_transportErr :: "serverTx \<Rightarrow> serverTx" where
  "server_transportErr tx =
     (if st_closed tx then tx
      else tx\<lparr>st_errs := st_errs tx @ [TxTransportError (st_key tx) (st_lastErr tx)]\<rparr>)"

definition server_timeoutErr :: "serverTx \<Rightarrow> serverTx" where
  "server_timeoutErr tx =
     (if st_closed tx then tx else tx\<lparr>st_errs := st_errs tx @ [TxTimeoutError (st_key tx)]\<rparr>)"

definition server_delete :: "serverTx \<Rightarrow> serverTx" where
  "server_delete tx =
     (if st_closed tx then tx
      else tx\<lparr>st_timerI := None, st_timerG := None, st_timerH := None, st_timerJ := None,
             st_timer1xx := None, st_closed := True\<rparr>)"

text \<open>
  Passing a request up from an action with a deferred \<^verbatim>\<open>recover\<close>. After a recovered panic the
  action returns the zero value of \<^verbatim>\<open>fsm.Input\<close>, which is \<^verbatim>\<open>serverInputRequest\<close>.
\<close>

definition server_passUp :: "tx_env \<Rightarrow> request \<Rightarrow> server_action" where
  "server_passUp env req tx =
     (if st_closed tx
      then Some (Ok (tx, if e_pickDone env then None else Some serverInputRequest))
      else Some (Ok (tx\<lparr>st_requests := st_requests tx @ [req]\<rparr>, None)))"

section \<open>Actions\<close>

text \<open>The send that three of the actions begin with.\<close>

definition send_last :: "tx_env \<Rightarrow> (serverTx \<Rightarrow> serverTx) \<Rightarrow> server_action" where
  "send_last env after tx =
     (case st_lastResp tx of
        None \<Rightarrow> Some (Ok (tx, None))
      | Some lastResp \<Rightarrow>
          (case server_send env (Res lastResp) tx of
             (None, tx1) \<Rightarrow> Some (Ok (after (tx1\<lparr>st_lastErr := None\<rparr>), None))
           | (Some lastErr, tx1) \<Rightarrow> Some (Ok (tx1\<lparr>st_lastErr := Some lastErr\<rparr>, Some serverInputTransportErr))))"

definition actionRespond :: "tx_env \<Rightarrow> server_action" where
  "actionRespond env = send_last env (\<lambda>tx. tx)"

definition complete_timers :: "serverTx \<Rightarrow> serverTx" where
  "complete_timers tx =
     (let tx1 =
        (if st_reliable tx then tx
         else case st_timerG tx of
                None \<Rightarrow> tx\<lparr>st_timerG := Some (st_timeGTime tx)\<rparr>
              | Some _ \<Rightarrow>
                  let t2 = st_timeGTime tx * 2; t = (if T2 <s t2 then T2 else t2)
                  in tx\<lparr>st_timeGTime := t, st_timerG := Some t\<rparr>)
      in case st_timerH tx1 of
           None \<Rightarrow> tx1\<lparr>st_timerH := Some TimeH\<rparr>
         | Some _ \<Rightarrow> tx1)"

definition actionRespondComplete :: "tx_env \<Rightarrow> server_action" where
  "actionRespondComplete env = send_last env complete_timers"

definition actionFinal :: "tx_env \<Rightarrow> server_action" where
  "actionFinal env = send_last env (\<lambda>tx. tx\<lparr>st_timerJ := Some TimeJ\<rparr>)"

definition server_actionTransErr :: server_action where
  "server_actionTransErr tx = Some (Ok (server_transportErr tx, Some serverInputDelete))"

definition server_actionTimeout :: server_action where
  "server_actionTimeout tx = Some (Ok (server_timeoutErr tx, Some serverInputDelete))"

definition server_actionDelete :: server_action where
  "server_actionDelete tx = Some (Ok (server_delete tx, None))"

text \<open>The transaction is deleted before the response is sent; sending a nil response panics.\<close>

definition actionRespondDelete :: "tx_env \<Rightarrow> server_action" where
  "actionRespondDelete env tx =
     (let tx1 = server_delete tx
      in case st_lastResp tx1 of
           None \<Rightarrow> Some Panic
         | Some lastResp \<Rightarrow>
             (case server_send env (Res lastResp) tx1 of
                (lastErr, tx2) \<Rightarrow>
                  Some (Ok (tx2\<lparr>st_lastErr := lastErr\<rparr>,
                    if lastErr = None then None else Some serverInputTransportErr))))"

definition actionConfirm :: "tx_env \<Rightarrow> server_action" where
  "actionConfirm env tx =
     (let tx1 = tx\<lparr>st_timerG := None, st_timerH := None, st_timerI := Some TimeI\<rparr>
      in case st_lastAck tx1 of
           None \<Rightarrow> Some (Ok (tx1, None))
         | Some ack \<Rightarrow> server_passUp env ack tx1)"

definition actionCancel :: "tx_env \<Rightarrow> server_action" where
  "actionCancel env tx =
     (case st_lastCancel tx of
        None \<Rightarrow> Some (Ok (tx, None))
      | Some cancel \<Rightarrow>
          (case CreateResponse (e_uuid env) (e_addr env) (e_random env) 200 cancel of
             Ok res \<Rightarrow> (case server_send env (Res res) tx of (_, tx1) \<Rightarrow> server_passUp env cancel tx1)
           | _ \<Rightarrow> Some (Ok (tx, Some serverInputRequest))))"

definition actionCancelNotExist :: "tx_env \<Rightarrow> server_action" where
  "actionCancelNotExist env tx =
     (case st_lastCancel tx of
        None \<Rightarrow> Some (Ok (tx, None))
      | Some cancel \<Rightarrow>
          (case CreateResponse (e_uuid env) (e_addr env) (e_random env) 481 cancel of
             Ok res \<Rightarrow> (case server_send env (Res res) tx of (_, tx1) \<Rightarrow> Some (Ok (tx1, None)))
           | _ \<Rightarrow> Some (Ok (tx, Some serverInputRequest))))"

section \<open>The state machines\<close>

definition server_initInviteFSM :: "tx_env \<Rightarrow> (ServerState, ServerInput, serverTx) fsm_table" where
  "server_initInviteFSM env s i =
     (case s of
        serverStateProceeding \<Rightarrow>
          (case i of
             serverInputRequest \<Rightarrow> Some (serverStateProceeding, actionRespond env)
           | serverInputCancel \<Rightarrow> Some (serverStateProceeding, actionCancel env)
           | serverInputUser1xx \<Rightarrow> Some (serverStateProceeding, actionRespond env)
           | serverInputUser2xx \<Rightarrow> Some (serverStateTerminated, actionRespondDelete env)
           | serverInputUser300Plus \<Rightarrow> Some (serverStateCompleted, actionRespondComplete env)
           | serverInputTransportErr \<Rightarrow> Some (serverStateTerminated, server_actionTransErr)
           | _ \<Rightarrow> None)
      | serverStateCompleted \<Rightarrow>
          (case i of
             serverInputRequest \<Rightarrow> Some (serverStateCompleted, actionRespond env)
           | serverInputAck \<Rightarrow> Some (serverStateConfirmed, actionConfirm env)
           | serverInputCancel \<Rightarrow> Some (serverStateCompleted, actionCancelNotExist env)
           | serverInputUser1xx \<Rightarrow> Some (serverStateCompleted, NO_ACTION)
           | serverInputUser2xx \<Rightarrow> Some (serverStateCompleted, NO_ACTION)
           | serverInputUser300Plus \<Rightarrow> Some (serverStateCompleted, NO_ACTION)
           | serverInputTimerG \<Rightarrow> Some (serverStateCompleted, actionRespondComplete env)
           | serverInputTimerH \<Rightarrow> Some (serverStateTerminated, server_actionDelete)
           | serverInputTransportErr \<Rightarrow> Some (serverStateTerminated, server_actionTransErr)
           | _ \<Rightarrow> None)
      | serverStateConfirmed \<Rightarrow>
          (case i of
             serverInputRequest \<Rightarrow> Some (serverStateConfirmed, NO_ACTION)
           | serverInputAck \<Rightarrow> Some (serverStateTerminated, NO_ACTION)
           | serverInputCancel \<Rightarrow> Some (serverStateConfirmed, actionCancelNotExist env)
           | serverInputUser1xx \<Rightarrow> Some (serverStateConfirmed, NO_ACTION)
           | serverInputUser2xx \<Rightarrow> Some (serverStateConfirmed, NO_ACTION)
           | serverInputUser300Plus \<Rightarrow> Some (serverStateConfirmed, NO_ACTION)
           | serverInputTimerI \<Rightarrow> Some (serverStateTerminated, server_actionDelete)
           | serverInputTimerG \<Rightarrow> Some (serverStateConfirmed, NO_ACTION)
           | serverInputTimerH \<Rightarrow> Some (serverStateConfirmed, NO_ACTION)
           | _ \<Rightarrow> None)
      | serverStateTerminated \<Rightarrow>
          (case i of
             serverInputRequest \<Rightarrow> Some (serverStateTerminated, NO_ACTION)
           | serverInputAck \<Rightarrow> Some (serverStateTerminated, NO_ACTION)
           | serverInputCancel \<Rightarrow> Some (serverStateTerminated, NO_ACTION)
           | serverInputUser1xx \<Rightarrow> Some (serverStateTerminated, NO_ACTION)
           | serverInputUser2xx \<Rightarrow> Some (serverStateTerminated, NO_ACTION)
           | serverInputUser300Plus \<Rightarrow> Some (serverStateTerminated, NO_ACTION)
           | serverInputDelete \<Rightarrow> Some (serverStateTerminated, server_actionDelete)
           | _ \<Rightarrow> None)
      | _ \<Rightarrow> None)"

text \<open>The table of the other machine has no state \<^verbatim>\<open>Confirmed\<close>, to which a CANCEL leads.\<close>

definition server_initNonInviteFSM :: "tx_env \<Rightarrow> (ServerState, ServerInput, serverTx) fsm_table" where
  "server_initNonInviteFSM env s i =
     (case s of
        serverStateTrying \<Rightarrow>
          (case i of
             serverInputRequest \<Rightarrow> Some (serverStateTrying, NO_ACTION)
           | serverInputCancel \<Rightarrow> Some (serverStateConfirmed, NO_ACTION)
           | serverInputUser1xx \<Rightarrow> Some (serverStateProceeding, actionRespond env)
           | serverInputUser2xx \<Rightarrow> Some (serverStateCompleted, actionFinal env)
           | serverInputUser300Plus \<Rightarrow> Some (serverStateCompleted, actionFinal env)
           | _ \<Rightarrow> None)
      | serverStateProceeding \<Rightarrow>
          (case i of
             serverInputRequest \<Rightarrow> Some (serverStateProceeding, actionRespond env)
           | serverInputCancel \<Rightarrow> Some (serverStateConfirmed, NO_ACTION)
           | serverInputUser1xx \<Rightarrow> Some (serverStateProceeding, actionRespond env)
           | serverInputUser2xx \<Rightarrow> Some (serverStateCompleted, actionFinal env)
           | serverInputUser300Plus \<Rightarrow> Some (serverStateCompleted, actionFinal env)
           | serverInputTransportErr \<Rightarrow> Some (serverStateTerminated, server_actionTransErr)
           | _ \<Rightarrow> None)
      | serverStateCompleted \<Rightarrow>
          (case i of
             serverInputRequest \<Rightarrow> Some (serverStateCompleted, actionRespond env)
           | serverInputCancel \<Rightarrow> Some (serverStateConfirmed, NO_ACTION)
           | serverInputUser1xx \<Rightarrow> Some (serverStateCompleted, NO_ACTION)
           | serverInputUser2xx \<Rightarrow> Some (serverStateCompleted, NO_ACTION)
           | serverInputUser300Plus \<Rightarrow> Some (serverStateCompleted, NO_ACTION)
           | serverInputTimerJ \<Rightarrow> Some (serverStateTerminated, server_actionDelete)
           | serverInputTransportErr \<Rightarrow> Some (serverStateTerminated, server_actionTransErr)
           | _ \<Rightarrow> None)
      | serverStateTerminated \<Rightarrow>
          (case i of
             serverInputRequest \<Rightarrow> Some (serverStateTerminated, NO_ACTION)
           | serverInputCancel \<Rightarrow> Some (serverStateConfirmed, NO_ACTION)
           | serverInputUser1xx \<Rightarrow> Some (serverStateTerminated, NO_ACTION)
           | serverInputUser2xx \<Rightarrow> Some (serverStateTerminated, NO_ACTION)
           | serverInputUser300Plus \<Rightarrow> Some (serverStateTerminated, NO_ACTION)
           | serverInputTimerJ \<Rightarrow> Some (serverStateTerminated, NO_ACTION)
           | serverInputDelete \<Rightarrow> Some (serverStateTerminated, server_actionDelete)
           | _ \<Rightarrow> None)
      | _ \<Rightarrow> None)"

definition server_initFSM :: "tx_env \<Rightarrow> bool \<Rightarrow> (ServerState, ServerInput, serverTx) fsm_table" where
  "server_initFSM env invite = (if invite then server_initInviteFSM env else server_initNonInviteFSM env)"

type_synonym server_spin = "tx_env \<Rightarrow> bool \<Rightarrow> server_spinner"

definition server_spins :: "server_spin \<Rightarrow> bool" where
  "server_spins spin \<longleftrightarrow> (\<forall>env invite. spin_law st_state server_goto (server_initFSM env invite) (spin env invite))"

section \<open>The calls and the timers\<close>

definition st_invite :: "serverTx \<Rightarrow> bool" where "st_invite tx \<longleftrightarrow> IsInvite (st_origin tx)"

definition server_Init :: "serverTx \<Rightarrow> serverTx" where
  "server_Init tx =
     (let tx1 = tx\<lparr>st_state := (if st_invite tx then serverStateProceeding else serverStateTrying)\<rparr>;
          tx2 = (if st_reliable tx1 then tx1\<lparr>st_timeGTime := 0, st_timeITime := 0\<rparr>
                 else tx1\<lparr>st_timeGTime := TimeG, st_timeITime := TimeI\<rparr>)
      in if st_invite tx2 then tx2\<lparr>st_timer1xx := Some Time1xx\<rparr> else tx2)"

text \<open>\<^verbatim>\<open>Receive\<close> of a message that is no request calls \<^verbatim>\<open>String\<close> on a nil request.\<close>

definition server_Receive :: "server_spin \<Rightarrow> tx_env \<Rightarrow> Message \<Rightarrow> serverTx \<Rightarrow> (serverTx \<times> gerror option) turn" where
  "server_Receive spin env msg tx =
     (case msg of
        Res res \<Rightarrow> Some Panic
      | Req req0 \<Rightarrow>
          let req = req0\<lparr>m_tx := Some (st_id tx)\<rparr>;
              tx1 = tx\<lparr>st_timer1xx := None\<rparr>
          in if r_method req = r_method (st_origin tx1) then spin env (st_invite tx1) serverInputRequest tx1
             else if IsAck req then spin env (st_invite tx1) serverInputAck (tx1\<lparr>st_lastAck := Some req\<rparr>)
             else if IsCancel req then spin env (st_invite tx1) serverInputCancel (tx1\<lparr>st_lastCancel := Some req\<rparr>)
             else (case request_String req of
                     Panic \<Rightarrow> Some Panic
                   | _ \<Rightarrow> Some (Ok (tx1, Some (UnexpectedMessageError ''invalid request correlated to transaction'')))))"

definition user_input :: "response \<Rightarrow> ServerInput" where
  "user_input res =
     (if IsProvisional res then serverInputUser1xx else if IsSuccess res then serverInputUser2xx
      else serverInputUser300Plus)"

definition SendResponse :: "server_spin \<Rightarrow> tx_env \<Rightarrow> response \<Rightarrow> serverTx \<Rightarrow> (serverTx \<times> gerror option) turn" where
  "SendResponse spin env res tx =
     (if response_IsCancel res
      then (case server_send env (Res res) tx of (err, tx1) \<Rightarrow> Some (Ok (tx1, err)))
      else spin env (st_invite tx) (user_input res) (tx\<lparr>st_lastResp := Some res, st_timer1xx := None\<rparr>))"

definition server_Close :: "serverTx \<Rightarrow> serverTx" where
  "server_Close tx = (if st_closed tx then tx else server_delete tx)"

text \<open>The callback of the timer that \<^verbatim>\<open>Init\<close> starts for an INVITE.\<close>

definition fire_1xx :: "server_spin \<Rightarrow> tx_env \<Rightarrow> serverTx \<Rightarrow> serverTx turn" where
  "fire_1xx spin env tx =
     tbind (Some (CreateResponseReason (e_uuid env) (e_addr env) (e_random env) 100 ''Trying'' (st_origin tx)))
       (\<lambda>res. tbind (SendResponse spin env res tx) (\<lambda>(tx', e). Some (Ok tx')))"

datatype server_event =
    SReceive Message | SSend response | STimer1xx | STimerG | STimerH | STimerI | STimerJ | SClose

primrec server_step :: "server_spin \<Rightarrow> tx_env \<Rightarrow> server_event \<Rightarrow> serverTx \<Rightarrow> serverTx turn" where
  "server_step spin env (SReceive msg) tx = tbind (server_Receive spin env msg tx) (\<lambda>(tx', e). Some (Ok tx'))"
| "server_step spin env (SSend res) tx = tbind (SendResponse spin env res tx) (\<lambda>(tx', e). Some (Ok tx'))"
| "server_step spin env STimer1xx tx = fire_1xx spin env tx"
| "server_step spin env STimerG tx = spin_logged (spin env (st_invite tx)) serverInputTimerG tx"
| "server_step spin env STimerH tx = spin_logged (spin env (st_invite tx)) serverInputTimerH tx"
| "server_step spin env STimerI tx = spin_logged (spin env (st_invite tx)) serverInputTimerI tx"
| "server_step spin env STimerJ tx = spin_logged (spin env (st_invite tx)) serverInputTimerJ tx"
| "server_step spin env SClose tx = Some (Ok (server_Close tx))"

primrec server_steps :: "server_spin \<Rightarrow> (tx_env \<times> server_event) list \<Rightarrow> serverTx \<Rightarrow> serverTx turn" where
  "server_steps spin [] tx = Some (Ok tx)"
| "server_steps spin (ee # es) tx =
     tbind (server_step spin (fst ee) (snd ee) tx) (server_steps spin es)"

inductive server_reachable :: "server_spin \<Rightarrow> serverTx \<Rightarrow> bool" for spin where
  created: "NewServerTx handle IsReliable origin = Ok tx \<Longrightarrow> server_reachable spin (server_Init tx)"
| stepped: "server_reachable spin tx \<Longrightarrow> server_step spin env ev tx = Some (Ok tx') \<Longrightarrow> server_reachable spin tx'"

section \<open>The machines in closed form\<close>

lemma server_spinsD:
  assumes "server_spins spin"
  shows "spin_law st_state server_goto (server_initFSM env invite) (spin env invite)"
  using assms by (simp add: server_spins_def)

abbreviation server_next :: "server_spin \<Rightarrow> tx_env \<Rightarrow> bool \<Rightarrow> (serverTx \<times> ServerInput option) turn \<Rightarrow>
    (serverTx \<times> gerror option) turn" where
  "server_next spin env invite r \<equiv> tbind r (\<lambda>(t', next).
     case next of None \<Rightarrow> Some (Ok (t', None)) | Some i' \<Rightarrow> spin env invite i' t')"

lemma server_spin_step:
  assumes "server_spins spin" "server_initFSM env invite (st_state tx) i = Some (s, act)"
  shows "spin env invite i tx = server_next spin env invite (act (server_goto s tx))"
  by (rule spin_law_step [OF server_spinsD [OF assms(1)] assms(2)])

lemma server_spin_undefined:
  assumes "server_spins spin" "server_initFSM env invite (st_state tx) i = None"
  shows "\<exists>e. spin env invite i tx = Some (Ok (tx, Some e))"
  by (rule spin_law_undefined [OF server_spinsD [OF assms(1)] assms(2)])

lemmas server_table_defs = server_initFSM_def server_initInviteFSM_def server_initNonInviteFSM_def

lemma server_goto_fields [simp]:
  "st_state (server_goto s tx) = s" "st_lastResp (server_goto s tx) = st_lastResp tx"
  "st_closed (server_goto s tx) = st_closed tx" "st_lastAck (server_goto s tx) = st_lastAck tx"
  "st_lastCancel (server_goto s tx) = st_lastCancel tx" "st_timerG (server_goto s tx) = st_timerG tx"
  "st_sent (server_goto s tx) = st_sent tx" "st_invite (server_goto s tx) = st_invite tx"
  by (simp_all add: server_goto_def st_invite_def)

lemma server_goto_same: "st_state tx = s \<Longrightarrow> server_goto s tx = tx"
  by (simp add: server_goto_def)

lemma server_helpers_state [simp]:
  "st_state (server_delete tx) = st_state tx" "st_state (server_transportErr tx) = st_state tx"
  by (simp_all add: server_delete_def server_transportErr_def)

lemma server_spin_Delete:
  assumes "server_spins spin" "st_state tx = serverStateTerminated"
  shows "spin env invite serverInputDelete tx = Some (Ok (server_delete tx, None))"
proof -
  have "server_initFSM env invite (st_state tx) serverInputDelete = Some (serverStateTerminated, server_actionDelete)"
    using assms(2) by (simp add: server_table_defs)
  from server_spin_step [OF assms(1) this] show ?thesis
    by (simp add: server_actionDelete_def server_goto_same [OF assms(2)])
qed

definition server_failed :: "serverTx \<Rightarrow> serverTx" where
  "server_failed tx = server_delete (server_transportErr (server_goto serverStateTerminated tx))"

lemma server_spin_TransportErr:
  assumes "server_spins spin"
  shows "\<exists>e. spin env invite serverInputTransportErr tx =
    Some (Ok (if st_state tx \<in> {serverStateProceeding, serverStateCompleted} then server_failed tx else tx, e))"
proof (cases "st_state tx \<in> {serverStateProceeding, serverStateCompleted}")
  case True
  then have "server_initFSM env invite (st_state tx) serverInputTransportErr =
      Some (serverStateTerminated, server_actionTransErr)" by (auto simp: server_table_defs)
  from server_spin_step [OF assms this] True show ?thesis
    by (simp add: server_actionTransErr_def server_spin_Delete [OF assms] server_failed_def)
next
  case False
  then have "server_initFSM env invite (st_state tx) serverInputTransportErr = None"
    by (auto simp: server_table_defs split: ServerState.split)
  from server_spin_undefined [OF assms this] False show ?thesis by auto
qed

text \<open>What the send at the beginning of an action leaves behind.\<close>

definition sent_last :: "(serverTx \<Rightarrow> serverTx) \<Rightarrow> serverTx \<Rightarrow> serverTx \<Rightarrow> bool" where
  "sent_last f tx tx' \<longleftrightarrow>
     (st_lastResp tx = None \<and> tx' = tx) \<or>
     (\<exists>r. st_lastResp tx = Some r \<and>
        (tx' = f (tx\<lparr>st_sent := st_sent tx @ [Res r], st_lastErr := None\<rparr>) \<or>
         (\<exists>err. tx' = server_failed (tx\<lparr>st_sent := st_sent tx @ [Res r], st_lastErr := Some err\<rparr>))))"

lemma server_next_send_last:
  assumes "server_spins spin" "st_state tx \<in> {serverStateProceeding, serverStateCompleted}"
    and "server_next spin env invite (send_last env f tx) = Some (Ok (tx', e))"
  shows "sent_last f tx tx'"
proof (cases "st_lastResp tx")
  case None
  with assms(3) show ?thesis by (simp add: send_last_def sent_last_def)
next
  case (Some r)
  show ?thesis
  proof (cases "e_Send env (Res r)")
    case None
    with Some assms(3) show ?thesis by (simp add: send_last_def sent_last_def server_send_def)
  next
    case (Some err)
    let ?tx = "tx\<lparr>st_sent := st_sent tx @ [Res r], st_lastErr := Some err\<rparr>"
    have "\<exists>e'. spin env invite serverInputTransportErr ?tx = Some (Ok (server_failed ?tx, e'))"
      using server_spin_TransportErr [OF assms(1), of env invite ?tx] assms(2) by auto
    with \<open>st_lastResp tx = Some r\<close> Some assms(3) show ?thesis
      by (auto simp: send_last_def sent_last_def server_send_def)
  qed
qed

lemma server_spin_Request:
  assumes "server_spins spin" "spin env invite serverInputRequest tx = Some (Ok (tx', e))"
  shows "tx' = tx \<or> st_state tx \<in> {serverStateProceeding, serverStateCompleted} \<and> sent_last (\<lambda>t. t) tx tx'"
proof -
  consider (undef) "server_initFSM env invite (st_state tx) serverInputRequest = None"
    | (none) "server_initFSM env invite (st_state tx) serverInputRequest = Some (st_state tx, NO_ACTION)"
    | (resp) "server_initFSM env invite (st_state tx) serverInputRequest = Some (st_state tx, actionRespond env)"
        "st_state tx \<in> {serverStateProceeding, serverStateCompleted}"
    by (cases "st_state tx"; cases invite) (auto simp: server_table_defs)
  then show ?thesis
  proof cases
    case undef
    with server_spin_undefined [OF assms(1) this] assms(2) show ?thesis by auto
  next
    case none
    with server_spin_step [OF assms(1) this] assms(2) show ?thesis
      by (simp add: NO_ACTION_def server_goto_same)
  next
    case resp
    have "server_next spin env invite (send_last env (\<lambda>t. t) tx) = Some (Ok (tx', e))"
      using server_spin_step [OF assms(1) resp(1)] assms(2) by (simp add: actionRespond_def server_goto_same)
    with server_next_send_last [OF assms(1) resp(2)] resp(2) show ?thesis by blast
  qed
qed

lemma server_next_passUp:
  assumes "server_spins spin" "server_next spin env invite (server_passUp env req tx) = Some (Ok (tx', e))"
  shows "\<not> st_closed tx \<and> tx' = tx\<lparr>st_requests := st_requests tx @ [req]\<rparr> \<or>
    st_closed tx \<and> (tx' = tx \<or> st_state tx \<in> {serverStateProceeding, serverStateCompleted} \<and> sent_last (\<lambda>t. t) tx tx')"
proof (cases "st_closed tx")
  case True
  show ?thesis
  proof (cases "e_pickDone env")
    case True
    with \<open>st_closed tx\<close> assms(2) show ?thesis by (simp add: server_passUp_def)
  next
    case False
    with True assms(2) have "spin env invite serverInputRequest tx = Some (Ok (tx', e))"
      by (simp add: server_passUp_def)
    from server_spin_Request [OF assms(1) this] True show ?thesis by blast
  qed
next
  case False
  with assms(2) show ?thesis by (simp add: server_passUp_def)
qed

section \<open>The invariant\<close>

text \<open>
  An open transaction that waits has the timer running that will end its wait; the user is
  given ACK and CANCEL requests only, which carry the transaction, and only responses are sent.
\<close>

definition server_base :: "serverTx \<Rightarrow> bool" where
  "server_base tx \<longleftrightarrow>
     (\<forall>r \<in> set (st_requests tx). (IsAck r \<or> IsCancel r) \<and> m_tx r = Some (st_id tx)) \<and>
     (\<forall>m \<in> set (st_sent tx). \<exists>r. m = Res r) \<and>
     (\<forall>a. st_lastAck tx = Some a \<longrightarrow> IsAck a \<and> m_tx a = Some (st_id tx)) \<and>
     (\<forall>c. st_lastCancel tx = Some c \<longrightarrow> IsCancel c \<and> m_tx c = Some (st_id tx)) \<and>
     st_timerH tx \<in> {None, Some TimeH}"

definition server_armed :: "serverTx \<Rightarrow> bool" where
  "server_armed tx \<longleftrightarrow>
     (if st_invite tx
      then (st_state tx = serverStateCompleted \<longrightarrow>
              st_timerH tx = Some TimeH \<and> (st_reliable tx \<or> st_timerG tx \<noteq> None)) \<and>
           (st_state tx = serverStateConfirmed \<longrightarrow> st_timerI tx = Some TimeI)
      else (st_state tx = serverStateCompleted \<longrightarrow> st_timerJ tx = Some TimeJ) \<and>
           st_state tx \<noteq> serverStateTerminated)"

definition server_ok :: "serverTx \<Rightarrow> bool" where
  "server_ok tx \<longleftrightarrow> server_base tx \<and> (st_closed tx \<or> server_armed tx)"

lemmas server_helper_defs = server_goto_def server_delete_def server_transportErr_def server_failed_def st_invite_def

lemma server_base_updates [simp]:
  "server_base (server_goto s tx) = server_base tx"
  "server_base (tx\<lparr>st_lastErr := err\<rparr>) = server_base tx"
  "server_base (tx\<lparr>st_timerJ := j\<rparr>) = server_base tx"
  "server_base (tx\<lparr>st_lastResp := lr\<rparr>) = server_base tx"
  "server_base (tx\<lparr>st_timer1xx := x\<rparr>) = server_base tx"
  "server_base (server_transportErr tx) = server_base tx"
  "server_base (tx\<lparr>st_sent := st_sent tx @ [Res r]\<rparr>) = server_base tx"
  by (auto simp: server_base_def server_goto_def server_transportErr_def)

lemma server_base_delete [simp]: "server_base tx \<Longrightarrow> server_base (server_delete tx)"
  by (auto simp: server_base_def server_delete_def)

lemma server_delete_closed [simp]: "st_closed (server_delete tx)"
  by (simp add: server_delete_def)

lemma server_ok_deleted: "server_base tx \<Longrightarrow> server_ok (server_delete tx)"
  by (simp add: server_ok_def)

lemma server_ok_failed: "server_base tx \<Longrightarrow> server_ok (server_failed tx)"
  by (simp add: server_failed_def server_ok_deleted)

lemma sent_last_ok:
  assumes "sent_last f tx tx'" "server_base tx" "st_lastResp tx = None \<Longrightarrow> server_ok tx"
    and "\<And>r. server_base (tx\<lparr>st_sent := st_sent tx @ [Res r], st_lastErr := None\<rparr>) \<Longrightarrow>
        server_ok (f (tx\<lparr>st_sent := st_sent tx @ [Res r], st_lastErr := None\<rparr>))"
  shows "server_ok tx'"
proof -
  have "server_base (tx\<lparr>st_sent := st_sent tx @ [Res r], st_lastErr := err\<rparr>)" for r err using assms(2) by simp
  then show ?thesis using assms unfolding sent_last_def by (auto intro: server_ok_failed)
qed

lemma server_ok_sent:
  "server_ok tx \<Longrightarrow> server_ok (tx\<lparr>st_sent := st_sent tx @ [Res r], st_lastErr := err\<rparr>)"
  "server_ok tx \<Longrightarrow> server_ok (tx\<lparr>st_sent := st_sent tx @ [Res r]\<rparr>)"
  by (auto simp: server_ok_def server_armed_def st_invite_def split: if_splits)

lemma sent_again_ok: "sent_last (\<lambda>t. t) tx tx' \<Longrightarrow> server_ok tx \<Longrightarrow> server_ok tx'"
  by (erule sent_last_ok) (auto simp: server_ok_sent, simp add: server_ok_def)

lemma complete_timers_ok:
  assumes "server_base tx" "st_invite tx" "st_state tx = serverStateCompleted"
  shows "server_ok (complete_timers tx)"
  using assms
  by (auto simp: server_ok_def server_base_def server_armed_def complete_timers_def Let_def st_invite_def
      split: option.split)

lemma server_passed_ok:
  assumes "server_spins spin" "server_next spin env invite (server_passUp env req tx) = Some (Ok (tx', e))"
    and "server_ok tx" "IsAck req \<or> IsCancel req" "m_tx req = Some (st_id tx)"
  shows "server_ok tx'"
  using server_next_passUp [OF assms(1,2)]
proof (elim disjE conjE)
  assume "tx' = tx\<lparr>st_requests := st_requests tx @ [req]\<rparr>"
  with assms(3-5) show ?thesis by (auto simp: server_ok_def server_base_def server_armed_def st_invite_def)
qed (use assms(3) sent_again_ok in blast)+

lemma server_ok_goto:
  assumes "server_ok tx"
    and "s = st_state tx \<or> s \<in> {serverStateTrying, serverStateProceeding} \<or>
      s = (if st_invite tx then serverStateTerminated else serverStateConfirmed)"
  shows "server_ok (server_goto s tx)"
proof (cases "s = st_state tx")
  case True
  with assms(1) show ?thesis by (simp add: server_goto_same)
next
  case False
  then have "s \<notin> {serverStateCompleted}" "st_invite tx \<Longrightarrow> s \<noteq> serverStateConfirmed"
    "\<not> st_invite tx \<Longrightarrow> s \<noteq> serverStateTerminated"
    using assms(2) by (auto split: if_splits)
  then have "server_armed (server_goto s tx)" by (simp add: server_armed_def)
  with assms(1) show ?thesis by (simp add: server_ok_def)
qed

lemma server_cancel_ok:
  assumes law: "server_spins spin" and ok: "server_ok tx"
    and act: "act \<in> {actionCancel env, actionCancelNotExist env}"
    and step: "server_next spin env invite (act tx) = Some (Ok (tx', e))"
  shows "server_ok tx'"
proof (cases "st_lastCancel tx")
  case None
  with act step ok show ?thesis by (auto simp: actionCancel_def actionCancelNotExist_def)
next
  case (Some c)
  have c: "IsCancel c" "m_tx c = Some (st_id tx)" using ok Some by (auto simp: server_ok_def server_base_def)
  have again: "server_ok tx'" if "spin env invite serverInputRequest tx = Some (Ok (tx', e))"
    using server_spin_Request [OF law that] ok by (auto intro: sent_again_ok)
  have pass: "server_ok tx'" if "server_next spin env invite (server_passUp env c (tx\<lparr>st_sent := st_sent tx @ [Res res]\<rparr>)) = Some (Ok (tx', e))" for res
    using server_passed_ok [OF law that] server_ok_sent(2) [OF ok] c by simp
  from act show ?thesis
    using Some step again pass server_ok_sent(2) [OF ok]
    by (auto simp: actionCancel_def actionCancelNotExist_def server_send_def split: outcome.splits)
qed

lemma server_success_ok:
  assumes law: "server_spins spin" and base: "server_base tx" and st: "st_state tx = serverStateTerminated"
    and step: "server_next spin env invite (actionRespondDelete env tx) = Some (Ok (tx', e))"
  shows "server_ok tx'"
proof -
  obtain r where r: "st_lastResp (server_delete tx) = Some r"
    using step by (auto simp: actionRespondDelete_def Let_def split: option.splits)
  let ?tx = "(server_delete tx)\<lparr>st_sent := st_sent (server_delete tx) @ [Res r], st_lastErr := e_Send env (Res r)\<rparr>"
  have "tx' = ?tx"
    using step r server_spin_TransportErr [OF law, of env invite ?tx] st
    by (auto simp: actionRespondDelete_def server_send_def Let_def split: if_splits option.splits)
  moreover have "server_ok ?tx" using server_ok_deleted [OF base] by (rule server_ok_sent)
  ultimately show ?thesis by simp
qed

lemma server_broken_ok:
  assumes law: "server_spins spin" and base: "server_base tx" and st: "st_state tx = serverStateTerminated"
    and step: "server_next spin env invite (server_actionTransErr tx) = Some (Ok (tx', e))"
  shows "server_ok tx'"
  using step base server_spin_Delete [OF law, of "server_transportErr tx"] st
  by (auto simp: server_actionTransErr_def intro: server_ok_deleted)

text \<open>Inputs as the calls make them.\<close>

definition server_input_ok :: "ServerInput \<Rightarrow> serverTx \<Rightarrow> bool" where
  "server_input_ok i tx \<longleftrightarrow> i \<noteq> serverInputDelete \<and>
     (i \<in> {serverInputUser1xx, serverInputUser2xx, serverInputUser300Plus} \<longrightarrow> st_lastResp tx \<noteq> None)"

lemma server_complete_ok:
  assumes law: "server_spins spin" and t: "server_base t" "st_state t = serverStateCompleted" "st_invite t"
    and resp: "st_lastResp t \<noteq> None \<or> server_ok t"
    and step: "server_next spin env invite (actionRespondComplete env t) = Some (Ok (tx', e))"
  shows "server_ok tx'"
proof -
  have "sent_last complete_timers t tx'"
    using server_next_send_last [OF law _ step [unfolded actionRespondComplete_def]] t(2) by simp
  moreover have "server_ok (complete_timers (t\<lparr>st_sent := st_sent t @ [Res r], st_lastErr := None\<rparr>))" for r
    using t by (intro complete_timers_ok) (simp_all add: st_invite_def)
  ultimately show ?thesis using t(1) resp by (auto intro: sent_last_ok [of complete_timers t])
qed

lemma server_final_ok:
  assumes law: "server_spins spin" and t: "server_base t" "st_state t = serverStateCompleted" "\<not> st_invite t" "st_lastResp t \<noteq> None"
    and step: "server_next spin env invite (actionFinal env t) = Some (Ok (tx', e))"
  shows "server_ok tx'"
proof -
  have "sent_last (\<lambda>tx. tx\<lparr>st_timerJ := Some TimeJ\<rparr>) t tx'"
    using server_next_send_last [OF law _ step [unfolded actionFinal_def]] t(2) by simp
  moreover have "server_ok (t\<lparr>st_sent := st_sent t @ [Res r], st_lastErr := None, st_timerJ := Some TimeJ\<rparr>)" for r
    using t by (simp add: server_ok_def server_armed_def st_invite_def server_base_def)
  ultimately show ?thesis using t(1,4) by (auto intro: sent_last_ok [of "\<lambda>tx. tx\<lparr>st_timerJ := Some TimeJ\<rparr>" t])
qed

lemma server_confirm_ok:
  assumes law: "server_spins spin" and t: "server_base t" "st_state t = serverStateConfirmed" "st_invite t"
    and step: "server_next spin env invite (actionConfirm env t) = Some (Ok (tx', e))"
  shows "server_ok tx'"
proof -
  let ?u = "t\<lparr>st_timerG := None, st_timerH := None, st_timerI := Some TimeI\<rparr>"
  have u: "server_ok ?u" using t by (simp add: server_ok_def server_base_def server_armed_def st_invite_def)
  have "server_ok tx'" if "st_lastAck ?u = Some ack" for ack
  proof (rule server_passed_ok [OF law _ u])
    show "server_next spin env invite (server_passUp env ack ?u) = Some (Ok (tx', e))"
      using step that by (simp add: actionConfirm_def)
    show "IsAck ack \<or> IsCancel ack" "m_tx ack = Some (st_id ?u)" using t(1) that by (simp_all add: server_base_def)
  qed
  with step u show ?thesis by (cases "st_lastAck t") (auto simp: actionConfirm_def)
qed

text \<open>An input of the machine is undefined and changes nothing, or it is a step of the table.\<close>

lemma server_spin_cases:
  assumes "server_spins spin" "spin env (st_invite tx) i tx = Some (Ok (tx', e))"
  obtains (undefined) "tx' = tx"
  | (step) s act where "server_initFSM env (st_invite tx) (st_state tx) i = Some (s, act)"
      "server_next spin env (st_invite tx) (act (server_goto s tx)) = Some (Ok (tx', e))"
proof (cases "server_initFSM env (st_invite tx) (st_state tx) i")
  case None
  with server_spin_undefined [OF assms(1) None] assms(2) show thesis by (intro undefined) auto
next
  case (Some sa)
  obtain s act where sa: "sa = (s, act)" by (cases sa)
  show thesis using server_spin_step [OF assms(1) Some [unfolded sa]] assms(2) Some sa by (intro step) simp_all
qed

lemma server_ok_Proceeding:
  assumes law: "server_spins spin" and res: "spin env (st_invite tx) i tx = Some (Ok (tx', e))"
    and ok: "server_ok tx" and i: "server_input_ok i tx"
    and st: "st_state tx \<in> {serverStateTrying, serverStateProceeding}"
  shows "server_ok tx'"
  using law res
proof (cases rule: server_spin_cases)
  case (step s act)
  note lookup = step(1) and step = step(2) and base = ok [unfolded server_ok_def, THEN conjunct1]
  let ?t = "server_goto s tx"
  have armed: "server_ok (server_goto s tx)" if "s \<in> {serverStateTrying, serverStateProceeding}" for s
    using server_ok_goto [OF ok, of s] that by auto
  consider (none) "act = NO_ACTION" "s = st_state tx \<or> \<not> st_invite tx \<and> s = serverStateConfirmed"
    | (respond) "act = actionRespond env" "s = serverStateProceeding"
    | (cancel) "act = actionCancel env" "s = serverStateProceeding"
    | (success) "act = actionRespondDelete env" "s = serverStateTerminated"
    | (complete) "act = actionRespondComplete env" "s = serverStateCompleted" "st_invite tx" "i = serverInputUser300Plus"
    | (final) "act = actionFinal env" "s = serverStateCompleted" "\<not> st_invite tx" "i \<in> {serverInputUser2xx, serverInputUser300Plus}"
    | (broken) "act = server_actionTransErr" "s = serverStateTerminated"
    using lookup st by (cases i; cases "st_invite tx"; auto simp: server_table_defs)
  then show ?thesis
  proof cases
    case none
    with step have "tx' = ?t" by (simp add: NO_ACTION_def)
    with none server_ok_goto [OF ok, of s] show ?thesis by auto
  next
    case respond
    with server_next_send_last [OF law _ step [unfolded respond(1) actionRespond_def]] armed [of s]
    show ?thesis by (auto intro: sent_again_ok)
  next
    case cancel
    then have "server_ok ?t" using armed [of s] by simp
    with cancel(1) show ?thesis using server_cancel_ok [where act = act and tx = ?t, OF law _ _ step] by simp
  next
    case success
    with server_success_ok [OF law _ _ step [unfolded success(1)]] base show ?thesis by simp
  next
    case complete
    have "st_lastResp ?t \<noteq> None" using i complete(4) by (simp add: server_input_ok_def)
    with server_complete_ok [OF law _ _ _ _ step [unfolded complete(1)]] base complete(2,3) show ?thesis by simp
  next
    case final
    have "st_lastResp ?t \<noteq> None" using i final(4) by (auto simp: server_input_ok_def)
    with server_final_ok [OF law _ _ _ _ step [unfolded final(1)]] base final(2,3) show ?thesis by simp
  next
    case broken
    with server_broken_ok [OF law _ _ step [unfolded broken(1)]] base show ?thesis by simp
  qed
qed (use ok in simp)

lemma server_ok_Completed:
  assumes law: "server_spins spin" and res: "spin env (st_invite tx) i tx = Some (Ok (tx', e))"
    and ok: "server_ok tx" and i: "server_input_ok i tx" and st: "st_state tx = serverStateCompleted"
  shows "server_ok tx'"
  using law res
proof (cases rule: server_spin_cases)
  case (step s act)
  note lookup = step(1) and step = step(2) and base = ok [unfolded server_ok_def, THEN conjunct1]
    and same = server_goto_same [OF st]
  let ?t = "server_goto s tx"
  consider (none) "act = NO_ACTION" "s = serverStateCompleted \<or> \<not> st_invite tx \<and> s = serverStateConfirmed"
    | (respond) "act = actionRespond env" "s = serverStateCompleted"
    | (confirm) "act = actionConfirm env" "s = serverStateConfirmed" "st_invite tx"
    | (cancel) "act = actionCancelNotExist env" "s = serverStateCompleted"
    | (complete) "act = actionRespondComplete env" "s = serverStateCompleted" "st_invite tx"
    | (expire) "act = server_actionDelete" "s = serverStateTerminated"
    | (broken) "act = server_actionTransErr" "s = serverStateTerminated"
    using lookup st by (cases i; cases "st_invite tx"; auto simp: server_table_defs)
  then show ?thesis
  proof cases
    case none
    with step have "tx' = ?t" by (simp add: NO_ACTION_def)
    with none st server_ok_goto [OF ok, of s] show ?thesis by auto
  next
    case respond
    with server_next_send_last [OF law _ step [unfolded respond(1) actionRespond_def]] st same
    have "sent_last (\<lambda>t. t) tx tx'" by simp
    then show ?thesis using ok by (rule sent_again_ok)
  next
    case confirm
    with server_confirm_ok [OF law _ _ _ step [unfolded confirm(1)]] base show ?thesis by simp
  next
    case cancel
    with ok same have "server_ok ?t" by simp
    with cancel(1) show ?thesis using server_cancel_ok [where act = act and tx = ?t, OF law _ _ step] by simp
  next
    case complete
    with server_complete_ok [OF law _ _ _ _ step [unfolded complete(1)]] base ok same st show ?thesis by simp
  next
    case expire
    with step base show ?thesis by (auto simp: server_actionDelete_def intro: server_ok_deleted)
  next
    case broken
    with server_broken_ok [OF law _ _ step [unfolded broken(1)]] base show ?thesis by simp
  qed
qed (use ok in simp)

lemma server_ok_late:
  assumes law: "server_spins spin" and res: "spin env (st_invite tx) i tx = Some (Ok (tx', e))"
    and ok: "server_ok tx" and i: "server_input_ok i tx"
    and st: "st_state tx \<in> {serverStateConfirmed, serverStateTerminated}"
  shows "server_ok tx'"
  using law res
proof (cases rule: server_spin_cases)
  case (step s act)
  note lookup = step(1) and step = step(2) and base = ok [unfolded server_ok_def, THEN conjunct1]
  let ?t = "server_goto s tx"
  consider (none) "act = NO_ACTION" "s = st_state tx \<or> st_invite tx \<and> s = serverStateTerminated
        \<or> \<not> st_invite tx \<and> s = serverStateConfirmed"
    | (cancel) "act = actionCancelNotExist env" "s = st_state tx"
    | (expire) "act = server_actionDelete" "s = serverStateTerminated"
    using lookup st i by (cases i; cases "st_invite tx"; auto simp: server_table_defs server_input_ok_def)
  then show ?thesis
  proof cases
    case none
    with step have "tx' = ?t" by (simp add: NO_ACTION_def)
    with none server_ok_goto [OF ok, of s] show ?thesis by auto
  next
    case cancel
    with ok have "server_ok ?t" by (simp add: server_goto_same)
    with cancel(1) show ?thesis using server_cancel_ok [where act = act and tx = ?t, OF law _ _ step] by simp
  next
    case expire
    with step base show ?thesis by (auto simp: server_actionDelete_def intro: server_ok_deleted)
  qed
qed (use ok in simp)

lemma server_ok_spin:
  assumes "server_spins spin" "spin env (st_invite tx) i tx = Some (Ok (tx', e))" "server_ok tx" "server_input_ok i tx"
  shows "server_ok tx'"
  using server_ok_Proceeding [OF assms] server_ok_Completed [OF assms] server_ok_late [OF assms]
  by (cases "st_state tx") simp_all

lemma server_ok_updates:
  "server_ok (tx\<lparr>st_timer1xx := x\<rparr>) = server_ok tx"
  "server_ok (tx\<lparr>st_lastResp := r\<rparr>) = server_ok tx"
  "IsAck a \<Longrightarrow> m_tx a = Some (st_id tx) \<Longrightarrow> server_ok tx \<Longrightarrow> server_ok (tx\<lparr>st_lastAck := Some a\<rparr>)"
  "IsCancel a \<Longrightarrow> m_tx a = Some (st_id tx) \<Longrightarrow> server_ok tx \<Longrightarrow> server_ok (tx\<lparr>st_lastCancel := Some a\<rparr>)"
  by (auto simp: server_ok_def server_base_def server_armed_def st_invite_def)

lemma st_invite_updates [simp]:
  "st_invite (tx\<lparr>st_timer1xx := x\<rparr>) = st_invite tx" "st_invite (tx\<lparr>st_lastAck := a\<rparr>) = st_invite tx"
  "st_invite (tx\<lparr>st_lastCancel := a\<rparr>) = st_invite tx" "st_invite (tx\<lparr>st_lastResp := r\<rparr>) = st_invite tx"
  by (simp_all add: st_invite_def)

lemma user_input_ok: "server_input_ok (user_input res) (tx\<lparr>st_lastResp := Some r, st_timer1xx := x\<rparr>)"
  by (simp add: server_input_ok_def user_input_def)

lemma server_ok_Send:
  assumes "server_spins spin" "server_ok tx" "SendResponse spin env res tx = Some (Ok (tx', e))"
  shows "server_ok tx'"
proof (cases "response_IsCancel res")
  case True
  with assms show ?thesis by (auto simp: SendResponse_def server_send_def server_ok_sent)
next
  case False
  let ?tx = "tx\<lparr>st_lastResp := Some res, st_timer1xx := None\<rparr>"
  have "spin env (st_invite ?tx) (user_input res) ?tx = Some (Ok (tx', e))"
    using False assms(3) by (simp add: SendResponse_def)
  then show ?thesis
    by (rule server_ok_spin [OF assms(1)]) (use assms(2) in \<open>simp_all add: server_ok_updates user_input_ok\<close>)
qed

lemma server_ok_Receive:
  assumes "server_spins spin" "server_ok tx" "server_Receive spin env msg tx = Some (Ok (tx', e))"
  shows "server_ok tx'"
proof -
  obtain req0 where msg: "msg = Req req0" using assms(3) by (cases msg) (auto simp: server_Receive_def)
  let ?req = "req0\<lparr>m_tx := Some (st_id tx)\<rparr>" and ?tx = "tx\<lparr>st_timer1xx := None\<rparr>"
  have ok: "server_ok ?tx" using assms(2) by (simp add: server_ok_updates)
  have spun: "server_ok tx'" if "spin env (st_invite t) i t = Some (Ok (tx', e))" "server_ok t"
      "i \<in> {serverInputRequest, serverInputAck, serverInputCancel}" for i t
    by (rule server_ok_spin [OF assms(1) that(1,2)]) (use that(3) in \<open>auto simp: server_input_ok_def\<close>)
  consider "r_method ?req = r_method (st_origin ?tx)" | "r_method ?req \<noteq> r_method (st_origin ?tx)" "IsAck ?req"
    | "r_method ?req \<noteq> r_method (st_origin ?tx)" "\<not> IsAck ?req" "IsCancel ?req"
    | "r_method ?req \<noteq> r_method (st_origin ?tx)" "\<not> IsAck ?req" "\<not> IsCancel ?req" by blast
  then show ?thesis
  proof cases
    case 1
    with assms(3) ok show ?thesis by (intro spun [of ?tx serverInputRequest]) (simp_all add: msg server_Receive_def)
  next
    case 2
    with assms(3) ok show ?thesis
      by (intro spun [of "?tx\<lparr>st_lastAck := Some ?req\<rparr>" serverInputAck])
        (simp_all add: msg server_Receive_def Let_def server_ok_updates)
  next
    case 3
    with assms(3) ok show ?thesis
      by (intro spun [of "?tx\<lparr>st_lastCancel := Some ?req\<rparr>" serverInputCancel])
        (simp_all add: msg server_Receive_def Let_def server_ok_updates)
  next
    case 4
    with assms(3) ok show ?thesis
      by (auto simp: msg server_Receive_def Let_def split: outcome.splits)
  qed
qed

lemma server_ok_step:
  assumes law: "server_spins spin" and ok: "server_ok tx" and step: "server_step spin env ev tx = Some (Ok tx')"
  shows "server_ok tx'"
proof -
  have timer: "server_ok tx'" if "spin env (st_invite tx) i tx = Some (Ok (tx', e))"
      "i \<in> {serverInputTimerG, serverInputTimerH, serverInputTimerI, serverInputTimerJ}" for i e
    by (rule server_ok_spin [OF law that(1) ok]) (use that(2) in \<open>auto simp: server_input_ok_def\<close>)
  show ?thesis
  proof (cases ev)
    case SClose
    with step ok show ?thesis by (auto simp: server_Close_def server_ok_def)
  next
    case STimer1xx
    then obtain res e where "SendResponse spin env res tx = Some (Ok (tx', e))"
      using step by (auto simp: fire_1xx_def tbind_eq_Ok split: outcome.splits)
    then show ?thesis by (rule server_ok_Send [OF law ok])
  next
    case (SReceive msg)
    with step obtain e where "server_Receive spin env msg tx = Some (Ok (tx', e))" by (auto simp: tbind_eq_Ok)
    then show ?thesis by (rule server_ok_Receive [OF law ok])
  next
    case (SSend res)
    with step obtain e where "SendResponse spin env res tx = Some (Ok (tx', e))" by (auto simp: tbind_eq_Ok)
    then show ?thesis by (rule server_ok_Send [OF law ok])
  next
    case STimerG
    with step show ?thesis by (auto simp: spin_logged_def tbind_eq_Ok intro: timer)
  next
    case STimerH
    with step show ?thesis by (auto simp: spin_logged_def tbind_eq_Ok intro: timer)
  next
    case STimerI
    with step show ?thesis by (auto simp: spin_logged_def tbind_eq_Ok intro: timer)
  next
    case STimerJ
    with step show ?thesis by (auto simp: spin_logged_def tbind_eq_Ok intro: timer)
  qed
qed

lemma server_ok_Init:
  assumes "NewServerTx handle IsReliable origin = Ok tx"
  shows "server_ok (server_Init tx)"
  using assms by (auto simp: NewServerTx_def outcome_simps server_Init_def server_ok_def server_base_def
      server_armed_def st_invite_def Let_def)

section \<open>Sequences of events\<close>

lemma server_steps_append:
  "server_steps spin (xs @ ys) tx = tbind (server_steps spin xs tx) (server_steps spin ys)"
proof (induction xs arbitrary: tx)
  case (Cons x xs)
  have "server_steps spin (xs @ ys) = (\<lambda>t. tbind (server_steps spin xs t) (server_steps spin ys))"
    by (rule ext) (rule Cons.IH)
  then show ?case by (simp add: tbind_assoc)
qed simp

text \<open>A terminated INVITE stays as open or closed as it is, unless \<^verbatim>\<open>Close\<close> is called.\<close>

definition stuck :: "serverTx \<Rightarrow> bool" where
  "stuck tx \<longleftrightarrow> st_invite tx \<and> st_state tx = serverStateTerminated \<and> \<not> st_closed tx"

lemma stuck_updates [simp]:
  "stuck (tx\<lparr>st_lastResp := r\<rparr>) = stuck tx" "stuck (tx\<lparr>st_timer1xx := x\<rparr>) = stuck tx"
  "stuck (tx\<lparr>st_lastAck := a\<rparr>) = stuck tx" "stuck (tx\<lparr>st_lastCancel := a\<rparr>) = stuck tx"
  "stuck (tx\<lparr>st_sent := m\<rparr>) = stuck tx"
  by (simp_all add: stuck_def st_invite_def)

lemma stuck_spin:
  assumes law: "server_spins spin" and st: "stuck tx" and i: "i \<noteq> serverInputDelete"
  shows "\<exists>e. spin env (st_invite tx) i tx = Some (Ok (tx, e))"
proof (cases "server_initFSM env (st_invite tx) (st_state tx) i")
  case None
  then show ?thesis using server_spin_undefined [OF law None] by blast
next
  case (Some sa)
  then have "sa = (serverStateTerminated, NO_ACTION)"
    using st i by (cases i) (auto simp: stuck_def server_table_defs)
  with Some server_spin_step [OF law, of env "st_invite tx" tx i] st show ?thesis
    by (simp add: NO_ACTION_def server_goto_same stuck_def)
qed

lemma stuck_Send:
  assumes law: "server_spins spin" and st: "stuck tx" and step: "SendResponse spin env res tx = Some (Ok (tx', e))"
  shows "stuck tx'"
proof (cases "response_IsCancel res")
  case True
  with step st show ?thesis by (auto simp: SendResponse_def server_send_def)
next
  case False
  let ?tx = "tx\<lparr>st_lastResp := Some res, st_timer1xx := None\<rparr>"
  have "stuck ?tx" using st by simp
  with False step stuck_spin [OF law this, of "user_input res" env] show ?thesis
    by (auto simp: SendResponse_def user_input_def split: if_splits)
qed

lemma stuck_Receive:
  assumes law: "server_spins spin" and st: "stuck tx" and step: "server_Receive spin env msg tx = Some (Ok (tx', e))"
  shows "stuck tx'"
proof -
  obtain req0 where msg: "msg = Req req0" using step by (cases msg) (auto simp: server_Receive_def)
  let ?req = "req0\<lparr>m_tx := Some (st_id tx)\<rparr>" and ?tx = "tx\<lparr>st_timer1xx := None\<rparr>"
  have "stuck ?tx" "stuck (?tx\<lparr>st_lastAck := Some ?req\<rparr>)" "stuck (?tx\<lparr>st_lastCancel := Some ?req\<rparr>)"
    using st by simp_all
  from stuck_spin [OF law this(1), of serverInputRequest env] stuck_spin [OF law this(2), of serverInputAck env]
    stuck_spin [OF law this(3), of serverInputCancel env] this
  show ?thesis using step by (auto simp: msg server_Receive_def Let_def split: if_splits outcome.splits)
qed

lemma stuck_step:
  assumes law: "server_spins spin" and st: "stuck tx" and ev: "ev \<noteq> SClose"
    and step: "server_step spin env ev tx = Some (Ok tx')"
  shows "stuck tx'"
proof -
  have timer: "spin_logged (spin env (st_invite tx)) i tx = Some (Ok tx)" if "i \<noteq> serverInputDelete" for i
    using stuck_spin [OF law st that, of env] by (auto simp: spin_logged_def)
  show ?thesis
  proof (cases ev)
    case (SReceive msg)
    with step obtain e where "server_Receive spin env msg tx = Some (Ok (tx', e))" by (auto simp: tbind_eq_Ok)
    then show ?thesis by (rule stuck_Receive [OF law st])
  next
    case (SSend res)
    with step obtain e where "SendResponse spin env res tx = Some (Ok (tx', e))" by (auto simp: tbind_eq_Ok)
    then show ?thesis by (rule stuck_Send [OF law st])
  next
    case STimer1xx
    with step obtain res e where "SendResponse spin env res tx = Some (Ok (tx', e))"
      by (auto simp: fire_1xx_def tbind_eq_Ok split: outcome.splits)
    then show ?thesis by (rule stuck_Send [OF law st])
  qed (use step timer st ev in auto)
qed

lemma stuck_steps:
  assumes "server_spins spin" "stuck tx" "\<forall>ee \<in> set es. snd ee \<noteq> SClose"
    and "server_steps spin es tx = Some (Ok tx')"
  shows "stuck tx'"
  using assms(2-)
proof (induction es arbitrary: tx)
  case (Cons ee es)
  then obtain tx1 where "server_step spin (fst ee) (snd ee) tx = Some (Ok tx1)" "server_steps spin es tx1 = Some (Ok tx')"
    by (auto simp: tbind_eq_Ok)
  moreover from this(1) have "stuck tx1" by (rule stuck_step [OF assms(1) Cons.prems(1), rotated]) (use Cons.prems(2) in simp)
  ultimately show ?case using Cons.IH Cons.prems(2) by simp
qed simp

text \<open>The expiry of timer G in \<^verbatim>\<open>Completed\<close>.\<close>

lemma server_TimerG_Completed:
  assumes "server_spins spin" "st_invite tx" "st_state tx = serverStateCompleted" "st_lastResp tx = Some r"
    and "e_Send env (Res r) = None" "\<not> st_reliable tx" "st_timerG tx = Some g" "st_timerH tx = Some h"
  shows "server_step spin env STimerG tx =
    Some (Ok (tx\<lparr>st_lastErr := None, st_timeGTime := client_backoff False (st_timeGTime tx),
       st_timerG := Some (client_backoff False (st_timeGTime tx)), st_sent := st_sent tx @ [Res r]\<rparr>))"
proof -
  have "server_initFSM env (st_invite tx) (st_state tx) serverInputTimerG =
      Some (serverStateCompleted, actionRespondComplete env)"
    using assms(2,3) by (simp add: server_table_defs)
  from server_spin_step [OF assms(1) this] show ?thesis
    using assms(4-8)
    by (simp add: spin_logged_def actionRespondComplete_def send_last_def server_send_def complete_timers_def Let_def
        client_backoff_def server_goto_same [OF assms(3)])
qed

lemma server_retransmits:
  assumes "server_spins spin" "st_invite tx" "st_state tx = serverStateCompleted" "st_lastResp tx = Some r"
    and "e_Send env (Res r) = None" "\<not> st_reliable tx" "st_timerG tx = Some g" "st_timerH tx = Some h"
  shows "\<exists>tx' b. server_steps spin (replicate n (env, STimerG)) tx = Some (Ok tx') \<and>
    st_sent tx' = st_sent tx @ replicate n (Res r) \<and> st_state tx' = serverStateCompleted \<and>
    st_timeGTime tx' = (client_backoff False ^^ n) (st_timeGTime tx) \<and> st_timerG tx' = Some b \<and>
    (0 < n \<longrightarrow> b = st_timeGTime tx') \<and> st_invite tx' \<and> st_lastResp tx' = Some r \<and> \<not> st_reliable tx' \<and>
    st_timerH tx' = Some h"
proof (induction n)
  case 0
  with assms show ?case by simp
next
  case (Suc n)
  then obtain tx1 b where tx1: "server_steps spin (replicate n (env, STimerG)) tx = Some (Ok tx1)"
    "st_sent tx1 = st_sent tx @ replicate n (Res r)" "st_state tx1 = serverStateCompleted"
    "st_timeGTime tx1 = (client_backoff False ^^ n) (st_timeGTime tx)" "st_timerG tx1 = Some b"
    "st_invite tx1" "st_lastResp tx1 = Some r" "\<not> st_reliable tx1" "st_timerH tx1 = Some h" by blast
  note step = server_TimerG_Completed [OF assms(1) tx1(6,3,7) assms(5) tx1(8,5,9)]
  have "replicate (Suc n) (env, STimerG) = replicate n (env, STimerG) @ [(env, STimerG)]"
    by (simp add: replicate_append_same)
  then have "server_steps spin (replicate (Suc n) (env, STimerG)) tx = server_step spin env STimerG tx1"
    using tx1(1) step by (simp only: server_steps_append tbind_simps server_steps.simps fst_conv snd_conv)
  with step tx1(2-) show ?case
    by (simp add: st_invite_def replicate_append_same del: replicate.simps(2)) (simp add: replicate_append_same)
qed

section \<open>A machine that keeps to the documentation\<close>

definition server_machine :: server_spin where
  "server_machine env invite = spin_loop st_state server_goto (server_initFSM env invite)"

lemma server_machine_spins: "server_spins server_machine"
  by (simp add: server_spins_def server_machine_def spin_loop_law)

section \<open>Properties\<close>

text \<open>
  C3: In every reachable state of a server transaction that is not closed, a completed INVITE has timer H
  running and, on an unreliable transport, timer G; a confirmed INVITE has timer I running; any
  other completed request has timer J running, and is closed when it is terminated. The
  user is only given ACK and CANCEL requests, and only responses are ever sent.
\<close>

theorem server_invariant:
  assumes "server_spins spin" "server_reachable spin tx"
  shows "(\<forall>r \<in> set (st_requests tx). IsAck r \<or> IsCancel r) \<and> (\<forall>m \<in> set (st_sent tx). \<exists>r. m = Res r) \<and>
    (st_closed tx \<or>
     (if st_invite tx
      then (st_state tx = serverStateCompleted \<longrightarrow>
              st_timerH tx = Some TimeH \<and> (st_reliable tx \<or> st_timerG tx \<noteq> None)) \<and>
           (st_state tx = serverStateConfirmed \<longrightarrow> st_timerI tx = Some TimeI)
      else (st_state tx = serverStateCompleted \<longrightarrow> st_timerJ tx = Some TimeJ) \<and>
           st_state tx \<noteq> serverStateTerminated))"
proof -
  have "server_ok tx"
    using assms(2) by induction (blast intro: server_ok_Init server_ok_step [OF assms(1)])+
  then show ?thesis by (simp only: server_ok_def server_base_def server_armed_def) blast
qed

definition sample_server :: serverTx where
  "sample_server =
     \<lparr>st_id = 0, st_key = join ''__'' [''z9hG4bKa'', ''h'', port_text 5060, INVITE], st_origin = sample_invite,
      st_state = serverStateProceeding, st_lastResp = None, st_lastErr = None, st_errs = [], st_closed = False,
      st_lastAck = None, st_lastCancel = None, st_requests = [], st_timerG = None, st_timeGTime = TimeG,
      st_timerH = None, st_timerI = None, st_timeITime = TimeI, st_timerJ = None, st_timer1xx = Some Time1xx,
      st_reliable = False, st_sent = []\<rparr>"

lemma sample_server_reachable: "server_reachable spin sample_server"
proof -
  have "MakeServerTxKey (Req sample_invite) = Ok (join ''__'' [''z9hG4bKa'', ''h'', port_text 5060, INVITE])"
    by (rule key_parts_server) (simp add: sample_invite_def sample_parts)
  then obtain tx where "NewServerTx 0 (\<lambda>_. False) sample_invite = Ok tx" "server_Init tx = sample_server"
    by (simp add: NewServerTx_def sample_invite_def sample_accessors server_Init_def sample_server_def
        st_invite_def IsInvite_def Let_def del: join.simps)
  then show ?thesis using server_reachable.created by metis
qed

lemma SendResponse_failure:
  assumes law: "server_spins spin" and tx: "\<not> st_closed tx" "st_state tx = serverStateProceeding" "st_invite tx"
    and res: "\<not> response_IsCancel res" "e_Send env (Res res) = None" "\<not> IsProvisional res" "\<not> IsSuccess res"
    and fresh: "st_timerG tx = None" "st_timerH tx = None"
  shows "SendResponse spin env res tx = Some (Ok (tx\<lparr>st_lastResp := Some res, st_lastErr := None,
    st_timer1xx := None, st_sent := st_sent tx @ [Res res], st_state := serverStateCompleted,
    st_timerH := Some TimeH, st_timerG := (if st_reliable tx then None else Some (st_timeGTime tx))\<rparr>, None))"
proof -
  let ?tx = "tx\<lparr>st_lastResp := Some res, st_timer1xx := None\<rparr>"
  have "server_initFSM env (st_invite tx) (st_state ?tx) (user_input res) =
      Some (serverStateCompleted, actionRespondComplete env)"
    using tx res by (auto simp: server_table_defs user_input_def)
  from server_spin_step [OF law this] res fresh show ?thesis
    by (simp add: SendResponse_def actionRespondComplete_def complete_timers_def Let_def send_last_def
        server_send_def server_goto_def)
qed

lemma blank_not_cancel: "\<not> response_IsCancel (blank_response\<lparr>s_status := c\<rparr>)"
  by (simp add: response_IsCancel_def get_CSeq_at blank_response_def)

theorem server_invariant_witness:
  "\<exists>tx. server_reachable server_machine tx \<and> \<not> st_closed tx \<and> st_invite tx \<and>
     st_state tx = serverStateCompleted \<and> st_timerH tx = Some TimeH"
proof -
  let ?r = "blank_response\<lparr>s_status := 404\<rparr>"
  let ?tx = "sample_server\<lparr>st_lastResp := Some ?r, st_lastErr := None, st_timer1xx := None,
    st_sent := st_sent sample_server @ [Res ?r], st_state := serverStateCompleted, st_timerH := Some TimeH,
    st_timerG := (if st_reliable sample_server then None else Some (st_timeGTime sample_server))\<rparr>"
  have "SendResponse server_machine sample_env ?r sample_server = Some (Ok (?tx, None))"
    by (rule SendResponse_failure [OF server_machine_spins])
      (simp_all add: blank_not_cancel sample_server_def sample_env_def st_invite_def IsInvite_def
        sample_invite_def IsProvisional_def IsSuccess_def)
  then have "server_step server_machine sample_env (SSend ?r) sample_server = Some (Ok ?tx)" by simp
  with sample_server_reachable have reach: "server_reachable server_machine ?tx"
    by (rule server_reachable.stepped)
  have "\<not> st_closed ?tx" "st_state ?tx = serverStateCompleted" "st_invite ?tx"
    by (simp_all add: sample_server_def st_invite_def IsInvite_def sample_invite_def)
  with server_invariant [OF server_machine_spins reach] reach show ?thesis by auto
qed

text \<open>The result of \<^verbatim>\<open>SendResponse\<close>.\<close>

lemma SendResponse_result:
  assumes law: "server_spins spin" and active: "\<not> st_closed tx"
    and st: "st_state tx = serverStateProceeding \<or> \<not> st_invite tx \<and> st_state tx = serverStateTrying"
    and res: "\<not> response_IsCancel res" "e_Send env (Res res) = None" and fresh: "st_timerG tx = None" "st_timerH tx = None"
    and tx1: "tx1 = tx\<lparr>st_lastResp := Some res, st_lastErr := None, st_timer1xx := None, st_sent := st_sent tx @ [Res res]\<rparr>"
  shows "SendResponse spin env res tx = Some (Ok (
    (if IsProvisional res then tx1\<lparr>st_state := serverStateProceeding\<rparr>
     else if \<not> st_invite tx then tx1\<lparr>st_state := serverStateCompleted, st_timerJ := Some TimeJ\<rparr>
     else if IsSuccess res then
       tx1\<lparr>st_state := serverStateTerminated, st_timerI := None, st_timerG := None, st_timerH := None,
         st_timerJ := None, st_closed := True\<rparr>
     else tx1\<lparr>st_state := serverStateCompleted, st_timerH := Some TimeH,
         st_timerG := (if st_reliable tx then None else Some (st_timeGTime tx))\<rparr>), None))"
proof -
  let ?tx = "tx\<lparr>st_lastResp := Some res, st_timer1xx := None\<rparr>"
  have send: "SendResponse spin env res tx = spin env (st_invite tx) (user_input res) ?tx"
    using res(1) by (simp add: SendResponse_def)
  note step = server_spin_step [OF law, of env "st_invite tx" ?tx "user_input res"]
  note acts = send_last_def server_send_def server_goto_def tx1 res(2)
  consider "IsProvisional res" | "\<not> IsProvisional res" "\<not> st_invite tx"
    | "\<not> IsProvisional res" "st_invite tx" "IsSuccess res" | "\<not> IsProvisional res" "st_invite tx" "\<not> IsSuccess res"
    by blast
  then show ?thesis
  proof cases
    case 1
    then have "server_initFSM env (st_invite tx) (st_state ?tx) (user_input res) = Some (serverStateProceeding, actionRespond env)"
      using st by (auto simp: server_table_defs user_input_def)
    from step [OF this] 1 show ?thesis by (simp add: send actionRespond_def acts)
  next
    case 2
    then have "server_initFSM env (st_invite tx) (st_state ?tx) (user_input res) = Some (serverStateCompleted, actionFinal env)"
      using st by (auto simp: server_table_defs user_input_def)
    from step [OF this] 2 show ?thesis by (simp add: send actionFinal_def acts)
  next
    case 3
    then have "server_initFSM env (st_invite tx) (st_state ?tx) (user_input res) = Some (serverStateTerminated, actionRespondDelete env)"
      using st by (auto simp: server_table_defs user_input_def)
    from step [OF this] 3 active show ?thesis by (simp add: send actionRespondDelete_def server_delete_def acts)
  next
    case 4
    then show ?thesis using SendResponse_failure [OF law active _ _ res(1,2)] st fresh by (auto simp: tx1)
  qed
qed

text \<open>
  C11: What \<^verbatim>\<open>SendResponse\<close> does with the response of the user while the transaction waits for one and the
  transport layer takes it: the response is sent once; a provisional one leaves the transaction
  proceeding; a success closes an INVITE; a failure starts the timers of \<^verbatim>\<open>Completed\<close>; any final
  response to another request starts timer J.
\<close>

theorem server_SendResponse_correct:
  assumes law: "server_spins spin" and active: "\<not> st_closed tx"
    and st: "st_state tx = serverStateProceeding \<or> \<not> st_invite tx \<and> st_state tx = serverStateTrying"
    and res: "\<not> response_IsCancel res" "e_Send env (Res res) = None" and fresh: "st_timerG tx = None" "st_timerH tx = None"
    and tx1: "tx1 = tx\<lparr>st_lastResp := Some res, st_lastErr := None, st_timer1xx := None, st_sent := st_sent tx @ [Res res]\<rparr>"
  shows "SendResponse spin env res tx = Some (Ok (
    (if IsProvisional res then tx1\<lparr>st_state := serverStateProceeding\<rparr>
     else if \<not> st_invite tx then tx1\<lparr>st_state := serverStateCompleted, st_timerJ := Some TimeJ\<rparr>
     else if IsSuccess res then
       tx1\<lparr>st_state := serverStateTerminated, st_timerI := None, st_timerG := None, st_timerH := None,
         st_timerJ := None, st_closed := True\<rparr>
     else tx1\<lparr>st_state := serverStateCompleted, st_timerH := Some TimeH,
         st_timerG := (if st_reliable tx then None else Some (st_timeGTime tx))\<rparr>), None))"
  by (rule SendResponse_result [OF assms])

theorem server_SendResponse_correct_witness:
  "\<exists>tx'. SendResponse server_machine sample_env (blank_response\<lparr>s_status := 486\<rparr>) sample_server = Some (Ok (tx', None)) \<and>
     st_state tx' = serverStateCompleted \<and> st_timerG tx' = Some T1 \<and> st_sent tx' = [Res (blank_response\<lparr>s_status := 486\<rparr>)]"
  using server_SendResponse_correct [OF server_machine_spins, of sample_server "blank_response\<lparr>s_status := 486\<rparr>" sample_env]
  by (simp add: sample_server_def sample_env_def blank_not_cancel st_invite_def IsInvite_def sample_invite_def
      IsProvisional_def IsSuccess_def TimeG_def)

text \<open>
  C29: A repeated request is answered with the last response: once in \<^verbatim>\<open>Proceeding\<close> and \<^verbatim>\<open>Completed\<close> when there
  is one, and not at all in every other state.
\<close>

theorem server_repeated_request:
  assumes law: "server_spins spin" and req: "r_method req = r_method (st_origin tx)"
    and send: "\<forall>m. e_Send env m = None"
  shows "\<exists>tx' e. server_Receive spin env (Req req) tx = Some (Ok (tx', e)) \<and> st_state tx' = st_state tx \<and>
    st_sent tx' = st_sent tx @
      (if st_state tx \<in> {serverStateProceeding, serverStateCompleted}
       then (case st_lastResp tx of Some r \<Rightarrow> [Res r] | None \<Rightarrow> []) else [])"
proof -
  let ?tx = "tx\<lparr>st_timer1xx := None\<rparr>"
  have rec: "server_Receive spin env (Req req) tx = spin env (st_invite ?tx) serverInputRequest ?tx"
    using req by (simp add: server_Receive_def)
  consider (undef) "server_initFSM env (st_invite ?tx) (st_state ?tx) serverInputRequest = None"
      "st_state tx \<notin> {serverStateProceeding, serverStateCompleted}"
    | (none) "server_initFSM env (st_invite ?tx) (st_state ?tx) serverInputRequest = Some (st_state ?tx, NO_ACTION)"
        "st_state tx \<notin> {serverStateProceeding, serverStateCompleted}"
    | (resp) "server_initFSM env (st_invite ?tx) (st_state ?tx) serverInputRequest = Some (st_state ?tx, actionRespond env)"
        "st_state tx \<in> {serverStateProceeding, serverStateCompleted}"
    by (cases "st_state tx"; cases "st_invite tx") (auto simp: server_table_defs)
  then show ?thesis
  proof cases
    case undef
    with server_spin_undefined [OF law undef(1)] show ?thesis by (auto simp: rec)
  next
    case none
    with server_spin_step [OF law none(1)] show ?thesis by (simp add: rec NO_ACTION_def server_goto_def)
  next
    case resp
    with server_spin_step [OF law resp(1)] send show ?thesis
      by (auto simp: rec actionRespond_def send_last_def server_send_def server_goto_def split: option.split)
  qed
qed

theorem server_repeated_request_witness:
  "\<exists>tx' e. server_Receive server_machine sample_env (Req sample_invite)
       (sample_server\<lparr>st_lastResp := Some (blank_response\<lparr>s_status := 180\<rparr>)\<rparr>) = Some (Ok (tx', e)) \<and>
     st_sent tx' = [Res (blank_response\<lparr>s_status := 180\<rparr>)]"
  using server_repeated_request [OF server_machine_spins, of sample_invite
      "sample_server\<lparr>st_lastResp := Some (blank_response\<lparr>s_status := 180\<rparr>)\<rparr>" sample_env]
  by (auto simp: sample_server_def sample_env_def)

text \<open>
  C30: The ACK of a failure response is passed up once, stops the retransmissions and starts timer I, whose
  expiry closes the transaction.
\<close>

theorem server_ack_confirms:
  assumes law: "server_spins spin" and inv: "st_invite tx" and st: "st_state tx = serverStateCompleted"
    and active: "\<not> st_closed tx" and ack: "IsAck req"
    and tx1: "tx1 = tx\<lparr>st_state := serverStateConfirmed, st_lastAck := Some (req\<lparr>m_tx := Some (st_id tx)\<rparr>),
        st_timer1xx := None, st_timerG := None, st_timerH := None, st_timerI := Some TimeI,
        st_requests := st_requests tx @ [req\<lparr>m_tx := Some (st_id tx)\<rparr>]\<rparr>"
  shows "server_Receive spin env (Req req) tx = Some (Ok (tx1, None)) \<and>
    (\<exists>tx2. server_step spin env' STimerI tx1 = Some (Ok tx2) \<and> st_state tx2 = serverStateTerminated \<and> st_closed tx2)"
proof
  let ?req = "req\<lparr>m_tx := Some (st_id tx)\<rparr>"
  let ?tx = "tx\<lparr>st_timer1xx := None, st_lastAck := Some ?req\<rparr>"
  have "r_method req \<noteq> r_method (st_origin tx)"
    using inv ack by (auto simp: st_invite_def IsInvite_def IsAck_def INVITE_def ACK_def)
  then have "server_Receive spin env (Req req) tx = spin env (st_invite ?tx) serverInputAck ?tx"
    using ack by (simp add: server_Receive_def Let_def IsAck_def)
  moreover have "server_initFSM env (st_invite ?tx) (st_state ?tx) serverInputAck = Some (serverStateConfirmed, actionConfirm env)"
    using inv st by (simp add: server_table_defs)
  ultimately show "server_Receive spin env (Req req) tx = Some (Ok (tx1, None))"
    using server_spin_step [OF law, of env "st_invite ?tx" ?tx] active
    by (simp add: actionConfirm_def server_passUp_def server_goto_def tx1)
next
  have "server_initFSM env' (st_invite tx1) (st_state tx1) serverInputTimerI = Some (serverStateTerminated, server_actionDelete)"
    using inv by (simp add: tx1 st_invite_def server_table_defs)
  from server_spin_step [OF law this]
  show "\<exists>tx2. server_step spin env' STimerI tx1 = Some (Ok tx2) \<and> st_state tx2 = serverStateTerminated \<and> st_closed tx2"
    by (simp add: spin_logged_def server_actionDelete_def)
qed

definition sample_server_completed :: serverTx where
  "sample_server_completed = sample_server\<lparr>st_state := serverStateCompleted,
     st_lastResp := Some (blank_response\<lparr>s_status := 486\<rparr>), st_timerG := Some T1, st_timerH := Some TimeH\<rparr>"

lemma sample_server_invite: "st_invite sample_server" "st_invite sample_server_completed"
  by (simp_all add: sample_server_completed_def sample_server_def st_invite_def IsInvite_def sample_invite_def)

theorem server_ack_confirms_witness:
  "\<exists>tx1. server_Receive server_machine sample_env (Req (blank_request\<lparr>r_method := ACK\<rparr>)) sample_server_completed =
      Some (Ok (tx1, None)) \<and> st_state tx1 = serverStateConfirmed"
  using server_ack_confirms [OF server_machine_spins sample_server_invite(2), of "blank_request\<lparr>r_method := ACK\<rparr>" _ sample_env]
  by (simp add: sample_server_completed_def sample_server_def IsAck_def)

text \<open>
  A second ACK, in \<^verbatim>\<open>Confirmed\<close>, moves the machine to \<^verbatim>\<open>Terminated\<close> without an action. No later event except a
  call of \<^verbatim>\<open>Close\<close> closes the transaction: the expiry of timer I has no outcome in that state.
\<close>

theorem server_second_ack_leaks:
  assumes law: "server_spins spin" and inv: "st_invite tx" and st: "st_state tx = serverStateConfirmed"
    and active: "\<not> st_closed tx" and ack: "IsAck req"
    and rec: "server_Receive spin env (Req req) tx = Some (Ok (tx1, e))"
    and later: "\<forall>ee \<in> set es. snd ee \<noteq> SClose" "server_steps spin es tx1 = Some (Ok tx2)"
  shows "st_state tx2 = serverStateTerminated \<and> \<not> st_closed tx2"
proof -
  let ?tx = "tx\<lparr>st_timer1xx := None, st_lastAck := Some (req\<lparr>m_tx := Some (st_id tx)\<rparr>)\<rparr>"
  have "r_method req \<noteq> r_method (st_origin tx)"
    using inv ack by (auto simp: st_invite_def IsInvite_def IsAck_def INVITE_def ACK_def)
  then have "spin env (st_invite ?tx) serverInputAck ?tx = Some (Ok (tx1, e))"
    using ack rec by (simp add: server_Receive_def Let_def IsAck_def)
  moreover have "server_initFSM env (st_invite ?tx) (st_state ?tx) serverInputAck = Some (serverStateTerminated, NO_ACTION)"
    using inv st by (simp add: server_table_defs)
  ultimately have "tx1 = server_goto serverStateTerminated ?tx"
    using server_spin_step [OF law, of env "st_invite ?tx" ?tx] by (simp add: NO_ACTION_def)
  then have "stuck tx1" using inv active by (simp add: stuck_def server_goto_def st_invite_def)
  from stuck_steps [OF law this later] show ?thesis by (simp add: stuck_def)
qed

theorem server_second_ack_leaks_witness:
  "\<exists>tx1 e. server_Receive server_machine sample_env (Req (blank_request\<lparr>r_method := ACK\<rparr>))
       (sample_server\<lparr>st_state := serverStateConfirmed\<rparr>) = Some (Ok (tx1, e)) \<and>
     st_state tx1 = serverStateTerminated \<and> \<not> st_closed tx1"
proof -
  let ?tx = "sample_server\<lparr>st_state := serverStateConfirmed\<rparr>" and ?req = "blank_request\<lparr>r_method := ACK\<rparr>"
  let ?u = "?tx\<lparr>st_timer1xx := None, st_lastAck := Some (?req\<lparr>m_tx := Some 0\<rparr>)\<rparr>"
  have inv: "st_invite ?tx" using sample_server_invite(1) by (simp add: st_invite_def)
  have "server_initFSM sample_env True (st_state ?u) serverInputAck = Some (serverStateTerminated, NO_ACTION)"
    by (simp add: server_table_defs)
  from server_spin_step [OF server_machine_spins this]
  have rec: "server_Receive server_machine sample_env (Req ?req) ?tx = Some (Ok (server_goto serverStateTerminated ?u, None))"
    using inv by (simp add: server_Receive_def Let_def IsAck_def NO_ACTION_def)
      (simp add: sample_server_def sample_invite_def INVITE_def ACK_def)
  from server_second_ack_leaks [OF server_machine_spins inv _ _ _ this, of "[]"]
  have "st_state (server_goto serverStateTerminated ?u) = serverStateTerminated \<and>
      \<not> st_closed (server_goto serverStateTerminated ?u)"
    by (simp add: sample_server_def IsAck_def)
  with rec show ?thesis by blast
qed

text \<open>
  A final response that the user passes in \<^verbatim>\<open>Completed\<close> is not sent, but it replaces the one that the
  transaction retransmits: the next repeated request is answered with it.
\<close>

theorem server_completed_response_replaced:
  assumes law: "server_spins spin" and st: "st_state tx = serverStateCompleted" and res: "\<not> response_IsCancel res"
    and req: "r_method req = r_method (st_origin tx)" and send: "\<forall>m. e_Send env m = None"
  shows "\<exists>tx1 tx2 e. SendResponse spin env res tx = Some (Ok (tx1, None)) \<and> st_sent tx1 = st_sent tx \<and>
    server_Receive spin env (Req req) tx1 = Some (Ok (tx2, e)) \<and> st_sent tx2 = st_sent tx @ [Res res]"
proof -
  let ?tx = "tx\<lparr>st_lastResp := Some res, st_timer1xx := None\<rparr>"
  have "server_initFSM env (st_invite tx) (st_state ?tx) (user_input res) = Some (serverStateCompleted, NO_ACTION)"
    using st by (simp add: server_table_defs user_input_def)
  from server_spin_step [OF law this] have 1: "SendResponse spin env res tx = Some (Ok (?tx, None))"
    using res st by (simp add: SendResponse_def NO_ACTION_def server_goto_def)
  have "server_initFSM env (st_invite tx) (st_state ?tx) serverInputRequest = Some (serverStateCompleted, actionRespond env)"
    using st by (simp add: server_table_defs)
  from server_spin_step [OF law this] have "\<exists>tx2 e. server_Receive spin env (Req req) ?tx = Some (Ok (tx2, e)) \<and>
      st_sent tx2 = st_sent tx @ [Res res]"
    using req send by (simp add: server_Receive_def actionRespond_def send_last_def server_send_def server_goto_def)
  with 1 show ?thesis by auto
qed

theorem server_completed_response_replaced_witness:
  "\<exists>tx1 tx2 e. SendResponse server_machine sample_env (blank_response\<lparr>s_status := 500\<rparr>) sample_server_completed =
       Some (Ok (tx1, None)) \<and> server_Receive server_machine sample_env (Req sample_invite) tx1 = Some (Ok (tx2, e)) \<and>
     st_sent tx2 = [Res (blank_response\<lparr>s_status := 500\<rparr>)]"
  using server_completed_response_replaced [OF server_machine_spins, of sample_server_completed
      "blank_response\<lparr>s_status := 500\<rparr>" sample_invite sample_env]
  by (auto simp: sample_server_completed_def sample_server_def sample_env_def blank_not_cancel)

text \<open>
  C28: Without an ACK, each expiry of timer G sends the final response once more, at intervals that double from
  T1 and stay at T2 from the third expiry on.
\<close>

theorem server_retransmission_schedule:
  assumes "server_spins spin" "st_invite tx" "st_state tx = serverStateCompleted" "st_lastResp tx = Some r"
    and "e_Send env (Res r) = None" "\<not> st_reliable tx" "st_timerG tx = Some g" "st_timerH tx = Some h"
    and "st_timeGTime tx = T1"
  shows "\<exists>tx'. server_steps spin (replicate n (env, STimerG)) tx = Some (Ok tx') \<and>
    st_sent tx' = st_sent tx @ replicate n (Res r) \<and>
    st_timeGTime tx' = (if n < 3 then T1 * 2 ^ n else T2) \<and> (0 < n \<longrightarrow> st_timerG tx' = Some (st_timeGTime tx'))"
proof -
  have "(client_backoff False ^^ n) (st_timeGTime tx) = (if n < 3 then T1 * 2 ^ n else T2)"
    unfolding assms(9) by (rule client_backoff_other)
  moreover obtain tx' b where "server_steps spin (replicate n (env, STimerG)) tx = Some (Ok tx')"
    "st_sent tx' = st_sent tx @ replicate n (Res r)" "st_timerG tx' = Some b" "0 < n \<longrightarrow> b = st_timeGTime tx'"
    "st_timeGTime tx' = (client_backoff False ^^ n) (st_timeGTime tx)"
    using server_retransmits [OF assms(1-8), of n] by blast
  ultimately show ?thesis by (intro exI [of _ tx']) simp
qed

theorem server_retransmission_schedule_witness:
  "\<exists>tx'. server_steps server_machine (replicate 4 (sample_env, STimerG)) sample_server_completed = Some (Ok tx') \<and>
     st_sent tx' = replicate 4 (Res (blank_response\<lparr>s_status := 486\<rparr>)) \<and> st_timeGTime tx' = T2"
  using server_retransmission_schedule [OF server_machine_spins sample_server_invite(2),
      of "blank_response\<lparr>s_status := 486\<rparr>" sample_env T1 TimeH 4]
  by (auto simp: sample_server_completed_def sample_server_def sample_env_def TimeG_def)

end
