(* ===== verification/Gsip_Lifecycle.thy ===== *)
theory Gsip_Lifecycle
  imports Gsip_Server_Tx "HOL-Library.Sublist"
begin

text \<open>
  What the transaction layer relies on in a transaction of either kind: its key, its
  handle and its request never change, a closed transaction stays closed, and what it has
  passed up is never taken back. The contract is a locale; both transactions implement it.
\<close>

section \<open>The contract\<close>

locale tx_lifecycle =
  fixes step :: "'env \<Rightarrow> 'ev \<Rightarrow> 't \<Rightarrow> 't turn"
    and key :: "'t \<Rightarrow> TxKey"
    and handle :: "'t \<Rightarrow> nat"
    and closed :: "'t \<Rightarrow> bool"
    and passed :: "'t \<Rightarrow> 'm list"
  assumes step_key: "step env ev t = Some (Ok t') \<Longrightarrow> key t' = key t"
    and step_handle: "step env ev t = Some (Ok t') \<Longrightarrow> handle t' = handle t"
    and step_closed: "step env ev t = Some (Ok t') \<Longrightarrow> closed t \<Longrightarrow> closed t'"
    and step_passed: "step env ev t = Some (Ok t') \<Longrightarrow> prefix (passed t) (passed t')"
begin

primrec run :: "('env \<times> 'ev) list \<Rightarrow> 't \<Rightarrow> 't turn" where
  "run [] t = Some (Ok t)"
| "run (ee # es) t = tbind (step (fst ee) (snd ee) t) (run es)"

lemma run_keeps:
  "run es t = Some (Ok t') \<Longrightarrow>
     key t' = key t \<and> handle t' = handle t \<and> (closed t \<longrightarrow> closed t') \<and> prefix (passed t) (passed t')"
proof (induction es arbitrary: t)
  case (Cons ee es)
  then obtain t1 where t1: "step (fst ee) (snd ee) t = Some (Ok t1)" "run es t1 = Some (Ok t')"
    by (auto simp: tbind_eq_Ok)
  from Cons.IH [OF t1(2)] step_key [OF t1(1)] step_handle [OF t1(1)] step_closed [OF t1(1)] step_passed [OF t1(1)]
  show ?case by (auto intro: prefix_order.trans)
qed simp

end

section \<open>Client transactions\<close>

definition client_frame :: "clientTx \<Rightarrow> clientTx \<Rightarrow> bool" where
  "client_frame t t' \<longleftrightarrow>
     ct_key t' = ct_key t \<and> ct_id t' = ct_id t \<and> ct_origin t' = ct_origin t \<and> (ct_closed t \<longrightarrow> ct_closed t') \<and>
     prefix (ct_responses t) (ct_responses t')"

lemma client_frame_refl: "client_frame t t"
  by (simp add: client_frame_def)

lemma client_frame_trans: "client_frame a b \<Longrightarrow> client_frame b c \<Longrightarrow> client_frame a c"
  by (auto simp: client_frame_def intro: prefix_order.trans)

lemma client_frame_helpers:
  "client_frame t (client_goto s t)" "client_frame t (client_stopA t)" "client_frame t (client_startD t)"
  "client_frame t (client_delete t)" "client_frame t (client_timeoutErr t)" "client_frame t (client_transportErr t)"
  "client_frame t (client_failed t)" "client_frame t (t\<lparr>ct_sent := m\<rparr>)" "client_frame t (t\<lparr>ct_lastErr := e\<rparr>)"
  "client_frame t (t\<lparr>ct_lastResp := r\<rparr>)" "client_frame t (t\<lparr>ct_timeATime := d, ct_timerA := a\<rparr>)"
  "client_frame t (client_Close t)"
  by (auto simp: client_frame_def client_helper_defs client_Close_def client_transportErr_def split: option.split)

lemma client_frame_passUp: "client_passUp env t = Some (Ok t') \<Longrightarrow> client_frame t t'"
  by (auto simp: client_passUp_def client_frame_def split: option.splits if_splits)

lemma client_frame_ack:
  assumes "client_spins nested spin" "client_ack env (spin env invite) tx = Some (Ok tx')"
  shows "client_frame tx tx'"
  using client_ack_SomeD [OF assms] client_frame_helpers(7,8) client_frame_trans by metis

lemma client_frame_resend:
  assumes "client_spins nested spin" "client_resend env (spin env invite) tx = Some (Ok tx')"
  shows "client_frame tx tx'"
proof -
  obtain tx1 where "tx1 = tx\<lparr>ct_sent := ct_sent tx @ [Req (ct_origin tx)], ct_lastErr := e_Send env (Req (ct_origin tx))\<rparr>"
    "tx' = tx1 \<or> tx' = client_failed tx1" using client_resend_SomeD [OF assms] by blast
  moreover from this(1) have "client_frame tx tx1" by (simp add: client_frame_def)
  ultimately show ?thesis using client_frame_helpers(7) client_frame_trans by blast
qed

lemmas client_frame_then = client_frame_helpers [THEN client_frame_trans [rotated]]

lemma client_frame_goto_passUp:
  "client_passUp env (client_goto s t) = Some (Ok t') \<Longrightarrow> client_frame t t'"
  by (rule client_frame_trans [OF client_frame_helpers(1) client_frame_passUp])

lemma client_frame_spin:
  assumes law: "client_spins spin spin" and res: "spin env invite i tx = Some (Ok (tx', e))" and i: "input_ok i tx"
  shows "client_frame tx tx'"
  using law res i
proof (cases rule: client_spin_result)
  case (provisional tx1)
  show ?thesis unfolding provisional(4) by (rule client_frame_then client_frame_goto_passUp [OF provisional(3)])+
next
  case (success tx1)
  show ?thesis unfolding success(5) by (rule client_frame_then client_frame_goto_passUp [OF success(4)])+
next
  case (failure tx1 tx2)
  have "client_frame tx tx2"
    by (rule client_frame_trans [OF client_frame_goto_passUp [OF failure(4)] client_frame_ack [OF law failure(5)]])
  then show ?thesis unfolding failure(6) by (rule client_frame_then)
next
  case (final tx1)
  show ?thesis unfolding final(5) by (rule client_frame_then client_frame_goto_passUp [OF final(4)])+
next
  case again
  show ?thesis by (rule client_frame_trans [OF client_frame_helpers(1) client_frame_ack [OF law again(4)]])
next
  case (resend a t)
  have "client_frame tx ((client_goto (ct_state tx) tx)\<lparr>ct_timeATime := t, ct_timerA := Some t\<rparr>)"
    by (simp add: client_frame_def client_goto_def)
  then show ?thesis by (rule client_frame_trans [OF _ client_frame_resend [OF law resend(4)]])
next
  case timeout
  then show ?thesis by (simp add: client_frame_then client_frame_refl)
next
  case expire
  then show ?thesis by (simp add: client_frame_then client_frame_refl)
qed (simp_all add: client_frame_helpers client_frame_refl)

lemma client_frame_Receive:
  assumes law: "client_spins spin spin" and step: "client_Receive spin env msg tx = Some (Ok (tx', e))"
  shows "client_frame tx tx'"
proof (cases msg)
  case (Req req)
  with step show ?thesis by (auto simp: client_Receive_def client_frame_refl split: outcome.splits)
next
  case (Res res)
  let ?tx = "tx\<lparr>ct_lastResp := Some (res\<lparr>m_tx := Some (ct_id tx)\<rparr>)\<rparr>"
  have "response_input (res\<lparr>m_tx := Some (ct_id tx)\<rparr>) = response_input res"
    by (simp add: response_input_def IsProvisional_def IsSuccess_def)
  then have "input_ok (response_input res) ?tx" by (simp add: input_ok_def)
  moreover have "spin env (ct_invite tx) (response_input res) ?tx = Some (Ok (tx', e))"
    using step Res by (simp add: client_Receive_def)
  ultimately have "client_frame ?tx tx'" using client_frame_spin [OF law] by blast
  then show ?thesis using client_frame_helpers(10) client_frame_trans by blast
qed

lemma client_frame_step:
  assumes law: "client_spins spin spin" and step: "client_step spin env ev tx = Some (Ok tx')"
  shows "client_frame tx tx'"
proof -
  have timer: "client_frame tx tx'" if run: "spin_logged (spin env (ct_invite tx)) i tx = Some (Ok tx')"
      and i: "i \<in> {clientInputTimerA, clientInputTimerB, clientInputTimerD}" for i
  proof -
    obtain e where "spin env (ct_invite tx) i tx = Some (Ok (tx', e))"
      using run by (auto simp: spin_logged_def tbind_eq_Ok)
    then show ?thesis by (rule client_frame_spin [OF law]) (use i in \<open>auto simp: input_ok_def\<close>)
  qed
  show ?thesis
  proof (cases ev)
    case (CReceive msg)
    with step obtain e where "client_Receive spin env msg tx = Some (Ok (tx', e))" by (auto simp: tbind_eq_Ok)
    then show ?thesis by (rule client_frame_Receive [OF law])
  next
    case CClose
    with step show ?thesis by (auto simp: client_frame_helpers)
  qed (use step timer in simp_all)
qed

lemma client_frame_Init:
  assumes law: "client_spins spin spin" and init: "client_Init spin env tx = Some (Ok (tx', e))"
  shows "client_frame tx tx' \<and> (e = None \<or> e = e_Send env (Req (ct_origin tx)) \<or> e = ct_lastErr tx)"
proof (cases "e_Send env (Req (ct_origin tx))")
  case None
  with init show ?thesis
    by (auto simp: client_Init_def client_send_def client_frame_def Let_def split: if_splits)
next
  case (Some err)
  let ?tx = "tx\<lparr>ct_state := clientStateCalling, ct_sent := ct_sent tx @ [Req (ct_origin tx)], ct_lastErr := Some err\<rparr>"
  have "tx' = (if client_fails (ct_invite tx) (ct_state ?tx) then client_failed ?tx else ?tx)" "e = Some err"
    using init Some by (simp_all add: client_Init_def client_send_def client_spin_TransportErr [OF law])
  moreover have "client_frame tx ?tx" by (simp add: client_frame_def)
  ultimately show ?thesis using Some client_frame_helpers(7) client_frame_trans by auto
qed

lemma client_lifecycle:
  assumes "client_spins spin spin"
  shows "tx_lifecycle (client_step spin) ct_key ct_id ct_closed ct_responses"
  by unfold_locales (use client_frame_step [OF assms] in \<open>auto simp: client_frame_def\<close>)

interpretation client_life: tx_lifecycle "client_step client_machine" ct_key ct_id ct_closed ct_responses
  by (rule client_lifecycle [OF client_machine_spins])

section \<open>Server transactions\<close>

definition server_frame :: "serverTx \<Rightarrow> serverTx \<Rightarrow> bool" where
  "server_frame t t' \<longleftrightarrow>
     st_key t' = st_key t \<and> st_id t' = st_id t \<and> st_origin t' = st_origin t \<and> (st_closed t \<longrightarrow> st_closed t') \<and>
     prefix (st_requests t) (st_requests t')"

lemma server_frame_refl: "server_frame t t"
  by (simp add: server_frame_def)

lemma server_frame_trans: "server_frame a b \<Longrightarrow> server_frame b c \<Longrightarrow> server_frame a c"
  by (auto simp: server_frame_def intro: prefix_order.trans)

lemma server_frame_helpers:
  "server_frame t (server_goto s t)" "server_frame t (server_delete t)" "server_frame t (server_transportErr t)"
  "server_frame t (server_Close t)" "server_frame t (t\<lparr>st_timer1xx := x\<rparr>)"
  "server_frame t (t\<lparr>st_timer1xx := x, st_lastAck := a\<rparr>)" "server_frame t (t\<lparr>st_timer1xx := x, st_lastCancel := c\<rparr>)"
  "server_frame t (t\<lparr>st_lastResp := r, st_timer1xx := x\<rparr>)" "server_frame t (t\<lparr>st_sent := m\<rparr>)"
  by (simp_all add: server_frame_def server_goto_def server_delete_def server_transportErr_def server_Close_def)

text \<open>
  Every action keeps the frame, and the input that it returns is of a lower rank than the
  one it was run for.
\<close>

definition server_rank :: "ServerInput \<Rightarrow> nat" where
  "server_rank i =
     (case i of serverInputDelete \<Rightarrow> 0 | serverInputTransportErr \<Rightarrow> 1 | serverInputRequest \<Rightarrow> 2 | _ \<Rightarrow> 3)"

lemma server_rank_simps [simp]:
  "server_rank serverInputDelete = 0" "server_rank serverInputTransportErr = 1" "server_rank serverInputRequest = 2"
  by (simp_all add: server_rank_def)

lemma server_table_actions:
  assumes "server_initFSM env invite s i = Some (s', act)"
  shows "act \<in> {NO_ACTION, server_actionDelete} \<or> act = server_actionTransErr \<and> i = serverInputTransportErr \<or>
    act \<in> {actionRespond env, actionFinal env, actionRespondComplete env, actionRespondDelete env} \<and> 2 \<le> server_rank i \<or>
    act \<in> {actionConfirm env, actionCancel env, actionCancelNotExist env} \<and> 3 \<le> server_rank i"
  using assms by (cases s; cases i; cases invite) (auto simp: server_table_defs server_rank_def)

lemma send_last_frame:
  assumes "\<And>t. server_frame t (f t)" "send_last env f t = Some (Ok (t', next))"
  shows "server_frame t t' \<and> (next = None \<or> next = Some serverInputTransportErr)"
proof (cases "st_lastResp t")
  case None
  with assms(2) show ?thesis by (auto simp: send_last_def server_frame_refl)
next
  case (Some r)
  have "server_frame t (t\<lparr>st_sent := st_sent t @ [Res r], st_lastErr := e\<rparr>)" for e by (simp add: server_frame_def)
  with Some assms(2) assms(1) [of "t\<lparr>st_sent := st_sent t @ [Res r], st_lastErr := None\<rparr>"] server_frame_trans
  show ?thesis by (auto simp: send_last_def server_send_def split: option.splits)
qed

lemma passUp_frame:
  "server_passUp env req t = Some (Ok (t', next)) \<Longrightarrow> server_frame t t' \<and> (next = None \<or> next = Some serverInputRequest)"
  by (auto simp: server_passUp_def server_frame_def split: if_splits)

lemma cancel_frame:
  assumes "act \<in> {actionCancel env, actionCancelNotExist env}" "act t = Some (Ok (t', next))"
  shows "server_frame t t' \<and> (next = None \<or> next = Some serverInputRequest)"
proof -
  have "server_frame t t'" if "server_frame (t\<lparr>st_sent := m\<rparr>) t'" for m
    using server_frame_helpers(9) that by (rule server_frame_trans)
  with assms show ?thesis
    by (auto simp: actionCancel_def actionCancelNotExist_def server_send_def server_frame_refl
        server_frame_helpers split: option.splits outcome.splits dest!: passUp_frame)
qed

lemma server_action_frame:
  assumes "server_initFSM env invite s i = Some (s', act)" "act t = Some (Ok (t', next))"
  shows "server_frame t t' \<and> (case next of None \<Rightarrow> True | Some i' \<Rightarrow> server_rank i' < server_rank i)"
proof -
  have timers: "server_frame t (complete_timers t)" "server_frame t (t\<lparr>st_timerJ := j\<rparr>)"
    "server_frame t (t\<lparr>st_timerG := g, st_timerH := h, st_timerI := k\<rparr>)" for t j g h k
    by (auto simp: server_frame_def complete_timers_def Let_def split: option.split)
  from server_table_actions [OF assms(1)] consider
      (plain) "act \<in> {NO_ACTION, server_actionDelete}"
    | (err) "act = server_actionTransErr" "i = serverInputTransportErr"
    | (send) "act \<in> {actionRespond env, actionFinal env, actionRespondComplete env}" "2 \<le> server_rank i"
    | (last) "act = actionRespondDelete env" "2 \<le> server_rank i"
    | (confirm) "act = actionConfirm env" "3 \<le> server_rank i"
    | (cancel) "act \<in> {actionCancel env, actionCancelNotExist env}" "3 \<le> server_rank i" by blast
  then show ?thesis
  proof cases
    case plain
    with assms(2) show ?thesis
      by (auto simp: NO_ACTION_def server_actionDelete_def server_frame_refl server_frame_helpers)
  next
    case err
    with assms(2) show ?thesis by (auto simp: server_actionTransErr_def server_frame_helpers)
  next
    case send
    then obtain f where "act = send_last env f" "\<And>t. server_frame t (f t)"
      unfolding actionRespond_def actionFinal_def actionRespondComplete_def
      using timers(1,2) server_frame_refl by blast
    with send_last_frame [of f env t t' "next"] assms(2) send(2) show ?thesis by auto
  next
    case last
    with assms(2) show ?thesis
      by (auto simp: actionRespondDelete_def server_send_def server_frame_def server_delete_def Let_def
          split: option.splits if_splits)
  next
    case confirm
    with assms(2) show ?thesis
      by (auto simp: actionConfirm_def Let_def timers(3) split: option.splits dest!: passUp_frame
          intro: server_frame_trans [OF timers(3)])
  next
    case cancel
    from cancel_frame [OF cancel(1) assms(2)] cancel(2) show ?thesis by auto
  qed
qed

lemma server_frame_spin:
  assumes law: "server_spins spin"
  shows "spin env invite i tx = Some (Ok (tx', e)) \<Longrightarrow> server_frame tx tx'"
proof (induction "server_rank i" arbitrary: i tx rule: less_induct)
  case less
  show ?case
  proof (cases "server_initFSM env invite (st_state tx) i")
    case None
    with server_spin_undefined [OF law None] less.prems show ?thesis by (auto simp: server_frame_refl)
  next
    case (Some sa)
    obtain s act where sa: "sa = (s, act)" by (cases sa)
    have "server_next spin env invite (act (server_goto s tx)) = Some (Ok (tx', e))"
      using server_spin_step [OF law Some [unfolded sa]] less.prems by simp
    then obtain t1 "next" where
      t1: "act (server_goto s tx) = Some (Ok (t1, next))"
      and rest: "(case next of None \<Rightarrow> Some (Ok (t1, None)) | Some i' \<Rightarrow> spin env invite i' t1) = Some (Ok (tx', e))"
      by (auto simp: tbind_eq_Ok)
    note frame = server_action_frame [OF Some [unfolded sa] t1]
    have "server_frame t1 tx'"
      using rest frame less.hyps by (cases "next") (auto simp: server_frame_refl)
    then show ?thesis using frame server_frame_helpers(1) server_frame_trans by blast
  qed
qed

lemma server_frame_Send:
  assumes "server_spins spin" "SendResponse spin env res tx = Some (Ok (tx', e))"
  shows "server_frame tx tx'"
proof (cases "response_IsCancel res")
  case True
  with assms(2) show ?thesis by (auto simp: SendResponse_def server_send_def server_frame_helpers)
next
  case False
  with assms(2) have "spin env (st_invite tx) (user_input res) (tx\<lparr>st_lastResp := Some res, st_timer1xx := None\<rparr>) =
      Some (Ok (tx', e))" by (simp add: SendResponse_def)
  from server_frame_helpers(8) server_frame_spin [OF assms(1) this] show ?thesis by (rule server_frame_trans)
qed

lemma server_frame_Receive:
  assumes law: "server_spins spin" and step: "server_Receive spin env msg tx = Some (Ok (tx', e))"
  shows "server_frame tx tx'"
proof -
  obtain req0 where msg: "msg = Req req0" using step by (cases msg) (auto simp: server_Receive_def)
  note spun = server_frame_spin [OF law]
  let ?req = "req0\<lparr>m_tx := Some (st_id tx)\<rparr>" and ?tx = "tx\<lparr>st_timer1xx := None\<rparr>"
  from step consider "tx' = ?tx" | i where "spin env (st_invite tx) i ?tx = Some (Ok (tx', e))"
    | i where "spin env (st_invite tx) i (?tx\<lparr>st_lastAck := Some ?req\<rparr>) = Some (Ok (tx', e))"
    | i where "spin env (st_invite tx) i (?tx\<lparr>st_lastCancel := Some ?req\<rparr>) = Some (Ok (tx', e))"
    by (auto simp: msg server_Receive_def Let_def split: if_splits outcome.splits)
  then show ?thesis
    by cases (auto dest!: spun simp: server_frame_helpers intro: server_frame_trans [OF server_frame_helpers(5)]
        server_frame_trans [OF server_frame_helpers(6)] server_frame_trans [OF server_frame_helpers(7)])
qed

lemma server_frame_step:
  assumes law: "server_spins spin" and step: "server_step spin env ev tx = Some (Ok tx')"
  shows "server_frame tx tx'"
proof -
  have timer: "server_frame tx tx'" if "spin_logged (spin env (st_invite tx)) i tx = Some (Ok tx')" for i
    using that server_frame_spin [OF law] by (auto simp: spin_logged_def tbind_eq_Ok)
  show ?thesis
  proof (cases ev)
    case (SReceive msg)
    with step show ?thesis by (auto simp: tbind_eq_Ok intro: server_frame_Receive [OF law])
  next
    case (SSend res)
    with step show ?thesis by (auto simp: tbind_eq_Ok intro: server_frame_Send [OF law])
  next
    case STimer1xx
    with step show ?thesis
      by (auto simp: fire_1xx_def tbind_eq_Ok split: outcome.splits intro: server_frame_Send [OF law])
  next
    case SClose
    with step show ?thesis by (auto simp: server_frame_helpers)
  qed (use step timer in simp_all)
qed

lemma server_lifecycle:
  assumes "server_spins spin"
  shows "tx_lifecycle (server_step spin) st_key st_id st_closed st_requests"
  by unfold_locales (use server_frame_step [OF assms] in \<open>auto simp: server_frame_def\<close>)

interpretation server_life: tx_lifecycle "server_step server_machine" st_key st_id st_closed st_requests
  by (rule server_lifecycle [OF server_machine_spins])

lemma client_Init_frame_new:
  assumes "NewClientTx h rel req = Ok tx"
  shows "MakeClientTxKey (Req req) = Ok (ct_key tx)" "ct_id tx = h" "ct_origin tx = req" "\<not> ct_closed tx"
    "ct_responses tx = []" "ct_lastErr tx = None"
  using assms by (auto simp: NewClientTx_def outcome_simps)

lemma server_Init_frame_new:
  assumes "NewServerTx h rel req = Ok tx"
  shows "MakeServerTxKey (Req req) = Ok (st_key (server_Init tx))" "st_id (server_Init tx) = h"
    "st_origin (server_Init tx) = req" "\<not> st_closed (server_Init tx)" "st_requests (server_Init tx) = []"
  using assms by (auto simp: NewServerTx_def outcome_simps server_Init_def Let_def)

end
