(* ===== verification/Gsip_Session.thy ===== *)
theory Gsip_Session
  imports Gsip_Tx
begin

text \<open>
  Sessions (\<^verbatim>\<open>sip/session.go\<close>): the data of a dialog that the transaction layer keeps for the
  user, and the requests made from it.
\<close>

section \<open>State and operations\<close>

text \<open>
  A value of the empty interface is nil or a handle; the attribute map is nil once the
  session is closed. A write to a nil map panics, a read or a deletion does not.
\<close>

type_synonym anyval = "nat option"

record session =
  ss_key :: string
  ss_state :: int
  ss_store :: "(string \<rightharpoonup> anyval) option"
  ss_callId :: string
  ss_from :: AddressHeader
  ss_to :: AddressHeader
  ss_seq :: "32 word"
  ss_closed :: bool

definition blank_address :: AddressHeader where
  "blank_address = \<lparr>ah_DisplayName = NilStr, ah_Address = None, ah_Params = None\<rparr>"

definition CreateSession :: "string \<Rightarrow> session" where
  "CreateSession key =
     \<lparr>ss_key = key, ss_state = 0, ss_store = Some Map.empty, ss_callId = '''', ss_from = blank_address,
      ss_to = blank_address, ss_seq = 1, ss_closed = False\<rparr>"

definition SeqAtom :: "session \<Rightarrow> session" where
  "SeqAtom s = s\<lparr>ss_seq := ss_seq s + 1\<rparr>"

definition session_Close :: "session \<Rightarrow> session" where
  "session_Close s = (if ss_closed s then s else s\<lparr>ss_store := None, ss_closed := True\<rparr>)"

definition SaveMessage :: "Message \<Rightarrow> session \<Rightarrow> session outcome" where
  "SaveMessage msg s =
     (let hs = Message_headers msg;
          s1 = (case get_CallID hs of None \<Rightarrow> s | Some c \<Rightarrow> s\<lparr>ss_callId := c\<rparr>)
      in obind (case get_From hs of
                  None \<Rightarrow> Ok s1
                | Some f \<Rightarrow> omap (\<lambda>fromHeader. s1\<lparr>ss_from := fromHeader\<rparr>) (FromHeader_Copy f)) (\<lambda>s2.
         case get_To hs of
           None \<Rightarrow> Ok s2
         | Some t \<Rightarrow> Ok (s2\<lparr>ss_to := ToHeader_Copy t\<rparr>)))"

text \<open>
  \<^verbatim>\<open>session.CreateRequest\<close>: the assignments through \<^verbatim>\<open>request.From()\<close>, \<^verbatim>\<open>To()\<close> and \<^verbatim>\<open>CSeq()\<close> write to
  the headers that \<^verbatim>\<open>CreateRequest\<close> has just made.
\<close>

definition set_from_params :: "headerParams \<Rightarrow> headers \<Rightarrow> headers outcome" where
  "set_from_params p hs =
     (case get_From hs of
        None \<Rightarrow> Panic
      | Some f \<Rightarrow> Ok (write_first ''from'' (\<lambda>_. FromHeader (f\<lparr>ah_Params := Some p\<rparr>)) hs))"

definition set_to_params :: "headerParams \<Rightarrow> headers \<Rightarrow> headers outcome" where
  "set_to_params p hs =
     (case get_To hs of
        None \<Rightarrow> Panic
      | Some t \<Rightarrow> Ok (write_first ''to'' (\<lambda>_. ToHeader (t\<lparr>ah_Params := Some p\<rparr>)) hs))"

definition set_cseq :: "32 word \<Rightarrow> RequestMethod \<Rightarrow> headers \<Rightarrow> headers outcome" where
  "set_cseq seq method hs =
     (case get_CSeq hs of
        None \<Rightarrow> Panic
      | Some c \<Rightarrow> Ok (write_first ''cseq'' (\<lambda>_. CSeqHeader (c\<lparr>cs_SeqNo := seq, cs_MethodName := method\<rparr>)) hs))"

definition session_CreateRequest ::
  "string \<Rightarrow> string \<Rightarrow> string \<Rightarrow> RequestMethod \<Rightarrow> session \<Rightarrow> request outcome" where
  "session_CreateRequest uuid branchRandom callRandom method s =
     (case ah_Address (ss_to s) of
        None \<Rightarrow> Panic
      | Some toUri \<Rightarrow>
          obind (nil_uri_Copy (ah_Address (ss_from s))) (\<lambda>from.
          obind (CreateRequest uuid branchRandom callRandom method (Addr_String (Uri_Domain toUri))
                   (Some from) (Some (Uri_Copy toUri))) (\<lambda>req.
          obind (nil_params_Copy (ah_Params (ss_from s))) (\<lambda>fromParams.
          obind (set_from_params fromParams (m_headers req)) (\<lambda>hs1.
          obind (nil_params_Copy (ah_Params (ss_to s))) (\<lambda>toParams.
          obind (set_to_params toParams hs1) (\<lambda>hs2.
          obind (set_cseq (ss_seq s) method (ReplaceHeader (CallID (ss_callId s)) hs2)) (\<lambda>hs3.
          Ok (req\<lparr>m_headers := hs3\<rparr>)))))))))"

definition GetAttribute :: "string \<Rightarrow> session \<Rightarrow> anyval" where
  "GetAttribute key s =
     (case ss_store s of
        None \<Rightarrow> None
      | Some store \<Rightarrow> (case store key of Some v \<Rightarrow> v | None \<Rightarrow> None))"

definition SetAttribute :: "string \<Rightarrow> anyval \<Rightarrow> session \<Rightarrow> session outcome" where
  "SetAttribute key v s =
     (case ss_store s of
        None \<Rightarrow> Panic
      | Some store \<Rightarrow> Ok (s\<lparr>ss_store := Some (store(key \<mapsto> v))\<rparr>))"

definition DelAttribute :: "string \<Rightarrow> session \<Rightarrow> session" where
  "DelAttribute key s =
     (case ss_store s of
        None \<Rightarrow> s
      | Some store \<Rightarrow> s\<lparr>ss_store := Some (store(key := None))\<rparr>)"

section \<open>Invariant\<close>

text \<open>The store is gone exactly when the session is closed.\<close>

definition session_ok :: "session \<Rightarrow> bool" where
  "session_ok s \<longleftrightarrow> (ss_store s = None \<longleftrightarrow> ss_closed s)"

lemma session_ok_ops:
  "session_ok (CreateSession key)" "session_ok s \<Longrightarrow> session_ok (SeqAtom s)"
  "session_ok s \<Longrightarrow> session_ok (session_Close s)" "session_ok s \<Longrightarrow> session_ok (DelAttribute key s)"
  "session_ok s \<Longrightarrow> SetAttribute key v s = Ok s' \<Longrightarrow> session_ok s'"
  by (auto simp: session_ok_def CreateSession_def SeqAtom_def session_Close_def DelAttribute_def SetAttribute_def
      split: option.splits)

lemma SaveMessage_fields:
  assumes "SaveMessage msg s = Ok s'"
  shows "ss_store s' = ss_store s" "ss_closed s' = ss_closed s" "ss_key s' = ss_key s" "ss_seq s' = ss_seq s"
  using assms by (auto simp: SaveMessage_def Let_def outcome_simps split: option.splits)

lemma session_ok_SaveMessage: "session_ok s \<Longrightarrow> SaveMessage msg s = Ok s' \<Longrightarrow> session_ok s'"
  by (simp add: session_ok_def SaveMessage_fields)

section \<open>Requests of a session\<close>

lemma headers_ok_get_From:
  "headers_ok hs \<Longrightarrow> get_From hs = Some f \<Longrightarrow> address_ok f"
  using headers_at_key [of hs "FromHeader f" "''from''"]
  by (auto simp: get_From_def first_header_at split: list.splits Header.splits)

lemma get_From_at: "get_From hs = (case headers_at hs ''from'' of FromHeader f # _ \<Rightarrow> Some f | _ \<Rightarrow> None)"
  by (simp add: get_From_def first_header_at split: list.split)

lemma get_CallID_at: "get_CallID hs = (case headers_at hs ''call-id'' of CallID c # _ \<Rightarrow> Some c | _ \<Rightarrow> None)"
  by (simp add: get_CallID_def first_header_at split: list.split)

text \<open>What \<^verbatim>\<open>SaveMessage\<close> keeps of a message with the three headers of a dialog.\<close>

lemma SaveMessage_ok:
  assumes "headers_ok (Message_headers msg)" "get_CallID (Message_headers msg) = Some c"
    "get_From (Message_headers msg) = Some f" "get_To (Message_headers msg) = Some t"
  shows "SaveMessage msg s = Ok (s\<lparr>ss_callId := c, ss_from := f, ss_to := t\<rparr>)"
proof -
  have "address_ok f" "address_ok t"
    using headers_ok_get_From [OF assms(1,3)] headers_ok_get_To [OF assms(1,4)] .
  moreover from this(2) have "ToHeader_Copy t = t"
    by (elim address_okE) (simp add: ToHeader_Copy_def)
  ultimately show ?thesis using assms(2-4) by (simp add: SaveMessage_def Let_def FromHeader_Copy_id)
qed

lemma CreateRequest_headers:
  assumes "uri_ok from" "uri_ok to"
  obtains req where "CreateRequest uuid br cr method dest (Some from) (Some to) = Ok req" "r_method req = method"
    "m_dest req = dest" "m_body req = ''''"
    "get_From (m_headers req) = Some \<lparr>ah_DisplayName = NilStr, ah_Address = Some from, ah_Params = Some NewParams\<rparr>"
    "get_To (m_headers req) = Some \<lparr>ah_DisplayName = NilStr, ah_Address = Some to, ah_Params = Some NewParams\<rparr>"
    "get_CSeq (m_headers req) = Some \<lparr>cs_SeqNo = 1, cs_MethodName = method\<rparr>"
    "get_CallID (m_headers req) \<noteq> None" "headers_ok (m_headers req)"
proof -
  let ?hers = "[DefaultViaHeader br,
         FromHeader \<lparr>ah_DisplayName = NilStr, ah_Address = Some from, ah_Params = Some NewParams\<rparr>,
         ToHeader \<lparr>ah_DisplayName = NilStr, ah_Address = Some to, ah_Params = Some NewParams\<rparr>,
         CallID (RandString cr False),
         CSeqHeader \<lparr>cs_SeqNo = 1, cs_MethodName = INVITE\<rparr>,
         MaxForwards 70]"
  have "\<forall>h \<in> set ?hers. header_ok h"
    using assms by (simp add: address_ok_def opt_params_ok_def DefaultViaHeader_def hop_ok_def params_ok_Add)
  then obtain hs where hs: "newHeaders ?hers = Ok hs" "headers_ok hs"
    "\<And>k. headers_at hs k = filter (\<lambda>h. header_key h = k) ?hers"
    by (rule newHeaders_ok) blast
  have at: "headers_at hs ''from'' = [?hers ! 1]" "headers_at hs ''to'' = [?hers ! 2]"
    "headers_at hs ''call-id'' = [?hers ! 3]" "headers_at hs ''cseq'' = [?hers ! 4]"
    by (simp_all add: hs(3) header_key_simps DefaultViaHeader_def)
  have cseq: "get_CSeq hs = Some \<lparr>cs_SeqNo = 1, cs_MethodName = INVITE\<rparr>" by (simp add: get_CSeq_at at)
  note set = set_cseq_method_at [OF cseq, where m = "method"]
  let ?req = "(SetMethod method (blank_request\<lparr>m_messID := uuid, m_headers := hs, m_sipVersion := SipVersion\<rparr>))\<lparr>m_dest := dest\<rparr>"
  have ok: "headers_ok (set_cseq_method method hs)"
    using cseq by (simp add: set_cseq_method_def headers_ok_write_first hs(2) header_key_simps)
  show thesis
    by (rule that [of ?req])
      (use set ok at hs(1) in \<open>simp_all add: CreateRequest_def SetMethod_def get_From_at get_To_at get_CallID_at
         blank_request_def\<close>)
qed

lemma ReplaceHeader_at: "headers_at (ReplaceHeader h hs) k = (if k = header_key h then [h] else headers_at hs k)"
  by (simp add: ReplaceHeader_alt headers_at_def header_key_def)

text \<open>
  C32: A request that a session creates belongs to the dialog of the message saved in it: it has
  the dialog identifier, the Call-ID, both addresses with their parameters (so both tags), the
  session's sequence number and the method asked for, and goes to the domain of the remote address.
\<close>

theorem session_request_in_dialog:
  assumes msg: "headers_ok (m_headers res)" "get_CallID (m_headers res) = Some c"
      "get_From (m_headers res) = Some f" "get_To (m_headers res) = Some t"
    and saved: "SaveMessage (Res res) s = Ok s'"
  shows "\<exists>req uri. session_CreateRequest uuid br cr method s' = Ok req \<and> DialogId req = DialogId res \<and>
    get_CallID (m_headers req) = Some c \<and> r_method req = method \<and>
    get_CSeq (m_headers req) = Some \<lparr>cs_SeqNo = ss_seq s, cs_MethodName = method\<rparr> \<and>
    get_From (m_headers req) = Some (f\<lparr>ah_DisplayName := NilStr\<rparr>) \<and>
    get_To (m_headers req) = Some (t\<lparr>ah_DisplayName := NilStr\<rparr>) \<and>
    ah_Address t = Some uri \<and> m_dest req = Addr_String (Uri_Domain uri)"
proof -
  have s': "s' = s\<lparr>ss_callId := c, ss_from := f, ss_to := t\<rparr>"
    using SaveMessage_ok [of "Res res"] msg saved by simp
  from headers_ok_get_From [OF msg(1,3)] obtain fu fp
    where f: "ah_Address f = Some fu" "uri_ok fu" "ah_Params f = Some fp" "params_ok fp" by (rule address_okE)
  from headers_ok_get_To [OF msg(1,4)] obtain tu tp
    where t: "ah_Address t = Some tu" "uri_ok tu" "ah_Params t = Some tp" "params_ok tp" by (rule address_okE)
  obtain req where req: "CreateRequest uuid br cr method (Addr_String (Uri_Domain tu)) (Some fu) (Some tu) = Ok req"
    "r_method req = method" "m_dest req = Addr_String (Uri_Domain tu)"
    "get_From (m_headers req) = Some \<lparr>ah_DisplayName = NilStr, ah_Address = Some fu, ah_Params = Some NewParams\<rparr>"
    "get_To (m_headers req) = Some \<lparr>ah_DisplayName = NilStr, ah_Address = Some tu, ah_Params = Some NewParams\<rparr>"
    "get_CSeq (m_headers req) = Some \<lparr>cs_SeqNo = 1, cs_MethodName = method\<rparr>"
    by (rule CreateRequest_headers [OF f(2) t(2)]) blast
  let ?a = "\<lambda>u p. \<lparr>ah_DisplayName = NilStr, ah_Address = Some u, ah_Params = Some p\<rparr>"
  let ?f = "FromHeader (?a fu fp)" and ?t = "ToHeader (?a tu tp)"
    and ?c = "CSeqHeader \<lparr>cs_SeqNo = ss_seq s, cs_MethodName = method\<rparr>"
  let ?hs1 = "write_first ''from'' (\<lambda>_. ?f) (m_headers req)"
  let ?hs2 = "ReplaceHeader (CallID c) (write_first ''to'' (\<lambda>_. ?t) ?hs1)"
  let ?hs3 = "write_first ''cseq'' (\<lambda>_. ?c) ?hs2"
  have "get_To ?hs1 = get_To (m_headers req)" "get_CSeq ?hs2 = get_CSeq (m_headers req)"
    by (simp_all add: get_To_at get_CSeq_at write_first_at ReplaceHeader_at header_key_simps)
  then have "session_CreateRequest uuid br cr method s' = Ok (req\<lparr>m_headers := ?hs3\<rparr>)"
    using f t req
    by (simp add: session_CreateRequest_def s' nil_uri_Copy_def nil_params_Copy_def set_from_params_def
        set_to_params_def set_cseq_def)
  moreover have "?a fu fp = f\<lparr>ah_DisplayName := NilStr\<rparr>" "?a tu tp = t\<lparr>ah_DisplayName := NilStr\<rparr>"
    using f t by simp_all
  moreover have "get_From ?hs3 = Some (?a fu fp)" "get_To ?hs3 = Some (?a tu tp)"
    "get_CallID ?hs3 = Some c" "get_CSeq ?hs3 = Some \<lparr>cs_SeqNo = ss_seq s, cs_MethodName = method\<rparr>"
    using req(4-6)
    by (auto simp: get_From_at get_To_at get_CallID_at get_CSeq_at write_first_at ReplaceHeader_at header_key_simps
        split: list.splits Header.splits)
  moreover from this have "DialogId (req\<lparr>m_headers := ?hs3\<rparr>) = DialogId res"
    using msg f t by (simp add: DialogId_def Let_def)
  ultimately show ?thesis using req(2,3) t(1) by (intro exI [of _ "req\<lparr>m_headers := ?hs3\<rparr>"] exI [of _ tu]) simp
qed

section \<open>Witness\<close>

text \<open>The headers of a dialog between the tags \<open>a\<close> and \<open>b\<close>.\<close>

definition sample_party :: "string \<Rightarrow> AddressHeader" where
  "sample_party tag = \<lparr>ah_DisplayName = NilStr, ah_Address = Some (SipUriPtr (blank_uri\<lparr>u_FDomain := \<lparr>addr_Host = ''h'', addr_Port = None\<rparr>,
     u_FUriParams := Some NewParams, u_FHeaders := Some NewParams\<rparr>)),
     ah_Params = Some (Params_Add ''tag'' (Str tag) NewParams)\<rparr>"

definition sample_dialog :: "string \<Rightarrow> string \<Rightarrow> headers" where
  "sample_dialog a b =
     \<lparr>hs_headers = [(''from'', [FromHeader (sample_party a)]), (''to'', [ToHeader (sample_party b)]), (''call-id'', [CallID ''c''])],
      hs_headerOrder = [''from'', ''to'', ''call-id'']\<rparr>"

lemma sample_dialog_parts:
  "headers_ok (sample_dialog a b)" "get_CallID (sample_dialog a b) = Some ''c''"
  "get_From (sample_dialog a b) = Some (sample_party a)" "get_To (sample_dialog a b) = Some (sample_party b)"
proof -
  have "uri_ok (SipUriPtr (blank_uri\<lparr>u_FDomain := \<lparr>addr_Host = ''h'', addr_Port = None\<rparr>,
      u_FUriParams := Some NewParams, u_FHeaders := Some NewParams\<rparr>))"
    by (simp add: sipuri_ok_def blank_uri_def)
  then have "address_ok (sample_party t)" for t
    by (simp add: address_ok_def sample_party_def opt_params_ok_def params_ok_Add)
  then show "headers_ok (sample_dialog a b)"
    by (simp add: headers_ok_def entry_ok_def sample_dialog_def header_key_simps)
  show "get_CallID (sample_dialog a b) = Some ''c''"
    "get_From (sample_dialog a b) = Some (sample_party a)" "get_To (sample_dialog a b) = Some (sample_party b)"
    by (simp_all add: get_CallID_at get_From_at get_To_at headers_at_def sample_dialog_def)
qed

definition sample_success :: response where
  "sample_success = blank_response\<lparr>s_status := 200, m_headers := sample_dialog ''a'' ''b''\<rparr>"

lemma sample_success_parts:
  "headers_ok (m_headers sample_success)" "get_CallID (m_headers sample_success) = Some ''c''"
  "get_From (m_headers sample_success) = Some (sample_party ''a'')" "get_To (m_headers sample_success) = Some (sample_party ''b'')"
  "IsSuccess sample_success" "DialogId sample_success = Ok ''c#a#b''"
  by (simp_all add: sample_success_def sample_dialog_parts IsSuccess_def DialogId_def)
    (simp add: sample_party_def params_value_def Params_Get_Add)

theorem session_request_in_dialog_witness:
  "\<exists>s req. SaveMessage (Res sample_success) (CreateSession ''c#a#b'') = Ok s \<and>
     session_CreateRequest ''id'' ''x'' ''y'' BYE s = Ok req \<and> DialogId req = Ok ''c#a#b''"
proof -
  have saved: "SaveMessage (Res sample_success) (CreateSession ''c#a#b'') =
      Ok ((CreateSession ''c#a#b'')\<lparr>ss_callId := ''c'', ss_from := sample_party ''a'', ss_to := sample_party ''b''\<rparr>)"
    by (rule SaveMessage_ok) (simp_all add: sample_success_parts)
  from session_request_in_dialog [OF sample_success_parts(1-4) saved, of "''id''" "''x''" "''y''" BYE] saved
  show ?thesis by (auto simp: sample_success_parts(6))
qed

end
