(* ===== verification/Gsip_Pool.thy ===== *)
theory Gsip_Pool
  imports Gsip_Lifecycle Gsip_Session
begin

text \<open>
  The pools of the program are maps guarded by a mutex. Their contract is a locale, which says what
  a lookup returns after a sequence of writes; a store that nothing is ever deleted from has the smaller contract
  it extends; the pools of transactions and of sessions
  (\<^verbatim>\<open>transaction/tx_pool.go\<close>, \<^verbatim>\<open>transaction/session_pool.go\<close>) implement it here, those of the transport
  layer and the handlers of the user in later theories. The order in which Go ranges over a map is not specified.
\<close>

section \<open>The contract of a pool\<close>

datatype ('k, 'v) pool_op = Put 'k 'v | Drop 'k

locale keyed_store =
  fixes norm :: "'k \<Rightarrow> 'k"
    and empty :: 's
    and put :: "'k \<Rightarrow> 'v \<Rightarrow> 's \<Rightarrow> 's"
    and get :: "'k \<Rightarrow> 's \<Rightarrow> 'v option"
  assumes get_empty: "get k empty = None"
    and get_put: "get k' (put k v s) = (if norm k' = norm k then Some v else get k' s)"
begin

lemma put_overwrites: "get k' (put k w (put k v s)) = get k' (put k w s)"
  by (simp add: get_put)

lemma get_puts_other: "\<forall>(k, v) \<in> set kvs. norm k \<noteq> norm k' \<Longrightarrow> get k' (fold (\<lambda>(k, v). put k v) kvs s) = get k' s"
  by (induction kvs arbitrary: s) (auto simp: get_put)

end

locale keyed_pool = keyed_store norm empty put get
  for norm :: "'k \<Rightarrow> 'k"
    and empty :: 's
    and put :: "'k \<Rightarrow> 'v \<Rightarrow> 's \<Rightarrow> 's"
    and get :: "'k \<Rightarrow> 's \<Rightarrow> 'v option" +
  fixes drop :: "'k \<Rightarrow> 's \<Rightarrow> 's"
  assumes get_drop: "get k' (drop k s) = (if norm k' = norm k then None else get k' s)"
begin

primrec run :: "('k, 'v) pool_op list \<Rightarrow> 's \<Rightarrow> 's" where
  "run [] s = s"
| "run (oper # ops) s = run ops (case oper of Put k v \<Rightarrow> put k v s | Drop k \<Rightarrow> drop k s)"

text \<open>The last operation on a key decides what it holds.\<close>

primrec last_op :: "'k \<Rightarrow> ('k, 'v) pool_op list \<Rightarrow> 'v option \<Rightarrow> 'v option" where
  "last_op k [] v0 = v0"
| "last_op k (oper # ops) v0 = last_op k ops
     (case oper of Put k' v \<Rightarrow> if norm k = norm k' then Some v else v0
                 | Drop k' \<Rightarrow> if norm k = norm k' then None else v0)"

lemma get_run: "get k (run ops s) = last_op k ops (get k s)"
proof (induction ops arbitrary: s)
  case (Cons oper ops)
  then show ?case by (cases oper) (simp_all add: get_put get_drop)
qed simp

lemma get_run_empty: "get k (run ops empty) = last_op k ops None"
  by (simp add: get_run get_empty)

lemma drop_put: "get k' (drop k (put k v s)) = get k' (drop k s)"
  by (simp add: get_put get_drop)

end

section \<open>The pool of transactions\<close>

text \<open>A transaction is an object; the pool holds its handle.\<close>

type_synonym transactionPool = "TxKey \<rightharpoonup> nat"

definition createTransactionPool :: transactionPool where "createTransactionPool = Map.empty"

definition tx_put :: "TxKey \<Rightarrow> nat \<Rightarrow> transactionPool \<Rightarrow> transactionPool" where
  "tx_put key tx store = store(key \<mapsto> tx)"

definition tx_get :: "TxKey \<Rightarrow> transactionPool \<Rightarrow> nat option" where
  "tx_get key store = store key"

definition tx_drop :: "TxKey \<Rightarrow> transactionPool \<Rightarrow> bool \<times> transactionPool" where
  "tx_drop key store = (if tx_get key store = None then (False, store) else (True, store(key := None)))"

interpretation txp: keyed_pool "\<lambda>k. k" createTransactionPool tx_put tx_get "\<lambda>k s. snd (tx_drop k s)"
  by unfold_locales (auto simp: createTransactionPool_def tx_put_def tx_get_def tx_drop_def)

section \<open>The pool of sessions\<close>

text \<open>
  The session objects and the map from identifiers to their handles. \<^verbatim>\<open>drop\<close> closes the session; closing a session
  ends its \<^verbatim>\<open>listenSession\<close> goroutine, which drops whatever the identifier of that session then maps to.
\<close>

record sessionPool =
  sp_heap :: "session list"
  sp_list :: "string \<rightharpoonup> nat"

definition createSessionPool :: sessionPool where
  "createSessionPool = \<lparr>sp_heap = [], sp_list = Map.empty\<rparr>"

definition sp_get :: "string \<Rightarrow> sessionPool \<Rightarrow> nat option" where
  "sp_get key store = sp_list store key"

definition sp_put :: "string \<Rightarrow> nat \<Rightarrow> sessionPool \<Rightarrow> sessionPool" where
  "sp_put key h store = store\<lparr>sp_list := (sp_list store)(key \<mapsto> h)\<rparr>"

definition sp_drop :: "string \<Rightarrow> sessionPool \<Rightarrow> sessionPool" where
  "sp_drop key store =
     (let store1 = (case sp_get key store of
                      None \<Rightarrow> store
                    | Some h \<Rightarrow> store\<lparr>sp_heap := (sp_heap store)[h := session_Close (sp_heap store ! h)]\<rparr>)
      in store1\<lparr>sp_list := (sp_list store1)(key := None)\<rparr>)"

text \<open>The rest of \<^verbatim>\<open>listenSession\<close> once \<^verbatim>\<open>session.Done()\<close> is closed.\<close>

definition listenSession :: "nat \<Rightarrow> sessionPool \<Rightarrow> sessionPool" where
  "listenSession h store = sp_drop (ss_key (sp_heap store ! h)) store"

text \<open>A new session object.\<close>

definition sp_new :: "session \<Rightarrow> sessionPool \<Rightarrow> sessionPool" where
  "sp_new s store = store\<lparr>sp_heap := sp_heap store @ [s]\<rparr>"

interpretation sps: keyed_pool "\<lambda>k. k" createSessionPool sp_put sp_get sp_drop
  by unfold_locales (auto simp: createSessionPool_def sp_put_def sp_get_def sp_drop_def Let_def split: option.split)

definition sessions_ok :: "sessionPool \<Rightarrow> bool" where
  "sessions_ok store \<longleftrightarrow>
     (\<forall>s \<in> set (sp_heap store). session_ok s) \<and>
     (\<forall>key h. sp_get key store = Some h \<longrightarrow> h < length (sp_heap store) \<and> ss_key (sp_heap store ! h) = key)"

lemma session_fields [simp]:
  "ss_key (session_Close s) = ss_key s" "ss_key (SeqAtom s) = ss_key s" "ss_seq (session_Close s) = ss_seq s"
  "ss_closed (session_Close s)"
  by (simp_all add: session_Close_def SeqAtom_def)

lemma sessions_ok_update:
  assumes "sessions_ok store" "\<And>s. session_ok s \<Longrightarrow> session_ok (f s)" "\<And>s. ss_key (f s) = ss_key s"
  shows "sessions_ok (store\<lparr>sp_heap := (sp_heap store)[h := f (sp_heap store ! h)]\<rparr>)"
proof (cases "h < length (sp_heap store)")
  case True
  then have "session_ok (f (sp_heap store ! h))" using assms(1,2) by (simp add: sessions_ok_def)
  then have "\<forall>s \<in> set ((sp_heap store)[h := f (sp_heap store ! h)]). session_ok s"
    using assms(1) set_update_subset_insert [of "sp_heap store" h "f (sp_heap store ! h)"]
    by (auto simp: sessions_ok_def)
  moreover have "ss_key ((sp_heap store)[h := f (sp_heap store ! h)] ! k) = ss_key (sp_heap store ! k)"
    if "k < length (sp_heap store)" for k
    using that assms(3) by (cases "k = h") simp_all
  ultimately show ?thesis using assms(1) by (simp add: sessions_ok_def sp_get_def)
next
  case False
  then show ?thesis using assms(1) by (simp add: list_update_beyond)
qed

lemma sessions_ok_drop: "sessions_ok store \<Longrightarrow> sessions_ok (sp_drop key store)"
proof -
  assume ok: "sessions_ok store"
  have unlist: "sessions_ok s \<Longrightarrow> sessions_ok (s\<lparr>sp_list := (sp_list s)(key := None)\<rparr>)" for s
    by (auto simp: sessions_ok_def sp_get_def split: if_splits)
  show ?thesis
    using sessions_ok_update [OF ok session_ok_ops(3) session_fields(1)] ok unlist
    by (auto simp: sp_drop_def Let_def split: option.split)
qed

lemma sessions_ok_new:
  assumes "sessions_ok store" "session_ok s" "ss_key s = key"
  shows "sessions_ok (sp_put key (length (sp_heap store)) (sp_new s store))"
  using assms by (auto simp: sessions_ok_def sp_put_def sp_new_def sp_get_def nth_append less_Suc_eq split: if_splits)

end
