(* ===== verification/Gsip_Layer.thy ===== *)
theory Gsip_Layer
  imports Gsip_Pool
begin

text \<open>
  The transaction layer (\<^verbatim>\<open>transaction/transaction.go\<close>): it gives every message of the transport layer and of
  the user to its transaction, keeps the transactions and the sessions, and passes requests and responses up.
\<close>

section \<open>State\<close>

text \<open>
  Transactions are objects: a handle is an index into \<open>l_txs\<close>. \<open>l_served\<close> lists the transactions whose
  \<^verbatim>\<open>serveTransaction\<close> has not returned, \<open>l_forwarded\<close> counts the values that the goroutine started by it has
  taken off the channel of the transaction. \<open>l_requests\<close> and \<open>l_responses\<close> are the values sent on the channels to the user so far, \<open>l_sent\<close> the
  messages that the layer itself handed to the transport layer. \<open>l_canceled\<close> and \<open>l_done\<close> say that the channels
  of these names are closed, the latter together with the channels to the user.
\<close>

datatype Tx = ClientTx clientTx | ServerTx serverTx

primrec Tx_Key :: "Tx \<Rightarrow> TxKey" where
  "Tx_Key (ClientTx tx) = ct_key tx"
| "Tx_Key (ServerTx tx) = st_key tx"

primrec Tx_id :: "Tx \<Rightarrow> nat" where
  "Tx_id (ClientTx tx) = ct_id tx"
| "Tx_id (ServerTx tx) = st_id tx"

primrec Tx_closed :: "Tx \<Rightarrow> bool" where
  "Tx_closed (ClientTx tx) = ct_closed tx"
| "Tx_closed (ServerTx tx) = st_closed tx"

primrec Tx_Close :: "Tx \<Rightarrow> Tx" where
  "Tx_Close (ClientTx tx) = ClientTx (client_Close tx)"
| "Tx_Close (ServerTx tx) = ServerTx (server_Close tx)"

record layer =
  l_txs :: "Tx list"
  l_transactions :: transactionPool
  l_sessionStore :: sessionPool
  l_served :: "nat list"
  l_forwarded :: "nat \<rightharpoonup> nat"
  l_requests :: "request list"
  l_responses :: "response list"
  l_sent :: "Message list"
  l_canceled :: bool
  l_done :: bool

text \<open>
  What the surroundings contribute: the environment of the transactions, \<^verbatim>\<open>tpl.IsReliable\<close>, and whether the user
  takes a value off a channel before the layer is cancelled.
\<close>

record layer_env =
  le_tx :: tx_env
  le_IsReliable :: "string \<Rightarrow> bool"
  le_taken :: bool

definition CreateLayer :: layer where
  "CreateLayer =
     \<lparr>l_txs = [], l_transactions = createTransactionPool, l_sessionStore = createSessionPool, l_served = [],
      l_forwarded = Map.empty, l_requests = [], l_responses = [], l_sent = [], l_canceled = False, l_done = False\<rparr>"

definition layer_Close :: "layer \<Rightarrow> layer" where
  "layer_Close txl = txl\<lparr>l_canceled := True\<rparr>"

definition set_tx :: "nat \<Rightarrow> Tx \<Rightarrow> layer \<Rightarrow> layer" where
  "set_tx h tx txl = txl\<lparr>l_txs := (l_txs txl)[h := tx]\<rparr>"

section \<open>Sessions\<close>

definition layer_Session :: "string \<Rightarrow> layer \<Rightarrow> session option" where
  "layer_Session key txl = map_option (\<lambda>h. sp_heap (l_sessionStore txl) ! h) (sp_get key (l_sessionStore txl))"

definition updateSession :: "request \<Rightarrow> layer \<Rightarrow> layer outcome" where
  "updateSession req txl =
     obind (DialogId req) (\<lambda>id.
     let store = l_sessionStore txl
     in case sp_get id store of
          None \<Rightarrow> Ok txl
        | Some h \<Rightarrow>
            Ok (txl\<lparr>l_sessionStore := store\<lparr>sp_heap := (sp_heap store)[h := SeqAtom (sp_heap store ! h)]\<rparr>\<rparr>))"

definition handleSession :: "RequestMethod \<Rightarrow> response \<Rightarrow> layer \<Rightarrow> layer outcome" where
  "handleSession method resp txl =
     (if IsSuccess resp then
        (if method = BYE then
           omap (\<lambda>id. txl\<lparr>l_sessionStore := sp_drop id (l_sessionStore txl)\<rparr>) (DialogId resp)
         else if method = INVITE then
           obind (DialogId resp) (\<lambda>id.
           omap (\<lambda>s. let store = l_sessionStore txl
                     in txl\<lparr>l_sessionStore := sp_put id (length (sp_heap store)) (sp_new s store)\<rparr>)
             (SaveMessage (Res resp) (CreateSession id)))
         else Ok txl)
      else Ok txl)"

section \<open>Matching\<close>

definition getClientTx :: "Message \<Rightarrow> layer \<Rightarrow> (nat \<times> clientTx) outcome" where
  "getClientTx msg txl =
     (case MakeClientTxKey msg of
        Panic \<Rightarrow> Panic
      | Fail e \<Rightarrow> Fail (Errorf ''failed to match message to client transaction'')
      | Ok key \<Rightarrow>
          (case tx_get key (l_transactions txl) of
             None \<Rightarrow> Fail (Errorf ''transaction not found'')
           | Some h \<Rightarrow>
               (case l_txs txl ! h of
                  ClientTx tx \<Rightarrow> Ok (h, tx)
                | _ \<Rightarrow> Fail (Errorf ''found is not a client transaction''))))"

definition getServerTx :: "Message \<Rightarrow> layer \<Rightarrow> (nat \<times> serverTx) outcome" where
  "getServerTx msg txl =
     (case MakeServerTxKey msg of
        Panic \<Rightarrow> Panic
      | Fail e \<Rightarrow> Fail (Errorf ''failed to match message to server transaction'')
      | Ok key \<Rightarrow>
          (case tx_get key (l_transactions txl) of
             None \<Rightarrow> Fail (Errorf ''transaction not found'')
           | Some h \<Rightarrow>
               (case l_txs txl ! h of
                  ServerTx tx \<Rightarrow> Ok (h, tx)
                | _ \<Rightarrow> Fail (Errorf ''found is not server transaction''))))"

text \<open>A new transaction object, put into the pool under its key.\<close>

definition add_tx :: "Tx \<Rightarrow> layer \<Rightarrow> layer" where
  "add_tx tx txl =
     txl\<lparr>l_txs := l_txs txl @ [tx], l_transactions := tx_put (Tx_Key tx) (length (l_txs txl)) (l_transactions txl)\<rparr>"

text \<open>\<^verbatim>\<open>go txl.serveTransaction(tx)\<close>.\<close>

definition start_serve :: "nat \<Rightarrow> layer \<Rightarrow> layer" where
  "start_serve h txl = txl\<lparr>l_served := l_served txl @ [h], l_forwarded := (l_forwarded txl)(h \<mapsto> 0)\<rparr>"

section \<open>Sending\<close>

text \<open>The results are the layer, the transaction and the error that the call returns.\<close>

definition sendRequest ::
  "client_spin \<Rightarrow> layer_env \<Rightarrow> request \<Rightarrow> layer \<Rightarrow> (layer \<times> nat option \<times> gerror option) turn" where
  "sendRequest spin env req txl =
     (if l_canceled txl then Some (Ok (txl, None, Some (Errorf ''transaction layer is canceled'')))
      else
        tbind (Some (updateSession req txl)) (\<lambda>txl1.
        if IsAck req then
          Some (Ok (txl1\<lparr>l_sent := l_sent txl1 @ [Req req]\<rparr>, None, e_Send (le_tx env) (Req req)))
        else
          let h = length (l_txs txl1)
          in case NewClientTx h (le_IsReliable env) req of
               Panic \<Rightarrow> Some Panic
             | Fail err \<Rightarrow> Some (Ok (txl1, None, Some err))
             | Ok tx \<Rightarrow>
                 let txl2 = add_tx (ClientTx tx) txl1
                 in tbind (client_Init spin (le_tx env) tx) (\<lambda>(tx', err).
                    let txl3 = set_tx h (ClientTx tx') txl2
                    in case err of
                         Some e \<Rightarrow> Some (Ok (txl3, None, Some e))
                       | None \<Rightarrow> Some (Ok (start_serve h txl3, Some h, None)))))"

definition sendResponse ::
  "server_spin \<Rightarrow> layer_env \<Rightarrow> response \<Rightarrow> layer \<Rightarrow> (layer \<times> nat option \<times> gerror option) turn" where
  "sendResponse spin env res txl =
     (if l_canceled txl then Some (Ok (txl, None, Some (Errorf ''transaction layer is canceled'')))
      else case getServerTx (Res res) txl of
             Panic \<Rightarrow> Some Panic
           | Fail err \<Rightarrow> Some (Ok (txl, None, Some err))
           | Ok (h, tx) \<Rightarrow>
               tbind (Some (handleSession (r_method (st_origin tx)) res txl)) (\<lambda>txl1.
               tbind (SendResponse spin (le_tx env) res tx) (\<lambda>(tx', err).
               let txl2 = set_tx h (ServerTx tx') txl1
               in case err of
                    Some e \<Rightarrow> Some (Ok (txl2, None, Some e))
                  | None \<Rightarrow> Some (Ok (txl2, Some h, None)))))"

definition layer_Send ::
  "client_spin \<Rightarrow> server_spin \<Rightarrow> layer_env \<Rightarrow> Message \<Rightarrow> layer \<Rightarrow> (layer \<times> nat option \<times> gerror option) turn" where
  "layer_Send cspin sspin env message txl =
     (case message of Req req \<Rightarrow> sendRequest cspin env req txl | Res res \<Rightarrow> sendResponse sspin env res txl)"

text \<open>It fills in nothing: the handlers it is given are not used.\<close>

definition AutoFillMessageHeaderAndSend ::
  "client_spin \<Rightarrow> server_spin \<Rightarrow> layer_env \<Rightarrow> Message \<Rightarrow> 'callback \<Rightarrow> layer \<Rightarrow> (layer \<times> nat option \<times> gerror option) turn" where
  "AutoFillMessageHeaderAndSend cspin sspin env message callback txl =
     (case message of Req msg \<Rightarrow> sendRequest cspin env msg txl | Res msg \<Rightarrow> sendResponse sspin env msg txl)"

section \<open>Receiving\<close>

text \<open>\<^verbatim>\<open>select \{ case <-txl.canceled: case txl.requests <- req: \}\<close>.\<close>

definition passUp_request :: "layer_env \<Rightarrow> request \<Rightarrow> layer \<Rightarrow> layer" where
  "passUp_request env req txl = (if le_taken env then txl\<lparr>l_requests := l_requests txl @ [req]\<rparr> else txl)"

definition passUp_response :: "layer_env \<Rightarrow> response \<Rightarrow> layer \<Rightarrow> layer" where
  "passUp_response env res txl = (if le_taken env then txl\<lparr>l_responses := l_responses txl @ [res]\<rparr> else txl)"

text \<open>
  \<^verbatim>\<open>handleRequest\<close>. The new transaction keeps the request itself as its origin, so that \<^verbatim>\<open>req.SetTransaction(tx)\<close>
  changes the origin too.
\<close>

definition layer_handleRequest :: "server_spin \<Rightarrow> layer_env \<Rightarrow> request \<Rightarrow> layer \<Rightarrow> layer turn" where
  "layer_handleRequest spin env req txl =
     (if l_canceled txl then Some (Ok txl)
      else
        tbind (Some (updateSession req txl)) (\<lambda>txl1.
        case getServerTx (Req req) txl1 of
          Panic \<Rightarrow> Some Panic
        | Ok (h, tx) \<Rightarrow>
            tbind (server_Receive spin (le_tx env) (Req req) tx) (\<lambda>(tx', err). Some (Ok (set_tx h (ServerTx tx') txl1)))
        | Fail _ \<Rightarrow>
            if IsAck req then Some (Ok (passUp_request env req txl1))
            else if IsCancel req then
              (let t = le_tx env
               in tbind (Some (CreateResponse (e_uuid t) (e_addr t) (e_random t) 481 req)) (\<lambda>res.
                  Some (Ok (txl1\<lparr>l_sent := l_sent txl1 @ [Res res]\<rparr>))))
            else
              let h = length (l_txs txl1)
              in case NewServerTx h (le_IsReliable env) req of
                   Panic \<Rightarrow> Some Panic
                 | Fail _ \<Rightarrow> Some (Ok txl1)
                 | Ok tx \<Rightarrow>
                     let req1 = req\<lparr>m_tx := Some h\<rparr>;
                         txl2 = add_tx (ServerTx ((server_Init tx)\<lparr>st_origin := req1\<rparr>)) txl1
                     in Some (Ok (passUp_request env req1 (start_serve h txl2)))))"

definition layer_handleResponse :: "client_spin \<Rightarrow> layer_env \<Rightarrow> response \<Rightarrow> layer \<Rightarrow> layer turn" where
  "layer_handleResponse spin env res txl =
     (if l_canceled txl then Some (Ok txl)
      else case getClientTx (Res res) txl of
             Panic \<Rightarrow> Some Panic
           | Fail _ \<Rightarrow> Some (Ok (passUp_response env (res\<lparr>m_tx := None\<rparr>) txl))
           | Ok (h, tx) \<Rightarrow>
               tbind (client_Receive spin (le_tx env) (Res res) tx) (\<lambda>(tx', err). Some (Ok (set_tx h (ClientTx tx') txl))))"

definition handleMessage :: "client_spin \<Rightarrow> server_spin \<Rightarrow> layer_env \<Rightarrow> Message \<Rightarrow> layer \<Rightarrow> layer turn" where
  "handleMessage cspin sspin env msg txl =
     (if l_canceled txl then Some (Ok txl)
      else case msg of
             Req req \<Rightarrow> layer_handleRequest sspin env req txl
           | Res res \<Rightarrow> layer_handleResponse cspin env res txl)"

section \<open>The goroutines of serveTransaction and listenMessages\<close>

text \<open>
  The inner goroutine takes the next value off the channel of the transaction and sends it to the user. It is
  not counted by the wait group, so it may still send when the channels to the user are closed, which panics.
\<close>

definition forward_next :: "nat \<Rightarrow> layer \<Rightarrow> layer turn" where
  "forward_next h txl =
     (case l_forwarded txl h of
        None \<Rightarrow> Some (Ok txl)
      | Some n \<Rightarrow>
          let txl1 = txl\<lparr>l_forwarded := (l_forwarded txl)(h \<mapsto> n + 1)\<rparr>
          in case l_txs txl ! h of
               ClientTx tx \<Rightarrow>
                 (let resp = ct_responses tx ! n
                  in tbind (Some (handleSession (r_method (ct_origin tx)) resp txl1)) (\<lambda>txl2.
                     if l_done txl2 then Some Panic
                     else Some (Ok (txl2\<lparr>l_responses := l_responses txl2 @ [resp]\<rparr>))))
             | ServerTx tx \<Rightarrow>
                 if l_done txl1 then Some Panic
                 else Some (Ok (txl1\<lparr>l_requests := l_requests txl1 @ [st_requests tx ! n]\<rparr>)))"

definition Tx_passed :: "Tx \<Rightarrow> nat" where
  "Tx_passed tx = (case tx of ClientTx c \<Rightarrow> length (ct_responses c) | ServerTx s \<Rightarrow> length (st_requests s))"

text \<open>The end of \<^verbatim>\<open>serveTransaction\<close>: the layer is cancelled, or the transaction is done.\<close>

definition serve_end :: "nat \<Rightarrow> layer \<Rightarrow> layer" where
  "serve_end h txl =
     (let tx = l_txs txl ! h;
          txl1 = (if l_canceled txl then set_tx h (Tx_Close tx) txl else txl)
      in txl1\<lparr>l_transactions := snd (tx_drop (Tx_Key tx) (l_transactions txl1)), l_served := remove1 h (l_served txl1)\<rparr>)"

text \<open>
  The deferred function of \<^verbatim>\<open>listenMessages\<close>, after \<^verbatim>\<open>txWg.Wait()\<close>. The loop before it ends when the layer is
  cancelled. It would also end when the transport layer closes its channel of messages; the service closes the transport
  layer only after this layer is done, so this is left out.
\<close>

definition listen_end :: "layer \<Rightarrow> layer" where
  "listen_end txl = txl\<lparr>l_done := True\<rparr>"

section \<open>Steps\<close>

datatype layer_event =
    LSend Message
  | LMessage Message
  | LClient nat client_event
  | LServer nat server_event
  | LForward nat
  | LServeEnd nat
  | LSessionEnd nat
  | LSessionClose nat
  | LClose
  | LDone

text \<open>
  What can happen when. A message off the channel of the transport layer comes from a parser, which leaves its
  transaction nil (lemma \<open>parsed_no_transaction\<close>).
\<close>

fun layer_enabled :: "layer_event \<Rightarrow> layer \<Rightarrow> bool" where
  "layer_enabled (LMessage msg) txl \<longleftrightarrow> Message_Transaction msg = None"
| "layer_enabled (LClient h ev) txl \<longleftrightarrow> h < length (l_txs txl) \<and> (case l_txs txl ! h of ClientTx _ \<Rightarrow> True | _ \<Rightarrow> False)"
| "layer_enabled (LServer h ev) txl \<longleftrightarrow> h < length (l_txs txl) \<and> (case l_txs txl ! h of ServerTx _ \<Rightarrow> True | _ \<Rightarrow> False)"
| "layer_enabled (LForward h) txl \<longleftrightarrow> (case l_forwarded txl h of None \<Rightarrow> False | Some n \<Rightarrow> n < Tx_passed (l_txs txl ! h))"
| "layer_enabled (LServeEnd h) txl \<longleftrightarrow> h \<in> set (l_served txl) \<and> (l_canceled txl \<or> Tx_closed (l_txs txl ! h))"
| "layer_enabled (LSessionEnd s) txl \<longleftrightarrow>
     s < length (sp_heap (l_sessionStore txl)) \<and> ss_closed (sp_heap (l_sessionStore txl) ! s)"
| "layer_enabled (LSessionClose s) txl \<longleftrightarrow> s < length (sp_heap (l_sessionStore txl))"
| "layer_enabled LDone txl \<longleftrightarrow> l_canceled txl \<and> l_served txl = []"
| "layer_enabled _ txl \<longleftrightarrow> True"

fun layer_step ::
  "client_spin \<Rightarrow> server_spin \<Rightarrow> layer_env \<Rightarrow> layer_event \<Rightarrow> layer \<Rightarrow> layer turn" where
  "layer_step cspin sspin env (LSend msg) txl = tbind (layer_Send cspin sspin env msg txl) (\<lambda>(txl', _). Some (Ok txl'))"
| "layer_step cspin sspin env (LMessage msg) txl = handleMessage cspin sspin env msg txl"
| "layer_step cspin sspin env (LClient h ev) txl =
     (case l_txs txl ! h of
        ClientTx tx \<Rightarrow> tbind (client_step cspin (le_tx env) ev tx) (\<lambda>tx'. Some (Ok (set_tx h (ClientTx tx') txl)))
      | _ \<Rightarrow> Some (Ok txl))"
| "layer_step cspin sspin env (LServer h ev) txl =
     (case l_txs txl ! h of
        ServerTx tx \<Rightarrow> tbind (server_step sspin (le_tx env) ev tx) (\<lambda>tx'. Some (Ok (set_tx h (ServerTx tx') txl)))
      | _ \<Rightarrow> Some (Ok txl))"
| "layer_step cspin sspin env (LForward h) txl = forward_next h txl"
| "layer_step cspin sspin env (LServeEnd h) txl = Some (Ok (serve_end h txl))"
| "layer_step cspin sspin env (LSessionEnd s) txl =
     Some (Ok (txl\<lparr>l_sessionStore := listenSession s (l_sessionStore txl)\<rparr>))"
| "layer_step cspin sspin env (LSessionClose s) txl =
     (let store = l_sessionStore txl
      in Some (Ok (txl\<lparr>l_sessionStore :=
           store\<lparr>sp_heap := (sp_heap store)[s := session_Close (sp_heap store ! s)]\<rparr>\<rparr>)))"
| "layer_step cspin sspin env LClose txl = Some (Ok (layer_Close txl))"
| "layer_step cspin sspin env LDone txl = Some (Ok (listen_end txl))"

inductive layer_reachable :: "client_spin \<Rightarrow> server_spin \<Rightarrow> layer \<Rightarrow> bool" for cspin sspin where
  created: "layer_reachable cspin sspin CreateLayer"
| stepped: "layer_reachable cspin sspin txl \<Longrightarrow> layer_enabled ev txl \<Longrightarrow>
    layer_step cspin sspin env ev txl = Some (Ok txl') \<Longrightarrow> layer_reachable cspin sspin txl'"

section \<open>The invariant\<close>

definition Tx_frame :: "Tx \<Rightarrow> Tx \<Rightarrow> bool" where
  "Tx_frame a b =
     (case a of
        ClientTx t \<Rightarrow> (case b of ClientTx t' \<Rightarrow> client_frame t t' | _ \<Rightarrow> False)
      | ServerTx t \<Rightarrow> (case b of ServerTx t' \<Rightarrow> server_frame t t' | _ \<Rightarrow> False))"

lemma Tx_frame_simps [simp]:
  "Tx_frame (ClientTx t) (ClientTx t') = client_frame t t'" "Tx_frame (ServerTx s) (ServerTx s') = server_frame s s'"
  by (simp_all add: Tx_frame_def)

lemma Tx_frameD:
  assumes "Tx_frame a b"
  shows "Tx_Key b = Tx_Key a" "Tx_id b = Tx_id a" "Tx_closed a \<Longrightarrow> Tx_closed b" "Tx_passed a \<le> Tx_passed b"
  using assms by (auto simp: Tx_frame_def client_frame_def server_frame_def Tx_passed_def prefix_length_le split: Tx.splits)

primrec Tx_ok :: "Tx \<Rightarrow> bool" where
  "Tx_ok (ClientTx t) = client_ok t"
| "Tx_ok (ServerTx t) = server_ok t"

text \<open>The transactions: each is in a state of its invariant, and knows its handle.\<close>

definition txs_ok :: "Tx list \<Rightarrow> bool" where
  "txs_ok txs \<longleftrightarrow> (\<forall>h < length txs. Tx_id (txs ! h) = h \<and> Tx_ok (txs ! h))"

text \<open>
  The pool: an entry leads to a transaction of its key, which is being served, unless it is
  a client transaction whose first send failed.
\<close>

definition pool_ok :: "Tx list \<Rightarrow> nat list \<Rightarrow> transactionPool \<Rightarrow> bool" where
  "pool_ok txs served pool \<longleftrightarrow>
     (\<forall>key h. tx_get key pool = Some h \<longrightarrow> h < length txs \<and> Tx_Key (txs ! h) = key \<and>
        (h \<in> set served \<or> (\<exists>t. txs ! h = ClientTx t \<and> ct_closed t)))"

definition serve_ok :: "Tx list \<Rightarrow> nat list \<Rightarrow> (nat \<rightharpoonup> nat) \<Rightarrow> bool" where
  "serve_ok txs served forwarded \<longleftrightarrow>
     distinct served \<and> (\<forall>h \<in> set served. h < length txs) \<and>
     (\<forall>h n. forwarded h = Some n \<longrightarrow> h < length txs \<and> n \<le> Tx_passed (txs ! h))"

text \<open>
  What the user is given. A request is an ACK without transaction, or carries a server transaction that it created or that passed
  it up, being an ACK or a CANCEL; a response carries no transaction, or the client transaction that passed it up.
\<close>

definition request_known :: "Tx list \<Rightarrow> request \<Rightarrow> bool" where
  "request_known txs r \<longleftrightarrow>
     (case m_tx r of
        None \<Rightarrow> IsAck r
      | Some h \<Rightarrow> h < length txs \<and>
          (\<exists>t. txs ! h = ServerTx t \<and> (st_origin t = r \<or> r \<in> set (st_requests t) \<and> (IsAck r \<or> IsCancel r))))"

definition response_known :: "Tx list \<Rightarrow> response \<Rightarrow> bool" where
  "response_known txs r \<longleftrightarrow>
     (case m_tx r of
        None \<Rightarrow> True
      | Some h \<Rightarrow> h < length txs \<and> (\<exists>t. txs ! h = ClientTx t \<and> r \<in> set (ct_responses t)))"

definition layer_ok :: "layer \<Rightarrow> bool" where
  "layer_ok txl \<longleftrightarrow>
     txs_ok (l_txs txl) \<and> pool_ok (l_txs txl) (l_served txl) (l_transactions txl) \<and>
     serve_ok (l_txs txl) (l_served txl) (l_forwarded txl) \<and>
     (\<forall>r \<in> set (l_requests txl). request_known (l_txs txl) r) \<and>
     (\<forall>r \<in> set (l_responses txl). response_known (l_txs txl) r) \<and>
     sessions_ok (l_sessionStore txl) \<and> (l_done txl \<longrightarrow> l_canceled txl \<and> l_served txl = [])"

lemma layer_okD:
  assumes "layer_ok txl" "h < length (l_txs txl)"
  shows "Tx_id (l_txs txl ! h) = h" "Tx_ok (l_txs txl ! h)"
  using assms by (simp_all add: layer_ok_def txs_ok_def)

lemma pool_entry:
  assumes "layer_ok txl" "tx_get key (l_transactions txl) = Some h"
  shows "h < length (l_txs txl)" "Tx_Key (l_txs txl ! h) = key"
  using assms by (auto simp: layer_ok_def pool_ok_def)

text \<open>A step of one transaction.\<close>

lemma known_frame:
  assumes "h < length txs" "Tx_frame (txs ! h) t"
  shows "request_known txs r \<Longrightarrow> request_known (txs[h := t]) r" "response_known txs q \<Longrightarrow> response_known (txs[h := t]) q"
proof -
  have server: "\<exists>s'. txs[h := t] ! k = ServerTx s' \<and> st_origin s' = st_origin s \<and> set (st_requests s) \<subseteq> set (st_requests s')"
    if "txs ! k = ServerTx s" for k s
    using that assms set_mono_prefix by (cases "k = h"; cases t) (fastforce simp: Tx_frame_def server_frame_def)+
  have client: "\<exists>s'. txs[h := t] ! k = ClientTx s' \<and> set (ct_responses s) \<subseteq> set (ct_responses s')"
    if "txs ! k = ClientTx s" for k s
    using that assms set_mono_prefix by (cases "k = h"; cases t) (fastforce simp: Tx_frame_def client_frame_def)+
  show "request_known txs r \<Longrightarrow> request_known (txs[h := t]) r"
    unfolding request_known_def using server by (fastforce split: option.splits)
  show "response_known txs q \<Longrightarrow> response_known (txs[h := t]) q"
    unfolding response_known_def using client by (fastforce split: option.splits)
qed

lemma layer_ok_set_tx:
  assumes ok: "layer_ok txl" and h: "h < length (l_txs txl)" and frame: "Tx_frame (l_txs txl ! h) t" and t: "Tx_ok t"
  shows "layer_ok (set_tx h t txl)"
proof -
  let ?txs = "(l_txs txl)[h := t]"
  have at: "Tx_Key (?txs ! k) = Tx_Key (l_txs txl ! k) \<and> Tx_id (?txs ! k) = Tx_id (l_txs txl ! k) \<and>
      (Tx_closed (l_txs txl ! k) \<longrightarrow> Tx_closed (?txs ! k)) \<and> Tx_passed (l_txs txl ! k) \<le> Tx_passed (?txs ! k) \<and>
      (Tx_ok (l_txs txl ! k) \<longrightarrow> Tx_ok (?txs ! k))" if "k < length (l_txs txl)" for k
    using Tx_frameD [OF frame] t h that by (cases "k = h") simp_all
  have client: "\<exists>c. ?txs ! k = ClientTx c \<and> ct_closed c" if "k < length (l_txs txl)" "l_txs txl ! k = ClientTx c" "ct_closed c" for k c
    using frame h that by (cases "k = h"; cases t) (auto simp: Tx_frame_def client_frame_def)
  have "txs_ok ?txs" using ok at by (simp add: layer_ok_def txs_ok_def)
  moreover have "pool_ok ?txs (l_served txl) (l_transactions txl)"
    using ok at client unfolding layer_ok_def pool_ok_def by (metis length_list_update)
  moreover have "serve_ok ?txs (l_served txl) (l_forwarded txl)"
    using ok at unfolding layer_ok_def serve_ok_def by (metis length_list_update order_trans)
  moreover have "\<forall>r \<in> set (l_requests txl). request_known ?txs r" "\<forall>r \<in> set (l_responses txl). response_known ?txs r"
    using ok known_frame [OF h frame] by (auto simp: layer_ok_def)
  ultimately show ?thesis using ok by (simp add: layer_ok_def set_tx_def)
qed

text \<open>A new transaction.\<close>

lemma set_tx_added:
  "Tx_Key t' = Tx_Key t \<Longrightarrow> set_tx (length (l_txs txl)) t' (add_tx t txl) = add_tx t' txl"
  by (simp add: set_tx_def add_tx_def)

lemma known_added:
  "request_known txs r \<Longrightarrow> request_known (txs @ [t]) r" "response_known txs q \<Longrightarrow> response_known (txs @ [t]) q"
proof -
  have at: "h < length txs \<Longrightarrow> (txs @ [t]) ! h = txs ! h \<and> h < length (txs @ [t])" for h by (simp add: nth_append)
  show "request_known txs r \<Longrightarrow> request_known (txs @ [t]) r"
    unfolding request_known_def using at by (auto split: option.splits)
  show "response_known txs q \<Longrightarrow> response_known (txs @ [t]) q"
    unfolding response_known_def using at by (auto split: option.splits)
qed

definition added :: "Tx \<Rightarrow> bool \<Rightarrow> layer \<Rightarrow> layer" where
  "added t served txl = (let txl1 = add_tx t txl in if served then start_serve (length (l_txs txl)) txl1 else txl1)"

lemma layer_ok_added:
  assumes ok: "layer_ok txl" and t: "Tx_id t = length (l_txs txl)" "Tx_ok t"
    and "served \<or> (\<exists>c. t = ClientTx c \<and> ct_closed c)" and "\<not> l_done txl"
  shows "layer_ok (added t served txl)"
proof -
  let ?n = "length (l_txs txl)" and ?txs = "l_txs txl @ [t]"
  let ?served = "if served then l_served txl @ [?n] else l_served txl"
  let ?fwd = "if served then (l_forwarded txl)(?n \<mapsto> 0) else l_forwarded txl"
  have fields: "l_txs (added t served txl) = ?txs" "l_served (added t served txl) = ?served"
    "l_forwarded (added t served txl) = ?fwd" "l_transactions (added t served txl) = tx_put (Tx_Key t) ?n (l_transactions txl)"
    "l_requests (added t served txl) = l_requests txl" "l_responses (added t served txl) = l_responses txl"
    "l_sessionStore (added t served txl) = l_sessionStore txl" "l_done (added t served txl) = l_done txl"
    by (simp_all add: added_def add_tx_def start_serve_def Let_def)
  have "txs_ok ?txs" using ok t by (simp add: layer_ok_def txs_ok_def nth_append less_Suc_eq)
  moreover have "pool_ok ?txs ?served (tx_put (Tx_Key t) ?n (l_transactions txl))"
    using ok assms(4) by (fastforce simp: layer_ok_def pool_ok_def txp.get_put nth_append less_Suc_eq split: if_splits)
  moreover have "serve_ok ?txs ?served ?fwd"
    using ok by (fastforce simp: layer_ok_def serve_ok_def nth_append less_Suc_eq split: if_splits)
  moreover have "\<forall>r \<in> set (l_requests txl). request_known ?txs r" "\<forall>r \<in> set (l_responses txl). response_known ?txs r"
    using ok known_added by (auto simp: layer_ok_def)
  ultimately show ?thesis
    unfolding layer_ok_def fields using ok assms(5) by (simp add: layer_ok_def)
qed

text \<open>Changes that leave the transactions alone.\<close>

lemma layer_ok_updates:
  "layer_ok txl \<Longrightarrow> sessions_ok s \<Longrightarrow> layer_ok (txl\<lparr>l_sessionStore := s\<rparr>)"
  "layer_ok txl \<Longrightarrow> layer_ok (txl\<lparr>l_sent := m\<rparr>)"
  "layer_ok txl \<Longrightarrow> request_known (l_txs txl) r \<Longrightarrow> layer_ok (txl\<lparr>l_requests := l_requests txl @ [r]\<rparr>)"
  "layer_ok txl \<Longrightarrow> response_known (l_txs txl) q \<Longrightarrow> layer_ok (txl\<lparr>l_responses := l_responses txl @ [q]\<rparr>)"
  "layer_ok txl \<Longrightarrow> layer_ok (layer_Close txl)"
  "layer_ok txl \<Longrightarrow> l_canceled txl \<Longrightarrow> l_served txl = [] \<Longrightarrow> layer_ok (listen_end txl)"
  by (auto simp: layer_ok_def layer_Close_def listen_end_def)

lemma layer_ok_passUp:
  "layer_ok txl \<Longrightarrow> request_known (l_txs txl) r \<Longrightarrow> layer_ok (passUp_request env r txl)"
  "layer_ok txl \<Longrightarrow> response_known (l_txs txl) q \<Longrightarrow> layer_ok (passUp_response env q txl)"
  by (simp_all add: passUp_request_def passUp_response_def layer_ok_updates)

text \<open>What the session operations leave alone.\<close>

definition same_but_sessions :: "layer \<Rightarrow> layer \<Rightarrow> bool" where
  "same_but_sessions a b \<longleftrightarrow> (\<exists>s. b = a\<lparr>l_sessionStore := s\<rparr> \<and> (sessions_ok (l_sessionStore a) \<longrightarrow> sessions_ok s))"

lemma same_but_sessionsD:
  assumes "same_but_sessions a b"
  shows "l_txs b = l_txs a" "l_transactions b = l_transactions a" "l_served b = l_served a"
    "l_requests b = l_requests a" "l_responses b = l_responses a" "l_sent b = l_sent a"
    "l_canceled b = l_canceled a" "l_done b = l_done a" "l_forwarded b = l_forwarded a" "layer_ok a \<Longrightarrow> layer_ok b"
  using assms layer_ok_updates(1) by (auto simp: same_but_sessions_def layer_ok_def)

lemma same_but_sessionsI:
  "(sessions_ok (l_sessionStore txl) \<Longrightarrow> sessions_ok s) \<Longrightarrow> same_but_sessions txl (txl\<lparr>l_sessionStore := s\<rparr>)"
  "same_but_sessions txl txl"
proof -
  show "(sessions_ok (l_sessionStore txl) \<Longrightarrow> sessions_ok s) \<Longrightarrow> same_but_sessions txl (txl\<lparr>l_sessionStore := s\<rparr>)"
    unfolding same_but_sessions_def by blast
  show "same_but_sessions txl txl" unfolding same_but_sessions_def by (rule exI [of _ "l_sessionStore txl"]) simp
qed

lemma updateSession_same: "updateSession req txl = Ok txl' \<Longrightarrow> same_but_sessions txl txl'"
  using sessions_ok_update [OF _ session_ok_ops(2) session_fields(2)]
  by (auto simp: updateSession_def outcome_simps Let_def split: option.splits intro!: same_but_sessionsI)

lemma handleSession_same: "handleSession method resp txl = Ok txl' \<Longrightarrow> same_but_sessions txl txl'"
proof -
  assume step: "handleSession method resp txl = Ok txl'"
  have put: "sessions_ok (sp_put id (length (sp_heap s)) (sp_new n s))"
    if "SaveMessage m (CreateSession id) = Ok n" "sessions_ok s" for id m n s
    using that session_ok_SaveMessage [OF session_ok_ops(1) that(1)] SaveMessage_fields(3) [OF that(1)]
    by (intro sessions_ok_new) (simp_all add: CreateSession_def)
  from step show ?thesis
    by (auto simp: handleSession_def outcome_simps Let_def split: if_splits
        intro!: same_but_sessionsI put sessions_ok_drop)
qed

text \<open>Sending.\<close>

lemma client_Init_failed_closed:
  assumes "client_spins spin spin" "NewClientTx h rel req = Ok tx" "client_Init spin env tx = Some (Ok (tx', Some err))"
  shows "ct_closed tx'"
proof (cases "e_Send env (Req (ct_origin tx))")
  case None
  with assms(3) client_Init_frame_new(6) [OF assms(2)] show ?thesis
    by (auto simp: client_Init_def client_send_def Let_def split: if_splits)
next
  case (Some e)
  let ?tx = "tx\<lparr>ct_state := clientStateCalling, ct_sent := ct_sent tx @ [Req (ct_origin tx)], ct_lastErr := Some e\<rparr>"
  have "tx' = client_failed ?tx"
    using assms(3) Some
    by (auto simp: client_Init_def client_send_def client_spin_TransportErr [OF assms(1)] client_fails_def)
  then show ?thesis by (simp add: client_failed_def client_delete_def)
qed

text \<open>A request that gets a client transaction.\<close>

lemma sendRequest_create:
  assumes law: "client_spins spin spin" and step: "sendRequest spin env req txl = Some (Ok (txl', r, e))"
    and live: "\<not> l_canceled txl" "\<not> IsAck req" and upd: "updateSession req txl = Ok txl1"
    and Ok: "NewClientTx (length (l_txs txl)) (le_IsReliable env) req = Ok tx"
  obtains tx' where "client_Init spin (le_tx env) tx = Some (Ok (tx', e))" "client_frame tx tx'"
    "txl' = added (ClientTx tx') (e = None) txl1" "r = (if e = None then Some (length (l_txs txl)) else None)"
proof -
  note txl1 = same_but_sessionsD [OF updateSession_same [OF upd]]
  let ?n = "length (l_txs txl)" and ?txl2 = "add_tx (ClientTx tx) txl1"
  have "sendRequest spin env req txl = tbind (client_Init spin (le_tx env) tx) (\<lambda>(tx', err).
      case err of Some e \<Rightarrow> Some (Ok (set_tx ?n (ClientTx tx') ?txl2, None, Some e))
      | None \<Rightarrow> Some (Ok (start_serve ?n (set_tx ?n (ClientTx tx') ?txl2), Some ?n, None)))"
    using live upd txl1(1) Ok by (simp add: sendRequest_def Let_def)
  with step obtain tx' e' where init: "client_Init spin (le_tx env) tx = Some (Ok (tx', e'))"
    and res: "(case e' of Some e \<Rightarrow> Some (Ok (set_tx ?n (ClientTx tx') ?txl2, None, Some e))
      | None \<Rightarrow> Some (Ok (start_serve ?n (set_tx ?n (ClientTx tx') ?txl2), Some ?n, None))) = Some (Ok (txl', r, e))"
    by (auto simp: tbind_eq_Ok)
  note frame = client_frame_Init [OF law init]
  have "set_tx ?n (ClientTx tx') ?txl2 = add_tx (ClientTx tx') txl1"
    using set_tx_added [of "ClientTx tx'" "ClientTx tx" txl1] frame txl1(1) by (simp add: client_frame_def)
  with res txl1(1) have "e' = e" "txl' = added (ClientTx tx') (e = None) txl1" "r = (if e = None then Some ?n else None)"
    by (auto simp: added_def split: option.splits)
  with init frame show thesis by (intro that) simp_all
qed

lemma sendRequest_shape:
  assumes law: "client_spins spin spin" and step: "sendRequest spin env req txl = Some (Ok (txl', r, e))"
  obtains (canceled) "l_canceled txl" "txl' = txl" "r = None" "e \<noteq> None"
  | (ack) txl1 where "\<not> l_canceled txl" "same_but_sessions txl txl1" "IsAck req"
      "txl' = txl1\<lparr>l_sent := l_sent txl @ [Req req]\<rparr>" "r = None" "e = e_Send (le_tx env) (Req req)"
  | (nokey) err where "\<not> l_canceled txl" "same_but_sessions txl txl'" "\<not> IsAck req" "MakeClientTxKey (Req req) = Fail err" "r = None" "e = Some err"
  | (new) txl1 tx tx' where "\<not> l_canceled txl" "same_but_sessions txl txl1" "\<not> IsAck req"
      "NewClientTx (length (l_txs txl)) (le_IsReliable env) req = Ok tx"
      "client_Init spin (le_tx env) tx = Some (Ok (tx', e))" "client_frame tx tx'" "client_ok tx'"
      "txl' = added (ClientTx tx') (e = None) txl1" "r = (if e = None then Some (length (l_txs txl)) else None)"
      "e \<noteq> None \<Longrightarrow> ct_closed tx'"
proof (cases "l_canceled txl")
  case True
  with step have "txl' = txl" "r = None" "e \<noteq> None" by (auto simp: sendRequest_def)
  with True show thesis by (rule canceled)
next
  case False
  with step obtain txl1 where upd: "updateSession req txl = Ok txl1"
    by (auto simp: sendRequest_def tbind_eq_Ok split: outcome.splits)
  note same = updateSession_same [OF upd] and txl1 = same_but_sessionsD [OF updateSession_same [OF upd]]
  show thesis
  proof (cases "IsAck req")
    case True
    with False step upd txl1 show thesis by (intro ack [of txl1]) (simp_all add: sendRequest_def same)
  next
    case nack: False
    show thesis
    proof (cases "NewClientTx (length (l_txs txl)) (le_IsReliable env) req")
      case (Ok tx)
      obtain tx' where init: "client_Init spin (le_tx env) tx = Some (Ok (tx', e))" "client_frame tx tx'"
        "txl' = added (ClientTx tx') (e = None) txl1" "r = (if e = None then Some (length (l_txs txl)) else None)"
        by (rule sendRequest_create [OF law step False nack upd Ok])
      with client_ok_Init [OF law Ok init(1)] client_Init_failed_closed [OF law Ok] False nack show thesis
        by (intro new [of txl1 tx tx']) (auto simp: same Ok)
    next
      case (Fail err)
      then have "MakeClientTxKey (Req req) = Fail err"
        by (cases "MakeClientTxKey (Req req)") (simp_all add: NewClientTx_def)
      moreover have "txl' = txl1" "r = None" "e = Some err"
        using Fail False nack step upd txl1(1) by (simp_all add: sendRequest_def Let_def)
      ultimately show thesis using False nack same nokey by simp
    next
      case Panic
      with False nack step upd txl1 show thesis by (simp add: sendRequest_def Let_def)
    qed
  qed
qed

lemma layer_ok_sendRequest:
  assumes law: "client_spins spin spin" and ok: "layer_ok txl"
    and step: "sendRequest spin env req txl = Some (Ok (txl', r, e))"
  shows "layer_ok txl'"
  using law step
proof (cases rule: sendRequest_shape)
  case canceled
  with ok show ?thesis by simp
next
  case (ack txl1)
  with ok same_but_sessionsD(10) [OF ack(2)] show ?thesis by (simp add: layer_ok_updates)
next
  case (nokey err)
  with ok same_but_sessionsD(10) show ?thesis by blast
next
  case (new txl1 tx tx')
  note s = same_but_sessionsD [OF new(2)]
  have "ct_id tx' = length (l_txs txl)" using new(4,6) client_Init_frame_new(2) by (auto simp: client_frame_def)
  moreover have "\<not> l_done txl1" using ok new(1) s by (simp add: layer_ok_def)
  moreover have "e = None \<or> (\<exists>c. ClientTx tx' = ClientTx c \<and> ct_closed c)" using new(10) by (cases e) auto
  ultimately show ?thesis
    unfolding new(8) using new(7) s(1,10) ok by (intro layer_ok_added) simp_all
qed

lemma getServerTx_Ok:
  assumes "layer_ok txl" "getServerTx msg txl = Ok (h, tx)"
  shows "h < length (l_txs txl)" "l_txs txl ! h = ServerTx tx" "MakeServerTxKey msg = Ok (st_key tx)" "server_ok tx" "st_id tx = h"
proof -
  obtain key where key: "MakeServerTxKey msg = Ok key" "tx_get key (l_transactions txl) = Some h" "l_txs txl ! h = ServerTx tx"
    using assms(2) by (auto simp: getServerTx_def split: outcome.splits option.splits Tx.splits)
  show "h < length (l_txs txl)" "l_txs txl ! h = ServerTx tx" "MakeServerTxKey msg = Ok (st_key tx)" "server_ok tx" "st_id tx = h"
    using pool_entry [OF assms(1) key(2)] key layer_okD [OF assms(1), of h] by auto
qed

lemma getClientTx_Ok:
  assumes "layer_ok txl" "getClientTx msg txl = Ok (h, tx)"
  shows "h < length (l_txs txl)" "l_txs txl ! h = ClientTx tx" "MakeClientTxKey msg = Ok (ct_key tx)" "client_ok tx" "ct_id tx = h"
proof -
  obtain key where key: "MakeClientTxKey msg = Ok key" "tx_get key (l_transactions txl) = Some h" "l_txs txl ! h = ClientTx tx"
    using assms(2) by (auto simp: getClientTx_def split: outcome.splits option.splits Tx.splits)
  show "h < length (l_txs txl)" "l_txs txl ! h = ClientTx tx" "MakeClientTxKey msg = Ok (ct_key tx)" "client_ok tx" "ct_id tx = h"
    using pool_entry [OF assms(1) key(2)] key layer_okD [OF assms(1), of h] by auto
qed

lemma layer_ok_sendResponse:
  assumes law: "server_spins spin" and ok: "layer_ok txl"
    and step: "sendResponse spin env res txl = Some (Ok (txl', r, e))"
  shows "layer_ok txl'"
proof (cases "l_canceled txl")
  case True
  with step ok show ?thesis by (simp add: sendResponse_def)
next
  case False
  show ?thesis
  proof (cases "getServerTx (Res res) txl")
    case (Ok htx)
    obtain h tx where htx: "htx = (h, tx)" by (cases htx)
    note get = getServerTx_Ok [OF ok Ok [unfolded htx]]
    obtain txl1 tx' where *: "handleSession (r_method (st_origin tx)) res txl = Ok txl1"
      "SendResponse spin (le_tx env) res tx = Some (Ok (tx', e))" "txl' = set_tx h (ServerTx tx') txl1"
      using step False Ok htx by (auto simp: sendResponse_def tbind_eq_Ok Let_def split: outcome.splits option.splits)
    note s = same_but_sessionsD [OF handleSession_same [OF *(1)]]
    show ?thesis unfolding *(3)
      using server_frame_Send [OF law *(2)] server_ok_Send [OF law get(4) *(2)] get s ok
      by (intro layer_ok_set_tx) simp_all
  qed (use False step ok in \<open>auto simp: sendResponse_def\<close>)
qed

text \<open>Receiving.\<close>

lemma server_ok_origin:
  assumes "server_ok t" "IsInvite req = IsInvite (st_origin t)"
  shows "server_ok (t\<lparr>st_origin := req\<rparr>)"
proof -
  have "st_invite (t\<lparr>st_origin := req\<rparr>) = st_invite t" using assms(2) by (simp add: st_invite_def)
  with assms(1) show ?thesis by (cases "st_invite t") (auto simp: server_ok_def server_base_def server_armed_def)
qed

definition new_server :: "layer_env \<Rightarrow> nat \<Rightarrow> request \<Rightarrow> serverTx \<Rightarrow> serverTx" where
  "new_server env h req tx = (server_Init tx)\<lparr>st_origin := req\<lparr>m_tx := Some h\<rparr>\<rparr>"

text \<open>A request without a transaction that is neither ACK nor CANCEL.\<close>

lemma handleRequest_create:
  assumes step: "layer_handleRequest spin env req txl = Some (Ok txl')" and live: "\<not> l_canceled txl"
    and kind: "\<not> IsAck req" "\<not> IsCancel req"
    and upd: "updateSession req txl = Ok txl1" and none: "getServerTx (Req req) txl1 = Fail err"
  obtains (nokey) e where "MakeServerTxKey (Req req) = Fail e" "txl' = txl1"
  | (new) tx where "NewServerTx (length (l_txs txl)) (le_IsReliable env) req = Ok tx"
      "txl' = passUp_request env (req\<lparr>m_tx := Some (length (l_txs txl))\<rparr>)
         (added (ServerTx (new_server env (length (l_txs txl)) req tx)) True txl1)"
proof (cases "NewServerTx (length (l_txs txl)) (le_IsReliable env) req")
  case (Ok tx)
  with assms same_but_sessionsD(1) [OF updateSession_same [OF upd]] show thesis
    by (intro new) (auto simp: layer_handleRequest_def Let_def added_def new_server_def)
next
  case (Fail e)
  then have "MakeServerTxKey (Req req) = Fail e" by (cases "MakeServerTxKey (Req req)") (simp_all add: NewServerTx_def)
  with Fail assms same_but_sessionsD(1) [OF updateSession_same [OF upd]] show thesis
    by (intro nokey) (simp_all add: layer_handleRequest_def Let_def)
next
  case Panic
  with assms same_but_sessionsD(1) [OF updateSession_same [OF upd]] show thesis by (simp add: layer_handleRequest_def Let_def)
qed

lemma handleRequest_shape:
  assumes law: "server_spins spin" and ok: "layer_ok txl" and live: "\<not> l_canceled txl"
    and step: "layer_handleRequest spin env req txl = Some (Ok txl')"
  obtains (matched) txl1 h tx tx' e where "same_but_sessions txl txl1" "getServerTx (Req req) txl1 = Ok (h, tx)"
      "server_Receive spin (le_tx env) (Req req) tx = Some (Ok (tx', e))" "txl' = set_tx h (ServerTx tx') txl1"
  | (ack) txl1 err where "same_but_sessions txl txl1" "getServerTx (Req req) txl1 = Fail err" "IsAck req"
      "txl' = passUp_request env req txl1"
  | (cancel) txl1 err res where "same_but_sessions txl txl1" "getServerTx (Req req) txl1 = Fail err" "IsCancel req"
      "CreateResponse (e_uuid (le_tx env)) (e_addr (le_tx env)) (e_random (le_tx env)) 481 req = Ok res"
      "txl' = txl1\<lparr>l_sent := l_sent txl @ [Res res]\<rparr>"
  | (nokey) err where "same_but_sessions txl txl'" "MakeServerTxKey (Req req) = Fail err" "\<not> IsAck req" "\<not> IsCancel req"
  | (new) txl1 tx err where "same_but_sessions txl txl1" "getServerTx (Req req) txl1 = Fail err" "\<not> IsAck req" "\<not> IsCancel req"
      "NewServerTx (length (l_txs txl)) (le_IsReliable env) req = Ok tx"
      "txl' = passUp_request env (req\<lparr>m_tx := Some (length (l_txs txl))\<rparr>)
         (added (ServerTx (new_server env (length (l_txs txl)) req tx)) True txl1)"
proof -
  from step live obtain txl1 where upd: "updateSession req txl = Ok txl1"
    by (auto simp: layer_handleRequest_def tbind_eq_Ok split: outcome.splits)
  note same = updateSession_same [OF upd] and txl1 = same_but_sessionsD [OF updateSession_same [OF upd]]
  show thesis
  proof (cases "getServerTx (Req req) txl1")
    case (Ok htx)
    obtain h tx where htx: "htx = (h, tx)" by (cases htx)
    from step live upd Ok htx obtain tx' e where
      "server_Receive spin (le_tx env) (Req req) tx = Some (Ok (tx', e))" "txl' = set_tx h (ServerTx tx') txl1"
      by (auto simp: layer_handleRequest_def tbind_eq_Ok)
    with same Ok [unfolded htx] show thesis by (rule matched)
  next
    case (Fail err)
    consider "IsAck req" | "\<not> IsAck req" "IsCancel req" | "\<not> IsAck req" "\<not> IsCancel req" by blast
    then show thesis
    proof cases
      case 1
      with step live upd Fail have "txl' = passUp_request env req txl1" by (simp add: layer_handleRequest_def)
      with same Fail 1 show thesis by (rule ack)
    next
      case 2
      with step live upd Fail txl1(6) obtain res where
        "CreateResponse (e_uuid (le_tx env)) (e_addr (le_tx env)) (e_random (le_tx env)) 481 req = Ok res"
        "txl' = txl1\<lparr>l_sent := l_sent txl @ [Res res]\<rparr>"
        by (auto simp: layer_handleRequest_def Let_def tbind_eq_Ok split: outcome.splits)
      with same Fail 2(2) show thesis by (rule cancel)
    next
      case 3
      from step live 3 upd Fail show thesis
        by (cases rule: handleRequest_create) (use same Fail 3 in \<open>auto intro: nokey new\<close>)
    qed
  next
    case Panic
    with step live upd show thesis by (simp add: layer_handleRequest_def)
  qed
qed

lemma layer_ok_handleRequest:
  assumes law: "server_spins spin" and ok: "layer_ok txl" and bare: "m_tx req = None"
    and step: "layer_handleRequest spin env req txl = Some (Ok txl')"
  shows "layer_ok txl'"
proof (cases "l_canceled txl")
  case True
  with step ok show ?thesis by (simp add: layer_handleRequest_def)
next
  case False
  from law ok False step show ?thesis
  proof (cases rule: handleRequest_shape)
    case (matched txl1 h tx tx' e)
    note ok1 = same_but_sessionsD(10) [OF matched(1) ok]
    note get = getServerTx_Ok [OF ok1 matched(2)]
    show ?thesis unfolding matched(4)
      using server_frame_Receive [OF law matched(3)] server_ok_Receive [OF law get(4) matched(3)] get ok1
      by (intro layer_ok_set_tx) simp_all
  next
    case (ack txl1 err)
    then show ?thesis
      using same_but_sessionsD(10) [OF ack(1) ok] bare by (simp add: layer_ok_passUp request_known_def)
  next
    case (cancel txl1 err res)
    then show ?thesis using same_but_sessionsD(10) [OF cancel(1) ok] by (simp add: layer_ok_updates)
  next
    case (nokey err)
    then show ?thesis using same_but_sessionsD(10) ok by blast
  next
    case (new txl1 tx err)
    let ?n = "length (l_txs txl)" and ?t = "new_server env (length (l_txs txl)) req tx"
    note s = same_but_sessionsD [OF new(1)] and fresh = server_Init_frame_new [OF new(5)]
    have "server_ok ?t" unfolding new_server_def
      by (rule server_ok_origin [OF server_ok_Init [OF new(5)]]) (simp add: fresh IsInvite_def)
    moreover have "\<not> l_done txl1" using ok False s by (simp add: layer_ok_def)
    ultimately have "layer_ok (added (ServerTx ?t) True txl1)"
      using s(1,10) ok fresh(2) by (intro layer_ok_added) (simp_all add: new_server_def)
    moreover have "request_known (l_txs (added (ServerTx ?t) True txl1)) (req\<lparr>m_tx := Some ?n\<rparr>)"
      using s(1) by (simp add: request_known_def added_def add_tx_def start_serve_def new_server_def)
    ultimately show ?thesis unfolding new(6) by (rule layer_ok_passUp)
  qed
qed

lemma layer_ok_handleResponse:
  assumes law: "client_spins spin spin" and ok: "layer_ok txl"
    and step: "layer_handleResponse spin env res txl = Some (Ok txl')"
  shows "layer_ok txl'"
proof (cases "l_canceled txl")
  case True
  with step ok show ?thesis by (simp add: layer_handleResponse_def)
next
  case False
  show ?thesis
  proof (cases "getClientTx (Res res) txl")
    case (Ok htx)
    obtain h tx where htx: "htx = (h, tx)" by (cases htx)
    note get = getClientTx_Ok [OF ok Ok [unfolded htx]]
    obtain tx' e where *: "client_Receive spin (le_tx env) (Res res) tx = Some (Ok (tx', e))" "txl' = set_tx h (ClientTx tx') txl"
      using step False Ok htx by (auto simp: layer_handleResponse_def tbind_eq_Ok)
    have "client_step spin (le_tx env) (CReceive (Res res)) tx = Some (Ok tx')" using *(1) by simp
    then have "client_ok tx'" by (rule client_ok_step [OF law get(4)])
    then show ?thesis unfolding *(2)
      using client_frame_Receive [OF law *(1)] get ok by (intro layer_ok_set_tx) simp_all
  next
    case (Fail err)
    with step False ok show ?thesis by (auto simp: layer_handleResponse_def response_known_def intro: layer_ok_passUp)
  next
    case Panic
    with step False show ?thesis by (simp add: layer_handleResponse_def)
  qed
qed

text \<open>The goroutines.\<close>

lemma layer_ok_forward:
  assumes ok: "layer_ok txl" and enabled: "layer_enabled (LForward h) txl" and step: "forward_next h txl = Some (Ok txl')"
  shows "layer_ok txl'"
proof -
  obtain n where n: "l_forwarded txl h = Some n" "n < Tx_passed (l_txs txl ! h)"
    using enabled by (auto split: option.splits)
  have h: "h < length (l_txs txl)" using ok n(1) by (auto simp: layer_ok_def serve_ok_def)
  let ?txl = "txl\<lparr>l_forwarded := (l_forwarded txl)(h \<mapsto> n + 1)\<rparr>"
  have ok1: "layer_ok ?txl" using ok n h by (auto simp: layer_ok_def serve_ok_def)
  show ?thesis
  proof (cases "l_txs txl ! h")
    case (ClientTx tx)
    obtain txl2 where txl2: "handleSession (r_method (ct_origin tx)) (ct_responses tx ! n) ?txl = Ok txl2"
      "txl' = txl2\<lparr>l_responses := l_responses txl2 @ [ct_responses tx ! n]\<rparr>"
      using step n(1) ClientTx by (auto simp: forward_next_def Let_def tbind_eq_Ok split: outcome.splits if_splits)
    note s = same_but_sessionsD [OF handleSession_same [OF txl2(1)]]
    have "ct_responses tx ! n \<in> set (ct_responses tx)" using n(2) ClientTx by (simp add: Tx_passed_def)
    moreover from this have "m_tx (ct_responses tx ! n) = Some h"
      using layer_okD [OF ok h] ClientTx by (simp add: client_ok_def responses_ok_def)
    ultimately have "response_known (l_txs txl2) (ct_responses tx ! n)"
      using h ClientTx s(1) by (simp add: response_known_def)
    then show ?thesis unfolding txl2(2) using s(10) ok1 by (intro layer_ok_updates)
  next
    case (ServerTx tx)
    then have txl': "txl' = ?txl\<lparr>l_requests := l_requests ?txl @ [st_requests tx ! n]\<rparr>"
      using step n(1) by (auto simp: forward_next_def Let_def split: if_splits)
    have "st_requests tx ! n \<in> set (st_requests tx)" using n(2) ServerTx by (simp add: Tx_passed_def)
    moreover from this have "m_tx (st_requests tx ! n) = Some h" "IsAck (st_requests tx ! n) \<or> IsCancel (st_requests tx ! n)"
      using layer_okD [OF ok h] ServerTx by (simp_all add: server_ok_def server_base_def)
    ultimately have "request_known (l_txs ?txl) (st_requests tx ! n)" using h ServerTx by (simp add: request_known_def)
    then show ?thesis unfolding txl' using ok1 by (intro layer_ok_updates)
  qed
qed

lemma server_ok_Close: "server_ok tx \<Longrightarrow> server_ok (server_Close tx)"
  by (simp add: server_Close_def server_ok_deleted) (simp add: server_ok_def)

lemma Tx_Close_ok: "Tx_ok tx \<Longrightarrow> Tx_frame tx (Tx_Close tx) \<and> Tx_ok (Tx_Close tx)"
  by (cases tx) (simp_all add: client_frame_helpers server_frame_helpers client_ok_Close server_ok_Close)

lemma layer_ok_dropped:
  assumes ok: "layer_ok txl" and h: "h \<in> set (l_served txl)" and key: "key = Tx_Key (l_txs txl ! h)"
  shows "layer_ok (txl\<lparr>l_transactions := snd (tx_drop key (l_transactions txl)), l_served := remove1 h (l_served txl)\<rparr>)"
proof -
  have "pool_ok (l_txs txl) (remove1 h (l_served txl)) (snd (tx_drop key (l_transactions txl)))"
    unfolding pool_ok_def txp.get_drop
  proof (intro allI impI)
    fix k h' assume "(if k = key then None else tx_get k (l_transactions txl)) = Some h'"
    then have *: "k \<noteq> key" "tx_get k (l_transactions txl) = Some h'" by (auto split: if_splits)
    from ok *(2) have "h' < length (l_txs txl) \<and> Tx_Key (l_txs txl ! h') = k \<and>
        (h' \<in> set (l_served txl) \<or> (\<exists>t. l_txs txl ! h' = ClientTx t \<and> ct_closed t))"
      unfolding layer_ok_def pool_ok_def by blast
    moreover from this have "h' \<noteq> h" using *(1) key by metis
    ultimately show "h' < length (l_txs txl) \<and> Tx_Key (l_txs txl ! h') = k \<and>
        (h' \<in> set (remove1 h (l_served txl)) \<or> (\<exists>t. l_txs txl ! h' = ClientTx t \<and> ct_closed t))" by auto
  qed
  moreover have "serve_ok (l_txs txl) (remove1 h (l_served txl)) (l_forwarded txl)"
    using ok notin_set_remove1 unfolding layer_ok_def serve_ok_def by (metis distinct_remove1)
  ultimately show ?thesis using ok h by (auto simp: layer_ok_def)
qed

lemma layer_ok_serve_end:
  assumes ok: "layer_ok txl" and h: "h \<in> set (l_served txl)"
  shows "layer_ok (serve_end h txl)"
proof (cases "l_canceled txl")
  case True
  let ?tx = "l_txs txl ! h" and ?txl = "set_tx h (Tx_Close (l_txs txl ! h)) txl"
  have len: "h < length (l_txs txl)" using ok h by (auto simp: layer_ok_def serve_ok_def)
  note close = Tx_Close_ok [OF layer_okD(2) [OF ok len]]
  have "layer_ok ?txl" using layer_ok_set_tx [OF ok len] close by blast
  moreover have "h \<in> set (l_served ?txl)" using h by (simp add: set_tx_def)
  moreover have "Tx_Key ?tx = Tx_Key (l_txs ?txl ! h)" using Tx_frameD(1) [OF close [THEN conjunct1]] len by (simp add: set_tx_def)
  ultimately have "layer_ok (?txl\<lparr>l_transactions := snd (tx_drop (Tx_Key ?tx) (l_transactions ?txl)),
      l_served := remove1 h (l_served ?txl)\<rparr>)" by (rule layer_ok_dropped)
  with True show ?thesis by (simp add: serve_end_def Let_def)
next
  case False
  with layer_ok_dropped [OF ok h refl] show ?thesis by (simp add: serve_end_def Let_def)
qed

lemma layer_ok_client_step:
  assumes law: "client_spins cspin cspin" and ok: "layer_ok txl" and h: "h < length (l_txs txl)" "l_txs txl ! h = ClientTx tx"
    and step: "client_step cspin env cev tx = Some (Ok tx')"
  shows "layer_ok (set_tx h (ClientTx tx') txl)"
proof -
  have "client_ok tx" using layer_okD(2) [OF ok h(1)] h(2) by simp
  from client_ok_step [OF law this step] client_frame_step [OF law step] h ok show ?thesis by (intro layer_ok_set_tx) simp_all
qed

lemma layer_ok_server_step:
  assumes law: "server_spins sspin" and ok: "layer_ok txl" and h: "h < length (l_txs txl)" "l_txs txl ! h = ServerTx tx"
    and step: "server_step sspin env sev tx = Some (Ok tx')"
  shows "layer_ok (set_tx h (ServerTx tx') txl)"
proof -
  have "server_ok tx" using layer_okD(2) [OF ok h(1)] h(2) by simp
  from server_ok_step [OF law this step] server_frame_step [OF law step] h ok show ?thesis by (intro layer_ok_set_tx) simp_all
qed

lemma layer_ok_step:
  assumes laws: "client_spins cspin cspin" "server_spins sspin" and ok: "layer_ok txl"
    and enabled: "layer_enabled ev txl" and step: "layer_step cspin sspin env ev txl = Some (Ok txl')"
  shows "layer_ok txl'"
proof (cases ev)
  case (LSend msg)
  then obtain r e where "layer_Send cspin sspin env msg txl = Some (Ok (txl', r, e))"
    using step by (auto simp: tbind_eq_Ok)
  then show ?thesis
    using layer_ok_sendRequest [OF laws(1) ok] layer_ok_sendResponse [OF laws(2) ok]
    by (cases msg) (auto simp: layer_Send_def)
next
  case (LMessage msg)
  then show ?thesis
    using step enabled ok layer_ok_handleRequest [OF laws(2) ok] layer_ok_handleResponse [OF laws(1) ok]
    by (cases msg) (auto simp: handleMessage_def split: if_splits)
next
  case (LClient h cev)
  with step enabled show ?thesis by (auto simp: tbind_eq_Ok split: Tx.splits intro: layer_ok_client_step [OF laws(1) ok])
next
  case (LServer h sev)
  with step enabled show ?thesis by (auto simp: tbind_eq_Ok split: Tx.splits intro: layer_ok_server_step [OF laws(2) ok])
next
  case (LForward h)
  with step enabled ok show ?thesis by (auto intro: layer_ok_forward)
next
  case (LServeEnd h)
  with step enabled ok show ?thesis by (auto intro: layer_ok_serve_end)
next
  case (LSessionEnd s)
  with step ok show ?thesis
    by (auto simp: listenSession_def layer_ok_def intro: sessions_ok_drop)
next
  case (LSessionClose s)
  have "sessions_ok (l_sessionStore txl)" using ok by (simp add: layer_ok_def)
  from sessions_ok_update [OF this session_ok_ops(3) session_fields(1), of s] LSessionClose step ok
  show ?thesis by (auto simp: Let_def intro: layer_ok_updates)
qed (use step enabled ok in \<open>auto intro: layer_ok_updates\<close>)

lemma layer_ok_created: "layer_ok CreateLayer"
  by (simp add: layer_ok_def CreateLayer_def txs_ok_def pool_ok_def serve_ok_def txp.get_empty sessions_ok_def
      sps.get_empty) (simp add: createSessionPool_def)

lemma layer_reachable_ok:
  assumes "client_spins cspin cspin" "server_spins sspin" "layer_reachable cspin sspin txl"
  shows "layer_ok txl"
  using assms(3) by induction (blast intro: layer_ok_created layer_ok_step [OF assms(1,2)])+

end
