(* ===== verification/Gsip_Layer_Properties.thy ===== *)
theory Gsip_Layer_Properties
  imports Gsip_Layer
begin

text \<open>
  The properties of the transaction layer: its invariant, the ways of a request and of a
  response through it, and the life of sessions.
\<close>

section \<open>Lemmas\<close>

lemma DialogId_total:
  assumes "headers_ok (m_headers msg)"
  obtains id where "DialogId msg = Ok id"
proof -
  let ?hs = "m_headers msg"
  have from_ok: "\<exists>v. (case get_From ?hs of Some f \<Rightarrow> params_value (ah_Params f) ''tag'' | None \<Rightarrow> Ok NilStr) = Ok v"
  proof (cases "get_From ?hs")
    case (Some f)
    from headers_ok_get_From [OF assms Some] Some show ?thesis by (elim address_okE) (simp add: params_value_def)
  qed simp
  have to_ok: "\<exists>v. (case get_To ?hs of Some t \<Rightarrow> params_value (ah_Params t) ''tag'' | None \<Rightarrow> Ok NilStr) = Ok v"
  proof (cases "get_To ?hs")
    case (Some t)
    from headers_ok_get_To [OF assms Some] Some show ?thesis by (elim address_okE) (simp add: params_value_def)
  qed simp
  from from_ok to_ok that show thesis by (auto simp: DialogId_def Let_def)
qed

lemma updateSession_total:
  assumes "headers_ok (m_headers req)"
  obtains txl1 where "updateSession req txl = Ok txl1" "same_but_sessions txl txl1"
proof -
  obtain id where "DialogId req = Ok id" by (rule DialogId_total [OF assms])
  then have "\<exists>txl1. updateSession req txl = Ok txl1"
    by (simp add: updateSession_def Let_def split: option.split)
  then obtain txl1 where "updateSession req txl = Ok txl1" ..
  with updateSession_same [OF this] that show thesis by blast
qed

lemma getServerTx_same:
  assumes "same_but_sessions a b"
  shows "getServerTx msg b = getServerTx msg a"
  unfolding getServerTx_def same_but_sessionsD(1,2) [OF assms] by (rule refl)

lemma added_fields [simp]:
  "l_txs (added t s txl) = l_txs txl @ [t]"
  "l_transactions (added t s txl) = tx_put (Tx_Key t) (length (l_txs txl)) (l_transactions txl)"
  "l_requests (added t s txl) = l_requests txl" "l_canceled (added t s txl) = l_canceled txl"
  "l_served (added t s txl) = (if s then l_served txl @ [length (l_txs txl)] else l_served txl)"
  by (simp_all add: added_def add_tx_def start_serve_def Let_def)

lemma passUp_request_fields [simp]:
  "l_txs (passUp_request env r txl) = l_txs txl" "l_transactions (passUp_request env r txl) = l_transactions txl"
  "l_canceled (passUp_request env r txl) = l_canceled txl" "l_served (passUp_request env r txl) = l_served txl"
  "l_requests (passUp_request env r txl) = l_requests txl @ (if le_taken env then [r] else [])"
  by (simp_all add: passUp_request_def)

lemma set_tx_fields [simp]:
  "length (l_txs (set_tx h t txl)) = length (l_txs txl)" "l_transactions (set_tx h t txl) = l_transactions txl"
  "l_requests (set_tx h t txl) = l_requests txl" "l_served (set_tx h t txl) = l_served txl"
  by (simp_all add: set_tx_def)

text \<open>The first request of a key.\<close>

lemma handleRequest_new:
  assumes ok: "headers_ok (m_headers req)" and live: "\<not> l_canceled txl" and none: "getServerTx (Req req) txl = Fail err"
    and kind: "\<not> IsAck req" "\<not> IsCancel req" and key: "MakeServerTxKey (Req req) = Ok key"
  obtains txl1 tx where "same_but_sessions txl txl1" "NewServerTx (length (l_txs txl)) (le_IsReliable env) req = Ok tx"
    "st_key tx = key" "layer_handleRequest spin env req txl = Some (Ok (passUp_request env (req\<lparr>m_tx := Some (length (l_txs txl))\<rparr>)
       (added (ServerTx (new_server env (length (l_txs txl)) req tx)) True txl1)))"
proof -
  obtain txl1 where upd: "updateSession req txl = Ok txl1" "same_but_sessions txl txl1" by (rule updateSession_total [OF ok])
  let ?n = "length (l_txs txl)"
  obtain tx where tx: "NewServerTx ?n (le_IsReliable env) req = Ok tx" "st_key tx = key"
    using key by (simp add: NewServerTx_def)
  have "getServerTx (Req req) txl1 = Fail err" using none getServerTx_same [OF upd(2)] by simp
  then have "layer_handleRequest spin env req txl = Some (Ok (passUp_request env (req\<lparr>m_tx := Some ?n\<rparr>)
       (added (ServerTx (new_server env ?n req tx)) True txl1)))"
    using upd(1) live kind tx(1) same_but_sessionsD(1) [OF upd(2)]
    by (simp add: layer_handleRequest_def Let_def added_def new_server_def)
  with upd(2) tx that show thesis by blast
qed

lemma server_Init_key [simp]: "st_key (new_server env h req tx) = st_key tx"
  by (simp add: new_server_def server_Init_def Let_def)

text \<open>A request whose key is in the pool.\<close>

lemma handleRequest_given:
  assumes ok: "headers_ok (m_headers req)" and live: "\<not> l_canceled txl" and get: "getServerTx (Req req) txl = Ok (h, tx)"
  shows "\<exists>store. layer_handleRequest spin env req txl =
    tbind (server_Receive spin (le_tx env) (Req req) tx) (\<lambda>(tx', e).
      Some (Ok (txl\<lparr>l_sessionStore := store, l_txs := (l_txs txl)[h := ServerTx tx']\<rparr>)))"
proof -
  obtain txl1 where upd: "updateSession req txl = Ok txl1" "same_but_sessions txl txl1" by (rule updateSession_total [OF ok])
  then obtain store where txl1: "txl1 = txl\<lparr>l_sessionStore := store\<rparr>" by (auto simp: same_but_sessions_def)
  have "getServerTx (Req req) txl1 = Ok (h, tx)" using get getServerTx_same [OF upd(2)] by simp
  with upd(1) live txl1 show ?thesis
    by (intro exI [of _ store]) (simp add: layer_handleRequest_def set_tx_def)
qed

section \<open>The invariant\<close>

text \<open>
  C1: In every reachable state of the layer: every transaction is in a state of its own invariant, the one of which the theorems on
  reachable client and server transactions are parts; an entry of the pool leads to a transaction of that
  key, which is being served (so it is dropped when it is done) unless it is a client transaction that was closed because its
  first send failed; every request given to the user carries the server transaction that it created, or is an ACK or a CANCEL that
  carries the server transaction that passed it up, or is an ACK without transaction; every response given to the user carries the client
  transaction that passed it up, or none; the session found under an identifier has that identifier; and the channels to the user are closed
  only after the last transaction has been dropped.
\<close>

theorem layer_invariant:
  assumes "client_spins cspin cspin" "server_spins sspin" "layer_reachable cspin sspin txl"
  shows "(\<forall>h < length (l_txs txl). Tx_id (l_txs txl ! h) = h \<and>
      (case l_txs txl ! h of ClientTx t \<Rightarrow> client_ok t | ServerTx t \<Rightarrow> server_ok t)) \<and>
    (\<forall>key h. tx_get key (l_transactions txl) = Some h \<longrightarrow> h < length (l_txs txl) \<and> Tx_Key (l_txs txl ! h) = key \<and>
      (h \<in> set (l_served txl) \<or> (\<exists>t. l_txs txl ! h = ClientTx t \<and> ct_closed t))) \<and>
    (\<forall>r \<in> set (l_requests txl). case m_tx r of
        None \<Rightarrow> IsAck r
      | Some h \<Rightarrow> h < length (l_txs txl) \<and>
          (\<exists>t. l_txs txl ! h = ServerTx t \<and> (st_origin t = r \<or> r \<in> set (st_requests t) \<and> (IsAck r \<or> IsCancel r)))) \<and>
    (\<forall>r \<in> set (l_responses txl). case m_tx r of
        None \<Rightarrow> True
      | Some h \<Rightarrow> h < length (l_txs txl) \<and> (\<exists>t. l_txs txl ! h = ClientTx t \<and> r \<in> set (ct_responses t))) \<and>
    (\<forall>key s. layer_Session key txl = Some s \<longrightarrow> ss_key s = key) \<and>
    (l_done txl \<longrightarrow> l_served txl = [])"
proof -
  have ok: "layer_ok txl" by (rule layer_reachable_ok [OF assms])
  have "layer_Session key txl = Some s \<Longrightarrow> ss_key s = key" for key s
    using ok by (auto simp: layer_ok_def sessions_ok_def layer_Session_def)
  moreover have "case tx of ClientTx t \<Rightarrow> client_ok t | ServerTx t \<Rightarrow> server_ok t" if "Tx_ok tx" for tx
    using that by (cases tx) simp_all
  ultimately show ?thesis
    using ok unfolding layer_ok_def txs_ok_def pool_ok_def request_known_def response_known_def by blast
qed

section \<open>Requests\<close>

text \<open>
  C8: A request whose key is not in the pool (and that is no ACK or CANCEL) creates one server
  transaction, under its key, and is passed up once, with that transaction. As long as the pool leads from the key to it,
  every request of the same key - a retransmission, the ACK of a failure, a CANCEL - is given to it: the request counts in the session of its dialog, the
  transaction becomes what its \<^verbatim>\<open>Receive\<close> makes of it, and nothing is passed up by the layer and no other transaction is created or changed.
\<close>

theorem request_passed_up_once:
  assumes "headers_ok (m_headers req)" "\<not> l_canceled txl" "getServerTx (Req req) txl = Fail err"
    and "\<not> IsAck req" "\<not> IsCancel req" "MakeServerTxKey (Req req) = Ok key" "le_taken env"
    and h: "h = length (l_txs txl)"
  shows "\<exists>txl1 tx1. layer_handleRequest spin env req txl = Some (Ok txl1) \<and>
    l_requests txl1 = l_requests txl @ [req\<lparr>m_tx := Some h\<rparr>] \<and> l_txs txl1 = l_txs txl @ [ServerTx tx1] \<and>
    st_origin tx1 = req\<lparr>m_tx := Some h\<rparr> \<and> tx_get key (l_transactions txl1) = Some h \<and>
    (\<forall>req' env' txl2 tx. MakeServerTxKey (Req req') = Ok key \<longrightarrow> headers_ok (m_headers req') \<longrightarrow> \<not> l_canceled txl2 \<longrightarrow>
       tx_get key (l_transactions txl2) = Some h \<longrightarrow> l_txs txl2 ! h = ServerTx tx \<longrightarrow>
       (\<exists>store. layer_handleRequest spin env' req' txl2 =
          tbind (server_Receive spin (le_tx env') (Req req') tx) (\<lambda>(tx', e).
            Some (Ok (txl2\<lparr>l_sessionStore := store, l_txs := (l_txs txl2)[h := ServerTx tx']\<rparr>)))))"
proof -
  obtain txl0 tx where new: "same_but_sessions txl txl0" "NewServerTx h (le_IsReliable env) req = Ok tx" "st_key tx = key"
    "layer_handleRequest spin env req txl = Some (Ok (passUp_request env (req\<lparr>m_tx := Some h\<rparr>)
       (added (ServerTx (new_server env h req tx)) True txl0)))"
    unfolding h by (rule handleRequest_new [OF assms(1-6)])
  let ?txl1 = "passUp_request env (req\<lparr>m_tx := Some h\<rparr>) (added (ServerTx (new_server env h req tx)) True txl0)"
  note s = same_but_sessionsD [OF new(1)]
  have first: "l_requests ?txl1 = l_requests txl @ [req\<lparr>m_tx := Some h\<rparr>]" "l_txs ?txl1 = l_txs txl @ [ServerTx (new_server env h req tx)]"
    "tx_get key (l_transactions ?txl1) = Some h" "st_origin (new_server env h req tx) = req\<lparr>m_tx := Some h\<rparr>"
    using new(3) s assms(7) h by (simp_all add: txp.get_put) (simp add: new_server_def)
  have later: "\<exists>store. layer_handleRequest spin env' req' txl2 =
      tbind (server_Receive spin (le_tx env') (Req req') tx2) (\<lambda>(tx', e).
        Some (Ok (txl2\<lparr>l_sessionStore := store, l_txs := (l_txs txl2)[h := ServerTx tx']\<rparr>)))"
    if "MakeServerTxKey (Req req') = Ok key" "headers_ok (m_headers req')" "\<not> l_canceled txl2"
      "tx_get key (l_transactions txl2) = Some h" "l_txs txl2 ! h = ServerTx tx2" for req' env' txl2 tx2
    by (rule handleRequest_given [OF that(2,3)]) (use that in \<open>simp add: getServerTx_def\<close>)
  show ?thesis using new(4) first later by blast
qed

text \<open>
  A CANCEL that matches no transaction is answered by the layer itself with one 481 response of
  the same keys; the user and the pool do not see it. An ACK that matches none, which is the
  ACK of a success, is passed up as it is, and creates no transaction.
\<close>

theorem unmatched_ack_cancel:
  assumes req: "headers_ok (m_headers req)" "request_Destination req = Ok d" "request_Source req = Ok s"
    and live: "\<not> l_canceled txl" and none: "getServerTx (Req req) txl = Fail err" and kind: "IsAck req \<or> IsCancel req"
    and taken: "le_taken env"
  shows "\<exists>txl'. layer_handleRequest spin env req txl = Some (Ok txl') \<and>
    l_txs txl' = l_txs txl \<and> l_transactions txl' = l_transactions txl \<and>
    (if IsAck req then l_requests txl' = l_requests txl @ [req] \<and> l_sent txl' = l_sent txl
     else l_requests txl' = l_requests txl \<and>
       (\<exists>res. l_sent txl' = l_sent txl @ [Res res] \<and> s_status res = 481 \<and>
          MakeServerTxKey (Res res) = MakeServerTxKey (Req req)))"
proof -
  obtain txl1 where upd: "updateSession req txl = Ok txl1" "same_but_sessions txl txl1" by (rule updateSession_total [OF req(1)])
  note same = same_but_sessionsD [OF upd(2)]
  have get: "getServerTx (Req req) txl1 = Fail err" using none getServerTx_same [OF upd(2)] by simp
  show ?thesis
  proof (cases "IsAck req")
    case True
    with upd(1) get live taken same show ?thesis
      by (simp add: layer_handleRequest_def passUp_request_def)
  next
    case False
    let ?t = "le_tx env"
    obtain res where res: "CreateResponse (e_uuid ?t) (e_addr ?t) (e_random ?t) 481 req = Ok res"
      "MakeServerTxKey (Res res) = MakeServerTxKey (Req req)"
      using CreateResponse_keys [OF req, of "e_uuid ?t" "e_addr ?t" "e_random ?t" 481] by blast
    moreover from res(1) have "s_status res = 481"
      by (auto simp: CreateResponse_def fill_response_def outcome_simps SetStatusCode_def)
    ultimately show ?thesis
      using upd(1) get live kind False same by (simp add: layer_handleRequest_def Let_def)
  qed
qed

section \<open>Responses\<close>

text \<open>The client transaction of a request is found by every response of its key.\<close>

lemma sent_client_found:
  assumes law: "client_spins cspin cspin" and sent: "sendRequest cspin env req txl = Some (Ok (txl', Some h, e))"
    and key: "MakeClientTxKey (Res res) = MakeClientTxKey (Req req)"
  obtains tx where "getClientTx (Res res) txl' = Ok (h, tx)" "ct_origin tx = req" "h = length (l_txs txl)" "\<not> l_canceled txl'"
  using law sent
proof (cases rule: sendRequest_shape)
  case (new txl1 tx tx')
  have h: "h = length (l_txs txl)" "e = None" using new(9) by (auto split: if_splits)
  note t = client_Init_frame_new [OF new(4)] and s = same_but_sessionsD [OF new(2)]
  have "getClientTx (Res res) txl' = Ok (h, tx')"
    using new(6,8) h s(1) key t(1) by (simp add: getClientTx_def txp.get_put client_frame_def)
  moreover have "ct_origin tx' = req" using new(6) t(3) by (simp add: client_frame_def)
  moreover have "\<not> l_canceled txl'" using new(1,8) s(7) by simp
  ultimately show thesis using h(1) by (intro that)
qed simp_all

text \<open>
  A request that was sent gets its responses: whatever response the other side creates
  for it, the layer finds the client transaction of that request for it, and gives it to that transaction.
\<close>

theorem response_finds_its_request:
  assumes law: "client_spins cspin cspin"
    and sent: "sendRequest cspin env req txl = Some (Ok (txl', Some h, e))"
    and req: "headers_ok (m_headers req)" "request_Destination req = Ok d" "request_Source req = Ok s"
    and res: "CreateResponse uuid a r code req = Ok res"
  shows "\<exists>tx. getClientTx (Res res) txl' = Ok (h, tx) \<and> ct_origin tx = req \<and> h = length (l_txs txl) \<and>
    (\<forall>env'. layer_handleResponse cspin env' res txl' =
       tbind (client_Receive cspin (le_tx env') (Res res) tx) (\<lambda>(tx', err). Some (Ok (set_tx h (ClientTx tx') txl'))))"
proof -
  have "MakeClientTxKey (Res res) = MakeClientTxKey (Req req)"
    using CreateResponse_keys [OF req, of uuid a r code] res by auto
  then obtain tx where tx: "getClientTx (Res res) txl' = Ok (h, tx)" "ct_origin tx = req" "h = length (l_txs txl)" "\<not> l_canceled txl'"
    by (rule sent_client_found [OF law sent])
  then show ?thesis by (intro exI [of _ tx]) (simp add: layer_handleResponse_def)
qed

text \<open>
  When the first send of a request fails, the error is returned, but the closed transaction
  stays in the pool and is not served: the goroutine that would drop it is never started. A
  response of that key is then given to the closed transaction instead of the user.
\<close>

theorem failed_send_leaks:
  assumes laws: "client_spins cspin cspin" "server_spins sspin" and reach: "layer_reachable cspin sspin txl"
    and req: "headers_ok (m_headers req)" "\<not> IsAck req" "MakeClientTxKey (Req req) = Ok key" and live: "\<not> l_canceled txl"
    and fails: "e_Send (le_tx env) (Req req) = Some err"
  shows "\<exists>txl' tx. sendRequest cspin env req txl = Some (Ok (txl', None, Some err)) \<and>
    tx_get key (l_transactions txl') = Some (length (l_txs txl)) \<and> l_txs txl' ! length (l_txs txl) = ClientTx tx \<and>
    ct_closed tx \<and> \<not> layer_enabled (LServeEnd (length (l_txs txl))) txl' \<and>
    \<not> layer_enabled (LForward (length (l_txs txl))) txl'"
proof -
  have ok: "layer_ok txl" by (rule layer_reachable_ok [OF laws reach])
  obtain txl1 where upd: "updateSession req txl = Ok txl1" "same_but_sessions txl txl1" by (rule updateSession_total [OF req(1)])
  note s = same_but_sessionsD [OF upd(2)]
  let ?n = "length (l_txs txl)"
  obtain tx where tx: "NewClientTx ?n (le_IsReliable env) req = Ok tx" "ct_key tx = key"
    using req(3) by (simp add: NewClientTx_def)
  have origin: "ct_origin tx = req" by (rule client_Init_frame_new(3) [OF tx(1)])
  let ?tx = "client_failed (tx\<lparr>ct_state := clientStateCalling, ct_sent := ct_sent tx @ [Req req], ct_lastErr := Some err\<rparr>)"
  have "client_Init cspin (le_tx env) tx = Some (Ok (?tx, Some err))"
    using fails by (simp add: client_Init_def client_send_def origin client_spin_TransportErr [OF laws(1)] client_fails_def)
  moreover have key: "ct_key ?tx = key" "ct_closed ?tx"
    using tx(2) by (simp_all add: client_helper_defs split: option.split)
  ultimately have "sendRequest cspin env req txl = Some (Ok (add_tx (ClientTx ?tx) txl1, None, Some err))"
    using upd(1) live req(2) tx s(1) set_tx_added [of "ClientTx ?tx" "ClientTx tx" txl1]
    by (simp add: sendRequest_def Let_def)
  moreover have "?n \<notin> set (l_served txl)" using ok by (auto simp: layer_ok_def serve_ok_def)
  moreover have "l_forwarded txl ?n = None"
    using ok by (cases "l_forwarded txl ?n") (auto simp: layer_ok_def serve_ok_def)
  ultimately show ?thesis using s key by (auto simp: add_tx_def txp.get_put simp del: not_None_eq)
qed

text \<open>
  Where two transactions have one key - a request object that is sent twice - the end
  of the first takes the second out of the pool, though the second is alive.
\<close>

theorem ended_transaction_drops_its_successor:
  assumes law: "client_spins cspin cspin"
    and first: "sendRequest cspin env1 req txl = Some (Ok (txl1, Some h1, e1))"
    and second: "sendRequest cspin env2 req txl1 = Some (Ok (txl2, Some h2, e2))"
  shows "\<exists>key. tx_get key (l_transactions txl2) = Some h2 \<and> h1 \<noteq> h2 \<and> h2 \<in> set (l_served txl2) \<and>
    tx_get key (l_transactions (serve_end h1 txl2)) = None \<and> h2 \<in> set (l_served (serve_end h1 txl2))"
  using law second
proof (cases rule: sendRequest_shape)
  case two: (new txl1' t2 t2')
  from law first show ?thesis
  proof (cases rule: sendRequest_shape)
    case (new txl0 t1 t1')
    note s1 = same_but_sessionsD [OF new(2)] and s2 = same_but_sessionsD [OF two(2)]
    have h: "h1 = length (l_txs txl)" "h2 = length (l_txs txl1)" "e1 = None" "e2 = None"
      using new(9) two(9) by (auto split: if_splits)
    have len: "length (l_txs txl1) = Suc (length (l_txs txl))" using new(8) s1(1) by simp
    have key: "ct_key t1' = ct_key t2'"
      using new(4,6) two(4,6) client_Init_frame_new(1) [OF new(4)] client_Init_frame_new(1) [OF two(4)]
      by (simp add: client_frame_def)
    have at: "l_txs txl2 ! h1 = ClientTx t1'" using new(8) two(8) s1(1) s2(1) h len by (simp add: nth_append)
    have served: "h2 \<in> set (l_served txl2)" "tx_get (ct_key t2') (l_transactions txl2) = Some h2"
      using two(8) h s2 by (simp_all add: txp.get_put)
    moreover have "tx_get (ct_key t2') (l_transactions (serve_end h1 txl2)) = None"
      by (simp add: serve_end_def Let_def at key txp.get_drop)
    moreover have "h1 \<noteq> h2" using h len by simp
    moreover from this served(1) have "h2 \<in> set (l_served (serve_end h1 txl2))"
      by (simp add: serve_end_def Let_def set_tx_def)
    ultimately show ?thesis by blast
  qed simp_all
qed simp_all

section \<open>Sessions\<close>

lemma layer_Session_fields: "layer_Session key (txl\<lparr>l_sessionStore := s\<rparr>) = map_option (\<lambda>h. sp_heap s ! h) (sp_get key s)"
  by (simp add: layer_Session_def)

lemma sp_drop_heap:
  "sp_heap (sp_drop key s) = (case sp_get key s of None \<Rightarrow> sp_heap s
     | Some h \<Rightarrow> (sp_heap s)[h := session_Close (sp_heap s ! h)])"
  by (simp add: sp_drop_def Let_def split: option.split)

text \<open>
  C33: The success of an INVITE puts a new session under the identifier of the dialog, with the
  headers of the response, no attributes and the sequence number 1. This holds whether the dialog had a session or
  not: a second INVITE within a dialog loses the attributes and the sequence number of the session.
\<close>

theorem invite_success_makes_session:
  assumes res: "IsSuccess res" "headers_ok (m_headers res)" "get_CallID (m_headers res) = Some c"
      "get_From (m_headers res) = Some f" "get_To (m_headers res) = Some t" and id: "DialogId res = Ok key"
  shows "\<exists>txl' s. handleSession INVITE res txl = Ok txl' \<and> layer_Session key txl' = Some s \<and>
    ss_key s = key \<and> ss_callId s = c \<and> ss_from s = f \<and> ss_to s = t \<and> ss_seq s = 1 \<and> ss_store s = Some Map.empty \<and>
    \<not> ss_closed s"
proof -
  let ?s = "(CreateSession key)\<lparr>ss_callId := c, ss_from := f, ss_to := t\<rparr>"
  let ?store = "l_sessionStore txl"
  have "SaveMessage (Res res) (CreateSession key) = Ok ?s" using res by (intro SaveMessage_ok) simp_all
  moreover have "INVITE \<noteq> BYE" by (simp add: INVITE_def BYE_def)
  ultimately have "handleSession INVITE res txl =
      Ok (txl\<lparr>l_sessionStore := sp_put key (length (sp_heap ?store)) (sp_new ?s ?store)\<rparr>)"
    using res(1) id by (simp add: handleSession_def Let_def)
  moreover have "layer_Session key (txl\<lparr>l_sessionStore := sp_put key (length (sp_heap ?store)) (sp_new ?s ?store)\<rparr>) = Some ?s"
    by (simp add: layer_Session_fields sps.get_put) (simp add: sp_put_def sp_new_def)
  ultimately show ?thesis by (simp add: CreateSession_def)
qed

text \<open>
  The success of a BYE closes the session of the dialog and takes it out of the pool; every other
  session stays.
\<close>

theorem bye_success_closes_session:
  assumes ok: "sessions_ok (l_sessionStore txl)"
    and res: "IsSuccess res" "DialogId res = Ok key" and listed: "sp_get key (l_sessionStore txl) = Some h"
  shows "\<exists>txl'. handleSession BYE res txl = Ok txl' \<and> layer_Session key txl' = None \<and>
    ss_closed (sp_heap (l_sessionStore txl') ! h) \<and>
    (\<forall>key'. key' \<noteq> key \<longrightarrow> layer_Session key' txl' = layer_Session key' txl)"
proof -
  let ?store = "l_sessionStore txl"
  from ok have h: "h < length (sp_heap ?store)" "ss_key (sp_heap ?store ! h) = key"
    using listed by (auto simp: sessions_ok_def)
  have heap: "sp_heap (sp_drop key ?store) = (sp_heap ?store)[h := session_Close (sp_heap ?store ! h)]"
    using listed by (simp add: sp_drop_heap)
  have other: "layer_Session key' (txl\<lparr>l_sessionStore := sp_drop key ?store\<rparr>) = layer_Session key' txl" if "key' \<noteq> key" for key'
  proof (cases "sp_get key' ?store")
    case (Some h')
    then have "h' \<noteq> h" using ok h(2) that by (auto simp: sessions_ok_def)
    with Some that show ?thesis by (simp add: layer_Session_fields sps.get_drop heap) (simp add: layer_Session_def)
  qed (use that in \<open>simp add: layer_Session_def sps.get_drop\<close>)
  have "handleSession BYE res txl = Ok (txl\<lparr>l_sessionStore := sp_drop key ?store\<rparr>)"
    using res by (simp add: handleSession_def)
  with other h heap show ?thesis by (simp add: layer_Session_fields sps.get_drop)
qed

lemma tags_DialogId:
  assumes "get_CallID hs = Some c" "get_From hs = Some f" "get_To hs = Some t"
    and "ah_Params f = Some p" "ah_Params t = Some q" "Params_Get p ''tag'' = Some (Str a)" "Params_Get q ''tag'' = Some (Str b)"
  shows "DialogId (msg\<lparr>m_headers := hs\<rparr>) = Ok (c @ ''#'' @ a @ ''#'' @ b)"
  using assms by (simp add: DialogId_def params_value_def)

text \<open>
  A BYE that the called side sends has the tags of \<^verbatim>\<open>From\<close> and \<^verbatim>\<open>To\<close> exchanged, so its
  dialog has another identifier, and its success leaves the session of the dialog in the pool.
\<close>

theorem callee_bye_keeps_session:
  fixes ok bye :: response
  assumes tags: "Params_Get p ''tag'' = Some (Str a)" "Params_Get q ''tag'' = Some (Str b)" "a \<noteq> b"
      "CHR ''#'' \<notin> set a" "CHR ''#'' \<notin> set b"
    and invite: "get_CallID hs = Some c" "get_From hs = Some f" "get_To hs = Some t"
      "ah_Params f = Some p" "ah_Params t = Some q" "DialogId (ok\<lparr>m_headers := hs\<rparr>) = Ok key"
    and bye: "get_CallID hs' = Some c" "get_From hs' = Some t'" "get_To hs' = Some f'"
      "ah_Params t' = Some q" "ah_Params f' = Some p" "IsSuccess bye"
    and listed: "sp_get key (l_sessionStore txl) = Some h"
  shows "\<exists>txl'. handleSession BYE (bye\<lparr>m_headers := hs'\<rparr>) txl = Ok txl' \<and> sp_get key (l_sessionStore txl') = Some h"
proof -
  have key: "key = c @ ''#'' @ a @ ''#'' @ b"
    using tags_DialogId [OF invite(1-5) tags(1,2), of ok] invite(6) by simp
  have id: "DialogId (bye\<lparr>m_headers := hs'\<rparr>) = Ok (c @ ''#'' @ b @ ''#'' @ a)"
    by (rule tags_DialogId [OF bye(1-5) tags(2,1)])
  have "a @ CHR ''#'' # b \<noteq> b @ CHR ''#'' # a"
    using last_sep_unique [of a "CHR ''#''" b b a] tags(3-5) by auto
  then have "key \<noteq> c @ ''#'' @ b @ ''#'' @ a" by (simp add: key)
  moreover have "IsSuccess (bye\<lparr>m_headers := hs'\<rparr>)" using bye(6) by (simp add: IsSuccess_def)
  ultimately show ?thesis using id listed by (simp add: handleSession_def sps.get_drop)
qed

text \<open>
  Closing the session object of an earlier INVITE of a dialog closes the current session of the
  dialog too: the goroutine that waits for the old one drops whatever its identifier now leads to.
\<close>

theorem old_session_closes_new:
  assumes old: "old < length (sp_heap (l_sessionStore txl))" "ss_key (sp_heap (l_sessionStore txl) ! old) = key"
    and new: "new < length (sp_heap (l_sessionStore txl))" "sp_get key (l_sessionStore txl) = Some new" "old \<noteq> new"
    and close: "layer_step cspin sspin env1 (LSessionClose old) txl = Some (Ok txl1)"
  shows "layer_enabled (LSessionEnd old) txl1 \<and> sp_get key (l_sessionStore txl1) = Some new \<and>
    (\<exists>txl2. layer_step cspin sspin env2 (LSessionEnd old) txl1 = Some (Ok txl2) \<and>
       layer_Session key txl2 = None \<and> ss_closed (sp_heap (l_sessionStore txl2) ! new))"
proof -
  let ?s = "l_sessionStore txl"
  have txl1: "txl1 = txl\<lparr>l_sessionStore := ?s\<lparr>sp_heap := (sp_heap ?s)[old := session_Close (sp_heap ?s ! old)]\<rparr>\<rparr>"
    using close by (simp add: Let_def)
  have get: "sp_get key (l_sessionStore txl1) = Some new" using new(2) by (simp add: txl1 sp_get_def)
  have key: "ss_key (sp_heap (l_sessionStore txl1) ! old) = key" using old by (simp add: txl1)
  have "ss_closed (sp_heap (sp_drop key (l_sessionStore txl1)) ! new)"
    using get new(1) by (simp add: sp_drop_heap) (simp add: txl1)
  then show ?thesis
    using get key old(1) by (simp add: listenSession_def layer_Session_fields sps.get_drop) (simp add: txl1)
qed

section \<open>Closing\<close>

lemma handleSession_cases: "(\<exists>txl'. handleSession method resp txl = Ok txl') \<or> handleSession method resp txl = Panic"
proof -
  have id: "DialogId resp \<noteq> Fail e" for e
    by (auto simp: DialogId_def Let_def params_value_def outcome_simps split: option.splits)
  have saved: "SaveMessage m s \<noteq> Fail e" for m s e
    by (auto simp: SaveMessage_def Let_def FromHeader_Copy_def nil_uri_Copy_def nil_params_Copy_def split: option.splits)
  have "handleSession method resp txl \<noteq> Fail e" for e
  proof (cases "DialogId resp")
    case (Ok key)
    then show ?thesis
      using saved by (cases "SaveMessage (Res resp) (CreateSession key)") (auto simp: handleSession_def Let_def)
  qed (use id in \<open>simp_all add: handleSession_def\<close>)
  then show ?thesis by (cases "handleSession method resp txl") auto
qed

text \<open>
  The goroutine that forwards to the user is not waited for. When the only transaction of the layer is closed and
  dropped, the layer may be closed and its channels too; the response that is still on the channel of the
  transaction is then sent on a closed channel, which panics.
\<close>

theorem forward_after_done_panics:
  assumes txl: "\<not> l_canceled txl" "l_served txl = [h]" "l_txs txl ! h = ClientTx tx" "ct_closed tx"
    and pending: "l_forwarded txl h = Some n" "n < length (ct_responses tx)"
  shows "\<exists>t1 t2 t3. layer_enabled (LServeEnd h) txl \<and> layer_step cspin sspin env (LServeEnd h) txl = Some (Ok t1) \<and>
    layer_step cspin sspin env LClose t1 = Some (Ok t2) \<and> layer_enabled LDone t2 \<and>
    layer_step cspin sspin env LDone t2 = Some (Ok t3) \<and> layer_enabled (LForward h) t3 \<and>
    layer_step cspin sspin env (LForward h) t3 = Some Panic"
proof -
  let ?t3 = "listen_end (layer_Close (serve_end h txl))"
  have fields: "l_txs ?t3 = l_txs txl" "l_forwarded ?t3 = l_forwarded txl" "l_done ?t3" "l_served (serve_end h txl) = []"
    using txl by (simp_all add: listen_end_def layer_Close_def serve_end_def Let_def)
  let ?t = "?t3\<lparr>l_forwarded := (l_forwarded ?t3)(h \<mapsto> n + 1)\<rparr>"
  have "forward_next h ?t3 = Some Panic"
    using handleSession_cases [of "r_method (ct_origin tx)" "ct_responses tx ! n" ?t]
  proof
    assume "\<exists>txl'. handleSession (r_method (ct_origin tx)) (ct_responses tx ! n) ?t = Ok txl'"
    then obtain txl' where h: "handleSession (r_method (ct_origin tx)) (ct_responses tx ! n) ?t = Ok txl'" ..
    from same_but_sessionsD(8) [OF handleSession_same [OF h]] fields(3) have "l_done txl'" by simp
    with h fields txl pending show ?thesis by (simp add: forward_next_def Let_def)
  qed (use fields txl pending in \<open>simp add: forward_next_def Let_def\<close>)
  with fields txl pending show ?thesis by (simp add: Tx_passed_def) (simp add: layer_Close_def)
qed

section \<open>Witnesses\<close>

definition sample_layer_env :: layer_env where
  "sample_layer_env = \<lparr>le_tx = sample_env, le_IsReliable = (\<lambda>_. False), le_taken = True\<rparr>"

definition sample_key :: TxKey where "sample_key = join ''__'' [''z9hG4bKa'', ''h'', port_text 5060, INVITE]"

lemma sample_layer_env_fields [simp]:
  "le_tx sample_layer_env = sample_env" "le_taken sample_layer_env" "e_Send sample_env m = None"
  by (simp_all add: sample_layer_env_def sample_env_def)

lemma sample_invite_facts:
  "headers_ok (m_headers sample_invite)" "\<not> IsAck sample_invite" "\<not> IsCancel sample_invite"
  "MakeServerTxKey (Req sample_invite) = Ok sample_key"
  "\<exists>key. MakeClientTxKey (Req sample_invite) = Ok key" "m_headers sample_invite = sample_msg_headers (Str ''z9hG4bKa'') INVITE"
proof -
  show "headers_ok (m_headers sample_invite)" "\<not> IsAck sample_invite" "\<not> IsCancel sample_invite"
    "m_headers sample_invite = sample_msg_headers (Str ''z9hG4bKa'') INVITE"
    by (simp_all add: sample_invite_def sample_accessors IsAck_def IsCancel_def INVITE_def ACK_def CANCEL_def)
  show "MakeServerTxKey (Req sample_invite) = Ok sample_key"
    unfolding sample_key_def by (rule key_parts_server) (simp add: sample_invite_def sample_parts)
  show "\<exists>key. MakeClientTxKey (Req sample_invite) = Ok key"
    using sample_client_new by (cases "MakeClientTxKey (Req sample_invite)") (simp_all add: NewClientTx_def)
qed

lemma sample_unmatched: "getServerTx (Req req) CreateLayer = Fail (Errorf ''transaction not found'')"
  if "MakeServerTxKey (Req req) = Ok key"
  using that by (simp add: getServerTx_def CreateLayer_def txp.get_empty)

text \<open>The layer after the first request.\<close>

lemma sample_layer_reached:
  obtains txl where "layer_handleRequest server_machine sample_layer_env sample_invite CreateLayer = Some (Ok txl)"
    "layer_reachable client_machine server_machine txl" "l_requests txl = [sample_invite\<lparr>m_tx := Some 0\<rparr>]"
    "tx_get sample_key (l_transactions txl) = Some 0" "\<not> l_canceled txl"
proof -
  have live: "\<not> l_canceled CreateLayer" by (simp add: CreateLayer_def)
  obtain txl1 tx where *: "same_but_sessions CreateLayer txl1" "st_key tx = sample_key"
    "layer_handleRequest server_machine sample_layer_env sample_invite CreateLayer =
      Some (Ok (passUp_request sample_layer_env (sample_invite\<lparr>m_tx := Some (length (l_txs CreateLayer))\<rparr>)
       (added (ServerTx (new_server sample_layer_env (length (l_txs CreateLayer)) sample_invite tx)) True txl1)))"
    by (rule handleRequest_new [OF sample_invite_facts(1) live sample_unmatched [OF sample_invite_facts(4)]
          sample_invite_facts(2-4), of sample_layer_env server_machine]) blast
  note s = same_but_sessionsD [OF *(1)]
  let ?txl = "passUp_request sample_layer_env (sample_invite\<lparr>m_tx := Some (length (l_txs CreateLayer))\<rparr>)
       (added (ServerTx (new_server sample_layer_env (length (l_txs CreateLayer)) sample_invite tx)) True txl1)"
  have "layer_step client_machine server_machine sample_layer_env (LMessage (Req sample_invite)) CreateLayer = Some (Ok ?txl)"
    using *(3) live by (simp add: handleMessage_def)
  then have "layer_reachable client_machine server_machine ?txl"
    by (rule layer_reachable.stepped [OF layer_reachable.created, rotated]) (simp add: sample_invite_def blank_request_def)
  moreover have "l_requests ?txl = [sample_invite\<lparr>m_tx := Some 0\<rparr>]" "tx_get sample_key (l_transactions ?txl) = Some 0" "\<not> l_canceled ?txl"
    using s *(2) by (simp_all add: CreateLayer_def txp.get_put)
  ultimately show thesis using *(3) that by blast
qed

theorem layer_invariant_witness:
  "\<exists>txl h t. layer_reachable client_machine server_machine txl \<and> tx_get sample_key (l_transactions txl) = Some h \<and>
     h < length (l_txs txl) \<and> Tx_Key (l_txs txl ! h) = sample_key \<and>
     m_tx (hd (l_requests txl)) = Some h \<and> l_txs txl ! h = ServerTx t \<and> server_ok t"
proof -
  obtain txl where txl: "layer_reachable client_machine server_machine txl" "l_requests txl = [sample_invite\<lparr>m_tx := Some 0\<rparr>]"
    "tx_get sample_key (l_transactions txl) = Some 0" by (rule sample_layer_reached)
  note linv = layer_invariant [OF client_machine_spins server_machine_spins txl(1)]
  then have "0 < length (l_txs txl) \<and> Tx_Key (l_txs txl ! 0) = sample_key" using txl(3) by blast
  moreover from linv txl(2) obtain t where "l_txs txl ! 0 = ServerTx t" by auto
  moreover from linv calculation have "server_ok t" by fastforce
  moreover have "m_tx (hd (l_requests txl)) = Some 0" by (simp add: txl(2))
  ultimately show ?thesis using txl(1,3) by blast
qed

theorem request_passed_up_once_witness:
  "\<exists>txl1 tx1. layer_handleRequest server_machine sample_layer_env sample_invite CreateLayer = Some (Ok txl1) \<and>
     l_requests txl1 = [sample_invite\<lparr>m_tx := Some 0\<rparr>] \<and> l_txs txl1 = [ServerTx tx1] \<and>
     (\<exists>store. layer_handleRequest server_machine sample_layer_env sample_invite txl1 =
        tbind (server_Receive server_machine (le_tx sample_layer_env) (Req sample_invite) tx1) (\<lambda>(tx', e).
          Some (Ok (txl1\<lparr>l_sessionStore := store, l_txs := [ServerTx tx']\<rparr>))))"
proof -
  have live: "\<not> l_canceled CreateLayer" by (simp add: CreateLayer_def)
  obtain txl where txl: "layer_handleRequest server_machine sample_layer_env sample_invite CreateLayer = Some (Ok txl)"
    "\<not> l_canceled txl" by (rule sample_layer_reached) blast
  have "0 = length (l_txs CreateLayer)" by (simp add: CreateLayer_def)
  from request_passed_up_once [OF sample_invite_facts(1) live sample_unmatched [OF sample_invite_facts(4)]
      sample_invite_facts(2-4) sample_layer_env_fields(2) this, of server_machine] txl(1)
  obtain tx1 where one: "l_requests txl = l_requests CreateLayer @ [sample_invite\<lparr>m_tx := Some 0\<rparr>]"
    "l_txs txl = l_txs CreateLayer @ [ServerTx tx1]" "tx_get sample_key (l_transactions txl) = Some 0"
    "\<forall>req' env' txl2 tx. MakeServerTxKey (Req req') = Ok sample_key \<longrightarrow> headers_ok (m_headers req') \<longrightarrow> \<not> l_canceled txl2 \<longrightarrow>
       tx_get sample_key (l_transactions txl2) = Some 0 \<longrightarrow> l_txs txl2 ! 0 = ServerTx tx \<longrightarrow>
       (\<exists>store. layer_handleRequest server_machine env' req' txl2 =
          tbind (server_Receive server_machine (le_tx env') (Req req') tx) (\<lambda>(tx', e).
            Some (Ok (txl2\<lparr>l_sessionStore := store, l_txs := (l_txs txl2)[0 := ServerTx tx']\<rparr>))))"
    by (elim exE conjE) simp
  have fields: "l_requests txl = [sample_invite\<lparr>m_tx := Some 0\<rparr>]" "l_txs txl = [ServerTx tx1]"
    using one(1,2) by (simp_all add: CreateLayer_def)
  then have "l_txs txl ! 0 = ServerTx tx1" by simp
  from one(4) [rule_format, OF sample_invite_facts(4,1) txl(2) one(3) this, of sample_layer_env] fields(2)
  have "\<exists>store. layer_handleRequest server_machine sample_layer_env sample_invite txl =
        tbind (server_Receive server_machine (le_tx sample_layer_env) (Req sample_invite) tx1) (\<lambda>(tx', e).
          Some (Ok (txl\<lparr>l_sessionStore := store, l_txs := [ServerTx tx']\<rparr>)))" by simp
  with txl(1) fields show ?thesis by blast
qed

definition sample_cancel :: request where
  "sample_cancel = sample_invite\<lparr>r_method := CANCEL, m_src := ''s'', m_dest := ''d''\<rparr>"

theorem unmatched_ack_cancel_witness:
  "\<exists>txl' res. layer_handleRequest server_machine sample_layer_env sample_cancel CreateLayer = Some (Ok txl') \<and>
     l_sent txl' = [Res res] \<and> s_status res = 481"
proof -
  have key: "MakeServerTxKey (Req sample_cancel) = Ok sample_key"
    unfolding sample_key_def by (rule key_parts_server) (simp add: sample_cancel_def sample_invite_facts(6) sample_parts)
  have facts: "headers_ok (m_headers sample_cancel)" "request_Destination sample_cancel = Ok ''d''"
    "request_Source sample_cancel = Ok ''s''" "\<not> l_canceled CreateLayer" "IsAck sample_cancel \<or> IsCancel sample_cancel"
    "\<not> IsAck sample_cancel"
    using sample_invite_facts(1)
    by (simp_all add: sample_cancel_def request_Destination_def request_Source_def CreateLayer_def IsCancel_def IsAck_def
        CANCEL_def ACK_def)
  from unmatched_ack_cancel [OF facts(1-4) sample_unmatched [OF key] facts(5) sample_layer_env_fields(2), of server_machine] facts(6)
  show ?thesis by (auto simp: CreateLayer_def)
qed

lemma sendRequest_total:
  assumes "headers_ok (m_headers req)" "\<not> l_canceled txl" "\<not> IsAck req" "MakeClientTxKey (Req req) = Ok key"
    and "e_Send (le_tx env) (Req req) = None"
  obtains txl' where "sendRequest spin env req txl = Some (Ok (txl', Some (length (l_txs txl)), None))" "\<not> l_canceled txl'"
proof -
  obtain txl1 where upd: "updateSession req txl = Ok txl1" "same_but_sessions txl txl1" by (rule updateSession_total [OF assms(1)])
  note s = same_but_sessionsD [OF upd(2)]
  obtain tx where tx: "NewClientTx (length (l_txs txl)) (le_IsReliable env) req = Ok tx" using assms(4) by (simp add: NewClientTx_def)
  note new = client_Init_frame_new [OF tx]
  obtain tx' where "client_Init spin (le_tx env) tx = Some (Ok (tx', None))"
    using assms(5) new(3,6) by (auto simp: client_Init_def client_send_def Let_def)
  with assms(2,3) upd(1) tx s have "\<exists>txl'. sendRequest spin env req txl = Some (Ok (txl', Some (length (l_txs txl)), None)) \<and>
      \<not> l_canceled txl'"
    by (simp add: sendRequest_def Let_def start_serve_def set_tx_def add_tx_def)
  with that show thesis by blast
qed

definition sample_sent :: request where
  "sample_sent = sample_invite\<lparr>m_src := ''s'', m_dest := ''d''\<rparr>"

lemma sample_sent_facts:
  "headers_ok (m_headers sample_sent)" "\<not> IsAck sample_sent" "\<exists>key. MakeClientTxKey (Req sample_sent) = Ok key"
  "request_Destination sample_sent = Ok ''d''" "request_Source sample_sent = Ok ''s''"
proof -
  have "MakeClientTxKey (Req sample_sent) = MakeClientTxKey (Req sample_invite)"
    by (rule key_headers_cong) (simp add: same_key_headers_def sample_sent_def)
  then show "\<exists>key. MakeClientTxKey (Req sample_sent) = Ok key" using sample_invite_facts(5) by simp
  show "headers_ok (m_headers sample_sent)" "\<not> IsAck sample_sent"
    "request_Destination sample_sent = Ok ''d''" "request_Source sample_sent = Ok ''s''"
    using sample_invite_facts(1,2) by (simp_all add: sample_sent_def IsAck_def request_Destination_def request_Source_def)
qed

lemma sample_sends:
  assumes "\<not> l_canceled txl"
  obtains txl' where "sendRequest client_machine sample_layer_env sample_sent txl = Some (Ok (txl', Some (length (l_txs txl)), None))"
    "\<not> l_canceled txl'"
proof -
  obtain key where "MakeClientTxKey (Req sample_sent) = Ok key" using sample_sent_facts(3) ..
  then show thesis
    by (rule sendRequest_total [OF sample_sent_facts(1) assms sample_sent_facts(2), of _ sample_layer_env client_machine])
      (simp, rule that)
qed

theorem response_finds_its_request_witness:
  "\<exists>txl' h res tx. sendRequest client_machine sample_layer_env sample_sent CreateLayer = Some (Ok (txl', Some h, None)) \<and>
     CreateResponse ''id'' 0 ''xxxxxxxxxx'' 200 sample_sent = Ok res \<and> getClientTx (Res res) txl' = Ok (h, tx)"
proof -
  have "\<not> l_canceled CreateLayer" by (simp add: CreateLayer_def)
  then obtain txl' where txl': "sendRequest client_machine sample_layer_env sample_sent CreateLayer =
      Some (Ok (txl', Some (length (l_txs CreateLayer)), None))" by (rule sample_sends)
  obtain res where res: "CreateResponse ''id'' 0 ''xxxxxxxxxx'' 200 sample_sent = Ok res"
    using CreateResponse_keys [OF sample_sent_facts(1,4,5)] by blast
  from response_finds_its_request [OF client_machine_spins txl' sample_sent_facts(1,4,5) res] txl' res show ?thesis by blast
qed

theorem failed_send_leaks_witness:
  "\<exists>txl' key. sendRequest client_machine (sample_layer_env\<lparr>le_tx := sample_env\<lparr>e_Send := \<lambda>_. Some (NetError ''down'')\<rparr>\<rparr>)
       sample_sent CreateLayer = Some (Ok (txl', None, Some (NetError ''down''))) \<and>
     tx_get key (l_transactions txl') = Some 0 \<and> \<not> layer_enabled (LServeEnd 0) txl'"
proof -
  obtain key where key: "MakeClientTxKey (Req sample_sent) = Ok key" using sample_sent_facts(3) ..
  let ?env = "sample_layer_env\<lparr>le_tx := sample_env\<lparr>e_Send := \<lambda>_. Some (NetError ''down'')\<rparr>\<rparr>"
  have "\<not> l_canceled CreateLayer" "e_Send (le_tx ?env) (Req sample_sent) = Some (NetError ''down'')" "length (l_txs CreateLayer) = 0"
    by (simp_all add: CreateLayer_def)
  with failed_send_leaks [OF client_machine_spins server_machine_spins layer_reachable.created sample_sent_facts(1,2) key]
  show ?thesis by metis
qed

theorem ended_transaction_drops_its_successor_witness:
  "\<exists>txl1 txl2 h1 h2 key. sendRequest client_machine sample_layer_env sample_sent CreateLayer = Some (Ok (txl1, Some h1, None)) \<and>
     sendRequest client_machine sample_layer_env sample_sent txl1 = Some (Ok (txl2, Some h2, None)) \<and>
     tx_get key (l_transactions txl2) = Some h2 \<and> tx_get key (l_transactions (serve_end h1 txl2)) = None"
proof -
  have "\<not> l_canceled CreateLayer" by (simp add: CreateLayer_def)
  then obtain txl1 where txl1: "sendRequest client_machine sample_layer_env sample_sent CreateLayer =
      Some (Ok (txl1, Some (length (l_txs CreateLayer)), None))" "\<not> l_canceled txl1" by (rule sample_sends)
  from txl1(2) obtain txl2 where txl2: "sendRequest client_machine sample_layer_env sample_sent txl1 =
      Some (Ok (txl2, Some (length (l_txs txl1)), None))" by (rule sample_sends)
  from ended_transaction_drops_its_successor [OF client_machine_spins txl1(1) txl2] txl1(1) txl2 show ?thesis by blast
qed

theorem invite_success_makes_session_witness:
  "\<exists>txl s. handleSession INVITE sample_success CreateLayer = Ok txl \<and> layer_Session ''c#a#b'' txl = Some s \<and> ss_seq s = 1"
  using invite_success_makes_session [OF sample_success_parts(5,1-4,6), of CreateLayer] by auto

text \<open>A layer with two sessions of one dialog, as two successes of an INVITE leave it.\<close>

definition sample_session_layer :: layer where
  "sample_session_layer = CreateLayer\<lparr>l_sessionStore :=
     \<lparr>sp_heap = [CreateSession ''c#a#b'', CreateSession ''c#a#b''], sp_list = [''c#a#b'' \<mapsto> 1]\<rparr>\<rparr>"

theorem callee_bye_keeps_session_witness:
  "\<exists>txl'. handleSession BYE (sample_success\<lparr>m_headers := sample_dialog ''b'' ''a''\<rparr>) sample_session_layer = Ok txl' \<and>
     sp_get ''c#a#b'' (l_sessionStore txl') = Some 1"
proof -
  let ?p = "\<lambda>t. Params_Add ''tag'' (Str t) NewParams"
  have tags: "Params_Get (?p ''a'') ''tag'' = Some (Str ''a'')" "Params_Get (?p ''b'') ''tag'' = Some (Str ''b'')" "''a'' \<noteq> ''b''"
    "CHR ''#'' \<notin> set ''a''" "CHR ''#'' \<notin> set ''b''"
    by (simp_all add: Params_Get_Add)
  have params: "ah_Params (sample_party t) = Some (?p t)" for t by (simp add: sample_party_def)
  have id: "DialogId (sample_success\<lparr>m_headers := sample_dialog ''a'' ''b''\<rparr>) = Ok ''c#a#b''"
    using sample_success_parts(6) by (simp add: sample_success_def)
  have listed: "sp_get ''c#a#b'' (l_sessionStore sample_session_layer) = Some 1"
    by (simp add: sample_session_layer_def sp_get_def)
  show ?thesis
    by (rule callee_bye_keeps_session [OF tags sample_dialog_parts(2-4) params params id sample_dialog_parts(2-4) params params
          sample_success_parts(5) listed])
qed

theorem old_session_closes_new_witness:
  "\<exists>txl1 txl2. layer_step client_machine server_machine sample_layer_env (LSessionClose 0) sample_session_layer = Some (Ok txl1) \<and>
     layer_step client_machine server_machine sample_layer_env (LSessionEnd 0) txl1 = Some (Ok txl2) \<and>
     layer_Session ''c#a#b'' txl2 = None"
proof -
  have facts: "0 < length (sp_heap (l_sessionStore sample_session_layer))" "ss_key (sp_heap (l_sessionStore sample_session_layer) ! 0) = ''c#a#b''"
    "1 < length (sp_heap (l_sessionStore sample_session_layer))" "sp_get ''c#a#b'' (l_sessionStore sample_session_layer) = Some 1" "0 \<noteq> (1::nat)"
    by (simp_all add: sample_session_layer_def sp_get_def CreateSession_def)
  obtain txl1 where txl1: "layer_step client_machine server_machine sample_layer_env (LSessionClose 0) sample_session_layer = Some (Ok txl1)"
    by (simp add: Let_def)
  from old_session_closes_new [OF facts txl1, of sample_layer_env] txl1 show ?thesis by blast
qed

theorem bye_success_closes_session_witness:
  "\<exists>txl'. handleSession BYE sample_success sample_session_layer = Ok txl' \<and> layer_Session ''c#a#b'' txl' = None \<and>
     ss_closed (sp_heap (l_sessionStore txl') ! 1)"
proof -
  have "sessions_ok (l_sessionStore sample_session_layer)" "sp_get ''c#a#b'' (l_sessionStore sample_session_layer) = Some 1"
    by (simp_all add: sample_session_layer_def sessions_ok_def sp_get_def session_ok_ops(1)) (simp add: CreateSession_def)
  from bye_success_closes_session [OF this(1) sample_success_parts(5,6) this(2)] show ?thesis by blast
qed

definition sample_closing_layer :: layer where
  "sample_closing_layer = CreateLayer\<lparr>l_txs := [ClientTx (sample_started\<lparr>ct_closed := True, ct_responses := [sample_success]\<rparr>)],
     l_served := [0], l_forwarded := [0 \<mapsto> 0]\<rparr>"

theorem forward_after_done_panics_witness:
  "\<exists>t3. layer_enabled (LForward 0) t3 \<and>
     layer_step client_machine server_machine sample_layer_env (LForward 0) t3 = Some Panic"
proof -
  have "\<not> l_canceled sample_closing_layer" "l_served sample_closing_layer = [0]" "l_forwarded sample_closing_layer 0 = Some 0"
    "l_txs sample_closing_layer ! 0 = ClientTx (sample_started\<lparr>ct_closed := True, ct_responses := [sample_success]\<rparr>)"
    "0 < length (ct_responses (sample_started\<lparr>ct_closed := True, ct_responses := [sample_success]\<rparr>))"
    "ct_closed (sample_started\<lparr>ct_closed := True, ct_responses := [sample_success]\<rparr>)"
    by (simp_all add: sample_closing_layer_def CreateLayer_def)
  from forward_after_done_panics [OF this(1,2,4,6,3,5), of client_machine server_machine sample_layer_env] show ?thesis by blast
qed

end
