(* ===== verification/Gsip_Auth.thy ===== *)
theory Gsip_Auth
  imports Gsip_Tx
begin

unbundle bit_operations_syntax

text \<open>
  Digest authentication (\<^verbatim>\<open>sip/auth.go\<close>): the answer to a challenge and the request that
  is sent again with it. \<^verbatim>\<open>crypto/md5\<close> and \<^verbatim>\<open>encoding/hex\<close> of the standard library are
  written out (RFC 1321), with two of the test vectors of the RFC as lemmas.
\<close>

section \<open>MD5\<close>

text \<open>The constants of the 64 steps and the rotations of their four rounds.\<close>

definition md5_table :: "32 word list" where
  "md5_table =
     [0xd76aa478, 0xe8c7b756, 0x242070db, 0xc1bdceee,
      0xf57c0faf, 0x4787c62a, 0xa8304613, 0xfd469501,
      0x698098d8, 0x8b44f7af, 0xffff5bb1, 0x895cd7be,
      0x6b901122, 0xfd987193, 0xa679438e, 0x49b40821,
      0xf61e2562, 0xc040b340, 0x265e5a51, 0xe9b6c7aa,
      0xd62f105d, 0x02441453, 0xd8a1e681, 0xe7d3fbc8,
      0x21e1cde6, 0xc33707d6, 0xf4d50d87, 0x455a14ed,
      0xa9e3e905, 0xfcefa3f8, 0x676f02d9, 0x8d2a4c8a,
      0xfffa3942, 0x8771f681, 0x6d9d6122, 0xfde5380c,
      0xa4beea44, 0x4bdecfa9, 0xf6bb4b60, 0xbebfbc70,
      0x289b7ec6, 0xeaa127fa, 0xd4ef3085, 0x04881d05,
      0xd9d4d039, 0xe6db99e5, 0x1fa27cf8, 0xc4ac5665,
      0xf4292244, 0x432aff97, 0xab9423a7, 0xfc93a039,
      0x655b59c3, 0x8f0ccc92, 0xffeff47d, 0x85845dd1,
      0x6fa87e4f, 0xfe2ce6e0, 0xa3014314, 0x4e0811a1,
      0xf7537e82, 0xbd3af235, 0x2ad7d2bb, 0xeb86d391]"

definition md5_shifts :: "nat list" where
  "md5_shifts =
     concat (replicate 4 [7, 12, 17, 22]) @ concat (replicate 4 [5, 9, 14, 20]) @
     concat (replicate 4 [4, 11, 16, 23]) @ concat (replicate 4 [6, 10, 15, 21])"

text \<open>The function of step \<open>i\<close> and the index of the message word that it takes.\<close>

definition md5_mix :: "nat \<Rightarrow> 32 word \<Rightarrow> 32 word \<Rightarrow> 32 word \<Rightarrow> 32 word" where
  "md5_mix i b c d =
     (if i < 16 then (b AND c) OR (NOT b AND d)
      else if i < 32 then (d AND b) OR (NOT d AND c)
      else if i < 48 then b XOR c XOR d
      else c XOR (b OR NOT d))"

definition md5_index :: "nat \<Rightarrow> nat" where
  "md5_index i =
     (if i < 16 then i
      else if i < 32 then (5 * i + 1) mod 16
      else if i < 48 then (3 * i + 5) mod 16
      else (7 * i) mod 16)"

type_synonym md5_state = "32 word \<times> 32 word \<times> 32 word \<times> 32 word"

definition md5_rotate :: "nat \<Rightarrow> 32 word \<Rightarrow> 32 word" where
  "md5_rotate n x = push_bit n x OR drop_bit (32 - n) x"

definition md5_step :: "32 word list \<Rightarrow> nat \<times> 32 word \<times> nat \<Rightarrow> md5_state \<Rightarrow> md5_state" where
  "md5_step block step s =
     (let (i, t, n) = step; (a, b, c, d) = s
      in (d, b + md5_rotate n (a + md5_mix i b c d + t + block ! md5_index i), b, c))"

definition md5_block :: "32 word list \<Rightarrow> md5_state \<Rightarrow> md5_state" where
  "md5_block block s =
     (let (a, b, c, d) = s;
          (a', b', c', d') = fold (md5_step block) (zip [0..<64] (zip md5_table md5_shifts)) s
      in (a + a', b + b', c + c', d + d'))"

text \<open>Little-endian words and bytes.\<close>

fun le_words :: "string \<Rightarrow> 32 word list" where
  "le_words (p # q # r # s # rest) =
     (of_char p + 0x100 * of_char q + 0x10000 * of_char r + 0x1000000 * of_char s) # le_words rest"
| "le_words _ = []"

primrec le_bytes :: "nat \<Rightarrow> int \<Rightarrow> string" where
  "le_bytes 0 x = []"
| "le_bytes (Suc n) x = char_of (x mod 256) # le_bytes n (x div 256)"

text \<open>The padding: a one bit, zeros, and the length in bits as a 64-bit number.\<close>

definition md5_pad :: "string \<Rightarrow> string" where
  "md5_pad s =
     s @ [CHR 0x80] @ replicate ((119 - length s mod 64) mod 64) NUL @ le_bytes 8 (8 * int (length s))"

function md5_blocks :: "32 word list \<Rightarrow> md5_state \<Rightarrow> md5_state" where
  "md5_blocks ws s =
     (if length ws < 16 then s else md5_blocks (drop 16 ws) (md5_block (take 16 ws) s))"
  by pat_completeness auto
termination by (relation "measure (\<lambda>(ws, s). length ws)") auto

declare md5_blocks.simps [simp del]

definition md5_Sum :: "string \<Rightarrow> string" where
  "md5_Sum s =
     (let (a, b, c, d) = md5_blocks (le_words (md5_pad s)) (0x67452301, 0xefcdab89, 0x98badcfe, 0x10325476)
      in concat (map (\<lambda>w. le_bytes 4 (uint w)) [a, b, c, d]))"

section \<open>Hexadecimal text\<close>

definition hextable :: string where "hextable = ''0123456789abcdef''"

definition EncodeToString :: "string \<Rightarrow> string" where
  "EncodeToString src = concat (map (\<lambda>v. [hextable ! (byte v div 16), hextable ! (byte v mod 16)]) src)"

lemma md5_empty: "EncodeToString (md5_Sum '''') = ''d41d8cd98f00b204e9800998ecf8427e''"
  by code_simp

lemma md5_abc: "EncodeToString (md5_Sum ''abc'') = ''900150983cd24fb0d6963f7d28e17f72''"
  by code_simp

section \<open>The answer to a challenge\<close>

definition md5_hex :: "string \<Rightarrow> string" where
  "md5_hex s = EncodeToString (md5_Sum s)"

definition calcResponse :: "string \<Rightarrow> string \<Rightarrow> string \<Rightarrow> string \<Rightarrow> string \<Rightarrow> string \<Rightarrow> string" where
  "calcResponse Username Realm Password Method Uri Nonce =
     (let calcA1 = md5_hex (Username @ '':'' @ Realm @ '':'' @ Password);
          calcA2 = md5_hex (ToUpper Method @ '':'' @ Uri)
      in md5_hex (calcA1 @ '':'' @ Nonce @ '':'' @ calcA2))"

definition SetName :: "string \<Rightarrow> Authorization \<Rightarrow> Authorization" where
  "SetName name auth = auth\<lparr>au_name := name\<rparr>"

definition SetMode :: "string \<Rightarrow> Authorization \<Rightarrow> Authorization" where
  "SetMode mode auth = auth\<lparr>au_mode := mode\<rparr>"

definition SetUsername :: "string \<Rightarrow> Authorization \<Rightarrow> Authorization" where
  "SetUsername username auth = auth\<lparr>au_Username := username\<rparr>"

definition SetUri :: "string \<Rightarrow> Authorization \<Rightarrow> Authorization" where
  "SetUri uri auth = auth\<lparr>au_Uri := uri\<rparr>"

definition auth_SetMethod :: "string \<Rightarrow> Authorization \<Rightarrow> Authorization" where
  "auth_SetMethod method auth = auth\<lparr>au_Method := method\<rparr>"

definition SetPassword :: "string \<Rightarrow> Authorization \<Rightarrow> Authorization" where
  "SetPassword password auth = auth\<lparr>au_Password := password\<rparr>"

definition CalcResponse :: "Authorization \<Rightarrow> Authorization" where
  "CalcResponse auth =
     auth\<lparr>au_Response := calcResponse (au_Username auth) (au_Realm auth) (au_Password auth) (au_Method auth)
        (au_Uri auth) (au_Nonce auth)\<rparr>"

text \<open>\<^verbatim>\<open>cseq.SeqNo++\<close> through the pointer into the container.\<close>

definition bump_cseq :: "headers \<Rightarrow> headers" where
  "bump_cseq hs =
     (case get_CSeq hs of
        Some c \<Rightarrow> write_first ''cseq'' (\<lambda>_. CSeqHeader (c\<lparr>cs_SeqNo := cs_SeqNo c + 1\<rparr>)) hs
      | None \<Rightarrow> hs)"

text \<open>The credentials for the challenge \<open>contents\<close>.\<close>

definition answer_challenge :: "request \<Rightarrow> string \<Rightarrow> MaybeString \<Rightarrow> MaybeString \<Rightarrow> Authorization outcome" where
  "answer_challenge req contents user password =
     obind (ParseAuthorization contents CreateAuthorization) (\<lambda>auth.
     case r_recipient req of
       None \<Rightarrow> Panic
     | Some recipient \<Rightarrow>
         obind (ms_String user) (\<lambda>name.
         let auth1 = SetUsername name (SetUri (Uri_String recipient) (auth_SetMethod (r_method req) auth))
         in obind (if password = NilStr then Ok auth1
                   else omap (\<lambda>p. SetPassword p auth1) (ms_String password)) (\<lambda>auth2.
            Ok (CalcResponse auth2))))"

text \<open>
  \<^verbatim>\<open>AuthorizeRequest\<close>. Where the request already has a header of the name, the new credentials
  are assigned to a local variable only. Both error results come before any change of the request.
\<close>

definition AuthorizeRequest ::
  "string \<Rightarrow> request \<Rightarrow> response \<Rightarrow> MaybeString \<Rightarrow> MaybeString \<Rightarrow> request outcome" where
  "AuthorizeRequest branchRandom req res user password =
     (if user = NilStr then Fail (Errorf ''authorize request: user is nil'')
      else
        let (authenticateHeaderName, authorizeHeaderName) =
              (if s_status res = 401 then (''WWW-Authenticate'', ''Authorization'')
               else (''Proxy-Authenticate'', ''Proxy-Authorization''))
        in case GetHeaders authenticateHeaderName (m_headers res) of
             [] \<Rightarrow> Fail (Errorf ''authorize request: header not found in Response'')
           | h # _ \<Rightarrow>
               obind (case h of GenericHeader name contents \<Rightarrow> Ok contents | _ \<Rightarrow> Panic) (\<lambda>contents.
               obind (answer_challenge req contents user password) (\<lambda>auth.
               obind (case GetHeaders authorizeHeaderName (m_headers req) of
                        [] \<Rightarrow> AddHeader (AuthorizationHeader auth) (m_headers req)
                      | AuthorizationHeader _ # _ \<Rightarrow> Ok (m_headers req)
                      | _ # _ \<Rightarrow> Panic) (\<lambda>hs1.
               obind (if get_ViaHop hs1 = None then Ok hs1
                      else add_hop_param ''branch'' (Str (GenerateBranch branchRandom)) hs1) (\<lambda>hs2.
               Ok (req\<lparr>m_headers := bump_cseq hs2\<rparr>))))))"

record DefaultAuthorized =
  da_User :: MaybeString
  da_Password :: MaybeString

definition AddAuthInfo :: "string \<Rightarrow> DefaultAuthorized \<Rightarrow> request \<Rightarrow> response \<Rightarrow> request outcome" where
  "AddAuthInfo branchRandom auth req res =
     AuthorizeRequest branchRandom req res (da_User auth) (da_Password auth)"

section \<open>The shape of a digest\<close>

lemma length_le_bytes [simp]: "length (le_bytes n x) = n"
  by (induction n arbitrary: x) simp_all

lemma length_md5_Sum: "length (md5_Sum s) = 16"
  by (simp add: md5_Sum_def split: prod.split)

lemma EncodeToString_hex:
  "length (EncodeToString s) = 2 * length s \<and> set (EncodeToString s) \<subseteq> set hextable"
proof (induction s)
  case (Cons c s)
  have "length hextable = 16" "byte c div 16 < 16"
    using byte_less [of c] by (simp_all add: hextable_def less_mult_imp_div_less)
  then have "hextable ! (byte c div 16) \<in> set hextable" "hextable ! (byte c mod 16) \<in> set hextable"
    by simp_all
  with Cons show ?case by (auto simp: EncodeToString_def)
qed (simp add: EncodeToString_def)

text \<open>
  The response to a challenge is a text of 32 lower-case hexadecimal digits, whatever the
  credentials, the method, the address and the nonce are.
\<close>

theorem calcResponse_shape:
  "length (calcResponse u r p m uri n) = 32 \<and> set (calcResponse u r p m uri n) \<subseteq> set ''0123456789abcdef''"
  using EncodeToString_hex [of "md5_Sum s" for s]
  by (simp add: calcResponse_def md5_hex_def length_md5_Sum hextable_def)

section \<open>What AuthorizeRequest changes\<close>

lemma auth_set_total:
  assumes "au_Other a = Some p" "params_ok p"
  shows "\<exists>b q. auth_set kv a = Ok b \<and> au_name b = au_name a \<and> au_Other b = Some q \<and> params_ok q"
  using assms by (simp add: auth_set_def params_ok_Add split: prod.split)

lemma auth_set_all_total:
  "au_Other a = Some p \<Longrightarrow> params_ok p \<Longrightarrow>
     \<exists>b q. auth_set_all kvs a = Ok b \<and> au_name b = au_name a \<and> au_Other b = Some q \<and> params_ok q"
proof (induction kvs arbitrary: a p)
  case (Cons kv kvs)
  obtain b q where "auth_set kv a = Ok b" "au_name b = au_name a" "au_Other b = Some q" "params_ok q"
    using auth_set_total [OF Cons.prems] by blast
  then show ?case using Cons.IH [of b q] by simp
qed simp

lemma challenge_parsed:
  obtains chal where "ParseAuthorization contents CreateAuthorization = Ok chal" "au_name chal = ''''"
    "header_ok (AuthorizationHeader chal)"
proof -
  let ?a = "if contains_sub (ToLower contents) ''capability'' then CreateAuthorization\<lparr>au_mode := ''Capability''\<rparr>
    else CreateAuthorization"
  have "au_Other ?a = Some NewParams" "au_name ?a = ''''" by (simp_all add: CreateAuthorization_def)
  with auth_set_all_total [of ?a NewParams "auth_matches contents"]
  obtain b q where "ParseAuthorization contents CreateAuthorization = Ok b" "au_name b = ''''"
    "au_Other b = Some q" "params_ok q"
    unfolding ParseAuthorization_def by auto
  with that show thesis by (simp add: opt_params_ok_def)
qed

lemma bump_cseq_at:
  assumes "get_CSeq hs = Some c"
  shows "get_CSeq (bump_cseq hs) = Some (c\<lparr>cs_SeqNo := cs_SeqNo c + 1\<rparr>)"
    and "k \<noteq> ''cseq'' \<Longrightarrow> headers_at (bump_cseq hs) k = headers_at hs k"
    and "headers_ok hs \<Longrightarrow> headers_ok (bump_cseq hs)"
proof -
  obtain rest where "headers_at hs ''cseq'' = CSeqHeader c # rest"
    using assms by (auto simp: get_CSeq_at split: list.splits Header.splits)
  with assms show "get_CSeq (bump_cseq hs) = Some (c\<lparr>cs_SeqNo := cs_SeqNo c + 1\<rparr>)"
    by (simp add: bump_cseq_def get_CSeq_at write_first_at)
  show "k \<noteq> ''cseq'' \<Longrightarrow> headers_at (bump_cseq hs) k = headers_at hs k"
    using assms by (simp add: bump_cseq_def write_first_at)
  show "headers_ok hs \<Longrightarrow> headers_ok (bump_cseq hs)"
    using assms by (simp add: bump_cseq_def headers_ok_write_first header_key_simps)
qed

text \<open>The last two steps: a new branch and a new sequence number.\<close>

definition retry_headers :: "string \<Rightarrow> headers \<Rightarrow> headers outcome" where
  "retry_headers branchRandom hs =
     obind (if get_ViaHop hs = None then Ok hs
            else add_hop_param ''branch'' (Str (GenerateBranch branchRandom)) hs) (\<lambda>hs2. Ok (bump_cseq hs2))"

lemma retry_headers_ok:
  assumes "headers_ok hs" "get_Via hs = Some (hop # hops)" "get_CSeq hs = Some c"
  obtains hs' p where "retry_headers r hs = Ok hs'" "headers_ok hs'"
    "get_CSeq hs' = Some (c\<lparr>cs_SeqNo := cs_SeqNo c + 1\<rparr>)"
    "get_Via hs' = Some (hop\<lparr>vh_Params := Some (Params_Add ''branch'' (Str (GenerateBranch r)) p)\<rparr> # hops)"
    "\<And>k. k \<noteq> ''via'' \<Longrightarrow> k \<noteq> ''cseq'' \<Longrightarrow> headers_at hs' k = headers_at hs k"
proof -
  obtain p where "vh_Params hop = Some p" by (rule ViaHop_params [OF assms(1,2)])
  then obtain hs2 where hs2: "add_hop_param ''branch'' (Str (GenerateBranch r)) hs = Ok hs2"
    using assms(2) by (auto simp: add_hop_param_def)
  note at = add_hop_param_at [OF assms(1,2) hs2]
  from at(3) obtain q where via: "get_Via hs2 = Some (hop\<lparr>vh_Params := Some (Params_Add ''branch'' (Str (GenerateBranch r)) q)\<rparr> # hops)"
    by blast
  have cseq: "get_CSeq hs2 = Some c" using assms(3) at(2) [of "''cseq''"] by (simp add: get_CSeq_at)
  note bump = bump_cseq_at [OF cseq]
  show thesis
  proof (rule that)
    show "retry_headers r hs = Ok (bump_cseq hs2)"
      using assms(2) hs2 by (simp add: retry_headers_def get_ViaHop_def)
    show "get_Via (bump_cseq hs2) = Some (hop\<lparr>vh_Params := Some (Params_Add ''branch'' (Str (GenerateBranch r)) q)\<rparr> # hops)"
      using via bump(2) [of "''via''"] by (simp add: get_Via_at)
  qed (use at(1,2) bump in simp_all)
qed

definition challenge_names :: "StatusCode \<Rightarrow> string \<times> string" where
  "challenge_names code =
     (if code = 401 then (''WWW-Authenticate'', ''Authorization'') else (''Proxy-Authenticate'', ''Proxy-Authorization''))"

definition credentials :: "Authorization \<Rightarrow> RequestMethod \<Rightarrow> Uri \<Rightarrow> string \<Rightarrow> string \<Rightarrow> Authorization" where
  "credentials chal method uri user password =
     chal\<lparr>au_Method := method, au_Uri := Uri_String uri, au_Username := user, au_Password := password,
       au_Response := calcResponse user (au_Realm chal) password method (Uri_String uri) (au_Nonce chal)\<rparr>"

lemma AuthorizeRequest_steps:
  assumes "challenge_names (s_status res) = (challenge, answer)"
    and "GetHeaders challenge (m_headers res) = GenericHeader n contents # hers"
    and "ParseAuthorization contents CreateAuthorization = Ok chal" "r_recipient req = Some uri"
  shows "AuthorizeRequest r req res (Str user) (Str password) =
    obind (case GetHeaders answer (m_headers req) of
             [] \<Rightarrow> AddHeader (AuthorizationHeader (credentials chal (r_method req) uri user password)) (m_headers req)
           | AuthorizationHeader _ # _ \<Rightarrow> Ok (m_headers req)
           | _ # _ \<Rightarrow> Panic) (\<lambda>hs1. omap (\<lambda>hs. req\<lparr>m_headers := hs\<rparr>) (retry_headers r hs1))"
proof -
  have answer: "answer_challenge req contents (Str user) (Str password) = Ok (credentials chal (r_method req) uri user password)"
    using assms(3,4) by (simp add: answer_challenge_def credentials_def CalcResponse_def SetUsername_def SetUri_def
        auth_SetMethod_def SetPassword_def)
  have retry: "omap (\<lambda>hs. req\<lparr>m_headers := hs\<rparr>) (retry_headers r hs1) =
      obind (if get_ViaHop hs1 = None then Ok hs1
             else add_hop_param ''branch'' (Str (GenerateBranch r)) hs1) (\<lambda>hs2. Ok (req\<lparr>m_headers := bump_cseq hs2\<rparr>))" for hs1
    by (cases "add_hop_param ''branch'' (Str (GenerateBranch r)) hs1") (simp_all add: retry_headers_def)
  show ?thesis
    using assms(1,2) unfolding challenge_names_def retry AuthorizeRequest_def
    by (auto simp: answer split: if_splits)
qed

lemma retry_client_key:
  assumes "get_Via hs = Some (hop\<lparr>vh_Params := Some (Params_Add ''branch'' (Str (GenerateBranch r)) p)\<rparr> # hops)"
    and "get_CSeq hs = Some c" "length r \<noteq> 0"
  shows "MakeClientTxKey (Req (req\<lparr>m_headers := hs\<rparr>)) =
    Ok (join ''__'' [GenerateBranch r, if cs_MethodName c = ACK then INVITE else cs_MethodName c])"
  using assms branch_of_generated [OF assms(3), of "hop\<lparr>vh_Params := Some (Params_Add ''branch'' (Str (GenerateBranch r)) p)\<rparr>" p]
  by (simp add: MakeClientTxKey_def get_ViaHop_def Let_def)

lemma credentials_ok:
  assumes "au_name chal = ''''" "header_ok (AuthorizationHeader chal)"
  shows "header_ok (AuthorizationHeader (credentials chal m uri u p))"
    "header_key (AuthorizationHeader (credentials chal m uri u p)) = ''authorization''"
proof -
  have "ToLower ''Authorization'' = ''authorization''" by code_simp
  with assms show "header_ok (AuthorizationHeader (credentials chal m uri u p))"
    "header_key (AuthorizationHeader (credentials chal m uri u p)) = ''authorization''"
    by (simp_all add: credentials_def header_key_def Authorization_Name_def)
qed

text \<open>
  C24: A request that has no credentials yet and is challenged by a 401 or 407 response is sent
  again with the answer of RFC 2617 to that challenge, under a new branch, which makes it
  a new client transaction, and with the next sequence number (modulo 2^32); no other header changes. The
  answer to a proxy (407) too is stored under the name \<^verbatim>\<open>Authorization\<close>.
\<close>

theorem AuthorizeRequest_correct:
  assumes req: "headers_ok (m_headers req)" "get_Via (m_headers req) = Some (hop # hops)"
      "get_CSeq (m_headers req) = Some c" "r_recipient req = Some uri"
    and names: "challenge_names (s_status res) = (challenge, answer)"
    and challenged: "GetHeaders challenge (m_headers res) = GenericHeader n contents # hers"
    and fresh: "GetHeaders answer (m_headers req) = []" and random: "length r \<noteq> 0"
  shows "\<exists>chal hs'. ParseAuthorization contents CreateAuthorization = Ok chal \<and>
    AuthorizeRequest r req res (Str user) (Str password) = Ok (req\<lparr>m_headers := hs'\<rparr>) \<and> headers_ok hs' \<and>
    GetHeaders ''Authorization'' hs' = GetHeaders ''Authorization'' (m_headers req) @
      [AuthorizationHeader (credentials chal (r_method req) uri user password)] \<and>
    get_CSeq hs' = Some (c\<lparr>cs_SeqNo := cs_SeqNo c + 1\<rparr>) \<and>
    MakeClientTxKey (Req (req\<lparr>m_headers := hs'\<rparr>)) =
      Ok (join ''__'' [GenerateBranch r, if cs_MethodName c = ACK then INVITE else cs_MethodName c]) \<and>
    (\<forall>k. k \<notin> {''authorization'', ''via'', ''cseq''} \<longrightarrow> headers_at hs' k = headers_at (m_headers req) k)"
proof -
  obtain chal where chal: "ParseAuthorization contents CreateAuthorization = Ok chal" "au_name chal = ''''"
    "header_ok (AuthorizationHeader chal)" by (rule challenge_parsed)
  let ?a = "AuthorizationHeader (credentials chal (r_method req) uri user password)"
  note aok = credentials_ok [OF chal(2,3), of "r_method req" uri user password]
  obtain hs1 where hs1: "AddHeader ?a (m_headers req) = Ok hs1"
    using hm.add_total [OF req(1) aok(1)] by blast
  note at1 = hm.get_add [OF req(1) aok(1) hs1, unfolded aok(2)] and ok1 = headers_ok_AddHeader [OF req(1) aok(1) hs1]
  have "get_Via hs1 = Some (hop # hops)" "get_CSeq hs1 = Some c"
    using req(2,3) at1 by (simp_all add: get_Via_at get_CSeq_at)
  then obtain hs' p where hs': "retry_headers r hs1 = Ok hs'" "headers_ok hs'"
    "get_CSeq hs' = Some (c\<lparr>cs_SeqNo := cs_SeqNo c + 1\<rparr>)"
    "get_Via hs' = Some (hop\<lparr>vh_Params := Some (Params_Add ''branch'' (Str (GenerateBranch r)) p)\<rparr> # hops)"
    "\<And>k. k \<noteq> ''via'' \<Longrightarrow> k \<noteq> ''cseq'' \<Longrightarrow> headers_at hs' k = headers_at hs1 k"
    by (rule retry_headers_ok [OF ok1, where r = r]) blast
  have "ToLower ''Authorization'' = ''authorization''" by code_simp
  then have "GetHeaders ''Authorization'' hs' = GetHeaders ''Authorization'' (m_headers req) @ [?a]"
    by (simp add: GetHeaders_at hs'(5) at1)
  moreover have "AuthorizeRequest r req res (Str user) (Str password) = Ok (req\<lparr>m_headers := hs'\<rparr>)"
    using AuthorizeRequest_steps [OF names challenged chal(1) req(4)] fresh hs1 hs'(1) by simp
  moreover have "\<forall>k. k \<notin> {''authorization'', ''via'', ''cseq''} \<longrightarrow> headers_at hs' k = headers_at (m_headers req) k"
    using hs'(5) at1 by simp
  moreover have "MakeClientTxKey (Req (req\<lparr>m_headers := hs'\<rparr>)) =
      Ok (join ''__'' [GenerateBranch r, if cs_MethodName c = ACK then INVITE else cs_MethodName c])"
    using retry_client_key [OF hs'(4,3) random] by simp
  ultimately show ?thesis using chal(1) hs'(2,3) by blast
qed

text \<open>
  A request that already has a header of that name is sent again without an answer to the
  challenge: all its headers but \<^verbatim>\<open>Via\<close> and \<^verbatim>\<open>CSeq\<close> stay as they were, whatever user and password are.
\<close>

theorem AuthorizeRequest_discards_answer:
  assumes req: "headers_ok (m_headers req)" "get_Via (m_headers req) = Some (hop # hops)"
      "get_CSeq (m_headers req) = Some c" "r_recipient req = Some uri"
    and names: "challenge_names (s_status res) = (challenge, answer)"
    and challenged: "GetHeaders challenge (m_headers res) = GenericHeader n contents # hers"
    and stale: "GetHeaders answer (m_headers req) = AuthorizationHeader old # rest"
  shows "\<exists>hs'. AuthorizeRequest r req res (Str user) (Str password) = Ok (req\<lparr>m_headers := hs'\<rparr>) \<and>
    get_CSeq hs' = Some (c\<lparr>cs_SeqNo := cs_SeqNo c + 1\<rparr>) \<and>
    (\<forall>k. k \<notin> {''via'', ''cseq''} \<longrightarrow> headers_at hs' k = headers_at (m_headers req) k)"
proof -
  obtain chal where chal: "ParseAuthorization contents CreateAuthorization = Ok chal" by (rule challenge_parsed)
  obtain hs' p where "retry_headers r (m_headers req) = Ok hs'"
    "get_CSeq hs' = Some (c\<lparr>cs_SeqNo := cs_SeqNo c + 1\<rparr>)"
    "\<And>k. k \<noteq> ''via'' \<Longrightarrow> k \<noteq> ''cseq'' \<Longrightarrow> headers_at hs' k = headers_at (m_headers req) k"
    by (rule retry_headers_ok [OF req(1-3), where r = r]) blast
  with AuthorizeRequest_steps [OF names challenged chal req(4)] stale show ?thesis by auto
qed

section \<open>Witnesses\<close>

definition sample_challenge :: response where
  "sample_challenge = blank_response\<lparr>s_status := 401, m_headers :=
     \<lparr>hs_headers = [(''www-authenticate'', [GenericHeader ''WWW-Authenticate'' ''Digest realm=x''])],
      hs_headerOrder = [''www-authenticate'']\<rparr>\<rparr>"

lemma sample_challenge_header:
  "GetHeaders ''WWW-Authenticate'' (m_headers sample_challenge) = [GenericHeader ''WWW-Authenticate'' ''Digest realm=x'']"
proof -
  have "ToLower ''WWW-Authenticate'' = ''www-authenticate''" by code_simp
  then show ?thesis by (simp add: GetHeaders_at headers_at_def sample_challenge_def)
qed

definition sample_register :: request where
  "sample_register = blank_request\<lparr>m_headers := sample_msg_headers (Str ''z9hG4bKa'') REGISTER, r_method := REGISTER,
     r_recipient := Some (SipUriPtr blank_uri)\<rparr>"

lemma sample_register_parts:
  "headers_ok (m_headers sample_register)" "r_recipient sample_register = Some (SipUriPtr blank_uri)"
  "get_Via (m_headers sample_register) = Some (sample_hop (Str ''z9hG4bKa'') # [])"
  "get_CSeq (m_headers sample_register) = Some \<lparr>cs_SeqNo = 1, cs_MethodName = REGISTER\<rparr>"
  "challenge_names (s_status sample_challenge) = (''WWW-Authenticate'', ''Authorization'')"
  by (simp_all add: sample_register_def sample_accessors challenge_names_def sample_challenge_def)
    (simp add: get_Via_at headers_at_def sample_msg_headers_def)

theorem AuthorizeRequest_correct_witness:
  "\<exists>hs'. AuthorizeRequest ''x'' sample_register sample_challenge (Str ''u'') (Str ''p'') =
     Ok (sample_register\<lparr>m_headers := hs'\<rparr>) \<and> length (GetHeaders ''Authorization'' hs') = 1"
proof -
  have "ToLower ''Authorization'' = ''authorization''" by code_simp
  then have none: "GetHeaders ''Authorization'' (m_headers sample_register) = []"
    by (simp add: GetHeaders_at headers_at_def sample_register_def sample_msg_headers_def)
  obtain hs' a where "AuthorizeRequest ''x'' sample_register sample_challenge (Str ''u'') (Str ''p'') =
      Ok (sample_register\<lparr>m_headers := hs'\<rparr>)"
    "GetHeaders ''Authorization'' hs' = GetHeaders ''Authorization'' (m_headers sample_register) @ [a]"
    using AuthorizeRequest_correct [OF sample_register_parts(1,3,4,2,5) sample_challenge_header none,
        of "''x''" "''u''" "''p''"] by (auto simp del: join.simps)
  moreover from this(2) have "length (GetHeaders ''Authorization'' hs') = 1" by (simp add: none)
  ultimately show ?thesis by blast
qed

definition sample_stale :: request where
  "sample_stale = sample_register\<lparr>m_headers :=
     \<lparr>hs_headers = (''authorization'', [AuthorizationHeader CreateAuthorization]) # hs_headers (m_headers sample_register),
      hs_headerOrder = [''authorization'', ''via'', ''cseq'']\<rparr>\<rparr>"

theorem AuthorizeRequest_discards_answer_witness:
  "\<exists>hs'. AuthorizeRequest ''x'' sample_stale sample_challenge (Str ''u'') (Str ''p'') =
     Ok (sample_stale\<lparr>m_headers := hs'\<rparr>) \<and> headers_at hs' ''authorization'' = [AuthorizationHeader CreateAuthorization]"
proof -
  have lower: "ToLower ''Authorization'' = ''authorization''" by code_simp
  let ?hs = "m_headers sample_stale"
  have at: "headers_at ?hs ''authorization'' = [AuthorizationHeader CreateAuthorization]"
    "headers_at ?hs ''via'' = [ViaHeader [sample_hop (Str ''z9hG4bKa'')]]"
    "headers_at ?hs ''cseq'' = [CSeqHeader \<lparr>cs_SeqNo = 1, cs_MethodName = REGISTER\<rparr>]"
    by (simp_all add: sample_stale_def sample_register_def sample_msg_headers_def headers_at_def)
  have ok: "headers_ok ?hs"
    using sample_register_parts(1) lower
    by (simp add: sample_stale_def sample_register_def sample_msg_headers_def headers_ok_def entry_ok_def
        header_key_def Authorization_Name_def CreateAuthorization_def opt_params_ok_def)
  have accessors: "get_Via ?hs = Some (sample_hop (Str ''z9hG4bKa'') # [])"
    "get_CSeq ?hs = Some \<lparr>cs_SeqNo = 1, cs_MethodName = REGISTER\<rparr>"
    "GetHeaders ''Authorization'' ?hs = AuthorizationHeader CreateAuthorization # []"
    by (simp_all add: get_Via_at get_CSeq_at GetHeaders_at at lower)
  have "r_recipient sample_stale = Some (SipUriPtr blank_uri)" by (simp add: sample_stale_def sample_register_def)
  from AuthorizeRequest_discards_answer [OF ok accessors(1,2) this sample_register_parts(5) sample_challenge_header
      accessors(3), of "''x''" "''u''" "''p''"]
  obtain hs' where "AuthorizeRequest ''x'' sample_stale sample_challenge (Str ''u'') (Str ''p'') =
      Ok (sample_stale\<lparr>m_headers := hs'\<rparr>)"
    "\<And>k. k \<notin> {''via'', ''cseq''} \<Longrightarrow> headers_at hs' k = headers_at ?hs k" by blast
  moreover from this(2) [of "''authorization''"] at(1) have "headers_at hs' ''authorization'' = [AuthorizationHeader CreateAuthorization]"
    by simp
  ultimately show ?thesis by blast
qed

end
