(* ===== verification/Gsip_Service.thy ===== *)
theory Gsip_Service
  imports Gsip_Layer_Properties Gsip_Auth
begin

text \<open>
  What the user sees: the handlers (\<^verbatim>\<open>callback/default.go\<close>), and the service (\<^verbatim>\<open>service.go\<close>) that completes the
  messages of the user, gives requests and responses to the handlers and refuses the methods that have none.
\<close>

section \<open>Handlers\<close>

text \<open>
  A handler is a number, nil is \<^term>\<open>None\<close>. The map from methods to handlers is an association list; the order in which Go
  ranges over it is an argument. \<open>cb_calls\<close> lists the calls that were started.
\<close>

type_synonym handlers = "(RequestMethod \<times> nat option) list"

datatype handler_call =
    RequestCall nat request "nat option"
  | ResponseCall nat response "nat option"

record callback =
  cb_requestHandlers :: handlers
  cb_responseHandler :: "nat option"
  cb_calls :: "handler_call list"

definition NewCallback :: callback where
  "NewCallback = \<lparr>cb_requestHandlers = [], cb_responseHandler = None, cb_calls = []\<rparr>"

definition AddRequestHandle :: "RequestMethod \<Rightarrow> nat option \<Rightarrow> callback \<Rightarrow> callback" where
  "AddRequestHandle method handler c =
     c\<lparr>cb_requestHandlers := AList.update method handler (cb_requestHandlers c)\<rparr>"

definition SetRequestHandle :: "handlers option \<Rightarrow> callback \<Rightarrow> callback \<times> gerror option" where
  "SetRequestHandle callback c =
     (case callback of
        None \<Rightarrow> (c, Some (Errorf ''[requestHandle] -> Parameter exception''))
      | Some hs \<Rightarrow> (c\<lparr>cb_requestHandlers := hs\<rparr>, None))"

definition SetResponseHandle :: "nat option \<Rightarrow> callback \<Rightarrow> callback \<times> gerror option" where
  "SetResponseHandle callback c =
     (case callback of
        None \<Rightarrow> (c, Some (Errorf ''[responseHandle] -> Parameter exception''))
      | Some h \<Rightarrow> (c\<lparr>cb_responseHandler := Some h\<rparr>, None))"

definition GetRequestHandle :: "RequestMethod \<Rightarrow> callback \<Rightarrow> nat option option" where
  "GetRequestHandle method c = map_of (cb_requestHandlers c) method"

definition GetResponseHandle :: "callback \<Rightarrow> nat option" where
  "GetResponseHandle c = cb_responseHandler c"

text \<open>\<^verbatim>\<open>go handler(request, tx)\<close>: a nil handler panics.\<close>

definition DoRequest :: "request \<Rightarrow> nat option \<Rightarrow> callback \<Rightarrow> (callback \<times> gerror option) outcome" where
  "DoRequest request tx c =
     (case GetRequestHandle (r_method request) c of
        None \<Rightarrow> Ok (c, Some (NotExitCallbackError (r_method request)))
      | Some None \<Rightarrow> Panic
      | Some (Some h) \<Rightarrow> Ok (c\<lparr>cb_calls := cb_calls c @ [RequestCall h request tx]\<rparr>, None))"

definition DoResponse :: "response \<Rightarrow> nat option \<Rightarrow> callback \<Rightarrow> callback \<times> gerror option" where
  "DoResponse response tx c =
     (case GetResponseHandle c of
        None \<Rightarrow> (c, Some (NotExitCallbackError ''response''))
      | Some h \<Rightarrow> (c\<lparr>cb_calls := cb_calls c @ [ResponseCall h response tx]\<rparr>, None))"

definition GetAllowedMethods :: "(handlers \<Rightarrow> handlers) \<Rightarrow> callback \<Rightarrow> RequestMethod list" where
  "GetAllowedMethods order c = map fst (order (cb_requestHandlers c))"

interpretation cbs: keyed_store "\<lambda>m. m" NewCallback AddRequestHandle GetRequestHandle
  by unfold_locales (auto simp: NewCallback_def AddRequestHandle_def GetRequestHandle_def)

section \<open>Completing a message\<close>

definition autoAppendMethods :: "RequestMethod list" where
  "autoAppendMethods = [INVITE, REGISTER, ''OPTIONS'', ''REFER'', ''NOTIFY'']"

text \<open>The method by which \<^verbatim>\<open>autoFillMessageHeaderAndSend\<close> decides; empty for a provisional response.\<close>

definition fill_method :: "Message \<Rightarrow> RequestMethod" where
  "fill_method msg =
     (case msg of
        Req r \<Rightarrow> r_method r
      | Res r \<Rightarrow>
          (case get_CSeq (m_headers r) of
             Some cseq \<Rightarrow> if \<not> IsProvisional r then cs_MethodName cseq else ''''
           | None \<Rightarrow> ''''))"

definition fill_status :: "Message \<Rightarrow> StatusCode" where
  "fill_status msg = (case msg of Req _ \<Rightarrow> 0 | Res r \<Rightarrow> s_status r)"

text \<open>\<^verbatim>\<open>if hdrs := message.GetHeaders(name); len(hdrs) == 0 \{ message.AddHeader(h) \}\<close>.\<close>

definition add_missing :: "string \<Rightarrow> Header \<Rightarrow> headers \<Rightarrow> headers outcome" where
  "add_missing name h hs = (if length (GetHeaders name hs) = 0 then AddHeader h hs else Ok hs)"

definition add_from_tag :: "nat \<Rightarrow> string \<Rightarrow> headers \<Rightarrow> headers outcome" where
  "add_from_tag a r hs =
     (case get_From hs of
        None \<Rightarrow> Ok hs
      | Some from \<Rightarrow>
          (case ah_Params from of
             None \<Rightarrow> Panic
           | Some p \<Rightarrow>
               if Params_Has p ''tag'' then Ok hs
               else Ok (write_first ''from'' (\<lambda>_. FromHeader (from\<lparr>ah_Params :=
                          Some (Params_Add ''tag'' (StrPtr a (RandString r True)) p)\<rparr>)) hs)))"

definition autoFillMessageHeader ::
  "RequestMethod list \<Rightarrow> nat \<Rightarrow> string \<Rightarrow> Message \<Rightarrow> Message outcome" where
  "autoFillMessageHeader allowed a r msg =
     (let method = fill_method msg
      in obind (if (fill_status msg = 405 \<or> 0 < length method) \<and> method \<in> set autoAppendMethods then
                  obind (add_missing ''Allow'' (AllowHeader allowed) (Message_headers msg)) (\<lambda>hs1.
                  add_missing ''Supported'' (SupportedHeader []) hs1)
                else Ok (Message_headers msg)) (\<lambda>hs2.
         obind (add_missing ''User-Agent'' (UserAgentHeader ''GSIP'') hs2) (\<lambda>hs3.
         obind (add_from_tag a r hs3) (\<lambda>hs4.
         Ok (set_Message_headers hs4 msg)))))"

section \<open>The service\<close>

text \<open>
  The transport layer acts in the model through the environment of the transactions. \<open>sv_close\<close> is the channel
  \<^verbatim>\<open>close\<close>: nil, or a channel that is closed or not; \<open>sv_once\<close> says that \<^verbatim>\<open>once\<close> has run. \<open>service_env\<close> adds to the
  environment of the transaction layer the order in which the handlers are ranged over.
\<close>

record service =
  sv_tx :: layer
  sv_callback :: callback
  sv_close :: "bool option"
  sv_once :: bool

record service_env =
  se_layer :: layer_env
  se_order :: "handlers \<Rightarrow> handlers"

definition newService :: "callback \<Rightarrow> service" where
  "newService cb = \<lparr>sv_tx = CreateLayer, sv_callback = cb, sv_close = None, sv_once = False\<rparr>"

definition service_Send ::
  "client_spin \<Rightarrow> server_spin \<Rightarrow> service_env \<Rightarrow> Message \<Rightarrow> service \<Rightarrow> (service \<times> nat option \<times> gerror option) turn" where
  "service_Send cspin sspin env message s =
     (if sv_close s = Some True then Some (Ok (s, None, Some (Errorf ''[G.SIP] -> G.SIP Service Closed'')))
      else
        let t = le_tx (se_layer env)
        in tbind (Some (autoFillMessageHeader (GetAllowedMethods (se_order env) (sv_callback s)) (e_addr t) (e_random t) message))
             (\<lambda>message1.
           tbind (layer_Send cspin sspin (se_layer env) message1 (sv_tx s)) (\<lambda>(txl, tx, err).
           Some (Ok (s\<lparr>sv_tx := txl\<rparr>, tx, err)))))"

text \<open>\<^verbatim>\<open>t.(sip.ServerTransaction)\<close> and \<^verbatim>\<open>t.(sip.ClientTransaction)\<close>, for a transaction that is not nil.\<close>

definition server_tx_of :: "nat option \<Rightarrow> layer \<Rightarrow> nat option outcome" where
  "server_tx_of tx txl =
     (case tx of
        None \<Rightarrow> Ok None
      | Some h \<Rightarrow> (case l_txs txl ! h of ServerTx _ \<Rightarrow> Ok (Some h) | ClientTx _ \<Rightarrow> Panic))"

definition client_tx_of :: "nat option \<Rightarrow> layer \<Rightarrow> nat option outcome" where
  "client_tx_of tx txl =
     (case tx of
        None \<Rightarrow> Ok None
      | Some h \<Rightarrow> (case l_txs txl ! h of ClientTx _ \<Rightarrow> Ok (Some h) | ServerTx _ \<Rightarrow> Panic))"

definition service_handleRequest ::
  "client_spin \<Rightarrow> server_spin \<Rightarrow> service_env \<Rightarrow> request \<Rightarrow> service \<Rightarrow> service turn" where
  "service_handleRequest cspin sspin env request s =
     tbind (Some (server_tx_of (m_tx request) (sv_tx s))) (\<lambda>tx.
     tbind (Some (DoRequest request tx (sv_callback s))) (\<lambda>(cb, err).
     let s1 = s\<lparr>sv_callback := cb\<rparr>
     in case err of
          Some (NotExitCallbackError _) \<Rightarrow>
            (let t = le_tx (se_layer env)
             in tbind (Some (CreateResponseReason (e_uuid t) (e_addr t) (e_random t) 405 ''Method Not Allowed'' request)) (\<lambda>response.
                tbind (service_Send cspin sspin env (Res response) s1) (\<lambda>(s2, _, _). Some (Ok s2))))
        | _ \<Rightarrow> Some (Ok s1)))"

definition service_handleResponse :: "response \<Rightarrow> service \<Rightarrow> service outcome" where
  "service_handleResponse response s =
     omap (\<lambda>tx. s\<lparr>sv_callback := fst (DoResponse response tx (sv_callback s))\<rparr>) (client_tx_of (m_tx response) (sv_tx s))"

text \<open>
  \<^verbatim>\<open>stop\<close>, with the two waits done: \<^term>\<open>None\<close> while the transaction layer is not done. Closing a nil or a closed
  channel panics.
\<close>

definition service_stop :: "service \<Rightarrow> service turn" where
  "service_stop s =
     (if sv_close s = Some True then Some (Ok s)
      else
        let s1 = s\<lparr>sv_tx := layer_Close (sv_tx s)\<rparr>
        in if \<not> l_done (sv_tx s1) then None
           else case sv_close s1 of
                  None \<Rightarrow> Some Panic
                | Some _ \<Rightarrow> Some (Ok (s1\<lparr>sv_close := Some True\<rparr>)))"

definition service_Close :: "service \<Rightarrow> service turn" where
  "service_Close s = (if sv_once s then Some (Ok s) else service_stop (s\<lparr>sv_once := True\<rparr>))"

text \<open>\<^verbatim>\<open>Run\<close> returns its error once \<^verbatim>\<open>close\<close> is closed.\<close>

definition service_Run :: "service \<Rightarrow> gerror option" where
  "service_Run s = (if sv_close s = Some True then Some (Errorf ''[G.SIP] -> G.SIP Service Closed'') else None)"

section \<open>Helpers of the user\<close>

definition CreateAuthInfo :: "string \<Rightarrow> string \<Rightarrow> DefaultAuthorized" where
  "CreateAuthInfo username password = \<lparr>da_User = Str username, da_Password = Str password\<rparr>"

definition AddAuthHeader :: "string \<Rightarrow> response \<Rightarrow> string \<Rightarrow> string \<Rightarrow> request \<Rightarrow> request outcome" where
  "AddAuthHeader branchRandom response username password req =
     AddAuthInfo branchRandom \<lparr>da_User = Str username, da_Password = Str password\<rparr> req response"

text \<open>
  \<^verbatim>\<open>CreateSipUri\<close>: the user and the domain are cut at their first colon; a port that is no number is left out,
  and \<^verbatim>\<open>Port(p)\<close> wraps.
\<close>

definition CreateSipUri :: "string \<Rightarrow> string \<Rightarrow> Uri" where
  "CreateSipUri user domain =
     (let (fuser, fpassword) =
            (case index_char (CHR '':'') user of
               None \<Rightarrow> (Str user, NilStr)
             | Some i \<Rightarrow> (Str (take i user), Str (drop (Suc i) user)));
          fdomain =
            (case index_char (CHR '':'') domain of
               None \<Rightarrow> \<lparr>addr_Host = domain, addr_Port = None\<rparr>
             | Some i \<Rightarrow>
                 \<lparr>addr_Host = take i domain,
                  addr_Port = (case Atoi (drop (Suc i) domain) of Ok p \<Rightarrow> Some (word_of_int p) | _ \<Rightarrow> None)\<rparr>)
      in SipUriPtr \<lparr>u_FIsEncrypted = False, u_FUser = fuser, u_FPassword = fpassword, u_FDomain = fdomain,
           u_FUriParams = Some NewParams, u_FHeaders = Some NewParams\<rparr>)"

section \<open>Completed messages\<close>

lemma fill_names:
  "ToLower ''Allow'' = ''allow''" "ToLower ''Supported'' = ''supported''" "ToLower ''User-Agent'' = ''user-agent''"
  "header_key (AllowHeader m) = ''allow''" "header_key (SupportedHeader o') = ''supported''"
  "header_key (UserAgentHeader u) = ''user-agent''"
  by (simp_all add: header_key_def ToLower_def lower_char_def byte_def char_of_def bit_iff_odd)

lemma add_missing_ok:
  assumes "headers_ok hs" "header_ok h" "header_key h = ToLower name"
  obtains hs' where "add_missing name h hs = Ok hs'" "headers_ok hs'"
    "\<And>k. headers_at hs' k = (if k = ToLower name \<and> headers_at hs k = [] then [h] else headers_at hs k)"
    "hs_headerOrder hs' = hs_headerOrder hs @ (if headers_at hs (ToLower name) = [] then [ToLower name] else [])"
proof (cases "headers_at hs (ToLower name) = []")
  case True
  obtain hs' where hs': "AddHeader h hs = Ok hs'" using hm.add_total [OF assms(1,2)] by blast
  have "headers_at hs' k = headers_at hs k @ (if k = header_key h then [h] else [])" for k
    using hm.get_add [OF assms(1,2) hs'] by auto
  moreover have "hs_headerOrder hs' = hs_headerOrder hs @ [ToLower name]"
    using hm.order_add [OF assms(1,2) hs'] headers_at_Nil [OF assms(1), of "ToLower name"] True assms(3) by auto
  ultimately show thesis
    using True assms(3) hs' hm.inv_add [OF assms(1,2) hs'] by (intro that [of hs']) (auto simp: add_missing_def GetHeaders_at)
next
  case False
  with assms(1) show thesis by (intro that [of hs]) (auto simp: add_missing_def GetHeaders_at)
qed

text \<open>
  What becomes of the \<^verbatim>\<open>From\<close> headers: the first gets the tag \<open>v\<close> after its other parameters when it has none; nothing else about them changes.
\<close>

definition from_tagged :: "MaybeString \<Rightarrow> headers \<Rightarrow> headers \<Rightarrow> bool" where
  "from_tagged v hs hs' \<longleftrightarrow>
     (case get_From hs of
        None \<Rightarrow> headers_at hs' ''from'' = headers_at hs ''from''
      | Some f \<Rightarrow> (\<exists>p p'. ah_Params f = Some p \<and>
          headers_at hs' ''from'' = FromHeader (f\<lparr>ah_Params := Some p'\<rparr>) # tl (headers_at hs ''from'') \<and>
          (if Params_Has p ''tag'' then p' = p
           else Params_Get p' ''tag'' = Some v \<and> Params_Keys p' = Params_Keys p @ [''tag''] \<and>
             (\<forall>k. k \<noteq> ''tag'' \<longrightarrow> Params_Get p' k = Params_Get p k))))"

lemma get_From_first: "get_From hs = Some f \<Longrightarrow> headers_at hs ''from'' = FromHeader f # tl (headers_at hs ''from'')"
  by (auto simp: get_From_at split: list.splits Header.splits)

lemma from_tagged_has:
  assumes "from_tagged v hs hs'" "get_From hs' = Some f"
  shows "\<exists>p. ah_Params f = Some p \<and> Params_Has p ''tag''"
proof (cases "get_From hs")
  case None
  with assms show ?thesis by (simp add: from_tagged_def get_From_at)
next
  case (Some f0)
  with assms show ?thesis by (auto simp: from_tagged_def get_From_at Params_Has_def split: if_splits)
qed

lemma from_tagged_cong:
  "headers_at hs1 ''from'' = headers_at hs2 ''from'' \<Longrightarrow> from_tagged v hs1 hs' = from_tagged v hs2 hs'"
proof -
  assume same: "headers_at hs1 ''from'' = headers_at hs2 ''from''"
  then have "get_From hs1 = get_From hs2" by (simp add: get_From_at)
  with same show ?thesis by (simp only: from_tagged_def)
qed

lemma add_from_tag_ok:
  assumes "headers_ok hs"
  obtains hs' where "add_from_tag a r hs = Ok hs'" "headers_ok hs'" "hs_headerOrder hs' = hs_headerOrder hs"
    "\<And>k. k \<noteq> ''from'' \<Longrightarrow> headers_at hs' k = headers_at hs k"
    "from_tagged (StrPtr a (RandString r True)) hs hs'"
proof (cases "get_From hs")
  case None
  with assms that [of hs] show thesis by (simp add: add_from_tag_def from_tagged_def)
next
  case (Some f)
  then have ok: "address_ok f" using headers_ok_get_From [OF assms] by blast
  then obtain p where p: "ah_Params f = Some p" by (rule address_okE)
  show thesis
  proof (cases "Params_Has p ''tag''")
    case True
    moreover have "headers_at hs ''from'' = FromHeader (f\<lparr>ah_Params := Some p\<rparr>) # tl (headers_at hs ''from'')"
      using get_From_first [OF Some] p by (cases f) simp
    ultimately show thesis
      using Some p assms by (intro that [of hs]) (simp_all add: add_from_tag_def from_tagged_def)
  next
    case False
    let ?p = "Params_Add ''tag'' (StrPtr a (RandString r True)) p"
    let ?f = "f\<lparr>ah_Params := Some ?p\<rparr>"
    let ?hs = "write_first ''from'' (\<lambda>_. FromHeader ?f) hs"
    have "headers_ok ?hs" using ok p by (intro headers_ok_write_first [OF assms]) (simp add: address_ok_tag)
    moreover have "headers_at ?hs ''from'' = FromHeader ?f # tl (headers_at hs ''from'')"
      using get_From_first [OF Some] by (cases "headers_at hs ''from''") (simp_all add: write_first_at)
    moreover have "Params_Get ?p k = (if k = ''tag'' then Some (StrPtr a (RandString r True)) else Params_Get p k)"
      "Params_Keys ?p = Params_Keys p @ [''tag'']" for k
      using False by (simp_all add: Params_Has_def Params_Add_def Params_Get_def Params_Keys_def Let_def update_conv)
    ultimately show thesis
      using Some p False by (intro that [of ?hs]) (auto simp: add_from_tag_def from_tagged_def write_first_at)
  qed
qed

lemma add_from_tag_done:
  assumes "\<And>f. get_From hs = Some f \<Longrightarrow> \<exists>p. ah_Params f = Some p \<and> Params_Has p ''tag''"
  shows "add_from_tag a r hs = Ok hs"
  using assms by (auto simp: add_from_tag_def split: option.split)

lemma set_Message_headers_simps [simp]:
  "Message_headers (set_Message_headers hs msg) = hs" "set_Message_headers hs' (set_Message_headers hs msg) = set_Message_headers hs' msg"
  "set_Message_headers (Message_headers msg) msg = msg"
  by (cases msg; simp)+

lemma fill_method_set:
  assumes "headers_at hs ''cseq'' = headers_at (Message_headers msg) ''cseq''"
  shows "fill_method (set_Message_headers hs msg) = fill_method msg"
    "fill_status (set_Message_headers hs msg) = fill_status msg"
  using assms by (cases msg; simp add: fill_method_def fill_status_def get_CSeq_at IsProvisional_def split: option.split)+

lemma auto_not_empty: "m \<in> set autoAppendMethods \<Longrightarrow> 0 < length m"
  by (auto simp: autoAppendMethods_def INVITE_def REGISTER_def)

lemma autoFill_fills:
  assumes "headers_ok (Message_headers msg)"
  shows "\<exists>hs. autoFillMessageHeader allowed a r msg = Ok (set_Message_headers hs msg) \<and> headers_ok hs \<and>
    autoFillMessageHeader allowed' a' r' (set_Message_headers hs msg) = Ok (set_Message_headers hs msg) \<and>
    (\<forall>k. k \<notin> {''allow'', ''supported'', ''user-agent'', ''from''} \<longrightarrow> headers_at hs k = headers_at (Message_headers msg) k) \<and>
    headers_at hs ''allow'' =
      (if fill_method msg \<in> set autoAppendMethods \<and> headers_at (Message_headers msg) ''allow'' = [] then [AllowHeader allowed]
       else headers_at (Message_headers msg) ''allow'') \<and>
    headers_at hs ''supported'' =
      (if fill_method msg \<in> set autoAppendMethods \<and> headers_at (Message_headers msg) ''supported'' = [] then [SupportedHeader []]
       else headers_at (Message_headers msg) ''supported'') \<and>
    headers_at hs ''user-agent'' =
      (if headers_at (Message_headers msg) ''user-agent'' = [] then [UserAgentHeader ''GSIP'']
       else headers_at (Message_headers msg) ''user-agent'') \<and>
    from_tagged (StrPtr a (RandString r True)) (Message_headers msg) hs \<and>
    hs_headerOrder hs = hs_headerOrder (Message_headers msg) @ filter (\<lambda>k. headers_at (Message_headers msg) k = [])
      ((if fill_method msg \<in> set autoAppendMethods then [''allow'', ''supported''] else []) @ [''user-agent''])"
proof -
  let ?hs0 = "Message_headers msg" and ?auto = "fill_method msg \<in> set autoAppendMethods"
  obtain hs1 where hs1: "add_missing ''Allow'' (AllowHeader allowed) ?hs0 = Ok hs1" "headers_ok hs1"
    "\<And>k. headers_at hs1 k = (if k = ''allow'' \<and> headers_at ?hs0 k = [] then [AllowHeader allowed] else headers_at ?hs0 k)"
    "hs_headerOrder hs1 = hs_headerOrder ?hs0 @ (if headers_at ?hs0 ''allow'' = [] then [''allow''] else [])"
    by (rule add_missing_ok [OF assms, of "AllowHeader allowed" "''Allow''"]) (simp_all add: fill_names)
  obtain hs2 where hs2: "add_missing ''Supported'' (SupportedHeader []) hs1 = Ok hs2" "headers_ok hs2"
    "\<And>k. headers_at hs2 k = (if k = ''supported'' \<and> headers_at hs1 k = [] then [SupportedHeader []] else headers_at hs1 k)"
    "hs_headerOrder hs2 = hs_headerOrder hs1 @ (if headers_at hs1 ''supported'' = [] then [''supported''] else [])"
    by (rule add_missing_ok [OF hs1(2), of "SupportedHeader []" "''Supported''"]) (simp_all add: fill_names)
  let ?hs2 = "if ?auto then hs2 else ?hs0"
  have ok2: "headers_ok ?hs2" using assms hs2(2) by simp
  obtain hs3 where hs3: "add_missing ''User-Agent'' (UserAgentHeader ''GSIP'') ?hs2 = Ok hs3" "headers_ok hs3"
    "\<And>k. headers_at hs3 k = (if k = ''user-agent'' \<and> headers_at ?hs2 k = [] then [UserAgentHeader ''GSIP''] else headers_at ?hs2 k)"
    "hs_headerOrder hs3 = hs_headerOrder ?hs2 @ (if headers_at ?hs2 ''user-agent'' = [] then [''user-agent''] else [])"
    by (rule add_missing_ok [OF ok2, of "UserAgentHeader ''GSIP''" "''User-Agent''"]) (simp_all add: fill_names)
  obtain hs4 where hs4: "add_from_tag a r hs3 = Ok hs4" "headers_ok hs4" "hs_headerOrder hs4 = hs_headerOrder hs3"
    "\<And>k. k \<noteq> ''from'' \<Longrightarrow> headers_at hs4 k = headers_at hs3 k" "from_tagged (StrPtr a (RandString r True)) hs3 hs4"
    by (rule add_from_tag_ok [OF hs3(2), of a r]) (rule that)
  note at = hs4(4) hs3(3) hs2(3) hs1(3)
  have cseq: "headers_at hs4 ''cseq'' = headers_at ?hs0 ''cseq''" by (simp add: at)
  note meth = fill_method_set [OF cseq]
  have fill: "autoFillMessageHeader allowed a r msg = Ok (set_Message_headers hs4 msg)"
    using hs1(1) hs2(1) hs3(1) hs4(1) auto_not_empty [of "fill_method msg"]
    by (auto simp: autoFillMessageHeader_def Let_def split: if_splits)
  have kept: "add_missing name h hs4 = Ok hs4" if "headers_at hs4 (ToLower name) \<noteq> []" for name h
    using that by (simp add: add_missing_def GetHeaders_at)
  have has: "headers_at hs4 ''user-agent'' \<noteq> []" "?auto \<Longrightarrow> headers_at hs4 ''allow'' \<noteq> []" "?auto \<Longrightarrow> headers_at hs4 ''supported'' \<noteq> []"
    by (simp_all add: at)
  have "add_from_tag a' r' hs4 = Ok hs4" using from_tagged_has [OF hs4(5)] by (rule add_from_tag_done)
  then have again: "autoFillMessageHeader allowed' a' r' (set_Message_headers hs4 msg) = Ok (set_Message_headers hs4 msg)"
    using has kept by (auto simp: autoFillMessageHeader_def Let_def meth fill_names)
  have tagged: "from_tagged (StrPtr a (RandString r True)) ?hs0 hs4"
    using hs4(5) from_tagged_cong [of hs3 ?hs0] by (simp add: at)
  have order: "hs_headerOrder hs4 = hs_headerOrder ?hs0 @ filter (\<lambda>k. headers_at ?hs0 k = [])
      ((if ?auto then [''allow'', ''supported''] else []) @ [''user-agent''])"
    by (simp add: hs4(3) hs3(4) hs2(4) hs1(4) at)
  show ?thesis
    using fill again hs4(2) tagged order by (intro exI [of _ hs4]) (simp add: at)
qed

text \<open>
  C23: Completing a well-formed message succeeds, and a second time changes nothing. A message about INVITE, REGISTER,
  OPTIONS, REFER or NOTIFY - the request or a final response - gets an \<^verbatim>\<open>Allow\<close> header, which lists the methods that have handlers, and an
  empty \<^verbatim>\<open>Supported\<close> header; every message gets the \<^verbatim>\<open>User-Agent\<close> of the stack and a tag in its first
  \<^verbatim>\<open>From\<close> header, after the other parameters. Each of the four is added only where it is missing: what the user has written is kept as it is, every other
  header is untouched, and the new names come after the others.
\<close>

theorem autoFill_correct:
  assumes "headers_ok (Message_headers msg)"
  shows "\<exists>hs. autoFillMessageHeader allowed a r msg = Ok (set_Message_headers hs msg) \<and> headers_ok hs \<and>
    autoFillMessageHeader allowed' a' r' (set_Message_headers hs msg) = Ok (set_Message_headers hs msg) \<and>
    (\<forall>k. k \<notin> {''allow'', ''supported'', ''user-agent'', ''from''} \<longrightarrow> headers_at hs k = headers_at (Message_headers msg) k) \<and>
    headers_at hs ''allow'' =
      (if fill_method msg \<in> set autoAppendMethods \<and> headers_at (Message_headers msg) ''allow'' = [] then [AllowHeader allowed]
       else headers_at (Message_headers msg) ''allow'') \<and>
    headers_at hs ''supported'' =
      (if fill_method msg \<in> set autoAppendMethods \<and> headers_at (Message_headers msg) ''supported'' = [] then [SupportedHeader []]
       else headers_at (Message_headers msg) ''supported'') \<and>
    headers_at hs ''user-agent'' =
      (if headers_at (Message_headers msg) ''user-agent'' = [] then [UserAgentHeader ''GSIP'']
       else headers_at (Message_headers msg) ''user-agent'') \<and>
    from_tagged (StrPtr a (RandString r True)) (Message_headers msg) hs \<and>
    hs_headerOrder hs = hs_headerOrder (Message_headers msg) @ filter (\<lambda>k. headers_at (Message_headers msg) k = [])
      ((if fill_method msg \<in> set autoAppendMethods then [''allow'', ''supported''] else []) @ [''user-agent''])"
  by (rule autoFill_fills [OF assms])

section \<open>A request without a handler\<close>

text \<open>The 405 response that the service creates and completes for a request with a tagged \<^verbatim>\<open>From\<close>.\<close>

lemma refusal_ok:
  assumes req: "headers_ok (m_headers req)" "request_Destination req = Ok d" "request_Source req = Ok src"
    and tag: "\<And>f. get_From (m_headers req) = Some f \<Longrightarrow> \<exists>p. ah_Params f = Some p \<and> Params_Has p ''tag''"
  obtains res0 res where "CreateResponseReason uuid a r 405 reason req = Ok res0"
    "autoFillMessageHeader allowed a' r' (Res res0) = Ok (Res res)" "headers_ok (m_headers res)"
    "s_status res = 405" "s_reason res = StatusText 405" "m_dest res = src" "m_src res = d"
    "headers_at (m_headers res) ''user-agent'' \<noteq> []"
    "get_CSeq (m_headers res) = get_CSeq (m_headers req)" "get_ViaHop (m_headers res) = get_ViaHop (m_headers req)"
    "MakeServerTxKey (Res res) = MakeServerTxKey (Req req)"
    "headers_at (m_headers res) ''allow'' = (case get_CSeq (m_headers req) of
        Some seq \<Rightarrow> if cs_MethodName seq \<in> set autoAppendMethods then [AllowHeader allowed] else [] | None \<Rightarrow> [])"
proof -
  let ?res = "SetStatusCode 405 (blank_response\<lparr>m_messID := uuid, m_sipVersion := m_sipVersion req\<rparr>)"
  obtain res0 where res0: "fill_response a r 405 req ?res = Ok res0" "headers_ok (m_headers res0)"
    "\<And>k. k \<in> {''record-route'', ''via'', ''from'', ''call-id'', ''cseq''} \<Longrightarrow> headers_at (m_headers res0) k = headers_at (m_headers req) k"
    "s_status res0 = s_status ?res" "s_reason res0 = s_reason ?res" "m_src res0 = d" "m_dest res0 = src"
    "\<And>k. k \<notin> {''record-route'', ''via'', ''from'', ''to'', ''call-id'', ''cseq'', ''timestamp''} \<Longrightarrow> headers_at (m_headers res0) k = []"
    by (rule fill_response_ok [OF req, of a r 405 ?res]) (rule that)
  have same: "same_key_headers (m_headers res0) (m_headers req)" using res0(3) by (simp add: same_key_headers_def)
  note acc = same_key_accessors [OF same]
  have ok0: "headers_ok (Message_headers (Res res0))" using res0(2) by simp
  from autoFill_fills [OF ok0, of allowed a' r' allowed a' r'] obtain hs where
    hs: "autoFillMessageHeader allowed a' r' (Res res0) = Ok (Res (res0\<lparr>m_headers := hs\<rparr>))" "headers_ok hs"
    "\<And>k. k \<notin> {''allow'', ''supported'', ''user-agent'', ''from''} \<Longrightarrow> headers_at hs k = headers_at (m_headers res0) k"
    "headers_at hs ''user-agent'' \<noteq> []"
    "headers_at hs ''allow'' = (if fill_method (Res res0) \<in> set autoAppendMethods \<and> headers_at (m_headers res0) ''allow'' = []
      then [AllowHeader allowed] else headers_at (m_headers res0) ''allow'')"
    and from_hs: "from_tagged (StrPtr a' (RandString r' True)) (m_headers res0) hs"
    by (elim exE conjE) (rule that, simp_all)
  have f: "get_From hs = get_From (m_headers req)"
  proof (cases "get_From (m_headers req)")
    case None
    with from_hs acc(3) show ?thesis by (simp add: from_tagged_def get_From_at)
  next
    case (Some f)
    with from_hs acc(3) tag [OF Some] show ?thesis by (cases f) (auto simp: from_tagged_def get_From_at)
  qed
  have rest: "headers_at hs k = headers_at (m_headers req) k" if "k \<in> {''via'', ''cseq'', ''call-id''}" for k
    using that hs(3) [of k] res0(3) [of k] by auto
  have keys: "get_ViaHop hs = get_ViaHop (m_headers req)" "get_CSeq hs = get_CSeq (m_headers req)"
    "get_CallID hs = get_CallID (m_headers req)"
    by (simp_all add: get_ViaHop_def get_Via_at get_CSeq_at get_CallID_def first_header_at rest)
  have allow: "headers_at hs ''allow'' = (case get_CSeq (m_headers req) of
        Some seq \<Rightarrow> if cs_MethodName seq \<in> set autoAppendMethods then [AllowHeader allowed] else [] | None \<Rightarrow> [])"
    using hs(5) res0(4,8) auto_not_empty by (auto simp: fill_method_def acc(2) IsProvisional_def SetStatusCode_def split: option.split)
  have "MakeServerTxKey (Res (res0\<lparr>m_headers := hs\<rparr>)) = MakeServerTxKey (Req req)"
    using f keys by (intro key_accessors_cong(1)) simp_all
  with res0 hs(1,2,4) keys(1,2) allow show thesis
    by (intro that [of res0 "res0\<lparr>m_headers := hs\<rparr>"])
      (simp_all add: CreateResponseReason_eq CreateResponse_def SetStatusCode_def)
qed

text \<open>The transaction of a request does not decide where it comes from and goes to.\<close>

lemma request_tx_irrelevant:
  "request_Destination (req\<lparr>m_tx := tx\<rparr>) = request_Destination req" "request_Source (req\<lparr>m_tx := tx\<rparr>) = request_Source req"
proof -
  have "message_Transport (req\<lparr>m_tx := tx\<rparr>) = message_Transport req" by (simp add: message_Transport_def)
  then show "request_Destination (req\<lparr>m_tx := tx\<rparr>) = request_Destination req" "request_Source (req\<lparr>m_tx := tx\<rparr>) = request_Source req"
    unfolding request_Destination_def request_Source_def by (simp_all cong: if_cong option.case_cong)
qed

text \<open>A failure response through the transaction of a request that has just arrived.\<close>

lemma fresh_server_refuses:
  assumes law: "server_spins sspin" and new: "NewServerTx h IsReliable req = Ok tx0"
    and res: "\<not> response_IsCancel res" "e_Send t (Res res) = None" "\<not> IsProvisional res" "\<not> IsSuccess res"
  obtains tx where "SendResponse sspin t res (new_server env h req tx0) = Some (Ok (tx, None))"
    "st_state tx = serverStateCompleted" "st_sent tx = [Res res]"
proof -
  let ?tx = "new_server env h req tx0"
  have fresh: "\<not> st_closed ?tx" "st_state ?tx = serverStateProceeding \<or> \<not> st_invite ?tx \<and> st_state ?tx = serverStateTrying"
    "st_timerG ?tx = None" "st_timerH ?tx = None" "st_sent ?tx = []"
    using new by (auto simp: new_server_def server_Init_def NewServerTx_def st_invite_def IsInvite_def Let_def omap_eq_Ok)
  show thesis
    using SendResponse_result [OF law fresh(1,2) res(1,2) fresh(3,4) refl] fresh(5) res(3,4)
    by (intro that) (auto split: if_splits)
qed

lemma service_refuses:
  assumes tx: "m_tx req = Some h" "l_txs (sv_tx s) ! h = ServerTx young"
    and live: "\<not> l_canceled (sv_tx s)" "sv_close s \<noteq> Some True"
    and handler: "GetRequestHandle (r_method req) (sv_callback s) = None"
    and t: "t = le_tx (se_layer env)"
    and made: "CreateResponseReason (e_uuid t) (e_addr t) (e_random t) 405 ''Method Not Allowed'' req = Ok raw"
    and filled: "autoFillMessageHeader (GetAllowedMethods (se_order env) (sv_callback s)) (e_addr t) (e_random t) (Res raw) = Ok (Res res)"
    and res: "s_status res = 405" "getServerTx (Res res) (sv_tx s) = Ok (h, young)"
    and sent: "SendResponse sspin t res young = Some (Ok (tx, None))"
  shows "service_handleRequest cspin sspin env req s = Some (Ok (s\<lparr>sv_tx := set_tx h (ServerTx tx) (sv_tx s)\<rparr>))"
proof -
  have "handleSession m res (sv_tx s) = Ok (sv_tx s)" for m using res(1) by (simp add: handleSession_def IsSuccess_def)
  then have "layer_Send cspin sspin (se_layer env) (Res res) (sv_tx s) = Some (Ok (set_tx h (ServerTx tx) (sv_tx s), Some h, None))"
    using res(2) sent live(1) t by (simp add: layer_Send_def sendResponse_def Let_def)
  moreover have "server_tx_of (Some h) (sv_tx s) = Ok (Some h)" using tx(2) by (simp add: server_tx_of_def)
  ultimately show ?thesis
    using handler live(2) made filled t tx(1)
    by (simp add: service_handleRequest_def DoRequest_def service_Send_def Let_def)
qed

lemma refused_request:
  assumes law: "server_spins sspin"
    and req: "headers_ok (m_headers req)" "request_Destination req = Ok d" "request_Source req = Ok src"
    and tag: "\<forall>f. get_From (m_headers req) = Some f \<longrightarrow> (\<exists>p. ah_Params f = Some p \<and> Params_Has p ''tag'')"
    and kind: "\<not> IsAck req" "\<not> IsCancel req" "get_CSeq (m_headers req) = Some seq" "cs_MethodName seq \<noteq> CANCEL"
    and new: "MakeServerTxKey (Req req) = Ok key" "getServerTx (Req req) (sv_tx s) = Fail err"
    and live: "\<not> l_canceled (sv_tx s)" "sv_close s \<noteq> Some True"
    and handler: "GetRequestHandle (r_method req) (sv_callback s) = None"
    and h: "h = length (l_txs (sv_tx s))" and t: "t = le_tx (se_layer env)"
    and send: "\<And>res. headers_ok (m_headers res) \<Longrightarrow> m_src res = d \<Longrightarrow> m_dest res = src \<Longrightarrow>
      get_ViaHop (m_headers res) = get_ViaHop (m_headers req) \<Longrightarrow> e_Send t (Res res) = None"
  obtains txl s' tx res where "layer_handleRequest sspin (se_layer env) req (sv_tx s) = Some (Ok txl)"
    "service_handleRequest cspin sspin env (req\<lparr>m_tx := Some h\<rparr>) (s\<lparr>sv_tx := txl\<rparr>) = Some (Ok s')"
    "sv_callback s' = sv_callback s" "l_txs (sv_tx s') = l_txs (sv_tx s) @ [ServerTx tx]"
    "st_state tx = serverStateCompleted" "st_sent tx = [Res res]" "headers_ok (m_headers res)"
    "s_status res = 405" "m_src res = d" "m_dest res = src" "get_ViaHop (m_headers res) = get_ViaHop (m_headers req)"
    "MakeServerTxKey (Res res) = Ok key" "headers_at (m_headers res) ''user-agent'' \<noteq> []"
    "cs_MethodName seq \<in> set autoAppendMethods \<Longrightarrow>
       headers_at (m_headers res) ''allow'' = [AllowHeader (GetAllowedMethods (se_order env) (sv_callback s))]"
proof -
  let ?req = "req\<lparr>m_tx := Some h\<rparr>" and ?allowed = "GetAllowedMethods (se_order env) (sv_callback s)"
  obtain txl1 tx0 where new1: "same_but_sessions (sv_tx s) txl1" "NewServerTx h (le_IsReliable (se_layer env)) req = Ok tx0"
    "st_key tx0 = key" "layer_handleRequest sspin (se_layer env) req (sv_tx s) = Some (Ok (passUp_request (se_layer env) ?req
       (added (ServerTx (new_server (se_layer env) h req tx0)) True txl1)))"
    unfolding h by (rule handleRequest_new [OF req(1) live(1) new(2) kind(1,2) new(1)])
  let ?tx = "new_server (se_layer env) h req tx0"
  let ?txl = "passUp_request (se_layer env) ?req (added (ServerTx ?tx) True txl1)"
  note same = same_but_sessionsD [OF new1(1)]
  have msg: "headers_ok (m_headers ?req)" "request_Destination ?req = Ok d" "request_Source ?req = Ok src"
    using req by (simp_all add: request_tx_irrelevant)
  have tag': "\<exists>p. ah_Params f = Some p \<and> Params_Has p ''tag''" if "get_From (m_headers ?req) = Some f" for f
    using that tag by simp
  obtain res0 res where res: "CreateResponseReason (e_uuid t) (e_addr t) (e_random t) 405 ''Method Not Allowed'' ?req = Ok res0"
    "autoFillMessageHeader ?allowed (e_addr t) (e_random t) (Res res0) = Ok (Res res)" "headers_ok (m_headers res)"
    "s_status res = 405" "m_dest res = src" "m_src res = d" "headers_at (m_headers res) ''user-agent'' \<noteq> []"
    "get_CSeq (m_headers res) = get_CSeq (m_headers ?req)" "get_ViaHop (m_headers res) = get_ViaHop (m_headers ?req)"
    "MakeServerTxKey (Res res) = MakeServerTxKey (Req ?req)"
    "headers_at (m_headers res) ''allow'' = (case get_CSeq (m_headers ?req) of
        Some seq \<Rightarrow> if cs_MethodName seq \<in> set autoAppendMethods then [AllowHeader ?allowed] else [] | None \<Rightarrow> [])"
    by (rule refusal_ok [OF msg, of "e_uuid t" "e_addr t" "e_random t" "''Method Not Allowed''" ?allowed "e_addr t" "e_random t"],
        erule tag', rule that)
  have key: "MakeServerTxKey (Res res) = Ok key"
    unfolding res(10) new(1) [symmetric] by (rule key_accessors_cong(1)) simp_all
  have "\<not> response_IsCancel res" using res(8) kind(3,4) by (simp add: response_IsCancel_def)
  then obtain tx where tx: "SendResponse sspin t res ?tx = Some (Ok (tx, None))" "st_state tx = serverStateCompleted" "st_sent tx = [Res res]"
    by (rule fresh_server_refuses [OF law new1(2), where t = t])
      (use res(4) send [OF res(3,6,5)] res(9) in \<open>simp_all add: IsProvisional_def IsSuccess_def\<close>)
  let ?s = "s\<lparr>sv_tx := ?txl\<rparr>"
  have "service_handleRequest cspin sspin env ?req ?s = Some (Ok (?s\<lparr>sv_tx := set_tx h (ServerTx tx) (sv_tx ?s)\<rparr>))"
    by (rule service_refuses [where s = ?s and req = ?req and h = h and cspin = cspin and sspin = sspin and env = env and
          young = ?tx and tx = tx and raw = res0 and res = res and t = t])
      (use t same(1,2,7) live handler h res(1,2,4) key new1(3) tx(1) in \<open>simp_all add: getServerTx_def txp.get_put\<close>)
  then have "service_handleRequest cspin sspin env ?req ?s = Some (Ok (s\<lparr>sv_tx := set_tx h (ServerTx tx) ?txl\<rparr>))" by simp
  moreover have "l_txs (set_tx h (ServerTx tx) ?txl) = l_txs (sv_tx s) @ [ServerTx tx]"
    using same(1) by (simp add: set_tx_def h)
  ultimately show thesis using new1(4) tx(2,3) res(3-7,9,11) key kind(3)
    by (intro that [of ?txl "s\<lparr>sv_tx := set_tx h (ServerTx tx) ?txl\<rparr>" tx res]) simp_all
qed

text \<open>
  A new request whose method has no handler is refused: no handler is called, and the server transaction that the
  transaction layer made for the request sends one 405 response, which goes to the source of the request, has the key of the request, the \<^verbatim>\<open>User-Agent\<close> of the stack and, for the methods that ask for it, the list of
  the methods that have handlers; the transaction is completed.
\<close>

theorem unhandled_request_refused:
  assumes law: "server_spins sspin" and send: "\<forall>m. e_Send (le_tx (se_layer env)) m = None"
    and req: "headers_ok (m_headers req)" "request_Destination req = Ok d" "request_Source req = Ok src"
    and tag: "\<forall>f. get_From (m_headers req) = Some f \<longrightarrow> (\<exists>p. ah_Params f = Some p \<and> Params_Has p ''tag'')"
    and kind: "\<not> IsAck req" "\<not> IsCancel req" "get_CSeq (m_headers req) = Some seq" "cs_MethodName seq \<noteq> CANCEL"
    and new: "MakeServerTxKey (Req req) = Ok key" "getServerTx (Req req) (sv_tx s) = Fail err"
    and live: "\<not> l_canceled (sv_tx s)" "sv_close s \<noteq> Some True"
    and handler: "GetRequestHandle (r_method req) (sv_callback s) = None"
    and h: "h = length (l_txs (sv_tx s))"
  shows "\<exists>txl s' tx res. layer_handleRequest sspin (se_layer env) req (sv_tx s) = Some (Ok txl) \<and>
    service_handleRequest cspin sspin env (req\<lparr>m_tx := Some h\<rparr>) (s\<lparr>sv_tx := txl\<rparr>) = Some (Ok s') \<and>
    sv_callback s' = sv_callback s \<and> l_txs (sv_tx s') = l_txs (sv_tx s) @ [ServerTx tx] \<and>
    st_state tx = serverStateCompleted \<and> st_sent tx = [Res res] \<and>
    s_status res = 405 \<and> m_dest res = src \<and> MakeServerTxKey (Res res) = Ok key \<and>
    headers_at (m_headers res) ''user-agent'' \<noteq> [] \<and>
    (cs_MethodName seq \<in> set autoAppendMethods \<longrightarrow>
       headers_at (m_headers res) ''allow'' = [AllowHeader (GetAllowedMethods (se_order env) (sv_callback s))])"
proof (rule refused_request [OF law req tag kind new live handler h refl, where cspin = cspin and env = env])
  show "e_Send (le_tx (se_layer env)) (Res res) = None" for res using send by simp
qed (intro exI conjI impI; assumption)

section \<open>The service as a whole\<close>

text \<open>
  What changes a service: its user sends or closes, its loop hands a request or a response of the transaction
  layer to a handler, and the layer below takes a step of its own.
\<close>

datatype service_event =
    SvSend Message
  | SvRequest request
  | SvResponse response
  | SvLayer layer_event
  | SvClose

fun service_enabled :: "service_event \<Rightarrow> service \<Rightarrow> bool" where
  "service_enabled (SvRequest req) s \<longleftrightarrow> req \<in> set (l_requests (sv_tx s))"
| "service_enabled (SvResponse res) s \<longleftrightarrow> res \<in> set (l_responses (sv_tx s))"
| "service_enabled (SvLayer ev) s \<longleftrightarrow> layer_enabled ev (sv_tx s)"
| "service_enabled _ s \<longleftrightarrow> True"

fun service_step :: "client_spin \<Rightarrow> server_spin \<Rightarrow> service_env \<Rightarrow> service_event \<Rightarrow> service \<Rightarrow> service turn" where
  "service_step cspin sspin env (SvSend msg) s = tbind (service_Send cspin sspin env msg s) (\<lambda>(s', _). Some (Ok s'))"
| "service_step cspin sspin env (SvRequest req) s = service_handleRequest cspin sspin env req s"
| "service_step cspin sspin env (SvResponse res) s = Some (service_handleResponse res s)"
| "service_step cspin sspin env (SvLayer ev) s =
     tbind (layer_step cspin sspin (se_layer env) ev (sv_tx s)) (\<lambda>txl. Some (Ok (s\<lparr>sv_tx := txl\<rparr>)))"
| "service_step cspin sspin env SvClose s = service_Close s"

inductive service_reachable :: "client_spin \<Rightarrow> server_spin \<Rightarrow> service \<Rightarrow> bool" for cspin sspin where
  created: "service_reachable cspin sspin (newService cb)"
| stepped: "service_reachable cspin sspin s \<Longrightarrow> service_enabled ev s \<Longrightarrow>
    service_step cspin sspin env ev s = Some (Ok s') \<Longrightarrow> service_reachable cspin sspin s'"

text \<open>A step of the service is a step of its transaction layer or none.\<close>

lemma service_Send_layer:
  assumes "service_Send cspin sspin env msg s = Some (Ok (s', r))"
  shows "sv_close s' = sv_close s \<and> sv_once s' = sv_once s \<and>
    (sv_tx s' = sv_tx s \<or> (\<exists>msg'. layer_step cspin sspin (se_layer env) (LSend msg') (sv_tx s) = Some (Ok (sv_tx s'))))"
proof (cases "sv_close s = Some True")
  case True
  with assms show ?thesis by (auto simp: service_Send_def)
next
  case False
  then obtain msg1 txl q where "layer_Send cspin sspin (se_layer env) msg1 (sv_tx s) = Some (Ok (txl, q))" "s' = s\<lparr>sv_tx := txl\<rparr>"
    using assms by (auto simp: service_Send_def Let_def tbind_eq_Ok split: outcome.splits)
  moreover from this(1) have "layer_step cspin sspin (se_layer env) (LSend msg1) (sv_tx s) = Some (Ok txl)" by simp
  ultimately show ?thesis by (metis service.select_convs(1,3,4) service.surjective service.update_convs(1))
qed

lemma service_handleRequest_layer:
  assumes "service_handleRequest cspin sspin env req s = Some (Ok s')"
  shows "sv_close s' = sv_close s \<and> sv_once s' = sv_once s \<and>
    (sv_tx s' = sv_tx s \<or> (\<exists>msg'. layer_step cspin sspin (se_layer env) (LSend msg') (sv_tx s) = Some (Ok (sv_tx s'))))"
proof -
  consider cb where "s' = s\<lparr>sv_callback := cb\<rparr>"
    | cb res r where "service_Send cspin sspin env (Res res) (s\<lparr>sv_callback := cb\<rparr>) = Some (Ok (s', r))"
    using assms by (auto simp: service_handleRequest_def Let_def tbind_eq_Ok split: outcome.splits option.splits gerror.splits)
  then show ?thesis
  proof cases
    case 2
    from service_Send_layer [OF this] show ?thesis by auto
  qed auto
qed

lemma service_step_layer:
  assumes step: "service_step cspin sspin env ev s = Some (Ok s')" and enabled: "service_enabled ev s" and close: "sv_close s = None"
  shows "sv_close s' = None \<and>
    (sv_tx s' = sv_tx s \<or>
     (\<exists>lev. layer_enabled lev (sv_tx s) \<and> layer_step cspin sspin (se_layer env) lev (sv_tx s) = Some (Ok (sv_tx s'))))"
proof (cases ev)
  case (SvSend msg)
  with step obtain r where "service_Send cspin sspin env msg s = Some (Ok (s', r))" by (auto simp: tbind_eq_Ok)
  from service_Send_layer [OF this] close show ?thesis by (metis layer_enabled.simps(9))
next
  case (SvRequest req)
  with step have "service_handleRequest cspin sspin env req s = Some (Ok s')" by simp
  from service_handleRequest_layer [OF this] close show ?thesis by (metis layer_enabled.simps(9))
next
  case (SvResponse res)
  with step close show ?thesis by (auto simp: service_handleResponse_def omap_eq_Ok)
next
  case (SvLayer lev)
  with step close enabled show ?thesis by (auto simp: tbind_eq_Ok)
next
  case SvClose
  with step close show ?thesis by (auto simp: service_Close_def service_stop_def Let_def split: if_splits)
qed

lemma service_reachable_layer:
  assumes "service_reachable cspin sspin s"
  shows "layer_reachable cspin sspin (sv_tx s) \<and> sv_close s = None"
  using assms
proof induction
  case (created cb)
  show ?case by (simp add: newService_def layer_reachable.created)
next
  case (stepped s ev env s')
  with service_step_layer [OF stepped.hyps(3,2)] show ?case by (metis layer_reachable.stepped)
qed

text \<open>What the unchecked type assertions of the two loops find, and the calls that follow.\<close>

lemma request_given:
  assumes "request_known (l_txs (sv_tx s)) r"
  shows "IsAck r \<and> m_tx r = None \<or> (\<exists>h t. m_tx r = Some h \<and> l_txs (sv_tx s) ! h = ServerTx t \<and>
      (st_origin t = r \<or> r \<in> set (st_requests t) \<and> (IsAck r \<or> IsCancel r)))"
    "server_tx_of (m_tx r) (sv_tx s) = Ok (m_tx r)"
  using assms by (auto simp: request_known_def server_tx_of_def split: option.splits)

lemma response_given:
  assumes "response_known (l_txs (sv_tx s)) r"
  shows "m_tx r = None \<or> (\<exists>h t. m_tx r = Some h \<and> l_txs (sv_tx s) ! h = ClientTx t \<and> r \<in> set (ct_responses t))"
    "client_tx_of (m_tx r) (sv_tx s) = Ok (m_tx r)"
  using assms by (auto simp: response_known_def client_tx_of_def split: option.splits)

text \<open>
  C5: A service uses its transaction layer only by its operations: the layer of every reachable service is a
  reachable layer, so its invariant holds. Both unchecked type assertions of its loops succeed, for every request and every response in the
  channels of the layer. An ACK may come without a transaction; any other request, and an ACK or CANCEL that a transaction passed on,
  carries a server transaction: the one whose origin it is, or the one that was given the ACK or the CANCEL. A response carries the client transaction
  that received it, or none when it matched none. A request whose method has a handler is given to that handler, and a response to the response handler, with this
  transaction.
\<close>

theorem service_uses_layer:
  assumes "client_spins cspin cspin" "server_spins sspin" "service_reachable cspin sspin s"
  shows "layer_reachable cspin sspin (sv_tx s) \<and>
    (\<forall>r \<in> set (l_requests (sv_tx s)).
       (IsAck r \<and> m_tx r = None \<or> (\<exists>h t. m_tx r = Some h \<and> l_txs (sv_tx s) ! h = ServerTx t \<and>
          (st_origin t = r \<or> r \<in> set (st_requests t) \<and> (IsAck r \<or> IsCancel r)))) \<and>
       server_tx_of (m_tx r) (sv_tx s) = Ok (m_tx r) \<and>
       (\<forall>g. GetRequestHandle (r_method r) (sv_callback s) = Some (Some g) \<longrightarrow>
          service_handleRequest cspin sspin env r s = Some (Ok (s\<lparr>sv_callback :=
            (sv_callback s)\<lparr>cb_calls := cb_calls (sv_callback s) @ [RequestCall g r (m_tx r)]\<rparr>\<rparr>)))) \<and>
    (\<forall>r \<in> set (l_responses (sv_tx s)).
       (m_tx r = None \<or> (\<exists>h t. m_tx r = Some h \<and> l_txs (sv_tx s) ! h = ClientTx t \<and> r \<in> set (ct_responses t))) \<and>
       client_tx_of (m_tx r) (sv_tx s) = Ok (m_tx r) \<and>
       service_handleResponse r s = Ok (s\<lparr>sv_callback := fst (DoResponse r (m_tx r) (sv_callback s))\<rparr>))"
proof -
  have reach: "layer_reachable cspin sspin (sv_tx s)" using service_reachable_layer [OF assms(3)] by blast
  with layer_reachable_ok [OF assms(1,2)] have known: "\<forall>r \<in> set (l_requests (sv_tx s)). request_known (l_txs (sv_tx s)) r"
    "\<forall>r \<in> set (l_responses (sv_tx s)). response_known (l_txs (sv_tx s)) r"
    by (simp_all add: layer_ok_def)
  note req = request_given [OF bspec [OF known(1)]] and res = response_given [OF bspec [OF known(2)]]
  have "service_handleRequest cspin sspin env r s = Some (Ok (s\<lparr>sv_callback :=
      (sv_callback s)\<lparr>cb_calls := cb_calls (sv_callback s) @ [RequestCall g r (m_tx r)]\<rparr>\<rparr>))"
    if "r \<in> set (l_requests (sv_tx s))" "GetRequestHandle (r_method r) (sv_callback s) = Some (Some g)" for r g
    using req(2) [OF that(1)] that(2) by (simp add: service_handleRequest_def DoRequest_def Let_def)
  moreover have "service_handleResponse r s = Ok (s\<lparr>sv_callback := fst (DoResponse r (m_tx r) (sv_callback s))\<rparr>)"
    if "r \<in> set (l_responses (sv_tx s))" for r
    using res(2) [OF that] by (simp add: service_handleResponse_def)
  ultimately show ?thesis using reach req res by blast
qed

text \<open>
  A service cannot be stopped. Nothing makes the channel \<^verbatim>\<open>close\<close>, so in every reachable state it is nil: \<^verbatim>\<open>Run\<close> does not return, and the first
  \<^verbatim>\<open>Close\<close> waits for the transaction layer and then panics when it closes the nil channel.
\<close>

theorem service_Close_panics:
  assumes "service_reachable cspin sspin s"
  shows "service_Run s = None \<and>
    service_Close s = (if sv_once s then Some (Ok s) else if l_done (sv_tx s) then Some Panic else None)"
proof -
  have "sv_close s = None" using service_reachable_layer [OF assms] by blast
  moreover have "l_done (layer_Close (sv_tx s)) = l_done (sv_tx s)" by (simp add: layer_Close_def)
  ultimately show ?thesis by (simp add: service_Run_def service_Close_def service_stop_def Let_def)
qed

section \<open>URIs of the user\<close>

text \<open>
  C35: The URI made of \<^verbatim>\<open>user:password\<close> and \<^verbatim>\<open>host:port\<close> is the one that the parser reads from the text
  \<^verbatim>\<open>sip:user:password@host:port\<close>, the password being all that follows the first colon; but a port beyond 65535 wraps: it is
  replaced by its remainder modulo 65536.
\<close>

theorem CreateSipUri_parsed:
  assumes user: "us \<noteq> []" "list_all user_char us" and pass: "pw \<noteq> []" "list_all (\<lambda>c. is_graph c \<and> c \<noteq> CHR ''@'') pw"
    and host: "list_all uri_char host" and port: "n < 2 ^ 63"
  shows "ParseUri (''sip:'' @ us @ '':'' @ pw @ ''@'' @ host @ '':'' @ show_nat (n mod 65536)) =
    Ok (CreateSipUri (us @ '':'' @ pw) (host @ '':'' @ show_nat n))"
proof -
  let ?u = "\<lparr>u_FIsEncrypted = False, u_FUser = Str us, u_FPassword = Str pw,
    u_FDomain = \<lparr>addr_Host = host, addr_Port = Some (word_of_nat n)\<rparr>, u_FUriParams = Some NewParams, u_FHeaders = Some NewParams\<rparr>"
  have "CHR '':'' \<notin> set us" "CHR '':'' \<notin> set host" using user(2) host by (auto simp: list_all_iff user_char_def uri_char_def)
  then have made: "CreateSipUri (us @ '':'' @ pw) (host @ '':'' @ show_nat n) = SipUriPtr ?u"
    using Atoi_show_nat [OF port] by (simp add: CreateSipUri_def index_char_append)
  have "uri_clean ?u"
    using user pass host by (simp add: uri_clean_def userinfo_clean_def params_clean_def NewParams_def params_ok_def section_none uri_tail_text_def)
  from ParseUri_print [OF this] have "ParseUri (SipUri_String ?u) = Ok (SipUriPtr ?u)" .
  moreover have "SipUri_String ?u = ''sip:'' @ us @ '':'' @ pw @ ''@'' @ host @ '':'' @ show_nat (n mod 65536)"
    using user(1) pass(1) by (simp add: SipUri_String_def SipUri_userinfo_def Addr_String_def port_text_def section_none NewParams_def
        unat_of_nat)
  ultimately show ?thesis using made by simp
qed

theorem CreateSipUri_parsed_witness:
  "ParseUri ''sip:bob:pw@a.b:4464'' = Ok (CreateSipUri ''bob:pw'' ''a.b:70000'')"
proof -
  have "show_nat 4464 = ''4464''" "show_nat 70000 = ''70000''"
    by (simp_all add: show_nat.simps digit_char_def char_of_def bit_Suc_0_iff)
  then show ?thesis
    using CreateSipUri_parsed [of "''bob''" "''pw''" "''a.b''" 70000]
    by (simp add: user_char_def uri_char_def is_graph_def byte_def)
qed

section \<open>Witnesses\<close>

definition sample_callback :: callback where
  "sample_callback = AddRequestHandle REGISTER (Some 1) NewCallback"

definition sample_service_env :: service_env where
  "sample_service_env = \<lparr>se_layer = sample_layer_env, se_order = (\<lambda>hs. hs)\<rparr>"

definition sample_request :: request where
  "sample_request = sample_invite\<lparr>m_src := ''1.2.3.4:5060'', m_dest := ''5.6.7.8:5060''\<rparr>"

lemma sample_request_facts:
  "headers_ok (m_headers sample_request)" "request_Destination sample_request = Ok ''5.6.7.8:5060''"
  "request_Source sample_request = Ok ''1.2.3.4:5060''" "get_From (m_headers sample_request) = None"
  "\<not> IsAck sample_request" "\<not> IsCancel sample_request" "MakeServerTxKey (Req sample_request) = Ok sample_key"
  "get_CSeq (m_headers sample_request) = Some \<lparr>cs_SeqNo = 1, cs_MethodName = INVITE\<rparr>" "r_method sample_request = INVITE"
  using sample_invite_facts key_accessors_cong(1) [of "Req sample_request" "Req sample_invite"]
  by (simp_all add: sample_request_def request_Destination_def request_Source_def sample_accessors IsAck_def IsCancel_def sample_invite_def)

text \<open>An INVITE of a user that named its own software and gave \<^verbatim>\<open>From\<close> a parameter but no tag.\<close>

definition sample_from :: "headerParams option \<Rightarrow> AddressHeader" where
  "sample_from ps = \<lparr>ah_DisplayName = NilStr, ah_Address = Some WildcardUriPtr, ah_Params = ps\<rparr>"

definition sample_own :: request where
  "sample_own = sample_invite\<lparr>m_headers :=
     \<lparr>hs_headers = [(''from'', [FromHeader (sample_from (Some (Params_Add ''x'' (Str ''1'') NewParams)))]), (''user-agent'', [UserAgentHeader ''own''])],
      hs_headerOrder = [''from'', ''user-agent'']\<rparr>\<rparr>"

lemma sample_own_at:
  "headers_at (m_headers sample_own) ''allow'' = []" "headers_at (m_headers sample_own) ''supported'' = []"
  "headers_at (m_headers sample_own) ''user-agent'' = [UserAgentHeader ''own'']"
  "headers_at (m_headers sample_own) ''from'' = [FromHeader (sample_from (Some (Params_Add ''x'' (Str ''1'') NewParams)))]"
  "hs_headerOrder (m_headers sample_own) = [''from'', ''user-agent'']"
  by (simp_all add: sample_own_def headers_at_def)

lemma sample_own_ok: "headers_ok (m_headers sample_own)" "fill_method (Req sample_own) \<in> set autoAppendMethods"
  by (simp_all add: sample_own_def headers_ok_def entry_ok_def fill_names header_key_simps address_ok_def sample_from_def
      opt_params_ok_def fill_method_def sample_invite_def autoAppendMethods_def)

theorem autoFill_correct_witness:
  "\<exists>hs p'. autoFillMessageHeader [REGISTER] 0 ''r'' (Req sample_own) = Ok (Req (sample_own\<lparr>m_headers := hs\<rparr>)) \<and>
     headers_at hs ''allow'' = [AllowHeader [REGISTER]] \<and> headers_at hs ''user-agent'' = [UserAgentHeader ''own''] \<and>
     hs_headerOrder hs = [''from'', ''user-agent'', ''allow'', ''supported''] \<and>
     headers_at hs ''from'' = [FromHeader (sample_from (Some p'))] \<and> Params_Keys p' = [''x'', ''tag''] \<and>
     Params_Get p' ''x'' = Some (Str ''1'') \<and> Params_Get p' ''tag'' = Some (StrPtr 0 (RandString ''r'' True))"
proof -
  let ?p = "Params_Add ''x'' (Str ''1'') NewParams"
  have from_hdr: "get_From (m_headers sample_own) = Some (sample_from (Some ?p))" by (simp add: get_From_at sample_own_at)
  have p: "\<not> Params_Has ?p ''tag''" "Params_Keys ?p = [''x'']" "Params_Get ?p ''x'' = Some (Str ''1'')"
    by (simp_all add: Params_Has_def Params_Add_def Params_Get_def Params_Keys_def NewParams_def)
  have ok: "headers_ok (Message_headers (Req sample_own))" using sample_own_ok(1) by simp
  obtain hs where hs: "autoFillMessageHeader [REGISTER] 0 ''r'' (Req sample_own) = Ok (Req (sample_own\<lparr>m_headers := hs\<rparr>))"
    "headers_at hs ''allow'' = [AllowHeader [REGISTER]]" "headers_at hs ''user-agent'' = [UserAgentHeader ''own'']"
    "hs_headerOrder hs = [''from'', ''user-agent'', ''allow'', ''supported'']"
    and "from_tagged (StrPtr 0 (RandString ''r'' True)) (m_headers sample_own) hs"
    using autoFill_correct [of "Req sample_own" "[REGISTER]" 0 "''r''" "[]" 0 "''''", OF ok] sample_own_ok(2)
    by (elim exE conjE) (rule that, simp_all add: sample_own_at)
  then obtain p' where "headers_at hs ''from'' = [FromHeader (sample_from (Some p'))]" "Params_Keys p' = [''x'', ''tag'']"
    "Params_Get p' ''x'' = Some (Str ''1'')" "Params_Get p' ''tag'' = Some (StrPtr 0 (RandString ''r'' True))"
    using p by (auto simp: from_tagged_def from_hdr sample_own_at(4) sample_from_def)
  with hs show ?thesis by blast
qed

theorem unhandled_request_refused_witness:
  "\<exists>txl s' tx res. layer_handleRequest server_machine sample_layer_env sample_request CreateLayer = Some (Ok txl) \<and>
    service_handleRequest client_machine server_machine sample_service_env (sample_request\<lparr>m_tx := Some 0\<rparr>)
      ((newService sample_callback)\<lparr>sv_tx := txl\<rparr>) = Some (Ok s') \<and>
    l_txs (sv_tx s') = [ServerTx tx] \<and> st_sent tx = [Res res] \<and> s_status res = 405 \<and> m_dest res = ''1.2.3.4:5060'' \<and>
    headers_at (m_headers res) ''allow'' = [AllowHeader [REGISTER]]"
proof -
  let ?s = "newService sample_callback"
  have s: "sv_tx ?s = CreateLayer" "sv_close ?s \<noteq> Some True" "sv_callback ?s = sample_callback" by (simp_all add: newService_def)
  have "GetRequestHandle (r_method sample_request) sample_callback = None"
    "GetAllowedMethods (se_order sample_service_env) sample_callback = [REGISTER]"
    by (simp_all add: sample_request_facts sample_callback_def GetRequestHandle_def AddRequestHandle_def NewCallback_def
        GetAllowedMethods_def sample_service_env_def INVITE_def REGISTER_def)
  moreover have "l_txs CreateLayer = []" "\<not> l_canceled CreateLayer" by (simp_all add: CreateLayer_def)
  moreover have "INVITE \<noteq> CANCEL" "INVITE \<in> set autoAppendMethods" by (simp_all add: INVITE_def CANCEL_def autoAppendMethods_def)
  moreover have "se_layer sample_service_env = sample_layer_env" by (simp add: sample_service_env_def)
  ultimately show ?thesis
    using unhandled_request_refused [OF server_machine_spins, of sample_service_env sample_request _ _ _ sample_key ?s _ 0 client_machine]
      sample_request_facts sample_unmatched [OF sample_request_facts(7)] s
    by fastforce
qed

lemma sample_service_reachable:
  obtains s where "service_reachable client_machine server_machine s" "l_requests (sv_tx s) = [sample_invite\<lparr>m_tx := Some 0\<rparr>]"
proof -
  obtain txl where txl: "layer_handleRequest server_machine sample_layer_env sample_invite CreateLayer = Some (Ok txl)"
    "layer_reachable client_machine server_machine txl" "l_requests txl = [sample_invite\<lparr>m_tx := Some 0\<rparr>]"
    "tx_get sample_key (l_transactions txl) = Some 0" by (rule sample_layer_reached)
  have "service_step client_machine server_machine sample_service_env (SvLayer (LMessage (Req sample_invite)))
      (newService NewCallback) = Some (Ok ((newService NewCallback)\<lparr>sv_tx := txl\<rparr>))"
    using txl(1) by (simp add: newService_def handleMessage_def sample_service_env_def CreateLayer_def)
  then have "service_reachable client_machine server_machine ((newService NewCallback)\<lparr>sv_tx := txl\<rparr>)"
    by (rule service_reachable.stepped [OF service_reachable.created, rotated]) (simp add: sample_invite_def blank_request_def)
  then show thesis using txl(3) by (intro that [of "(newService NewCallback)\<lparr>sv_tx := txl\<rparr>"]) simp_all
qed

theorem service_uses_layer_witness:
  "\<exists>s r t. service_reachable client_machine server_machine s \<and> l_requests (sv_tx s) = [r] \<and> r_method r = INVITE \<and>
     m_tx r = Some 0 \<and> l_txs (sv_tx s) ! 0 = ServerTx t \<and> st_origin t = r \<and> server_tx_of (m_tx r) (sv_tx s) = Ok (Some 0)"
proof -
  obtain s where s: "service_reachable client_machine server_machine s" "l_requests (sv_tx s) = [sample_invite\<lparr>m_tx := Some 0\<rparr>]"
    by (rule sample_service_reachable)
  have "\<not> IsAck (sample_invite\<lparr>m_tx := Some 0\<rparr>)" "\<not> IsCancel (sample_invite\<lparr>m_tx := Some 0\<rparr>)"
    "r_method (sample_invite\<lparr>m_tx := Some 0\<rparr>) = INVITE"
    using sample_invite_facts(2,3) by (simp_all add: IsAck_def IsCancel_def sample_invite_def)
  with service_uses_layer [OF client_machine_spins server_machine_spins s(1)] s show ?thesis by auto
qed

theorem service_Close_panics_witness:
  "service_Run (newService NewCallback) = None \<and>
   (\<exists>s. service_reachable client_machine server_machine s \<and> service_Close s = Some Panic)"
proof -
  let ?s0 = "newService NewCallback" and ?step = "service_step client_machine server_machine sample_service_env"
  have s0: "service_reachable client_machine server_machine ?s0" by (rule service_reachable.created)
  define s1 where "s1 = ?s0\<lparr>sv_tx := layer_Close (sv_tx ?s0)\<rparr>"
  define s2 where "s2 = s1\<lparr>sv_tx := listen_end (sv_tx s1)\<rparr>"
  have "?step (SvLayer LClose) ?s0 = Some (Ok s1)" by (simp add: s1_def)
  then have s1: "service_reachable client_machine server_machine s1"
    by (rule service_reachable.stepped [OF s0, rotated]) simp
  have "?step (SvLayer LDone) s1 = Some (Ok s2)" by (simp add: s2_def)
  then have s2: "service_reachable client_machine server_machine s2"
    by (rule service_reachable.stepped [OF s1, rotated]) (simp add: s1_def newService_def CreateLayer_def layer_Close_def)
  have "l_done (sv_tx s2)" "\<not> sv_once s2"
    by (simp_all add: s2_def s1_def listen_end_def newService_def)
  with service_Close_panics [OF s2] service_Close_panics [OF s0] s2 show ?thesis by auto
qed

end
