(* ===== verification/Gsip_Conn.thy ===== *)
theory Gsip_Conn
  imports Gsip_Stream Gsip_Pool
begin

text \<open>
  Connections, listeners and their pools (\<^verbatim>\<open>transport/connection.go\<close>, \<^verbatim>\<open>connection_handler.go\<close>,
  \<^verbatim>\<open>connection_pool.go\<close>, \<^verbatim>\<open>listener_handler.go\<close>, \<^verbatim>\<open>listener_pool.go\<close>): who owns a socket, when it is
  closed, and how the bytes read from it become messages.
\<close>

section \<open>Connections and their handlers\<close>

text \<open>
  A socket of the standard library is a number; \<open>cn_open\<close> says that its \<^verbatim>\<open>Close\<close> has not been
  called. \<^verbatim>\<open>CreateConnection\<close> asks whether the socket is a \<^verbatim>\<open>net.PacketConn\<close>. \<^verbatim>\<open>connection.Close\<close>
  hides the error of the socket.
\<close>

record connection =
  cn_base :: nat
  cn_key :: string
  cn_streamed :: bool
  cn_open :: bool

definition CreateConnection :: "string \<Rightarrow> bool \<Rightarrow> nat \<Rightarrow> connection" where
  "CreateConnection key packetConn base =
     \<lparr>cn_base = base, cn_key = key, cn_streamed = \<not> packetConn, cn_open = True\<rparr>"

definition connection_Close :: "connection \<Rightarrow> connection" where
  "connection_Close conn = conn\<lparr>cn_open := False\<rparr>"

text \<open>
  Times are nanoseconds; the zero \<^verbatim>\<open>time.Time\<close> is \<^term>\<open>None\<close>. \<open>ch_exTimer\<close> is the time at which the
  expiry timer fires.
\<close>

record connectionHandler =
  ch_key :: string
  ch_connection :: connection
  ch_expiry :: "int option"
  ch_exTimer :: "int option"
  ch_ttl :: Duration
  ch_cancel :: bool

definition SockTTL :: Duration where "SockTTL = 3600000000000"

definition CreateConnectionHandler :: "connection \<Rightarrow> Duration \<Rightarrow> int \<Rightarrow> connectionHandler" where
  "CreateConnectionHandler conn ttl now =
     (let t = (if 0 <s ttl then Some (now + sint ttl) else None)
      in \<lparr>ch_key = cn_key conn, ch_connection = conn, ch_expiry = t, ch_exTimer = t, ch_ttl = ttl, ch_cancel = False\<rparr>)"

definition IsExpiry :: "int \<Rightarrow> connectionHandler \<Rightarrow> bool" where
  "IsExpiry now handler = (case ch_expiry handler of None \<Rightarrow> False | Some t \<Rightarrow> t < now)"

definition handler_Close :: "connectionHandler \<Rightarrow> connectionHandler" where
  "handler_Close handler =
     (if ch_cancel handler then handler
      else handler\<lparr>ch_cancel := True, ch_connection := connection_Close (ch_connection handler)\<rparr>)"

text \<open>
  One turn of the loop of \<^verbatim>\<open>ConnectionServer\<close>: the case of the select that is taken, and what the turn
  passes up. \<open>taken\<close> says that the pool takes the value; it may not when the handler is cancelled.
  \<open>Stop\<close> is the return of the function.
\<close>

datatype serve_case = CaseCancel | CaseTimer | CaseMessage Message | CaseError gerror | CaseClosed

datatype serve_result = Up Message | UpError gerror | Stop

definition ConnectionServer_turn ::
  "bool \<Rightarrow> int \<Rightarrow> serve_case \<Rightarrow> connectionHandler \<Rightarrow> serve_result \<times> connectionHandler" where
  "ConnectionServer_turn taken now c handler =
     (case c of
        CaseCancel \<Rightarrow> (Stop, handler)
      | CaseTimer \<Rightarrow>
          (let fired = handler\<lparr>ch_exTimer := None\<rparr>
           in if taken then (UpError (Errorf ''connection expired''), fired) else (Stop, fired))
      | CaseMessage msg \<Rightarrow>
          if \<not> taken then (Stop, handler)
          else
            (Up msg,
             case ch_expiry handler of
               None \<Rightarrow> handler
             | Some _ \<Rightarrow>
                 let t = Some (now + sint (ch_ttl handler)) in handler\<lparr>ch_expiry := t, ch_exTimer := t\<rparr>)
      | CaseError err \<Rightarrow> if taken then (UpError err, handler) else (Stop, handler)
      | CaseClosed \<Rightarrow> (Stop, handler))"

text \<open>The cases of the select that can be taken: the timer only once it is due.\<close>

definition serve_ready :: "int \<Rightarrow> serve_case \<Rightarrow> connectionHandler \<Rightarrow> bool" where
  "serve_ready now c handler =
     (case c of
        CaseCancel \<Rightarrow> ch_cancel handler
      | CaseTimer \<Rightarrow> (case ch_exTimer handler of None \<Rightarrow> False | Some t \<Rightarrow> t \<le> now)
      | _ \<Rightarrow> True)"

section \<open>Reading a connection\<close>

text \<open>
  What a read returns: bytes, an error after which the loop sleeps and tries again (a timeout or a
  temporary error of the network), or another error.
\<close>

datatype read_result = ReadData string | ReadRetry gerror | ReadBroken gerror

text \<open>\<^verbatim>\<open>len(bytes.Trim(data, "\x00")) == 0\<close>.\<close>

definition trim_nul :: "string \<Rightarrow> string" where
  "trim_nul bytes = rev (dropWhile ((=) NUL) (rev (dropWhile ((=) NUL) bytes)))"

text \<open>
  A turn of the read loop, with the events that the goroutine and its parser offer on the two channels before the next
  read (once the handler is cancelled nobody may take them); the flag says that the loop goes on. The deferred
  function closes the handler and stops the parser.
\<close>

definition read_turn ::
  "(nat \<Rightarrow> string) \<Rightarrow> read_result \<Rightarrow> connectionHandler \<times> parser \<Rightarrow> event list \<times> (connectionHandler \<times> parser) \<times> bool" where
  "read_turn uuids r hp =
     (case hp of (handler, prs) \<Rightarrow>
      case r of
        ReadRetry _ \<Rightarrow> ([], (handler, prs), True)
      | ReadBroken err \<Rightarrow> ([ParseErr err], (handler_Close handler, prs\<lparr>pr_stopped := True\<rparr>), False)
      | ReadData bytes \<Rightarrow>
          if length (trim_nul bytes) = 0 then ([], (handler, prs), True)
          else case parser_Write bytes prs of
                 (Ok _, prs1) \<Rightarrow> (case drain uuids prs1 of (es, prs2) \<Rightarrow> (es, (handler, prs2), True))
               | (Fail err, prs1) \<Rightarrow> ([ParseErr err], (handler, prs1), True)
               | (Panic, prs1) \<Rightarrow> ([], (handler, prs1), False))"

primrec read_loop ::
  "(nat \<Rightarrow> string) \<Rightarrow> read_result list \<Rightarrow> connectionHandler \<times> parser \<Rightarrow> event list \<times> connectionHandler \<times> parser" where
  "read_loop uuids [] hp = ([], hp)"
| "read_loop uuids (r # rs) hp =
     (case read_turn uuids r hp of
        (es, hp', True) \<Rightarrow> (case read_loop uuids rs hp' of (es', hp'') \<Rightarrow> (es @ es', hp''))
      | (es, hp', False) \<Rightarrow> (es, hp'))"

definition readConnection :: "(nat \<Rightarrow> string) \<Rightarrow> read_result list \<Rightarrow> connectionHandler \<Rightarrow> event list \<times> connectionHandler" where
  "readConnection uuids rs handler =
     (case read_loop uuids rs (handler, NewParser (cn_streamed (ch_connection handler))) of
        (es, handler', _) \<Rightarrow> (es, handler'))"

section \<open>Pools of handlers\<close>

text \<open>
  The files of the two pools are the same code at two handler types. The pool is written once, over a
  handler \<^typ>\<open>'h\<close>; \<open>what\<close> is the noun in the errors and \<open>close\<close> the \<^verbatim>\<open>Close\<close> of the handler. Handlers are objects:
  \<open>hp_handleMap\<close> leads to an index of \<open>hp_heap\<close>. \<open>hp_serving\<close> lists the handlers whose goroutine has not
  returned (\<^verbatim>\<open>handleWg\<close>). Go ranges over a map in any order, which the argument \<open>order\<close> stands for.
\<close>

record 'h pool =
  hp_heap :: "'h list"
  hp_handleMap :: "(string \<times> nat) list"
  hp_serving :: "nat list"
  hp_cancel :: bool
  hp_done :: bool

definition CreatePool :: "'h pool" where
  "CreatePool = \<lparr>hp_heap = [], hp_handleMap = [], hp_serving = [], hp_cancel = False, hp_done = False\<rparr>"

type_synonym range_order = "(string \<times> nat) list \<Rightarrow> (string \<times> nat) list"

definition pool_get :: "string \<Rightarrow> string \<Rightarrow> 'h pool \<Rightarrow> nat outcome" where
  "pool_get what key pool =
     (case map_of (hp_handleMap pool) key of
        Some h \<Rightarrow> Ok h
      | None \<Rightarrow> Fail (Errorf (what @ '' not found in the pool'')))"

definition pool_put :: "string \<Rightarrow> string \<Rightarrow> 'h \<Rightarrow> 'h pool \<Rightarrow> 'h pool \<times> gerror option" where
  "pool_put what key handle pool =
     (case pool_get what key pool of
        Ok _ \<Rightarrow> (pool, Some (Errorf ''key already exists in the pool''))
      | _ \<Rightarrow>
          (pool\<lparr>hp_heap := hp_heap pool @ [handle],
                hp_handleMap := AList.update key (length (hp_heap pool)) (hp_handleMap pool),
                hp_serving := hp_serving pool @ [length (hp_heap pool)]\<rparr>, None))"

definition pool_Put :: "string \<Rightarrow> string \<Rightarrow> 'h \<Rightarrow> 'h pool \<Rightarrow> 'h pool \<times> gerror option" where
  "pool_Put what key handle pool =
     (if hp_cancel pool then (pool, Some (Errorf (what @ '' pool closed'')))
      else if key = '''' then (pool, Some (Errorf (''empty '' @ what @ '' key'')))
      else pool_put what key handle pool)"

definition pool_Get :: "string \<Rightarrow> string \<Rightarrow> 'h pool \<Rightarrow> 'h outcome" where
  "pool_Get what key pool =
     (if hp_cancel pool then Fail (Errorf (what @ '' pool closed''))
      else if key = '''' then Fail (Errorf (''empty '' @ what @ '' key''))
      else omap (\<lambda>h. hp_heap pool ! h) (pool_get what key pool))"

text \<open>
  \<^verbatim>\<open>make([]T, len(m))\<close> followed by \<^verbatim>\<open>append\<close>: the zero values come first.
\<close>

definition pool_all :: "range_order \<Rightarrow> 'h pool \<Rightarrow> 'h option list" where
  "pool_all order pool =
     replicate (length (hp_handleMap pool)) None @
     map (\<lambda>(_, h). Some (hp_heap pool ! h)) (order (hp_handleMap pool))"

definition pool_All :: "range_order \<Rightarrow> 'h pool \<Rightarrow> 'h option list" where
  "pool_All order pool = (if hp_cancel pool then [] else pool_all order pool)"

definition pool_allKeys :: "range_order \<Rightarrow> 'h pool \<Rightarrow> string list" where
  "pool_allKeys order pool =
     replicate (length (hp_handleMap pool)) '''' @ map fst (order (hp_handleMap pool))"

definition pool_del :: "('h \<Rightarrow> 'h) \<Rightarrow> string \<Rightarrow> string \<Rightarrow> 'h pool \<Rightarrow> 'h pool \<times> gerror option" where
  "pool_del close what key pool =
     (case pool_get what key pool of
        Ok h \<Rightarrow>
          (pool\<lparr>hp_heap := (hp_heap pool)[h := close (hp_heap pool ! h)],
                hp_handleMap := AList.delete key (hp_handleMap pool)\<rparr>, None)
      | _ \<Rightarrow> (pool, Some (Errorf ''key already exists in the pool'')))"

definition pool_Del :: "('h \<Rightarrow> 'h) \<Rightarrow> string \<Rightarrow> string \<Rightarrow> 'h pool \<Rightarrow> 'h pool \<times> gerror option" where
  "pool_Del close what key pool =
     (if hp_cancel pool then (pool, Some (Errorf (what @ '' pool closed'')))
      else if key = '''' then (pool, Some (Errorf (''empty '' @ what @ '' key'')))
      else pool_del close what key pool)"

definition close_at :: "('h \<Rightarrow> 'h) \<Rightarrow> string \<times> nat \<Rightarrow> 'h list \<Rightarrow> 'h list" where
  "close_at close e heap = heap[snd e := close (heap ! snd e)]"

definition pool_delAll :: "('h \<Rightarrow> 'h) \<Rightarrow> range_order \<Rightarrow> 'h pool \<Rightarrow> 'h pool" where
  "pool_delAll close order pool =
     pool\<lparr>hp_heap := fold (close_at close) (order (hp_handleMap pool)) (hp_heap pool),
          hp_handleMap := []\<rparr>"

definition pool_DelAll :: "('h \<Rightarrow> 'h) \<Rightarrow> string \<Rightarrow> range_order \<Rightarrow> 'h pool \<Rightarrow> 'h pool \<times> gerror option" where
  "pool_DelAll close what order pool =
     (if hp_cancel pool then (pool, Some (Errorf (what @ '' pool closed'')))
      else (pool_delAll close order pool, None))"

definition pool_Length :: "'h pool \<Rightarrow> nat" where
  "pool_Length pool = length (hp_handleMap pool)"

text \<open>
  The goroutine that waits for the notification closes \<^verbatim>\<open>cancel\<close>; \<^verbatim>\<open>ListenHandlers\<close> then releases the pool: it closes
  the handlers, waits for their goroutines and closes \<^verbatim>\<open>done\<close>.
\<close>

definition pool_cancel :: "'h pool \<Rightarrow> 'h pool" where
  "pool_cancel pool = pool\<lparr>hp_cancel := True\<rparr>"

definition pool_served :: "nat \<Rightarrow> 'h pool \<Rightarrow> 'h pool" where
  "pool_served h pool = pool\<lparr>hp_serving := remove1 h (hp_serving pool)\<rparr>"

definition pool_finish :: "'h pool \<Rightarrow> 'h pool option" where
  "pool_finish pool = (if hp_serving pool = [] then Some (pool\<lparr>hp_done := True\<rparr>) else None)"

text \<open>
  A turn of \<^verbatim>\<open>ListenHandlers\<close>, with the value passed up and whether the loop goes on: nil values are
  skipped, the others are passed up unless the pool is cancelled first.
\<close>

datatype 'm listen_case = ListenCancel | ListenClosed | ListenValue "'m option" | ListenError "gerror option"

definition ListenHandlers_turn :: "bool \<Rightarrow> 'm listen_case \<Rightarrow> (gerror + 'm) option \<times> bool" where
  "ListenHandlers_turn taken c =
     (case c of
        ListenCancel \<Rightarrow> (None, False)
      | ListenClosed \<Rightarrow> (None, False)
      | ListenValue None \<Rightarrow> (None, True)
      | ListenValue (Some m) \<Rightarrow> if taken then (Some (Inr m), True) else (None, False)
      | ListenError None \<Rightarrow> (None, True)
      | ListenError (Some err) \<Rightarrow> if taken then (Some (Inl err), True) else (None, False))"

section \<open>The pool of connections\<close>

type_synonym connectionPool = "connectionHandler pool"

definition CreateConnectionPool :: connectionPool where "CreateConnectionPool = CreatePool"

definition cp_Put :: "connection \<Rightarrow> Duration \<Rightarrow> int \<Rightarrow> connectionPool \<Rightarrow> connectionPool \<times> gerror option" where
  "cp_Put conn ttl now pool =
     pool_Put ''connection'' (cn_key conn) (CreateConnectionHandler conn ttl now) pool"

definition cp_Get :: "string \<Rightarrow> connectionPool \<Rightarrow> connection outcome" where
  "cp_Get key pool = omap ch_connection (pool_Get ''connection'' key pool)"

definition cp_All :: "range_order \<Rightarrow> connectionPool \<Rightarrow> connection option list" where
  "cp_All order pool = map (map_option ch_connection) (pool_All order pool)"

definition cp_Del :: "string \<Rightarrow> connectionPool \<Rightarrow> connectionPool \<times> gerror option" where
  "cp_Del key pool = pool_Del handler_Close ''connection'' key pool"

definition cp_DelAll :: "range_order \<Rightarrow> connectionPool \<Rightarrow> connectionPool \<times> gerror option" where
  "cp_DelAll order pool = pool_DelAll handler_Close ''connection'' order pool"

section \<open>Listeners\<close>

record listenerHandler =
  lh_key :: string
  lh_listener :: nat
  lh_open :: bool
  lh_cancel :: bool

definition CreateListenerHandler :: "string \<Rightarrow> nat \<Rightarrow> listenerHandler" where
  "CreateListenerHandler key listener =
     \<lparr>lh_key = key, lh_listener = listener, lh_open = True, lh_cancel = False\<rparr>"

definition listener_Close :: "listenerHandler \<Rightarrow> listenerHandler" where
  "listener_Close handler =
     (if lh_cancel handler then handler else handler\<lparr>lh_cancel := True, lh_open := False\<rparr>)"

text \<open>
  \<^verbatim>\<open>acceptConnections\<close> and \<^verbatim>\<open>pipeOutputs\<close>: an accepted socket, with the network and the text of its
  remote address, becomes a connection that is passed up; an error that is not temporary ends the loop and
  is passed up as a \<^verbatim>\<open>ListenerHandlerError\<close>. \<open>taken\<close> as above.
\<close>

datatype accept_result = Accepted bool nat string string | AcceptRetry gerror | AcceptBroken gerror

definition accept_turn :: "bool \<Rightarrow> accept_result \<Rightarrow> listenerHandler \<Rightarrow> (gerror + connection) option \<times> bool" where
  "accept_turn taken r handler =
     (case r of
        Accepted packetConn base network remote \<Rightarrow>
          if taken then (Some (Inr (CreateConnection (ToLower network @ '':'' @ remote) packetConn base)), True)
          else (None, False)
      | AcceptRetry _ \<Rightarrow> (None, True)
      | AcceptBroken err \<Rightarrow> if taken then (Some (Inl err), False) else (None, False))"

type_synonym listenerPool = "listenerHandler pool"

definition CreateListenerPool :: listenerPool where "CreateListenerPool = CreatePool"

definition lp_Put :: "string \<Rightarrow> nat \<Rightarrow> listenerPool \<Rightarrow> listenerPool \<times> gerror option" where
  "lp_Put key listener pool = pool_Put ''listener'' key (CreateListenerHandler key listener) pool"

definition lp_Get :: "string \<Rightarrow> listenerPool \<Rightarrow> nat outcome" where
  "lp_Get key pool = omap lh_listener (pool_Get ''listener'' key pool)"

definition lp_All :: "range_order \<Rightarrow> listenerPool \<Rightarrow> nat option list" where
  "lp_All order pool = map (map_option lh_listener) (pool_All order pool)"

definition lp_Del :: "string \<Rightarrow> listenerPool \<Rightarrow> listenerPool \<times> gerror option" where
  "lp_Del key pool = pool_Del listener_Close ''listener'' key pool"

definition lp_DelAll :: "range_order \<Rightarrow> listenerPool \<Rightarrow> listenerPool \<times> gerror option" where
  "lp_DelAll order pool = pool_DelAll listener_Close ''listener'' order pool"

section \<open>The invariant of a pool\<close>

text \<open>
  Every key leads to a handler of its own, and every handler that is not closed is in the pool.
\<close>

definition pool_ok :: "('h \<Rightarrow> bool) \<Rightarrow> 'h pool \<Rightarrow> bool" where
  "pool_ok closed pool \<longleftrightarrow>
     distinct (map fst (hp_handleMap pool)) \<and> distinct (map snd (hp_handleMap pool)) \<and>
     (\<forall>h \<in> snd ` set (hp_handleMap pool). h < length (hp_heap pool)) \<and>
     (\<forall>h < length (hp_heap pool). closed (hp_heap pool ! h) \<or> h \<in> snd ` set (hp_handleMap pool))"

lemma pool_ok_CreatePool: "pool_ok closed CreatePool"
  by (simp add: pool_ok_def CreatePool_def)

lemma pool_get_Ok: "pool_get what key pool = Ok h \<longleftrightarrow> map_of (hp_handleMap pool) key = Some h"
  by (simp add: pool_get_def split: option.split)

lemma pool_get_not_Ok: "(\<forall>h. pool_get what key pool \<noteq> Ok h) \<longleftrightarrow> key \<notin> fst ` set (hp_handleMap pool)"
  by (auto simp: pool_get_Ok map_of_eq_None_iff)

lemma alist_update_new: "k \<notin> fst ` set al \<Longrightarrow> AList.update k v al = al @ [(k, v)]"
  by (induction al) auto

lemma pool_put_cases:
  obtains (old) h where "map_of (hp_handleMap pool) key = Some h"
      "pool_put what key handle pool = (pool, Some (Errorf ''key already exists in the pool''))"
  | (new) "key \<notin> fst ` set (hp_handleMap pool)"
      "pool_put what key handle pool =
         (pool\<lparr>hp_heap := hp_heap pool @ [handle],
               hp_handleMap := hp_handleMap pool @ [(key, length (hp_heap pool))],
               hp_serving := hp_serving pool @ [length (hp_heap pool)]\<rparr>, None)"
proof (cases "map_of (hp_handleMap pool) key")
  case None
  then have "key \<notin> fst ` set (hp_handleMap pool)" by (simp add: map_of_eq_None_iff)
  then have "AList.update key n (hp_handleMap pool) = hp_handleMap pool @ [(key, n)]" for n
    by (rule alist_update_new)
  with None \<open>key \<notin> _\<close> show thesis by (intro new) (simp_all add: pool_put_def pool_get_def)
next
  case (Some h)
  then show thesis by (intro old) (simp_all add: pool_put_def pool_get_def)
qed

lemma pool_ok_Put:
  assumes "pool_ok closed pool"
  shows "pool_ok closed (fst (pool_Put what key handle pool))"
proof (cases "hp_cancel pool \<or> key = ''''")
  case True
  with assms show ?thesis by (auto simp: pool_Put_def)
next
  case False
  then have put: "pool_Put what key handle pool = pool_put what key handle pool" by (simp add: pool_Put_def)
  show ?thesis
  proof (cases rule: pool_put_cases [of pool key what handle])
    case (old h)
    with assms put show ?thesis by simp
  next
    case new
    have "length (hp_heap pool) \<notin> snd ` set (hp_handleMap pool)" using assms by (auto simp: pool_ok_def)
    with assms new(1) show ?thesis
      by (auto simp: pool_ok_def put new(2) nth_append less_Suc_eq)
  qed
qed

lemma pool_Get_Put:
  assumes "pool_ok closed pool" "snd (pool_Put what key handle pool) = None"
  shows "pool_Get what k (fst (pool_Put what key handle pool)) = (if k = key then Ok handle else pool_Get what k pool)"
proof -
  have put: "pool_Put what key handle pool = pool_put what key handle pool" "\<not> hp_cancel pool" "key \<noteq> ''''"
    using assms(2) by (auto simp: pool_Put_def split: if_splits)
  show ?thesis
  proof (cases rule: pool_put_cases [of pool key what handle])
    case (old h)
    with assms(2) put show ?thesis by simp
  next
    case new
    have "map_of (hp_handleMap pool) k = Some h \<Longrightarrow> h < length (hp_heap pool)" for h
      using assms(1) map_of_SomeD by (fastforce simp: pool_ok_def)
    moreover have "map_of (hp_handleMap pool) key = None" using new(1) by (simp add: map_of_eq_None_iff)
    ultimately show ?thesis using new(2) put
      by (auto simp: pool_Get_def pool_get_def nth_append map_add_def split: option.splits)
  qed
qed

lemma pool_Put_refused:
  assumes "snd (pool_Put what key handle pool) = Some e"
  shows "fst (pool_Put what key handle pool) = pool"
  using assms by (cases rule: pool_put_cases [of pool key what handle]) (auto simp: pool_Put_def split: if_splits)

lemma pool_Put_accepted:
  assumes "\<not> hp_cancel pool" "key \<noteq> ''''"
  shows "snd (pool_Put what key handle pool) = None \<longleftrightarrow> (\<forall>h. pool_Get what key pool \<noteq> Ok h)"
  using assms by (cases rule: pool_put_cases [of pool key what handle])
    (auto simp: pool_Put_def pool_Get_def pool_get_def map_of_eq_None_iff split: option.split)

text \<open>What closing one handler does to the rest.\<close>

lemma pool_ok_Del:
  assumes "pool_ok closed pool" "\<And>h. closed (close h)"
  shows "pool_ok closed (fst (pool_Del close what key pool))"
proof (cases "map_of (hp_handleMap pool) key")
  case None
  with assms show ?thesis by (auto simp: pool_Del_def pool_del_def pool_get_def)
next
  case (Some h)
  have dist: "distinct (map snd (hp_handleMap pool))" "distinct (map fst (hp_handleMap pool))"
    using assms(1) by (simp_all add: pool_ok_def)
  have sub: "set (AList.delete key (hp_handleMap pool)) = {e \<in> set (hp_handleMap pool). fst e \<noteq> key}"
    by (auto simp: AList.delete_eq)
  have only: "e \<in> set (hp_handleMap pool) \<Longrightarrow> fst e = key \<Longrightarrow> snd e = h" for e
    using dist(2) Some by (metis map_of_is_SomeI option.inject prod.collapse)
  have "distinct (map snd (AList.delete key (hp_handleMap pool)))" 
    using dist(1) by (simp add: AList.delete_eq distinct_map inj_on_def)
  moreover have "distinct (map fst (AList.delete key (hp_handleMap pool)))"
    using dist(2) by (simp add: map_fst_delete)
  moreover have "\<forall>i \<in> snd ` set (AList.delete key (hp_handleMap pool)). i < length (hp_heap pool)"
    using assms(1) by (auto simp: sub pool_ok_def)
  moreover have "closed ((hp_heap pool)[h := close (hp_heap pool ! h)] ! i) \<or>
      i \<in> snd ` set (AList.delete key (hp_handleMap pool))" if "i < length (hp_heap pool)" for i
  proof (cases "i = h")
    case True
    with that assms(2) show ?thesis by simp
  next
    case False
    from that assms(1) have "closed (hp_heap pool ! i) \<or> i \<in> snd ` set (hp_handleMap pool)" by (simp add: pool_ok_def)
    with False only show ?thesis by (force simp: sub)
  qed
  ultimately have "pool_ok closed (fst (pool_del close what key pool))"
    using Some by (simp add: pool_del_def pool_get_def pool_ok_def)
  with assms(1) show ?thesis by (simp add: pool_Del_def)
qed

lemma pool_Get_Del:
  assumes "pool_ok closed pool" "snd (pool_Del close what key pool) = None"
  shows "pool_Get what k (fst (pool_Del close what key pool)) =
      (if k = key then Fail (Errorf (what @ '' not found in the pool'')) else pool_Get what k pool)"
proof -
  obtain h where h: "map_of (hp_handleMap pool) key = Some h" "\<not> hp_cancel pool" "key \<noteq> ''''"
    using assms(2) by (auto simp: pool_Del_def pool_del_def pool_get_def split: if_splits option.splits)
  have "map_of (hp_handleMap pool) k = Some i \<Longrightarrow> k \<noteq> key \<Longrightarrow> i \<noteq> h" for i
    using assms(1) h(1) map_of_SomeD by (fastforce simp: pool_ok_def distinct_map inj_on_def)
  with h show ?thesis
    by (auto simp: pool_Get_def pool_get_def pool_Del_def pool_del_def split: option.split)
qed

lemma pool_Del_refused:
  assumes "snd (pool_Del close what key pool) = Some e"
  shows "fst (pool_Del close what key pool) = pool"
  using assms by (auto simp: pool_Del_def pool_del_def pool_get_def split: if_splits option.splits)

lemma close_fold:
  assumes "\<And>x. close (close x) = close x"
  shows "length (fold (close_at close) m heap) = length heap \<and>
    (\<forall>i < length heap. fold (close_at close) m heap ! i = (if i \<in> snd ` set m then close (heap ! i) else heap ! i))"
proof (induction m arbitrary: heap)
  case (Cons e m)
  have "close (close_at close e heap ! i) = close (heap ! i)" if "i < length heap" for i
    using that assms by (cases "i = snd e") (simp_all add: close_at_def)
  moreover have "close_at close e heap ! i = (if i = snd e then close (heap ! i) else heap ! i)" if "i < length heap" for i
    using that by (simp add: close_at_def)
  moreover have "length (close_at close e heap) = length heap" by (simp add: close_at_def)
  ultimately show ?case using Cons.IH [of "close_at close e heap"] assms by simp
qed simp

lemma pool_delAll_closes:
  assumes "pool_ok closed pool" "mset (order (hp_handleMap pool)) = mset (hp_handleMap pool)"
    and "\<And>h. closed (close h)" "\<And>h. close (close h) = close h"
  shows "hp_handleMap (pool_delAll close order pool) = []"
    and "\<forall>x \<in> set (hp_heap (pool_delAll close order pool)). closed x"
    and "length (hp_heap (pool_delAll close order pool)) = length (hp_heap pool)"
    and "pool_ok closed (pool_delAll close order pool)"
proof -
  have "set (order (hp_handleMap pool)) = set (hp_handleMap pool)" using assms(2) by (rule mset_eq_setD)
  then have "i < length (hp_heap pool) \<Longrightarrow> closed (hp_heap (pool_delAll close order pool) ! i)" for i
    using assms(1,3) close_fold [of close "order (hp_handleMap pool)" "hp_heap pool"] assms(4)
    by (auto simp: pool_delAll_def pool_ok_def)
  moreover show len: "length (hp_heap (pool_delAll close order pool)) = length (hp_heap pool)"
    using close_fold [of close "order (hp_handleMap pool)" "hp_heap pool"] assms(4) by (simp add: pool_delAll_def)
  ultimately show "\<forall>x \<in> set (hp_heap (pool_delAll close order pool)). closed x"
    by (auto simp: in_set_conv_nth)
  show map: "hp_handleMap (pool_delAll close order pool) = []" by (simp add: pool_delAll_def)
  show "pool_ok closed (pool_delAll close order pool)"
    using \<open>\<forall>x \<in> _. closed x\<close> map by (auto simp: pool_ok_def)
qed

section \<open>The contract of a pool of sockets\<close>

text \<open>
  A key that has a handler keeps it: another \<^verbatim>\<open>Put\<close> is refused, and only a \<^verbatim>\<open>Del\<close> of that key takes it out.
\<close>

locale socket_pool =
  fixes good :: "'s \<Rightarrow> bool"
    and get :: "string \<Rightarrow> 's \<Rightarrow> 'h outcome"
    and put :: "string \<Rightarrow> 'h \<Rightarrow> 's \<Rightarrow> 's \<times> gerror option"
    and del :: "string \<Rightarrow> 's \<Rightarrow> 's \<times> gerror option"
  assumes good_put: "good s \<Longrightarrow> good (fst (put k h s))"
    and good_del: "good s \<Longrightarrow> good (fst (del k s))"
    and get_put: "good s \<Longrightarrow> snd (put k h s) = None \<Longrightarrow> get k' (fst (put k h s)) = (if k' = k then Ok h else get k' s)"
    and put_refused: "snd (put k h s) = Some e \<Longrightarrow> fst (put k h s) = s"
    and put_old: "good s \<Longrightarrow> get k s = Ok h0 \<Longrightarrow> snd (put k h s) \<noteq> None"
    and get_del: "good s \<Longrightarrow> snd (del k s) = None \<Longrightarrow> k' \<noteq> k \<Longrightarrow> get k' (fst (del k s)) = get k' s"
    and get_deleted: "good s \<Longrightarrow> snd (del k s) = None \<Longrightarrow> \<exists>e. get k (fst (del k s)) = Fail e"
    and del_refused: "snd (del k s) = Some e \<Longrightarrow> fst (del k s) = s"
begin

primrec step :: "(string, 'h) pool_op \<Rightarrow> 's \<Rightarrow> 's" where
  "step (Put k h) s = fst (put k h s)"
| "step (Drop k) s = fst (del k s)"

lemma good_step: "good s \<Longrightarrow> good (step oper s)"
  by (cases oper) (simp_all add: good_put good_del)

lemma good_steps: "good s \<Longrightarrow> good (fold step ops s)"
  by (induction ops arbitrary: s) (simp_all add: good_step)

lemma get_step:
  assumes "good s" "get k s = Ok h" "oper \<noteq> Drop k"
  shows "get k (step oper s) = Ok h"
proof (cases oper)
  case (Put k' h')
  show ?thesis
  proof (cases "snd (put k' h' s)")
    case None
    with put_old [OF assms(1,2), of h'] have "k \<noteq> k'" by auto
    with None assms Put show ?thesis by (simp add: get_put)
  qed (use assms Put in \<open>simp add: put_refused\<close>)
next
  case (Drop k')
  with assms show ?thesis by (cases "snd (del k' s)") (simp_all add: get_del del_refused)
qed

lemma get_steps:
  assumes "good s" "get k s = Ok h" "Drop k \<notin> set ops"
  shows "get k (fold step ops s) = Ok h"
  using assms by (induction ops arbitrary: s) (auto simp: get_step good_step)

end

lemma handler_Close_simps [simp]:
  "ch_cancel (handler_Close h)" "handler_Close (handler_Close h) = handler_Close h"
  "ch_key (handler_Close h) = ch_key h" "cn_base (ch_connection (handler_Close h)) = cn_base (ch_connection h)"
  by (simp_all add: handler_Close_def connection_Close_def)

lemma listener_Close_simps [simp]:
  "lh_cancel (listener_Close h)" "listener_Close (listener_Close h) = listener_Close h"
  by (simp_all add: listener_Close_def)

lemma pool_contract:
  assumes "\<And>h. closed (close h)"
  shows "socket_pool (pool_ok closed) (pool_Get what) (pool_Put what) (pool_Del close what)"
proof
  fix s k h h0
  assume "pool_Get what k s = Ok h0"
  then show "snd (pool_Put what k h s) \<noteq> None"
    using pool_Put_accepted [of s k what h] by (auto simp: pool_Get_def split: if_splits)
qed (use assms in \<open>auto simp: pool_ok_Put pool_ok_Del pool_Get_Put pool_Put_refused pool_Get_Del pool_Del_refused\<close>)

interpretation cps: socket_pool "pool_ok ch_cancel" "pool_Get ''connection''" "pool_Put ''connection''"
  "pool_Del handler_Close ''connection''"
  by (rule pool_contract) simp

interpretation lps: socket_pool "pool_ok lh_cancel" "pool_Get ''listener''" "pool_Put ''listener''"
  "pool_Del listener_Close ''listener''"
  by (rule pool_contract) simp

section \<open>The read loop\<close>

lemma trim_nul_empty: "length (trim_nul bytes) = 0 \<longleftrightarrow> set bytes \<subseteq> {NUL}"
proof -
  let ?d = "dropWhile ((=) NUL) bytes"
  have "length (trim_nul bytes) = 0 \<longleftrightarrow> (\<forall>x \<in> set ?d. NUL = x)"
    by (simp add: trim_nul_def dropWhile_eq_Nil_conv)
  also have "\<dots> \<longleftrightarrow> ?d = []" by (metis hd_dropWhile hd_in_set empty_iff list.set(1))
  also have "\<dots> \<longleftrightarrow> set bytes \<subseteq> {NUL}" by (auto simp: dropWhile_eq_Nil_conv)
  finally show ?thesis .
qed

definition kept :: "string list \<Rightarrow> string list" where
  "kept cs = filter (\<lambda>c. \<not> set c \<subseteq> {NUL}) cs"

lemma parser_fields_kept:
  assumes "parse_step uuids p = Some (e, p')"
  shows "pr_stopped p' = pr_stopped p"
  using assms unfolding parse_step_def read_message_def after_start_def read_body_def deliver_def
  by (auto split: if_splits option.splits outcome.splits prod.splits list.splits)

lemma drain_not_stopped: "pr_stopped (snd (drain uuids p)) = pr_stopped p"
proof (induction uuids p rule: drain.induct)
  case (1 uuids p)
  show ?case
  proof (cases "parse_step uuids p")
    case (Some ep)
    obtain e p' where ep: "ep = (e, p')" by force
    have "pr_stopped (snd (drain uuids p')) = pr_stopped p'" by (rule 1 [OF Some]) (simp_all add: ep)
    with Some ep parser_fields_kept [of uuids p e p'] show ?thesis
      by (cases "drain uuids p'") (simp add: drain.simps [of uuids p])
  qed (simp add: drain.simps [of uuids p])
qed

lemma read_data_turn:
  assumes "\<not> pr_stopped prs"
  shows "read_turn uuids (ReadData c) (handler, prs) =
    (if set c \<subseteq> {NUL} then ([], (handler, prs), True)
     else (fst (drain uuids (snd (parser_Write c prs))), (handler, snd (drain uuids (snd (parser_Write c prs)))), True))"
  using assms trim_nul_empty [of c] by (auto simp: read_turn_def parser_Write_def split: prod.split)

lemma read_loop_data:
  assumes "\<not> pr_stopped prs"
  shows "read_loop uuids (map ReadData cs) (handler, prs) =
    (fst (write_all uuids (kept cs) prs), handler, snd (write_all uuids (kept cs) prs))"
  using assms
proof (induction cs arbitrary: prs)
  case (Cons c cs)
  have "\<not> pr_stopped (snd (drain uuids (snd (parser_Write c prs))))"
    using Cons.prems by (simp add: drain_not_stopped parser_Write_def)
  from Cons.IH [OF this] Cons.IH [OF Cons.prems] Cons.prems show ?case
    by (auto simp: read_data_turn kept_def split: prod.split)
qed (simp add: kept_def)

section \<open>The steps of a pool of connections\<close>

text \<open>
  The calls on the pool and the turns of the goroutines of its handlers, in any order. A put connection is
  a new one, so it is open.
\<close>

definition set_handler :: "nat \<Rightarrow> connectionHandler \<Rightarrow> connectionPool \<Rightarrow> connectionPool" where
  "set_handler h handler pool = pool\<lparr>hp_heap := (hp_heap pool)[h := handler]\<rparr>"

inductive cp_reachable :: "connectionPool \<Rightarrow> bool" where
  created: "cp_reachable CreateConnectionPool"
| put: "cp_reachable pool \<Longrightarrow> cn_open conn \<Longrightarrow> cp_reachable (fst (cp_Put conn ttl now pool))"
| del: "cp_reachable pool \<Longrightarrow> cp_reachable (fst (cp_Del key pool))"
| delAll: "cp_reachable pool \<Longrightarrow> mset (order (hp_handleMap pool)) = mset (hp_handleMap pool) \<Longrightarrow>
    cp_reachable (pool_delAll handler_Close order pool)"
| serve: "cp_reachable pool \<Longrightarrow> h < length (hp_heap pool) \<Longrightarrow> serve_ready now c (hp_heap pool ! h) \<Longrightarrow>
    cp_reachable (set_handler h (snd (ConnectionServer_turn taken now c (hp_heap pool ! h))) pool)"
| read: "cp_reachable pool \<Longrightarrow> h < length (hp_heap pool) \<Longrightarrow>
    read_turn uuids r (hp_heap pool ! h, prs) = (es, (handler', prs'), go_on) \<Longrightarrow>
    cp_reachable (set_handler h handler' pool)"
| served: "cp_reachable pool \<Longrightarrow> cp_reachable (pool_served h pool)"
| cancel: "cp_reachable pool \<Longrightarrow> cp_reachable (pool_cancel pool)"
| finish: "cp_reachable pool \<Longrightarrow> pool_finish pool = Some pool' \<Longrightarrow> cp_reachable pool'"

text \<open>A handler is closed together with its socket, and keeps its keys.\<close>

definition handler_ok :: "connectionHandler \<Rightarrow> bool" where
  "handler_ok handler \<longleftrightarrow>
     (cn_open (ch_connection handler) \<longleftrightarrow> \<not> ch_cancel handler) \<and> cn_key (ch_connection handler) = ch_key handler"

definition connections_ok :: "connectionPool \<Rightarrow> bool" where
  "connections_ok pool \<longleftrightarrow>
     pool_ok ch_cancel pool \<and> (\<forall>handler \<in> set (hp_heap pool). handler_ok handler) \<and>
     (\<forall>(k, h) \<in> set (hp_handleMap pool). ch_key (hp_heap pool ! h) = k \<and> k \<noteq> '''')"

lemma ConnectionServer_turn_keeps:
  "ch_key (snd (ConnectionServer_turn taken now c handler)) = ch_key handler"
  "ch_cancel (snd (ConnectionServer_turn taken now c handler)) = ch_cancel handler"
  "ch_connection (snd (ConnectionServer_turn taken now c handler)) = ch_connection handler"
  by (simp_all add: ConnectionServer_turn_def Let_def split: serve_case.split option.split)

lemma read_turn_handler:
  assumes "read_turn uuids r (handler, prs) = (es, (handler', prs'), go_on)"
  shows "handler' = handler \<or> handler' = handler_Close handler"
  using assms by (auto simp: read_turn_def split: read_result.splits if_splits prod.splits outcome.splits)

lemma handler_ok_Close: "handler_ok handler \<Longrightarrow> handler_ok (handler_Close handler)"
  by (simp add: handler_ok_def handler_Close_def connection_Close_def)

lemma connections_ok_set:
  assumes "connections_ok pool" "h < length (hp_heap pool)" "handler_ok handler'"
    and "ch_key handler' = ch_key (hp_heap pool ! h)" "ch_cancel (hp_heap pool ! h) \<Longrightarrow> ch_cancel handler'"
  shows "connections_ok (set_handler h handler' pool)"
proof -
  have "ch_key ((hp_heap pool)[h := handler'] ! i) = ch_key (hp_heap pool ! i)" for i
    using assms(2,4) by (cases "i = h") simp_all
  moreover have "ch_cancel ((hp_heap pool)[h := handler'] ! i)" if "ch_cancel (hp_heap pool ! i)" for i
    using that assms(2,5) by (cases "i = h") simp_all
  ultimately show ?thesis
    using assms(1,3)
    by (auto simp: connections_ok_def set_handler_def pool_ok_def dest: set_update_subset_insert [THEN subsetD])
qed

lemma connections_ok_Put:
  assumes "connections_ok pool" "cn_open conn"
  shows "connections_ok (fst (cp_Put conn ttl now pool))"
proof (cases "snd (cp_Put conn ttl now pool)")
  case (Some e)
  with assms(1) show ?thesis by (simp add: cp_Put_def pool_Put_refused)
next
  case None
  then have key: "cn_key conn \<noteq> ''''" and put: "fst (cp_Put conn ttl now pool) =
      fst (pool_put ''connection'' (cn_key conn) (CreateConnectionHandler conn ttl now) pool)"
    by (auto simp: cp_Put_def pool_Put_def split: if_splits)
  have new: "handler_ok (CreateConnectionHandler conn ttl now)" "ch_key (CreateConnectionHandler conn ttl now) = cn_key conn"
    using assms(2) by (simp_all add: handler_ok_def CreateConnectionHandler_def Let_def)
  have bound: "\<forall>(k, h) \<in> set (hp_handleMap pool). h < length (hp_heap pool)"
    using assms(1) by (auto simp: connections_ok_def pool_ok_def)
  have "pool_ok ch_cancel (fst (cp_Put conn ttl now pool))"
    using assms(1) by (simp add: connections_ok_def cp_Put_def pool_ok_Put)
  with assms(1) new key bound show ?thesis
    by (cases rule: pool_put_cases [of pool "cn_key conn" "''connection''" "CreateConnectionHandler conn ttl now"])
      (auto simp: put connections_ok_def nth_append split: prod.splits)
qed

lemma connections_ok_Del:
  assumes "connections_ok pool"
  shows "connections_ok (fst (cp_Del key pool))"
proof (cases "snd (cp_Del key pool)")
  case (Some e)
  with assms show ?thesis by (simp add: cp_Del_def pool_Del_refused)
next
  case None
  then obtain h where h: "map_of (hp_handleMap pool) key = Some h" "fst (cp_Del key pool) =
      (set_handler h (handler_Close (hp_heap pool ! h)) pool)\<lparr>hp_handleMap := AList.delete key (hp_handleMap pool)\<rparr>"
    by (auto simp: cp_Del_def pool_Del_def pool_del_def pool_get_def set_handler_def split: if_splits option.splits)
  have lt: "h < length (hp_heap pool)" using assms h(1) map_of_SomeD by (fastforce simp: connections_ok_def pool_ok_def)
  then have "connections_ok (set_handler h (handler_Close (hp_heap pool ! h)) pool)"
    using assms by (intro connections_ok_set) (auto simp: connections_ok_def handler_ok_Close)
  moreover have "pool_ok ch_cancel (fst (cp_Del key pool))"
    using assms by (simp add: connections_ok_def cp_Del_def pool_ok_Del)
  ultimately show ?thesis by (auto simp: connections_ok_def h(2) set_handler_def AList.delete_eq)
qed

lemma connections_ok_delAll:
  assumes "connections_ok pool" "mset (order (hp_handleMap pool)) = mset (hp_handleMap pool)"
  shows "connections_ok (pool_delAll handler_Close order pool)"
proof -
  have "i < length (hp_heap pool) \<Longrightarrow> handler_ok (hp_heap (pool_delAll handler_Close order pool) ! i)" for i
    using assms(1) close_fold [of handler_Close "order (hp_handleMap pool)" "hp_heap pool"]
    by (auto simp: pool_delAll_def connections_ok_def handler_ok_Close)
  with assms pool_delAll_closes [of ch_cancel pool order handler_Close] show ?thesis
    by (auto simp: connections_ok_def in_set_conv_nth)
qed

lemma connections_ok_updates [simp]:
  "connections_ok (pool\<lparr>hp_serving := x\<rparr>) = connections_ok pool"
  "connections_ok (pool\<lparr>hp_cancel := c\<rparr>) = connections_ok pool"
  "connections_ok (pool\<lparr>hp_done := c\<rparr>) = connections_ok pool"
  by (simp_all add: connections_ok_def pool_ok_def)

lemma connections_ok_reachable: "cp_reachable pool \<Longrightarrow> connections_ok pool"
proof (induction rule: cp_reachable.induct)
  case created
  show ?case by (simp add: connections_ok_def CreateConnectionPool_def pool_ok_CreatePool) (simp add: CreatePool_def)
next
  case (serve pool h now c taken)
  then show ?case
    by (intro connections_ok_set) (auto simp: connections_ok_def handler_ok_def ConnectionServer_turn_keeps)
next
  case (read pool h uuids r prs es handler' prs' go_on)
  from read_turn_handler [OF read(3)] read(2,4) show ?case
    by (intro connections_ok_set) (auto simp: connections_ok_def handler_ok_Close)
next
  case (finish pool pool')
  then show ?case by (auto simp: pool_finish_def split: if_splits)
qed (simp_all add: connections_ok_Put connections_ok_Del connections_ok_delAll pool_served_def pool_cancel_def)

section \<open>Properties\<close>

text \<open>
  C13: In every reachable state of the pool of connections each key leads to a handler of its own and of that key, a
  socket is open exactly as long as its handler is not closed, and every open socket is in the pool; closing the
  pool therefore closes every socket that was ever put into it.
\<close>

theorem connection_pool_invariant:
  assumes "cp_reachable pool" "mset (order (hp_handleMap pool)) = mset (hp_handleMap pool)"
  shows "(\<forall>k h. map_of (hp_handleMap pool) k = Some h \<longrightarrow>
        h < length (hp_heap pool) \<and> ch_key (hp_heap pool ! h) = k \<and> cn_key (ch_connection (hp_heap pool ! h)) = k) \<and>
    (\<forall>h < length (hp_heap pool). cn_open (ch_connection (hp_heap pool ! h)) \<longrightarrow>
        map_of (hp_handleMap pool) (ch_key (hp_heap pool ! h)) = Some h) \<and>
    (\<forall>handler \<in> set (hp_heap (pool_delAll handler_Close order pool)). \<not> cn_open (ch_connection handler)) \<and>
    map cn_base (map ch_connection (hp_heap (pool_delAll handler_Close order pool))) =
      map cn_base (map ch_connection (hp_heap pool))"
proof (intro conjI allI impI)
  have ok: "connections_ok pool" using assms(1) by (rule connections_ok_reachable)
  have entry: "h < length (hp_heap pool)" "ch_key (hp_heap pool ! h) = k" "handler_ok (hp_heap pool ! h)"
    if "(k, h) \<in> set (hp_handleMap pool)" for k h
    using that ok by (fastforce simp: connections_ok_def pool_ok_def)+
  show "h < length (hp_heap pool)" "ch_key (hp_heap pool ! h) = k" "cn_key (ch_connection (hp_heap pool ! h)) = k"
    if "map_of (hp_handleMap pool) k = Some h" for k h
    using entry [OF map_of_SomeD [OF that]] by (simp_all add: handler_ok_def)
  fix h
  assume h: "h < length (hp_heap pool)" "cn_open (ch_connection (hp_heap pool ! h))"
  with ok have "\<not> ch_cancel (hp_heap pool ! h)" by (auto simp: connections_ok_def handler_ok_def)
  with ok h(1) obtain k where k: "(k, h) \<in> set (hp_handleMap pool)" by (auto simp: connections_ok_def pool_ok_def)
  with entry(2) [OF k] ok show "map_of (hp_handleMap pool) (ch_key (hp_heap pool ! h)) = Some h"
    by (simp add: connections_ok_def pool_ok_def)
next
  have ok: "connections_ok pool" using assms(1) by (rule connections_ok_reachable)
  then show "\<forall>handler \<in> set (hp_heap (pool_delAll handler_Close order pool)). \<not> cn_open (ch_connection handler)"
    using connections_ok_delAll [of pool order] pool_delAll_closes(2) [of ch_cancel pool order handler_Close] assms(2)
    by (auto simp: connections_ok_def handler_ok_def)
  show "map cn_base (map ch_connection (hp_heap (pool_delAll handler_Close order pool))) =
      map cn_base (map ch_connection (hp_heap pool))"
    using close_fold [of handler_Close "order (hp_handleMap pool)" "hp_heap pool"]
    by (auto simp: pool_delAll_def intro: nth_equalityI)
qed

theorem connection_pool_invariant_witness:
  "\<exists>pool. cp_reachable pool \<and>
    map (\<lambda>handler. cn_open (ch_connection handler)) (hp_heap (pool_delAll handler_Close (\<lambda>m. m) pool)) = [False]"
proof (intro exI conjI)
  let ?p = "fst (cp_Put (CreateConnection ''tcp:h:1'' False 7) SockTTL 0 CreateConnectionPool)"
  let ?heap = "hp_heap (pool_delAll handler_Close (\<lambda>m. m) ?p)"
  show r: "cp_reachable ?p"
    by (intro cp_reachable.put cp_reachable.created) (simp add: CreateConnection_def)
  have "length (hp_heap ?p) = 1"
    by (simp add: cp_Put_def pool_Put_def pool_put_def pool_get_def CreateConnectionPool_def CreatePool_def CreateConnection_def)
  moreover note all = connection_pool_invariant [OF r, of "\<lambda>m. m"]
  ultimately have "length ?heap = 1" by (metis length_map)
  then obtain x where "?heap = [x]" by (auto simp: length_Suc_conv)
  with all show "map (\<lambda>handler. cn_open (ch_connection handler)) ?heap = [False]" by simp
qed

text \<open>
  C17: On a streamed connection a read that returns NUL bytes only is dropped; the messages and errors that are read are those that
  the parser makes of the bytes of all the other reads, in one write. They depend on how the reads cut the bytes only
  through what is dropped: where no read consists of NUL bytes only this is
  what the parser makes of all bytes read. The connection stays open.
\<close>

theorem readConnection_streamed:
  assumes "cn_streamed (ch_connection handler)"
  shows "readConnection uuids (map ReadData cs) handler =
      (fst (write_all uuids [concat (filter (\<lambda>c. \<not> set c \<subseteq> {NUL}) cs)] (NewParser True)), handler) \<and>
    ((\<forall>c \<in> set cs. c \<noteq> [] \<longrightarrow> \<not> set c \<subseteq> {NUL}) \<longrightarrow>
      readConnection uuids (map ReadData cs) handler = (fst (write_all uuids [concat cs] (NewParser True)), handler))"
proof (intro conjI impI)
  have "\<not> pr_stopped (NewParser True)" by (simp add: NewParser_def)
  from read_loop_data [OF this, of uuids cs handler]
  show all: "readConnection uuids (map ReadData cs) handler =
      (fst (write_all uuids [concat (filter (\<lambda>c. \<not> set c \<subseteq> {NUL}) cs)] (NewParser True)), handler)"
    using assms write_all_concat [of uuids "kept cs"] by (simp add: readConnection_def kept_def)
  have "concat (filter (\<lambda>c. \<not> set c \<subseteq> {NUL}) cs) = concat cs" if "\<forall>c \<in> set cs. c \<noteq> [] \<longrightarrow> \<not> set c \<subseteq> {NUL}"
    using that by (induction cs) auto
  with all show "readConnection uuids (map ReadData cs) handler = (fst (write_all uuids [concat cs] (NewParser True)), handler)"
    if "\<forall>c \<in> set cs. c \<noteq> [] \<longrightarrow> \<not> set c \<subseteq> {NUL}" using that by presburger
qed

theorem readConnection_streamed_witness:
  "cn_streamed (ch_connection (CreateConnectionHandler (CreateConnection ''tcp:h:1'' False 7) SockTTL 0)) \<and>
   readConnection (\<lambda>_. '''') (map ReadData [''SIP/'', [NUL, NUL], ''2.0''])
       (CreateConnectionHandler (CreateConnection ''tcp:h:1'' False 7) SockTTL 0) =
     (fst (write_all (\<lambda>_. '''') [''SIP/2.0''] (NewParser True)),
      CreateConnectionHandler (CreateConnection ''tcp:h:1'' False 7) SockTTL 0) \<and>
   readConnection (\<lambda>_. '''') (map ReadData [''SI'', ''P/2.'', ''0''])
       (CreateConnectionHandler (CreateConnection ''tcp:h:1'' False 7) SockTTL 0) =
     (fst (write_all (\<lambda>_. '''') [''SIP/2.0''] (NewParser True)),
      CreateConnectionHandler (CreateConnection ''tcp:h:1'' False 7) SockTTL 0)"
proof -
  let ?h = "CreateConnectionHandler (CreateConnection ''tcp:h:1'' False 7) SockTTL 0"
  have s: "cn_streamed (ch_connection ?h)" by (simp add: CreateConnectionHandler_def CreateConnection_def Let_def)
  from readConnection_streamed [OF s, of "\<lambda>_. ''''" "[''SIP/'', [NUL, NUL], ''2.0'']"]
    readConnection_streamed [OF s, of "\<lambda>_. ''''" "[''SI'', ''P/2.'', ''0'']"] s show ?thesis
    by (simp add: NUL_def del: write_all.simps)
qed

end
