(* ===== verification/Gsip_Transport.thy ===== *)
theory Gsip_Transport
  imports Gsip_Conn
begin

text \<open>
  The transport layer (\<^verbatim>\<open>transport/transport.go\<close>, \<^verbatim>\<open>udp.go\<close>, \<^verbatim>\<open>tcp.go\<close>, \<^verbatim>\<open>protocolPool.go\<close>,
  \<^verbatim>\<open>protocolFactory.go\<close>): it completes a message, chooses the protocol, the connection and the address
  for it, and writes its text. The package \<^verbatim>\<open>net\<close> is a parameter.
\<close>

section \<open>The network\<close>

text \<open>
  A resolved address (\<^verbatim>\<open>net.UDPAddr\<close>, \<^verbatim>\<open>net.TCPAddr\<close>): the text of its IP, and its port. Its text is that of
  \<^verbatim>\<open>net.JoinHostPort\<close>.
\<close>

record netaddr =
  na_IP :: string
  na_Port :: nat

definition na_String :: "netaddr \<Rightarrow> string" where
  "na_String a =
     (if CHR '':'' \<in> set (na_IP a) then ''['' @ na_IP a @ '']:'' @ show_nat (na_Port a)
      else na_IP a @ '':'' @ show_nat (na_Port a))"

text \<open>
  The functions of \<^verbatim>\<open>net\<close> that are called: \<^verbatim>\<open>ResolveUDPAddr\<close> and \<^verbatim>\<open>ResolveTCPAddr\<close> (by network),
  \<^verbatim>\<open>ListenUDP\<close>, \<^verbatim>\<open>ListenTCP\<close> and \<^verbatim>\<open>DialTCP\<close>, which make a socket, \<^verbatim>\<open>WriteTo\<close> and \<^verbatim>\<open>Write\<close> on the socket of a
  connection, \<^verbatim>\<open>LookupSRV\<close> (targets and ports), \<^verbatim>\<open>ParseIP\<close> (whether it is not nil); the time, and
  the order in which a map is ranged over.
\<close>

record net_env =
  ne_Resolve :: "string \<Rightarrow> string \<Rightarrow> netaddr outcome"
  ne_ListenUDP :: "netaddr \<Rightarrow> nat outcome"
  ne_ListenTCP :: "netaddr \<Rightarrow> nat outcome"
  ne_DialTCP :: "netaddr \<Rightarrow> nat outcome"
  ne_WriteTo :: "connection \<Rightarrow> string \<Rightarrow> netaddr \<Rightarrow> gerror option"
  ne_Write :: "connection \<Rightarrow> string \<Rightarrow> gerror option"
  ne_LookupSRV :: "string \<Rightarrow> string \<Rightarrow> string \<Rightarrow> (string \<times> nat) list outcome"
  ne_ParseIP :: "string \<Rightarrow> bool"
  ne_now :: int
  ne_order :: range_order

text \<open>
  What a call of \<^verbatim>\<open>Send\<close> hands to a socket: the connection, the address and the text. \<^verbatim>\<open>String\<close> of a
  request stores the recipient in it, so the message after the call is a result too. A
  \<^verbatim>\<open>ProtocolError\<close> is represented by the text of its operation.
\<close>

type_synonym wire = "connection \<times> netaddr \<times> string"

definition Message_print :: "Message \<Rightarrow> (string \<times> Message) outcome" where
  "Message_print msg =
     (case msg of
        Req r \<Rightarrow> omap (\<lambda>(text, r1). (text, Req r1)) (request_String r)
      | Res r \<Rightarrow> omap (\<lambda>text. (text, Res r)) (response_String r))"

section \<open>UDP\<close>

record udpProtocol =
  up_connections :: connectionPool

definition CreateUdpProtocol :: udpProtocol where
  "CreateUdpProtocol = \<lparr>up_connections = CreateConnectionPool\<rparr>"

definition udp_resolveAddr :: "net_env \<Rightarrow> Addr \<Rightarrow> netaddr outcome" where
  "udp_resolveAddr env addr =
     (case ne_Resolve env ''udp'' (Addr_Addr addr) of
        Ok a \<Rightarrow> Ok a
      | Fail _ \<Rightarrow> Fail (Errorf ''[udp_protocol] -> resolve target address'')
      | Panic \<Rightarrow> Panic)"

definition udp_key :: "string \<Rightarrow> string" where "udp_key port = ''udp:0.0.0.0:'' @ port"

definition udp_Listen :: "net_env \<Rightarrow> Addr \<Rightarrow> udpProtocol \<Rightarrow> (udpProtocol \<times> gerror option) outcome" where
  "udp_Listen env addr udp =
     (case udp_resolveAddr env (FillTargetHostAndPort ''UDP'' addr) of
        Panic \<Rightarrow> Panic
      | Fail err \<Rightarrow> Ok (udp, Some err)
      | Ok localAddr \<Rightarrow>
          (case ne_ListenUDP env localAddr of
             Panic \<Rightarrow> Panic
           | Fail _ \<Rightarrow> Ok (udp, Some (Errorf ''[udp_protocol] -> listen''))
           | Ok base \<Rightarrow>
               let conn = CreateConnection (udp_key (show_nat (na_Port localAddr))) True base;
                   (pool, err) = cp_Put conn 0 (ne_now env) (up_connections udp)
               in Ok (udp\<lparr>up_connections := pool\<rparr>, err)))"

text \<open>
  \<^verbatim>\<open>Send\<close> writes through the connection that listens on the port of \<^verbatim>\<open>msg.Source()\<close>; when there is none
  it takes the first element of \<^verbatim>\<open>All\<close>. A call of a method of a nil connection panics.
\<close>

definition udp_connection :: "net_env \<Rightarrow> string \<Rightarrow> connectionPool \<Rightarrow> (gerror + connection) outcome" where
  "udp_connection env port pool =
     (case cp_Get (udp_key port) pool of
        Ok conn \<Rightarrow> Ok (Inr conn)
      | Panic \<Rightarrow> Panic
      | Fail _ \<Rightarrow>
          (case cp_All (ne_order env) pool of
             [] \<Rightarrow> Ok (Inl (Errorf ''[udp_protocol] -> connection not found''))
           | None # _ \<Rightarrow> Panic
           | Some conn # _ \<Rightarrow> Ok (Inr conn)))"

definition udp_Send ::
  "net_env \<Rightarrow> Addr \<Rightarrow> Message \<Rightarrow> udpProtocol \<Rightarrow> (udpProtocol \<times> Message \<times> wire list \<times> gerror option) outcome" where
  "udp_Send env rAddr msg udp =
     (if addr_Host rAddr = '''' then Ok (udp, msg, [], Some (Errorf ''[udp_protocol] -> empty remote target host''))
      else case udp_resolveAddr env rAddr of
             Panic \<Rightarrow> Panic
           | Fail err \<Rightarrow> Ok (udp, msg, [], Some err)
           | Ok remoteAddr \<Rightarrow>
               obind (Message_Source msg) (\<lambda>source.
               let port = (case SplitHostPort source of Ok (_, p) \<Rightarrow> p | _ \<Rightarrow> '''')
               in obind (udp_connection env port (up_connections udp)) (\<lambda>found.
                  case found of
                    Inl err \<Rightarrow> Ok (udp, msg, [], Some err)
                  | Inr conn \<Rightarrow>
                      omap (\<lambda>(text, msg1). (udp, msg1, [(conn, remoteAddr, text)], ne_WriteTo env conn text remoteAddr))
                        (Message_print msg))))"

section \<open>TCP\<close>

record tcpProtocol =
  tp_connections :: connectionPool
  tp_listeners :: listenerPool

definition CreateTcpProtocol :: tcpProtocol where
  "CreateTcpProtocol = \<lparr>tp_connections = CreateConnectionPool, tp_listeners = CreateListenerPool\<rparr>"

definition tcp_resolveAddr :: "net_env \<Rightarrow> Addr \<Rightarrow> netaddr outcome" where
  "tcp_resolveAddr env addr =
     (case ne_Resolve env ''tcp'' (Addr_Addr addr) of
        Ok a \<Rightarrow> Ok a
      | Fail _ \<Rightarrow> Fail (Errorf ''[tcp_protocol] -> resolve target address'')
      | Panic \<Rightarrow> Panic)"

definition tcp_Listen :: "net_env \<Rightarrow> Addr \<Rightarrow> tcpProtocol \<Rightarrow> (tcpProtocol \<times> gerror option) outcome" where
  "tcp_Listen env addr tcp =
     (case tcp_resolveAddr env (FillTargetHostAndPort ''TCP'' addr) of
        Panic \<Rightarrow> Panic
      | Fail err \<Rightarrow> Ok (tcp, Some err)
      | Ok localAddr \<Rightarrow>
          (case ne_ListenTCP env localAddr of
             Panic \<Rightarrow> Panic
           | Fail _ \<Rightarrow> Ok (tcp, Some (Errorf ''[tcp_protocol] -> listen''))
           | Ok listener \<Rightarrow>
               let (pool, err) = lp_Put (''tcp:0.0.0.0:'' @ show_nat (na_Port localAddr)) listener (tp_listeners tcp)
               in Ok (tcp\<lparr>tp_listeners := pool\<rparr>, err)))"

definition tcp_key :: "netaddr \<Rightarrow> string" where "tcp_key a = ''tcp:'' @ na_String a"

text \<open>The results are the protocol, the connection and the error, if any.\<close>

definition getOrCreateConnection ::
  "net_env \<Rightarrow> netaddr \<Rightarrow> tcpProtocol \<Rightarrow> (tcpProtocol \<times> connection option \<times> gerror option) outcome" where
  "getOrCreateConnection env remoteAddr tcp =
     (case cp_Get (tcp_key remoteAddr) (tp_connections tcp) of
        Ok conn \<Rightarrow> Ok (tcp, Some conn, None)
      | Panic \<Rightarrow> Panic
      | Fail _ \<Rightarrow>
          (case ne_DialTCP env remoteAddr of
             Panic \<Rightarrow> Panic
           | Fail _ \<Rightarrow> Ok (tcp, None, Some (Errorf ''[tcp_protocol] -> connect''))
           | Ok base \<Rightarrow>
               let conn = CreateConnection (tcp_key remoteAddr) False base;
                   (pool, err) = cp_Put conn SockTTL (ne_now env) (tp_connections tcp)
               in Ok (tcp\<lparr>tp_connections := pool\<rparr>, Some conn, err)))"

definition tcp_Send ::
  "net_env \<Rightarrow> Addr \<Rightarrow> Message \<Rightarrow> tcpProtocol \<Rightarrow> (tcpProtocol \<times> Message \<times> wire list \<times> gerror option) outcome" where
  "tcp_Send env rAddr msg tcp =
     (if addr_Host rAddr = '''' then Ok (tcp, msg, [], Some (Errorf ''[tcp_protocol] -> empty remote target host''))
      else case tcp_resolveAddr env rAddr of
             Panic \<Rightarrow> Panic
           | Fail err \<Rightarrow> Ok (tcp, msg, [], Some err)
           | Ok remoteAddr \<Rightarrow>
               obind (getOrCreateConnection env remoteAddr tcp) (\<lambda>(tcp1, conn, err).
               case err of
                 Some e \<Rightarrow> Ok (tcp1, msg, [], Some e)
               | None \<Rightarrow>
                   (case conn of
                      None \<Rightarrow> Panic
                    | Some c \<Rightarrow>
                        omap (\<lambda>(text, msg1). (tcp1, msg1, [(c, remoteAddr, text)], ne_Write env c text))
                          (Message_print msg))))"

text \<open>A turn of \<^verbatim>\<open>pipePools\<close>: a connection that cannot be put is dropped, its socket stays open.\<close>

definition pipePools_turn :: "net_env \<Rightarrow> connection \<Rightarrow> tcpProtocol \<Rightarrow> tcpProtocol" where
  "pipePools_turn env conn tcp =
     tcp\<lparr>tp_connections := fst (cp_Put conn SockTTL (ne_now env) (tp_connections tcp))\<rparr>"

section \<open>Protocols and their pool\<close>

datatype Protocol = UdpProtocol udpProtocol | TcpProtocol tcpProtocol

primrec Reliable :: "Protocol \<Rightarrow> bool" where
  "Reliable (UdpProtocol _) = False"
| "Reliable (TcpProtocol _) = True"

primrec Network :: "Protocol \<Rightarrow> string" where
  "Network (UdpProtocol _) = ToUpper ''udp''"
| "Network (TcpProtocol _) = ToUpper ''tcp''"

primrec protocol_Listen :: "net_env \<Rightarrow> Addr \<Rightarrow> Protocol \<Rightarrow> (Protocol \<times> gerror option) outcome" where
  "protocol_Listen env addr (UdpProtocol p) = omap (\<lambda>(p1, err). (UdpProtocol p1, err)) (udp_Listen env addr p)"
| "protocol_Listen env addr (TcpProtocol p) = omap (\<lambda>(p1, err). (TcpProtocol p1, err)) (tcp_Listen env addr p)"

primrec protocol_Send ::
  "net_env \<Rightarrow> Addr \<Rightarrow> Message \<Rightarrow> Protocol \<Rightarrow> (Protocol \<times> Message \<times> wire list \<times> gerror option) outcome" where
  "protocol_Send env addr msg (UdpProtocol p) = omap (\<lambda>(p1, r). (UdpProtocol p1, r)) (udp_Send env addr msg p)"
| "protocol_Send env addr msg (TcpProtocol p) = omap (\<lambda>(p1, r). (TcpProtocol p1, r)) (tcp_Send env addr msg p)"

text \<open>\<^verbatim>\<open>protocolFactory\<close> never fails; for an unknown network it returns nil (\<^term>\<open>None\<close>).\<close>

definition protocolFactory :: "string \<Rightarrow> Protocol option" where
  "protocolFactory network =
     (if ToLower network = ''udp'' then Some (UdpProtocol CreateUdpProtocol)
      else if ToLower network = ''tcp'' then Some (TcpProtocol CreateTcpProtocol)
      else None)"

text \<open>The pool of protocols; its keys are made upper case, its values may be nil.\<close>

type_synonym protocolPool = "string \<rightharpoonup> Protocol option"

definition createProtocolPool :: protocolPool where "createProtocolPool = Map.empty"

definition pp_put :: "string \<Rightarrow> Protocol option \<Rightarrow> protocolPool \<Rightarrow> protocolPool" where
  "pp_put key protocol pool = pool(ToUpper key \<mapsto> protocol)"

definition pp_get :: "string \<Rightarrow> protocolPool \<Rightarrow> Protocol option option" where
  "pp_get key pool = pool (ToUpper key)"

definition pp_del :: "string \<Rightarrow> protocolPool \<Rightarrow> bool \<times> protocolPool" where
  "pp_del key pool = (if pp_get key pool = None then (False, pool) else (True, pool(ToUpper key := None)))"

interpretation pps: keyed_pool ToUpper createProtocolPool pp_put pp_get "\<lambda>k s. snd (pp_del k s)"
  by unfold_locales (auto simp: createProtocolPool_def pp_put_def pp_get_def pp_del_def)

section \<open>The layer\<close>

text \<open>
  \<open>tl_wire\<close> lists what has been handed to sockets, \<open>tl_up\<close> what has been passed to the transaction layer.
\<close>

record tlayer =
  tl_protocols :: protocolPool
  tl_localIP :: string
  tl_wire :: "wire list"
  tl_upMessage :: "Message list"
  tl_upError :: "gerror list"
  tl_cancel :: bool

definition tl_CreateLayer :: "string \<Rightarrow> tlayer" where
  "tl_CreateLayer localIP =
     \<lparr>tl_protocols = createProtocolPool, tl_localIP = localIP, tl_wire = [], tl_upMessage = [], tl_upError = [],
      tl_cancel = False\<rparr>"

text \<open>A method of a nil protocol panics.\<close>

definition IsReliable :: "string \<Rightarrow> tlayer \<Rightarrow> bool outcome" where
  "IsReliable network tpl =
     (case pp_get network (tl_protocols tpl) of
        None \<Rightarrow> Ok False
      | Some None \<Rightarrow> Panic
      | Some (Some protocol) \<Rightarrow> Ok (Reliable protocol))"

definition set_protocol :: "string \<Rightarrow> Protocol \<Rightarrow> tlayer \<Rightarrow> tlayer" where
  "set_protocol network protocol tpl = tpl\<lparr>tl_protocols := pp_put network (Some protocol) (tl_protocols tpl)\<rparr>"

definition tl_Listen :: "net_env \<Rightarrow> string \<Rightarrow> string \<Rightarrow> tlayer \<Rightarrow> (tlayer \<times> gerror option) outcome" where
  "tl_Listen env network addr tpl =
     (if tl_cancel tpl then Ok (tpl, Some (Errorf ''[tpl_layer] -> transport layer is canceled''))
      else
        let (protocol, tpl1) =
              (case pp_get network (tl_protocols tpl) of
                 Some p \<Rightarrow> (p, tpl)
               | None \<Rightarrow> (protocolFactory network,
                          tpl\<lparr>tl_protocols := pp_put network (protocolFactory network) (tl_protocols tpl)\<rparr>))
        in case NewTargetFromAddr addr of
             Panic \<Rightarrow> Panic
           | Fail err \<Rightarrow> Ok (tpl1, Some err)
           | Ok lAddr \<Rightarrow>
               (case protocol of
                  None \<Rightarrow> Panic
                | Some p \<Rightarrow>
                    omap (\<lambda>(p1, err). (set_protocol network p1 tpl1, err))
                      (protocol_Listen env (FillTargetHostAndPort network lAddr) p)))"

text \<open>
  The changes that \<^verbatim>\<open>Send\<close> makes to the top \<^verbatim>\<open>Via\<close> hop of a request, and the \<^verbatim>\<open>Contact\<close> header of an
  INVITE that has none.
\<close>

definition MTU :: nat where "MTU = 1500"

definition set_hop :: "(ViaHop \<Rightarrow> ViaHop) \<Rightarrow> headers \<Rightarrow> headers" where
  "set_hop f hs =
     (case get_Via hs of
        Some (hop # hops) \<Rightarrow> write_first ''via'' (\<lambda>_. ViaHeader (f hop # hops)) hs
      | _ \<Rightarrow> hs)"

definition stamp_host :: "string \<Rightarrow> ViaHop \<Rightarrow> ViaHop" where
  "stamp_host localIP hop =
     (let p = (case vh_Params hop of None \<Rightarrow> NewParams | Some p \<Rightarrow> p)
      in hop\<lparr>vh_Host := localIP, vh_Params := Some (if Params_Has p ''rport'' then p else Params_Add ''rport'' NilStr p)\<rparr>)"

definition stamp_transport :: "string \<Rightarrow> ViaHop \<Rightarrow> ViaHop" where
  "stamp_transport nt hop = hop\<lparr>vh_Transport := ToUpper nt, vh_Port := Some (DefaultPort nt)\<rparr>"

definition add_contact :: "request \<Rightarrow> request outcome" where
  "add_contact req =
     (if IsInvite req \<and> get_Contact (m_headers req) = None then
        (case get_From (m_headers req) of
           None \<Rightarrow> Ok req
         | Some from \<Rightarrow>
             omap (\<lambda>uri. req\<lparr>m_headers := PrependHeaderAfter
                      (ContactHeader \<lparr>ah_DisplayName = NilStr, ah_Address = Some uri, ah_Params = None\<rparr>)
                      ''CSeq'' (m_headers req)\<rparr>)
               (nil_uri_Copy (ah_Address from)))
      else Ok req)"

text \<open>
  The SRV lookup of a target that is no IP address: the name of the first record without its last
  byte, resolved again in the two cases of the switch.
\<close>

definition srv_resolve :: "net_env \<Rightarrow> string \<Rightarrow> string \<Rightarrow> Addr \<Rightarrow> Addr outcome" where
  "srv_resolve env network addrStr target =
     (case ne_Resolve env network addrStr of
        Ok a \<Rightarrow> Ok \<lparr>addr_Host = na_IP a, addr_Port = Some (of_nat (na_Port a))\<rparr>
      | Fail _ \<Rightarrow> Ok target
      | Panic \<Rightarrow> Panic)"

definition srv_target :: "net_env \<Rightarrow> string \<Rightarrow> Addr \<Rightarrow> Addr outcome" where
  "srv_target env nt target =
     (if ne_ParseIP env (addr_Host target) then Ok target
      else case ne_LookupSRV env ''sip'' (ToLower nt) (addr_Host target) of
             Ok ((name, port) # _) \<Rightarrow>
               if name = '''' then Panic
               else
                 let addrStr = butlast name @ '':'' @ show_nat port
                 in if nt = ''UDP'' then srv_resolve env ''udp'' addrStr target
                    else if nt = ''TCP'' then srv_resolve env ''tcp'' addrStr target
                    else Ok target
           | Panic \<Rightarrow> Panic
           | _ \<Rightarrow> Ok target)"

text \<open>The loop over the networks: \<open>err\<close> is the error of the last one tried.\<close>

primrec send_loop ::
  "net_env \<Rightarrow> string list \<Rightarrow> request \<Rightarrow> gerror option \<Rightarrow> tlayer \<Rightarrow> (tlayer \<times> request \<times> gerror option) outcome" where
  "send_loop env [] req err tpl = Ok (tpl, req, err)"
| "send_loop env (nt # nets) req err tpl =
     (case pp_get nt (tl_protocols tpl) of
        None \<Rightarrow> send_loop env nets req (Some (UnsupportedProtocolError nt)) tpl
      | Some protocol \<Rightarrow>
          let req1 = req\<lparr>m_headers := set_hop (stamp_transport nt) (m_headers req)\<rparr>
          in obind (request_Destination req1) (\<lambda>dest.
             case NewTargetFromAddr dest of
               Panic \<Rightarrow> Panic
             | Fail e \<Rightarrow> send_loop env nets req1 (Some e) tpl
             | Ok target \<Rightarrow>
                 obind (srv_target env nt target) (\<lambda>target1.
                 case protocol of
                   None \<Rightarrow> Panic
                 | Some p \<Rightarrow>
                     obind (protocol_Send env target1 (Req req1) p) (\<lambda>(p1, msg1, out, err1).
                     let req2 = (case msg1 of Req r \<Rightarrow> r | Res _ \<Rightarrow> req1);
                         tpl1 = (set_protocol nt p1 tpl)\<lparr>tl_wire := tl_wire tpl @ out\<rparr>
                     in case err1 of
                          None \<Rightarrow> Ok (tpl1, req2, None)
                        | Some e \<Rightarrow> send_loop env nets req2 (Some e) tpl1))))"

definition send_nets :: "nat \<Rightarrow> string list" where
  "send_nets msgLen = (if MTU - 200 < msgLen then [''tcp'', ''udp''] else [''udp'', ''tcp''])"

definition tl_sendRequest :: "net_env \<Rightarrow> request \<Rightarrow> tlayer \<Rightarrow> (tlayer \<times> request \<times> gerror option) outcome" where
  "tl_sendRequest env req tpl =
     obind (request_String req) (\<lambda>(text, req1).
     let nets = send_nets (length text);
         req2 = req1\<lparr>m_headers := set_hop (stamp_host (tl_localIP tpl)) (m_headers req1)\<rparr>
     in obind (add_contact req2) (\<lambda>req3. send_loop env nets req3 None tpl))"

definition tl_sendResponse :: "net_env \<Rightarrow> ViaHop \<Rightarrow> response \<Rightarrow> tlayer \<Rightarrow> (tlayer \<times> gerror option) outcome" where
  "tl_sendResponse env viaHop res tpl =
     (case pp_get (vh_Transport viaHop) (tl_protocols tpl) of
        None \<Rightarrow> Ok (tpl, Some (UnsupportedProtocolError (vh_Transport viaHop)))
      | Some protocol \<Rightarrow>
          obind (response_Destination res) (\<lambda>dest.
          case NewTargetFromAddr dest of
            Panic \<Rightarrow> Panic
          | Fail e \<Rightarrow> Ok (tpl, Some e)
          | Ok target \<Rightarrow>
              (case protocol of
                 None \<Rightarrow> Panic
               | Some p \<Rightarrow>
                   omap (\<lambda>(p1, _, out, err).
                       ((set_protocol (vh_Transport viaHop) p1 tpl)\<lparr>tl_wire := tl_wire tpl @ out\<rparr>, err))
                     (protocol_Send env target (Res res) p))))"

text \<open>The results are the layer, the message after the call and the error.\<close>

definition tl_Send :: "net_env \<Rightarrow> Message \<Rightarrow> tlayer \<Rightarrow> (tlayer \<times> Message \<times> gerror option) outcome" where
  "tl_Send env message tpl =
     (if tl_cancel tpl then Ok (tpl, message, Some (Errorf ''[tpl_layer] -> transport layer is canceled''))
      else case get_ViaHop (Message_headers message) of
             None \<Rightarrow> omap (\<lambda>(_, msg1). (tpl, msg1, Some (MalformedMessageError ''missing required 'Via' header'')))
                       (Message_print message)
           | Some viaHop \<Rightarrow>
               (case message of
                  Req req \<Rightarrow> omap (\<lambda>(tpl1, req1, err). (tpl1, Req req1, err)) (tl_sendRequest env req tpl)
                | Res res \<Rightarrow> omap (\<lambda>(tpl1, err). (tpl1, message, err)) (tl_sendResponse env viaHop res tpl)))"

definition tl_Close :: "tlayer \<Rightarrow> tlayer" where
  "tl_Close tpl = tpl\<lparr>tl_cancel := True\<rparr>"

text \<open>\<open>taken\<close>: the transaction layer takes the value before the layer is cancelled.\<close>

definition tl_handleMessage :: "bool \<Rightarrow> Message \<Rightarrow> tlayer \<Rightarrow> tlayer" where
  "tl_handleMessage taken message tpl =
     (if taken then tpl\<lparr>tl_upMessage := tl_upMessage tpl @ [message]\<rparr> else tpl)"

definition tl_handleError :: "bool \<Rightarrow> gerror \<Rightarrow> tlayer \<Rightarrow> tlayer" where
  "tl_handleError taken err tpl = (if taken then tpl\<lparr>tl_upError := tl_upError tpl @ [err]\<rparr> else tpl)"

text \<open>
  \<^verbatim>\<open>release\<close> takes the protocols out of the pool one by one; \<open>protocols\<close> is what \<^verbatim>\<open>all\<close> returns.
\<close>

primrec tl_release :: "Protocol option list \<Rightarrow> tlayer \<Rightarrow> tlayer outcome" where
  "tl_release [] tpl = Ok tpl"
| "tl_release (protocol # ps) tpl =
     (case protocol of
        None \<Rightarrow> Panic
      | Some p \<Rightarrow> tl_release ps (tpl\<lparr>tl_protocols := snd (pp_del (Network p) (tl_protocols tpl))\<rparr>))"

text \<open>
  A turn of \<^verbatim>\<open>listenProtocolNotice\<close>: whether the loop goes on, and the layer after it. When the loop ends the layer is released.
\<close>

datatype notice = NoticeCancel | NoticeMessage bool Message | NoticeError bool gerror

definition listenProtocolNotice_turn :: "Protocol option list \<Rightarrow> notice \<Rightarrow> tlayer \<Rightarrow> (bool \<times> tlayer) outcome" where
  "listenProtocolNotice_turn protocols n tpl =
     (case n of
        NoticeCancel \<Rightarrow> omap (\<lambda>tpl'. (False, tpl')) (tl_release protocols tpl)
      | NoticeMessage taken msg \<Rightarrow> Ok (True, tl_handleMessage taken msg tpl)
      | NoticeError taken err \<Rightarrow> Ok (True, tl_handleError taken err tpl))"

end
