(* ===== verification/Gsip_Transport_Properties.thy ===== *)
theory Gsip_Transport_Properties
  imports Gsip_Transport
begin

text \<open>
  What the transport layer guarantees: which protocol, connection and address a message is written to,
  what is changed in it before, and where the choice goes wrong.
\<close>

section \<open>Completing a request\<close>

lemma set_hop_at:
  assumes "headers_ok hs" "get_Via hs = Some (hop # hops)" "hop_ok (f hop)"
  shows "headers_ok (set_hop f hs)" "get_Via (set_hop f hs) = Some (f hop # hops)"
    "k \<noteq> ''via'' \<Longrightarrow> headers_at (set_hop f hs) k = headers_at hs k"
proof -
  have eq: "set_hop f hs = write_first ''via'' (\<lambda>_. ViaHeader (f hop # hops)) hs"
    using assms(2) by (simp add: set_hop_def)
  obtain p where "list_all hop_ok hops" by (rule ViaHop_params [OF assms(1,2)])
  with assms(3) show "headers_ok (set_hop f hs)"
    unfolding eq by (intro headers_ok_write_first [OF assms(1)]) (simp add: header_key_simps)
  show "get_Via (set_hop f hs) = Some (f hop # hops)"
    using assms(2) by (auto simp: eq get_Via_at write_first_at split: list.splits)
  show "k \<noteq> ''via'' \<Longrightarrow> headers_at (set_hop f hs) k = headers_at hs k" by (simp add: eq write_first_at)
qed

lemma get_ViaHop_hop: "get_Via hs = Some (hop # hops) \<Longrightarrow> get_ViaHop hs = Some hop"
  by (simp add: get_ViaHop_def)

definition completed :: "string \<Rightarrow> string \<Rightarrow> request \<Rightarrow> request" where
  "completed localIP nt req =
     req\<lparr>m_headers := set_hop (stamp_transport nt) (set_hop (stamp_host localIP) (m_headers req))\<rparr>"

lemma completed_headers:
  assumes "headers_ok (m_headers req)" "get_Via (m_headers req) = Some (hop # hops)"
  shows "headers_ok (m_headers (completed localIP nt req))"
    "get_Via (m_headers (completed localIP nt req)) = Some (stamp_transport nt (stamp_host localIP hop) # hops)"
    "k \<noteq> ''via'' \<Longrightarrow> headers_at (m_headers (completed localIP nt req)) k = headers_at (m_headers req) k"
proof -
  obtain p where p: "vh_Params hop = Some p" "params_ok p" by (rule ViaHop_params [OF assms])
  then have "hop_ok (stamp_host localIP hop)"
    by (simp add: stamp_host_def hop_ok_def opt_params_ok_def)
  note h1 = set_hop_at [where f = "stamp_host localIP", OF assms this]
  have "hop_ok (stamp_transport nt (stamp_host localIP hop))"
    using \<open>hop_ok (stamp_host localIP hop)\<close> by (simp add: stamp_transport_def hop_ok_def)
  note h2 = set_hop_at [where f = "stamp_transport nt", OF h1(1,2) this]
  show "headers_ok (m_headers (completed localIP nt req))"
    "get_Via (m_headers (completed localIP nt req)) = Some (stamp_transport nt (stamp_host localIP hop) # hops)"
    "k \<noteq> ''via'' \<Longrightarrow> headers_at (m_headers (completed localIP nt req)) k = headers_at (m_headers req) k"
    using h1 h2 by (simp_all add: completed_def)
qed

text \<open>The recipient of the start line does not depend on the \<^verbatim>\<open>Via\<close> header.\<close>

lemma StartLine_completed:
  assumes "headers_ok (m_headers req)" "get_Via (m_headers req) = Some (hop # hops)" "m_dest req \<noteq> ''''"
    and "request_String req = Ok (text, req1)"
  obtains text' where "request_String (completed localIP nt req1) =
      Ok (text', completed localIP nt req1)" "m_headers req1 = m_headers req" "m_dest req1 = m_dest req"
    "m_src req1 = m_src req" "r_method req1 = r_method req"
proof -
  obtain recipient where r: "request_recipient req = Ok recipient" "req1 = req\<lparr>r_recipient := Some recipient\<rparr>"
    using assms(4) by (auto simp: request_String_def request_StartLine_def outcome_simps split: prod.splits)
  let ?c = "completed localIP nt req1"
  have same: "m_headers req1 = m_headers req" "m_dest req1 = m_dest req" "m_src req1 = m_src req" "r_method req1 = r_method req"
    by (simp_all add: r(2))
  have via: "headers_ok (m_headers req1)" "get_Via (m_headers req1) = Some (hop # hops)" using assms(1,2) same by simp_all
  have "get_To (m_headers ?c) = get_To (m_headers req)"
    using completed_headers(3) [OF via, of "''to''"] same by (simp add: get_To_at)
  then have rec: "request_recipient ?c = Ok recipient"
    using r(1) assms(3) by (auto simp: request_recipient_def request_Destination_def completed_def r(2))
  moreover have "?c\<lparr>r_recipient := Some recipient\<rparr> = ?c" by (simp add: completed_def r(2))
  ultimately have "\<exists>text'. request_String ?c = Ok (text', ?c)"
    using headers_String_ok [OF completed_headers(1) [OF via], of localIP nt]
    by (simp add: request_String_def request_StartLine_def message_text_def)
  with same that show thesis by blast
qed

lemma DefaultPort_udp: "DefaultPort ''udp'' = 5060"
  by (simp add: DefaultPort_def ToLower_def lower_char_def byte_def DefaultUdpPort_def DefaultTcpPort_def DefaultTlsPort_def)

lemma port_5060: "port_text 5060 = ''5060''"
  by (simp add: port_text_def show_nat.simps digit_char_def char_of_def bit_iff_odd)

lemma ToUpper_udp: "ToUpper ''udp'' = ''UDP''"
  by (simp add: ToUpper_def upper_char_def byte_def char_of_def bit_iff_odd)

lemma completed_Source:
  assumes "headers_ok (m_headers req)" "get_Via (m_headers req) = Some (hop # hops)" "m_src req = ''''"
    and "vh_Params hop = Some p" "Params_Get p ''received'' = None" "Params_Get p ''rport'' = None"
    and "\<forall>c \<in> set localIP. c \<noteq> CHR '':'' \<and> c \<noteq> CHR ''['' \<and> c \<noteq> CHR '']''"
  obtains source where "request_Source (completed localIP ''udp'' req) = Ok source" "SplitHostPort source = Ok (localIP, ''5060'')"
proof -
  let ?c = "completed localIP ''udp'' req" and ?p = "Params_Add ''rport'' NilStr p"
  have hop: "get_ViaHop (m_headers ?c) = Some (stamp_transport ''udp'' (stamp_host localIP hop))"
    using completed_headers(2) [OF assms(1,2)] by (rule get_ViaHop_hop)
  have "Params_Has p ''rport'' = False" using assms(6) by (simp add: Params_Has_def)
  then have stamped: "vh_Params (stamp_transport ''udp'' (stamp_host localIP hop)) = Some ?p"
    "vh_Host (stamp_transport ''udp'' (stamp_host localIP hop)) = localIP"
    "vh_Port (stamp_transport ''udp'' (stamp_host localIP hop)) = Some 5060"
    using assms(4) by (simp_all add: stamp_transport_def stamp_host_def DefaultPort_udp)
  have src: "m_src ?c = ''''" using assms(3) by (simp add: completed_def)
  have "request_Source ?c = Ok (localIP @ CHR '':'' # ''5060'')"
    using src assms(5) by (simp add: request_Source_def hop stamped received_host_def hop_port_def host_port_text_def port_5060)
  moreover have "SplitHostPort (localIP @ CHR '':'' # ''5060'') = Ok (localIP, ''5060'')"
    using assms(7) by (intro SplitHostPort_join) simp_all
  ultimately show thesis by (rule that)
qed

section \<open>Sending over UDP\<close>

lemma udp_Send_found:
  assumes "addr_Host target \<noteq> ''''" "ne_Resolve env ''udp'' (Addr_Addr target) = Ok remote"
    and "Message_Source msg = Ok source" "SplitHostPort source = Ok (host, port)"
    and "cp_Get (udp_key port) (up_connections udp) = Ok conn" "Message_print msg = Ok (text, msg1)"
  shows "udp_Send env target msg udp = Ok (udp, msg1, [(conn, remote, text)], ne_WriteTo env conn text remote)"
  using assms by (simp add: udp_Send_def udp_resolveAddr_def udp_connection_def)

lemma request_by_udp:
  assumes open_layer: "\<not> tl_cancel tpl" "pp_get ''udp'' (tl_protocols tpl) = Some (Some (UdpProtocol udp))"
      "cp_Get (udp_key ''5060'') (up_connections udp) = Ok conn"
      "\<forall>c \<in> set (tl_localIP tpl). c \<noteq> CHR '':'' \<and> c \<noteq> CHR ''['' \<and> c \<noteq> CHR '']''"
    and req: "headers_ok (m_headers req)" "get_Via (m_headers req) = Some (hop # hops)" "vh_Params hop = Some p"
      "Params_Get p ''received'' = None" "Params_Get p ''rport'' = None" "m_src req = ''''"
      "\<not> IsInvite req \<or> get_Contact (m_headers req) \<noteq> None"
      "request_String req = Ok (text, req1)" "length text \<le> 1300"
    and dest: "m_dest req \<noteq> ''''" "NewTargetFromAddr (m_dest req) = Ok target" "addr_Host target \<noteq> ''''"
      "ne_ParseIP env (addr_Host target)" "ne_Resolve env ''udp'' (Addr_Addr target) = Ok remote"
      "\<forall>data. ne_WriteTo env conn data remote = None"
  obtains tpl' req' text' source where
    "tl_Send env (Req req) tpl = Ok (tpl', Req req', None)" "tl_wire tpl' = tl_wire tpl @ [(conn, remote, text')]"
    "request_String req' = Ok (text', req')" "headers_ok (m_headers req')"
    "get_Via (m_headers req') = Some (hop\<lparr>vh_Host := tl_localIP tpl, vh_Transport := ''UDP'', vh_Port := Some 5060,
        vh_Params := Some (Params_Add ''rport'' NilStr p)\<rparr> # hops)"
    "\<And>k. k \<noteq> ''via'' \<Longrightarrow> headers_at (m_headers req') k = headers_at (m_headers req) k"
    "request_Destination req' = Ok (m_dest req)" "request_Source req' = Ok source"
proof -
  let ?c = "completed (tl_localIP tpl) ''udp'' req1"
  obtain text' where t: "request_String ?c = Ok (text', ?c)" "m_headers req1 = m_headers req" "m_dest req1 = m_dest req"
    "m_src req1 = m_src req" "r_method req1 = r_method req"
    by (rule StartLine_completed [OF req(1,2) dest(1) req(8)])
  have via: "headers_ok (m_headers req1)" "get_Via (m_headers req1) = Some (hop # hops)" using req(1,2) t(2) by simp_all
  obtain source where s: "request_Source ?c = Ok source" "SplitHostPort source = Ok (tl_localIP tpl, ''5060'')"
    by (rule completed_Source [OF via, of p "tl_localIP tpl"]) (use req open_layer(4) t(4) in auto)
  have send: "udp_Send env target (Req ?c) udp = Ok (udp, Req ?c, [(conn, remote, text')], None)"
    using udp_Send_found [OF dest(3,5), of "Req ?c" source "tl_localIP tpl" "''5060''" udp conn text' "Req ?c"]
      s t(1) open_layer(3) dest(6) by (simp add: Message_print_def)
  let ?tpl = "(set_protocol ''udp'' (UdpProtocol udp) tpl)\<lparr>tl_wire := tl_wire tpl @ [(conn, remote, text')]\<rparr>"
  let ?req2 = "req1\<lparr>m_headers := set_hop (stamp_host (tl_localIP tpl)) (m_headers req1)\<rparr>"
  obtain p0 where "vh_Params hop = Some p0" "params_ok p0" by (rule ViaHop_params [OF via])
  then have p1: "hop_ok (stamp_host (tl_localIP tpl) hop)"
    by (simp add: stamp_host_def hop_ok_def opt_params_ok_def)
  have "get_Contact (m_headers ?req2) = get_Contact (m_headers req1)"
    using set_hop_at(3) [where f = "stamp_host (tl_localIP tpl)", OF via p1, of "''contact''"]
    by (simp add: get_Contact_def first_header_at)
  then have "add_contact ?req2 = Ok ?req2" using req(7) t(2,5) by (auto simp: add_contact_def IsInvite_def)
  moreover have "send_nets (length text) = [''udp'', ''tcp'']" using req(9) by (simp add: send_nets_def MTU_def)
  moreover have "?req2\<lparr>m_headers := set_hop (stamp_transport ''udp'') (m_headers ?req2)\<rparr> = ?c" by (simp add: completed_def)
  moreover have c_dest: "request_Destination ?c = Ok (m_dest req)" using dest(1) t(3) by (simp add: request_Destination_def completed_def)
  ultimately have "tl_sendRequest env req tpl = Ok (?tpl, ?c, None)"
    using send req(8) open_layer(2) dest(2,4) by (simp add: tl_sendRequest_def srv_target_def Let_def)
  then have "tl_Send env (Req req) tpl = Ok (?tpl, Req ?c, None)"
    using open_layer(1) get_ViaHop_hop [OF req(2)] by (simp add: tl_Send_def)
  moreover have stamp: "stamp_transport ''udp'' (stamp_host (tl_localIP tpl) hop) =
      hop\<lparr>vh_Host := tl_localIP tpl, vh_Transport := ''UDP'', vh_Port := Some 5060,
        vh_Params := Some (Params_Add ''rport'' NilStr p)\<rparr>"
    using req(3,5) by (cases hop) (simp add: stamp_transport_def stamp_host_def Params_Has_def DefaultPort_udp ToUpper_udp)
  moreover note c = completed_headers [where localIP = "tl_localIP tpl" and nt = "''udp''", OF via]
  ultimately show thesis
    by (intro that [of ?tpl ?c text' source]) (simp_all add: t(1,2) c_dest s(1))
qed

text \<open>
  C15: A request of at most 1300 bytes with an explicit destination, sent while the layer listens on UDP port 5060, is
  written exactly once: through that connection, to the resolved address of its destination. Its top \<^verbatim>\<open>Via\<close> hop then
  names the local address, UDP, port 5060 and carries \<^verbatim>\<open>rport\<close>; the branch, the other hops and all other
  headers are those of the request, and what is written is the text of that request.
\<close>

theorem request_sent_by_udp:
  assumes open_layer: "\<not> tl_cancel tpl" "pp_get ''udp'' (tl_protocols tpl) = Some (Some (UdpProtocol udp))"
      "cp_Get (udp_key ''5060'') (up_connections udp) = Ok conn"
      "\<forall>c \<in> set (tl_localIP tpl). c \<noteq> CHR '':'' \<and> c \<noteq> CHR ''['' \<and> c \<noteq> CHR '']''"
    and req: "headers_ok (m_headers req)" "get_Via (m_headers req) = Some (hop # hops)" "vh_Params hop = Some p"
      "Params_Get p ''received'' = None" "Params_Get p ''rport'' = None" "m_src req = ''''"
      "\<not> IsInvite req \<or> get_Contact (m_headers req) \<noteq> None"
      "request_String req = Ok (text, req1)" "length text \<le> 1300"
    and dest: "m_dest req \<noteq> ''''" "NewTargetFromAddr (m_dest req) = Ok target" "addr_Host target \<noteq> ''''"
      "ne_ParseIP env (addr_Host target)" "ne_Resolve env ''udp'' (Addr_Addr target) = Ok remote"
      "\<forall>data. ne_WriteTo env conn data remote = None"
  shows "\<exists>tpl' req' text'.
    tl_Send env (Req req) tpl = Ok (tpl', Req req', None) \<and>
    tl_wire tpl' = tl_wire tpl @ [(conn, remote, text')] \<and> request_String req' = Ok (text', req') \<and>
    get_Via (m_headers req') = Some (hop\<lparr>vh_Host := tl_localIP tpl, vh_Transport := ''UDP'', vh_Port := Some 5060,
        vh_Params := Some (Params_Add ''rport'' NilStr p)\<rparr> # hops) \<and>
    (\<forall>k. k \<noteq> ''via'' \<longrightarrow> headers_at (m_headers req') k = headers_at (m_headers req) k)"
  by (rule request_by_udp [OF assms]) (intro exI conjI allI impI; assumption | simp)

definition sample_options :: request where
  "sample_options =
     blank_request\<lparr>r_method := ''OPTIONS'', m_sipVersion := SipVersion, m_dest := ''10.0.0.1:5060'',
       m_headers := \<lparr>hs_headers = [(''via'', [ViaHeader [(sample_hop (Str ''z9hG4bKa''))\<lparr>vh_Port := None\<rparr>]])], hs_headerOrder = [''via'']\<rparr>\<rparr>"

definition sample_net :: net_env where
  "sample_net =
     \<lparr>ne_Resolve = (\<lambda>_ _. Ok \<lparr>na_IP = ''10.0.0.1'', na_Port = 5060\<rparr>), ne_ListenUDP = (\<lambda>_. Ok 3), ne_ListenTCP = (\<lambda>_. Ok 4),
      ne_DialTCP = (\<lambda>_. Ok 5), ne_WriteTo = (\<lambda>c _ _. if cn_open c then None else Some (NetError ''closed'')),
      ne_Write = (\<lambda>c _. if cn_open c then None else Some (NetError ''closed'')), ne_LookupSRV = (\<lambda>_ _ _. Ok []),
      ne_ParseIP = (\<lambda>_. True), ne_now = 0, ne_order = (\<lambda>m. m)\<rparr>"

definition sample_udp :: udpProtocol where
  "sample_udp = \<lparr>up_connections = fst (cp_Put (CreateConnection (udp_key ''5060'') True 3) 0 0 CreateConnectionPool)\<rparr>"

definition sample_tlayer :: tlayer where
  "sample_tlayer = set_protocol ''udp'' (UdpProtocol sample_udp) (tl_CreateLayer ''10.0.0.2'')"

lemma sample_udp_connection:
  "cp_Get (udp_key ''5060'') (up_connections sample_udp) = Ok (CreateConnection (udp_key ''5060'') True 3)"
  by (simp add: sample_udp_def cp_Get_def cp_Put_def pool_Put_def pool_put_def pool_get_def pool_Get_def CreateConnectionPool_def
      CreatePool_def CreateConnectionHandler_def Let_def CreateConnection_def udp_key_def)

lemma sample_options_text:
  "omap (\<lambda>(text, req). length text) (request_String sample_options) = Ok 60"
  by code_simp

lemma sample_options_dest:
  "NewTargetFromAddr ''10.0.0.1:5060'' = Ok \<lparr>addr_Host = ''10.0.0.1'', addr_Port = Some 5060\<rparr>"
proof -
  have "show_nat 5060 = ''5060''" using port_5060 by (simp add: port_text_def)
  then have "Atoi ''5060'' = Ok 5060" using Atoi_show_nat [of 5060] by simp
  moreover have "SplitHostPort ''10.0.0.1:5060'' = Ok (''10.0.0.1'', ''5060'')"
    using SplitHostPort_join [of "''10.0.0.1''" "''5060''"] by simp
  ultimately show ?thesis by (simp add: NewTargetFromAddr_def NewAddr_def)
qed

theorem request_sent_by_udp_witness:
  "\<exists>tpl' req' text'.
    tl_Send sample_net (Req sample_options) sample_tlayer = Ok (tpl', Req req', None) \<and>
    tl_wire tpl' = [(CreateConnection (udp_key ''5060'') True 3, \<lparr>na_IP = ''10.0.0.1'', na_Port = 5060\<rparr>, text')] \<and>
    vh_Host (hd (the (get_Via (m_headers req')))) = ''10.0.0.2''"
proof -
  obtain s req1 where printed: "request_String sample_options = Ok (s, req1)" "length s \<le> 1300"
    using sample_options_text by (auto simp: outcome_simps)
  have layer: "\<not> tl_cancel sample_tlayer" "pp_get ''udp'' (tl_protocols sample_tlayer) = Some (Some (UdpProtocol sample_udp))"
    "tl_localIP sample_tlayer = ''10.0.0.2''" "tl_wire sample_tlayer = []"
    by (simp_all add: sample_tlayer_def set_protocol_def tl_CreateLayer_def pp_get_def pp_put_def)
  have via: "headers_ok (m_headers sample_options)" "get_Via (m_headers sample_options) = Some [(sample_hop (Str ''z9hG4bKa''))\<lparr>vh_Port := None\<rparr>]"
    "vh_Params ((sample_hop (Str ''z9hG4bKa''))\<lparr>vh_Port := None\<rparr>) = Some (Params_Add ''branch'' (Str ''z9hG4bKa'') NewParams)"
    by (simp_all add: sample_options_def headers_ok_def entry_ok_def header_key_simps hop_ok_def opt_params_ok_def get_Via_at
        headers_at_def sample_hop_def)
  have net: "ne_Resolve sample_net ''udp'' x = Ok \<lparr>na_IP = ''10.0.0.1'', na_Port = 5060\<rparr>" "ne_ParseIP sample_net x"
    "\<forall>data. ne_WriteTo sample_net (CreateConnection (udp_key ''5060'') True 3) data a = None" for x a
    by (simp_all add: sample_net_def CreateConnection_def)
  have req: "m_src sample_options = ''''" "m_dest sample_options = ''10.0.0.1:5060''" "\<not> IsInvite sample_options"
    by (simp_all add: sample_options_def blank_request_def IsInvite_def INVITE_def)
  have get: "Params_Get (Params_Add ''branch'' (Str ''z9hG4bKa'') NewParams) ''received'' = None"
    "Params_Get (Params_Add ''branch'' (Str ''z9hG4bKa'') NewParams) ''rport'' = None"
    by simp_all (simp_all add: Params_Get_def NewParams_def)
  have dest: "m_dest sample_options \<noteq> ''''"
    "NewTargetFromAddr (m_dest sample_options) = Ok \<lparr>addr_Host = ''10.0.0.1'', addr_Port = Some 5060\<rparr>"
    using req(2) sample_options_dest by simp_all
  have ip: "\<forall>c \<in> set (tl_localIP sample_tlayer). c \<noteq> CHR '':'' \<and> c \<noteq> CHR ''['' \<and> c \<noteq> CHR '']''"
    by (simp add: layer(3))
  obtain tpl' req' s' where
    "tl_Send sample_net (Req sample_options) sample_tlayer = Ok (tpl', Req req', None)"
    "tl_wire tpl' = tl_wire sample_tlayer @
       [(CreateConnection (udp_key ''5060'') True 3, \<lparr>na_IP = ''10.0.0.1'', na_Port = 5060\<rparr>, s')]"
    "get_Via (m_headers req') = Some ((sample_hop (Str ''z9hG4bKa''))\<lparr>vh_Port := None, vh_Host := tl_localIP sample_tlayer,
        vh_Transport := ''UDP'', vh_Port := Some 5060,
        vh_Params := Some (Params_Add ''rport'' NilStr (Params_Add ''branch'' (Str ''z9hG4bKa'') NewParams))\<rparr> # [])"
    using request_sent_by_udp [OF layer(1,2) sample_udp_connection ip via get req(1) disjI1 [OF req(3)] printed dest
        _ net(2) net(1) net(3)] by auto
  with layer(3,4) show ?thesis by (intro exI [of _ tpl'] exI [of _ req'] exI [of _ s']) simp
qed

section \<open>Responses\<close>

lemma upper_lower_char: "upper_char (lower_char c) = upper_char c"
proof -
  have "byte c + 32 < 256 \<Longrightarrow> byte (char_of (byte c + 32)) = byte c + 32" by simp
  then show ?thesis by (auto simp: upper_char_def lower_char_def) (simp_all add: byte_def)
qed

lemma pp_get_ToLower: "pp_get (ToLower n) pool = pp_get n pool"
  by (simp add: pp_get_def ToUpper_def ToLower_def upper_lower_char o_def)

lemma set_protocol_same: "pp_get n (tl_protocols tpl) = Some (Some p) \<Longrightarrow> set_protocol n p tpl = tpl"
  by (cases tpl) (simp add: set_protocol_def pp_get_def pp_put_def fun_upd_idem)

lemma response_protocol:
  assumes "ToLower (vh_Transport hop) = ToLower name"
  shows "pp_get (vh_Transport hop) pool = pp_get name pool"
  using assms pp_get_ToLower by metis

lemma response_by_udp:
  assumes layer: "\<not> tl_cancel tpl" "pp_get name (tl_protocols tpl) = Some (Some (UdpProtocol udp))"
      "cp_Get (udp_key port) (up_connections udp) = Ok conn"
    and hop: "get_ViaHop (m_headers res) = Some hop" "ToLower (vh_Transport hop) = ToLower name"
    and res: "response_Destination res = Ok dest" "SplitHostPort (m_src res) = Ok (host, port)" "response_String res = Ok text"
    and target: "NewTargetFromAddr dest = Ok target" "addr_Host target \<noteq> ''''" "ne_Resolve env ''udp'' (Addr_Addr target) = Ok remote"
  shows "tl_Send env (Res res) tpl =
    Ok (tpl\<lparr>tl_wire := tl_wire tpl @ [(conn, remote, text)]\<rparr>, Res res, ne_WriteTo env conn text remote)"
proof -
  have "udp_Send env target (Res res) udp = Ok (udp, Res res, [(conn, remote, text)], ne_WriteTo env conn text remote)"
    using res(2,3) layer(3) by (intro udp_Send_found [OF target(2,3)]) (auto simp: Message_print_def)
  moreover have "set_protocol (vh_Transport hop) (UdpProtocol udp) tpl = tpl"
    using layer(2) by (intro set_protocol_same) (simp add: response_protocol [OF hop(2)])
  ultimately show ?thesis
    using layer(1,2) hop(1) res(1) target(1) by (simp add: tl_Send_def tl_sendResponse_def response_protocol [OF hop(2)])
qed

text \<open>
  C16: A response is sent over the protocol that the top \<^verbatim>\<open>Via\<close> hop names, whatever the case of the name. Over UDP it goes
  through the connection that listens on the port of its source, to the resolved address of its destination, unchanged;
  for a protocol that is not in use nothing is written and the error says so.
\<close>

theorem response_follows_via:
  assumes "\<not> tl_cancel tpl" "get_ViaHop (m_headers res) = Some hop" "ToLower (vh_Transport hop) = ToLower name"
  shows "(pp_get name (tl_protocols tpl) = None \<longrightarrow>
      tl_Send env (Res res) tpl = Ok (tpl, Res res, Some (UnsupportedProtocolError (vh_Transport hop)))) \<and>
    (pp_get name (tl_protocols tpl) = Some (Some (UdpProtocol udp)) \<and> response_Destination res = Ok dest \<and>
        NewTargetFromAddr dest = Ok target \<and> addr_Host target \<noteq> '''' \<and> ne_Resolve env ''udp'' (Addr_Addr target) = Ok remote \<and>
        SplitHostPort (m_src res) = Ok (host, port) \<and> cp_Get (udp_key port) (up_connections udp) = Ok conn \<and>
        response_String res = Ok text \<longrightarrow>
      tl_Send env (Res res) tpl =
        Ok (tpl\<lparr>tl_wire := tl_wire tpl @ [(conn, remote, text)]\<rparr>, Res res, ne_WriteTo env conn text remote))"
proof (intro conjI impI)
  show "tl_Send env (Res res) tpl = Ok (tpl, Res res, Some (UnsupportedProtocolError (vh_Transport hop)))"
    if "pp_get name (tl_protocols tpl) = None"
    using that assms(1,2) by (simp add: tl_Send_def tl_sendResponse_def response_protocol [OF assms(3)])
qed (elim conjE, rule response_by_udp [OF assms(1) _ _ assms(2,3)])

text \<open>
  A message whose source port nobody listens on makes the UDP protocol panic as soon as it has a connection at
  all: the list that \<^verbatim>\<open>All\<close> returns starts with nil entries, and the first of them is used.
\<close>

theorem udp_send_from_other_port_panics:
  assumes "addr_Host target \<noteq> ''''" "ne_Resolve env ''udp'' (Addr_Addr target) = Ok remote"
    and "Message_Source msg = Ok source" "SplitHostPort source = Ok (host, port)"
    and "\<not> hp_cancel (up_connections udp)" "hp_handleMap (up_connections udp) \<noteq> []"
    and "map_of (hp_handleMap (up_connections udp)) (udp_key port) = None"
  shows "udp_Send env target msg udp = Panic"
proof -
  obtain n where n: "length (hp_handleMap (up_connections udp)) = Suc n"
    using assms(6) by (cases "hp_handleMap (up_connections udp)") auto
  obtain xs where "cp_All (ne_order env) (up_connections udp) = None # xs"
    using assms(5) by (simp add: cp_All_def pool_All_def pool_all_def n)
  moreover have "\<exists>e. cp_Get (udp_key port) (up_connections udp) = Fail e"
    using assms(5,7) by (simp add: cp_Get_def pool_Get_def pool_get_def udp_key_def)
  ultimately show ?thesis
    using assms(1-4) by (auto simp: udp_Send_def udp_resolveAddr_def udp_connection_def)
qed

section \<open>TCP\<close>

lemma tcp_Send_known:
  assumes "addr_Host rAddr \<noteq> ''''" "ne_Resolve env ''tcp'' (Addr_Addr rAddr) = Ok remote"
    and "pool_Get ''connection'' (tcp_key remote) (tp_connections tcp) = Ok handler" "Message_print msg = Ok (text, msg1)"
  shows "tcp_Send env rAddr msg tcp =
      Ok (tcp, msg1, [(ch_connection handler, remote, text)], ne_Write env (ch_connection handler) text)"
  using assms by (simp add: tcp_Send_def tcp_resolveAddr_def getOrCreateConnection_def cp_Get_def)

lemma broken_handler_closed:
  assumes "read_turn uuids (ReadBroken err) (handler, prs) = (es, (handler', prs'), go_on)" "handler_ok handler"
  shows "handler' = handler_Close handler" "\<not> cn_open (ch_connection handler')"
  using assms handler_ok_Close [OF assms(2)] by (auto simp: read_turn_def handler_ok_def)

lemma pool_Get_set_handler:
  assumes "pool_Get what key pool = Ok handler" "map_of (hp_handleMap pool) key = Some h" "h < length (hp_heap pool)"
  shows "pool_Get what key (set_handler h handler' pool) = Ok handler'"
  using assms by (auto simp: pool_Get_def pool_get_def set_handler_def split: if_splits)

text \<open>
  C38: A TCP connection that breaks stays in the pool. From then on every message to its address fails with the
  error of the closed socket - no new connection is made - whatever other connections are put and deleted in between:
  nothing in the layer ever deletes the key.
\<close>

theorem broken_connection_blocks_peer:
  assumes pool: "cp_reachable pool" "map_of (hp_handleMap pool) (tcp_key remote) = Some h" "\<not> hp_cancel pool"
    and broken: "read_turn uuids (ReadBroken err) (hp_heap pool ! h, prs) = (es, (handler', prs'), go_on)"
    and later: "pool' = fold cps.step ops (set_handler h handler' pool)" "Drop (tcp_key remote) \<notin> set ops"
    and closed_write: "\<And>c s. \<not> cn_open c \<Longrightarrow> \<exists>e. ne_Write env c s = Some e"
    and send: "addr_Host rAddr \<noteq> ''''" "ne_Resolve env ''tcp'' (Addr_Addr rAddr) = Ok remote" "Message_print msg = Ok (text, msg1)"
  shows "\<exists>e. tcp_Send env rAddr msg (tcp\<lparr>tp_connections := pool'\<rparr>) =
      Ok (tcp\<lparr>tp_connections := pool'\<rparr>, msg1, [(ch_connection handler', remote, text)], Some e)"
proof -
  have ok: "connections_ok pool" using pool(1) by (rule connections_ok_reachable)
  then have h: "h < length (hp_heap pool)" "handler_ok (hp_heap pool ! h)"
    using map_of_SomeD [OF pool(2)] by (auto simp: connections_ok_def pool_ok_def)
  note closed = broken_handler_closed [OF broken h(2)]
  have "cp_reachable (set_handler h handler' pool)" by (rule cp_reachable.read [OF pool(1) h(1) broken])
  then have good: "pool_ok ch_cancel (set_handler h handler' pool)"
    using connections_ok_reachable by (auto simp: connections_ok_def)
  have "pool_Get ''connection'' (tcp_key remote) pool = Ok (hp_heap pool ! h)"
    using pool(2,3) by (simp add: pool_Get_def pool_get_def tcp_key_def)
  then have "pool_Get ''connection'' (tcp_key remote) pool' = Ok handler'"
    unfolding later(1) by (intro cps.get_steps [OF good _ later(2)] pool_Get_set_handler [OF _ pool(2) h(1)])
  then have "tcp_Send env rAddr msg (tcp\<lparr>tp_connections := pool'\<rparr>) =
      Ok (tcp\<lparr>tp_connections := pool'\<rparr>, msg1, [(ch_connection handler', remote, text)], ne_Write env (ch_connection handler') text)"
    by (intro tcp_Send_known send) simp_all
  with closed_write [OF closed(2), of "text"] show ?thesis by auto
qed

section \<open>Listening\<close>

lemma udp_Put_Listen:
  assumes "connections_ok pool" "snd (cp_Put conn ttl now pool) = None" "cn_open conn"
  shows "cp_Get (cn_key conn) (fst (cp_Put conn ttl now pool)) = Ok conn"
  using assms pool_Get_Put [of ch_cancel pool "''connection''" "cn_key conn" "CreateConnectionHandler conn ttl now" "cn_key conn"]
  by (simp add: cp_Get_def cp_Put_def connections_ok_def CreateConnectionHandler_def Let_def)

text \<open>
  After a successful \<^verbatim>\<open>Listen\<close> on UDP the layer has the protocol, it is not reliable, and the pool of the
  protocol holds an open packet connection under the key that \<^verbatim>\<open>Send\<close> computes from the port: messages whose source
  has that port go out through it.
\<close>

theorem Listen_opens_udp:
  assumes "tl_Listen env network addr tpl = Ok (tpl', None)" "ToLower network = ''udp''"
    and "pp_get network (tl_protocols tpl) = None \<or>
      (\<exists>udp. pp_get network (tl_protocols tpl) = Some (Some (UdpProtocol udp)) \<and> cp_reachable (up_connections udp))"
    and "NewTargetFromAddr addr = Ok lAddr"
    and "ne_Resolve env ''udp'' (Addr_Addr (FillTargetHostAndPort ''UDP'' (FillTargetHostAndPort network lAddr))) = Ok local"
  shows "\<exists>udp conn. pp_get network (tl_protocols tpl') = Some (Some (UdpProtocol udp)) \<and> IsReliable network tpl' = Ok False \<and>
    cp_reachable (up_connections udp) \<and>
    cp_Get (udp_key (show_nat (na_Port local))) (up_connections udp) = Ok conn \<and> cn_open conn \<and> \<not> cn_streamed conn"
proof -
  obtain udp0 tpl0 where udp0: "cp_reachable (up_connections udp0)"
    "(case pp_get network (tl_protocols tpl) of
        Some p \<Rightarrow> (p, tpl)
      | None \<Rightarrow> (protocolFactory network,
                 tpl\<lparr>tl_protocols := pp_put network (protocolFactory network) (tl_protocols tpl)\<rparr>)) = (Some (UdpProtocol udp0), tpl0)"
    using assms(2,3) cp_reachable.created by (fastforce simp: protocolFactory_def CreateUdpProtocol_def)
  obtain p1 where p1: "protocol_Listen env (FillTargetHostAndPort network lAddr) (UdpProtocol udp0) = Ok (p1, None)"
    "tpl' = set_protocol network p1 tpl0"
    using assms(1,4) udp0(2) by (auto simp: tl_Listen_def Let_def outcome_simps split: if_splits prod.splits)
  obtain base where base: "ne_ListenUDP env local = Ok base"
    using p1(1) assms(5) by (auto simp: udp_Listen_def udp_resolveAddr_def outcome_simps split: outcome.splits)
  let ?conn = "CreateConnection (udp_key (show_nat (na_Port local))) True base"
  let ?put = "cp_Put ?conn 0 (ne_now env) (up_connections udp0)"
  have put: "snd ?put = None" "p1 = UdpProtocol (udp0\<lparr>up_connections := fst ?put\<rparr>)"
    using p1(1) assms(5) base by (auto simp: udp_Listen_def udp_resolveAddr_def outcome_simps split: prod.splits)
  have conn: "cn_open ?conn" "cn_key ?conn = udp_key (show_nat (na_Port local))" "\<not> cn_streamed ?conn"
    by (simp_all add: CreateConnection_def)
  have "cp_reachable (fst ?put)" by (rule cp_reachable.put [OF udp0(1) conn(1)])
  moreover have "cp_Get (udp_key (show_nat (na_Port local))) (fst ?put) = Ok ?conn"
    using udp_Put_Listen [OF connections_ok_reachable [OF udp0(1)] put(1) conn(1)] conn(2) by simp
  moreover have "pp_get network (tl_protocols tpl') = Some (Some p1)"
    by (simp add: p1(2) set_protocol_def pps.get_put)
  ultimately show ?thesis
    using put(2) conn by (intro exI [of _ "udp0\<lparr>up_connections := fst ?put\<rparr>"] exI [of _ ?conn]) (simp add: IsReliable_def)
qed

text \<open>
  \<^verbatim>\<open>Listen\<close> with a network other than UDP and TCP panics. With an address that does not parse it returns that error,
  but the nil protocol stays in the pool, and \<^verbatim>\<open>IsReliable\<close> of that network panics from then on.
\<close>

theorem unknown_network_panics:
  assumes "\<not> tl_cancel tpl" "pp_get network (tl_protocols tpl) = None" "ToLower network \<notin> {''udp'', ''tcp''}"
  shows "(case NewTargetFromAddr addr of
      Fail e \<Rightarrow> \<exists>tpl'. tl_Listen env network addr tpl = Ok (tpl', Some e) \<and> IsReliable network tpl' = Panic
    | _ \<Rightarrow> tl_Listen env network addr tpl = Panic)"
  using assms by (auto simp: tl_Listen_def protocolFactory_def IsReliable_def pps.get_put split: outcome.split)

section \<open>Witnesses\<close>

definition sample_reply :: response where
  "sample_reply =
     blank_response\<lparr>s_status := 200, s_reason := ''OK'', m_src := ''10.0.0.2:5060'', m_dest := ''10.0.0.1:5060'',
       m_headers := m_headers sample_options\<rparr>"

lemma sample_reply_facts:
  "get_ViaHop (m_headers sample_reply) = Some ((sample_hop (Str ''z9hG4bKa''))\<lparr>vh_Port := None\<rparr>)"
  "headers_ok (m_headers sample_reply)" "response_Destination sample_reply = Ok ''10.0.0.1:5060''"
  "SplitHostPort (m_src sample_reply) = Ok (''10.0.0.2'', ''5060'')"
  using SplitHostPort_join [of "''10.0.0.2''" "''5060''"]
  by (simp_all add: sample_reply_def sample_options_def headers_ok_def entry_ok_def header_key_simps hop_ok_def opt_params_ok_def
      get_Via_at get_ViaHop_def headers_at_def sample_hop_def response_Destination_def)

lemma sample_tlayer_facts:
  "\<not> tl_cancel sample_tlayer" "pp_get ''udp'' (tl_protocols sample_tlayer) = Some (Some (UdpProtocol sample_udp))"
  by (simp_all add: sample_tlayer_def set_protocol_def tl_CreateLayer_def pp_get_def pp_put_def)

lemma ToLower_UDP: "ToLower ''UDP'' = ToLower ''udp''"
  by (simp add: ToLower_def lower_char_def byte_def char_of_def bit_iff_odd)

theorem response_follows_via_witness:
  "\<exists>s. response_String sample_reply = Ok s \<and>
    tl_Send sample_net (Res sample_reply) sample_tlayer =
      Ok (sample_tlayer\<lparr>tl_wire := tl_wire sample_tlayer @
        [(CreateConnection (udp_key ''5060'') True 3, \<lparr>na_IP = ''10.0.0.1'', na_Port = 5060\<rparr>, s)]\<rparr>, Res sample_reply, None)"
proof -
  obtain s where s: "response_String sample_reply = Ok s"
    using headers_String_ok [OF sample_reply_facts(2)] by (simp add: response_String_def message_text_def)
  have "ToLower (vh_Transport ((sample_hop (Str ''z9hG4bKa''))\<lparr>vh_Port := None\<rparr>)) = ToLower ''udp''"
    by (simp add: sample_hop_def ToLower_UDP)
  from response_follows_via [OF sample_tlayer_facts(1) sample_reply_facts(1) this, where env = sample_net and udp = sample_udp and
      dest = "''10.0.0.1:5060''" and target = "\<lparr>addr_Host = ''10.0.0.1'', addr_Port = Some 5060\<rparr>" and host = "''10.0.0.2''"
      and remote = "\<lparr>na_IP = ''10.0.0.1'', na_Port = 5060\<rparr>" and port = "''5060''" and conn = "CreateConnection (udp_key ''5060'') True 3"]
  show ?thesis
    using s sample_tlayer_facts sample_reply_facts sample_options_dest sample_udp_connection
    by (simp add: sample_net_def CreateConnection_def)
qed

theorem udp_send_from_other_port_panics_witness:
  "udp_Send sample_net \<lparr>addr_Host = ''10.0.0.1'', addr_Port = Some 5060\<rparr> (Res (sample_reply\<lparr>m_src := ''h:7''\<rparr>)) sample_udp = Panic"
proof -
  have "hp_handleMap (up_connections sample_udp) = [(udp_key ''5060'', 0)]" "\<not> hp_cancel (up_connections sample_udp)"
    by (simp_all add: sample_udp_def cp_Put_def pool_Put_def pool_put_def pool_get_def CreateConnectionPool_def CreatePool_def
        CreateConnection_def udp_key_def)
  moreover have "SplitHostPort ''h:7'' = Ok (''h'', ''7'')" using SplitHostPort_join [of "''h''" "''7''"] by simp
  ultimately show ?thesis
    by (intro udp_send_from_other_port_panics [where source = "''h:7''" and host = "''h''" and port = "''7''"])
      (simp_all add: sample_net_def udp_key_def)
qed

theorem broken_connection_blocks_peer_witness:
  "\<exists>pool out msg' e. cp_reachable pool \<and>
    tcp_Send sample_net \<lparr>addr_Host = ''10.0.0.1'', addr_Port = Some 5060\<rparr> (Res sample_reply)
      (CreateTcpProtocol\<lparr>tp_connections := pool\<rparr>) = Ok (CreateTcpProtocol\<lparr>tp_connections := pool\<rparr>, msg', out, Some e)"
proof -
  let ?a = "\<lparr>na_IP = ''10.0.0.1'', na_Port = 5060\<rparr>"
  let ?p = "fst (cp_Put (CreateConnection (tcp_key ?a) False 5) SockTTL 0 CreateConnectionPool)"
  let ?h = "handler_Close (hp_heap ?p ! 0)"
  obtain s where s: "response_String sample_reply = Ok s"
    using headers_String_ok [OF sample_reply_facts(2)] by (simp add: response_String_def message_text_def)
  have p: "cp_reachable ?p" by (intro cp_reachable.put cp_reachable.created) (simp add: CreateConnection_def)
  have map: "map_of (hp_handleMap ?p) (tcp_key ?a) = Some 0" "\<not> hp_cancel ?p" "0 < length (hp_heap ?p)"
    by (simp_all add: cp_Put_def pool_Put_def pool_put_def pool_get_def CreateConnectionPool_def CreatePool_def CreateConnection_def
        tcp_key_def)
  have broken: "read_turn (\<lambda>_. '''') (ReadBroken NumRange) (hp_heap ?p ! 0, NewParser True) =
      ([ParseErr NumRange], (?h, (NewParser True)\<lparr>pr_stopped := True\<rparr>), False)" by (simp add: read_turn_def)
  have r: "cp_reachable (set_handler 0 ?h ?p)" by (rule cp_reachable.read [OF p map(3) broken])
  have "\<exists>e. tcp_Send sample_net \<lparr>addr_Host = ''10.0.0.1'', addr_Port = Some 5060\<rparr> (Res sample_reply)
      (CreateTcpProtocol\<lparr>tp_connections := set_handler 0 ?h ?p\<rparr>) =
    Ok (CreateTcpProtocol\<lparr>tp_connections := set_handler 0 ?h ?p\<rparr>, Res sample_reply, [(ch_connection ?h, ?a, s)], Some e)"
    by (rule broken_connection_blocks_peer [OF p map(1,2) broken, where ops = "[]"])
      (use s in \<open>simp_all add: sample_net_def Message_print_def\<close>)
  with r show ?thesis by blast
qed

theorem Listen_opens_udp_witness:
  "\<exists>tpl' udp conn. tl_Listen sample_net ''udp'' ''10.0.0.1:5060'' (tl_CreateLayer ''10.0.0.2'') = Ok (tpl', None) \<and>
    pp_get ''udp'' (tl_protocols tpl') = Some (Some (UdpProtocol udp)) \<and>
    cp_Get (udp_key (show_nat 5060)) (up_connections udp) = Ok conn \<and> cn_open conn"
proof -
  let ?t = "tl_CreateLayer ''10.0.0.2''"
  have new: "pp_get ''udp'' (tl_protocols ?t) = None" by (simp add: tl_CreateLayer_def pp_get_def createProtocolPool_def)
  have low: "ToLower ''udp'' = ''udp''" by (simp add: ToLower_def lower_char_def byte_def)
  have "\<exists>tpl'. tl_Listen sample_net ''udp'' ''10.0.0.1:5060'' ?t = Ok (tpl', None)"
    using new by (simp add: tl_Listen_def sample_options_dest protocolFactory_def low udp_Listen_def udp_resolveAddr_def sample_net_def
        CreateUdpProtocol_def CreateConnectionPool_def CreatePool_def cp_Put_def pool_Put_def pool_put_def pool_get_def
        CreateConnection_def udp_key_def tl_CreateLayer_def)
  then obtain tpl' where tpl': "tl_Listen sample_net ''udp'' ''10.0.0.1:5060'' ?t = Ok (tpl', None)" ..
  from Listen_opens_udp [OF this low disjI1 [OF new] sample_options_dest, where local = "\<lparr>na_IP = ''10.0.0.1'', na_Port = 5060\<rparr>"] tpl'
  show ?thesis by (auto simp: sample_net_def)
qed

theorem unknown_network_panics_witness:
  "tl_Listen sample_net ''tls'' ''10.0.0.1:5060'' (tl_CreateLayer ''10.0.0.2'') = Panic"
  using unknown_network_panics [of "tl_CreateLayer ''10.0.0.2''" "''tls''" sample_net "''10.0.0.1:5060''"]
  by (simp add: sample_options_dest tl_CreateLayer_def pp_get_def createProtocolPool_def ToLower_def lower_char_def byte_def)

end
