(* ===== verification/Gsip_Stack.thy ===== *)
theory Gsip_Stack
  imports Gsip_Service Gsip_Transport_Properties
begin

text \<open>
  The whole stack: the transaction layer over the transport layer (\<^verbatim>\<open>newOptions\<close> in \<^verbatim>\<open>options.go\<close> creates the
  one with the other). The environment of the transactions, a parameter of their theories, is here made of the
  transport layer, and the properties follow a message from the user or the network to the socket.
\<close>

section \<open>Transactions over the transport\<close>

text \<open>
  \<^verbatim>\<open>tx.tpl.Send(msg)\<close> and \<^verbatim>\<open>tpl.IsReliable(network)\<close>, for a transport layer in the state \<open>tpl\<close>. The environment of a
  transaction has no panic: where the transport panics it says that nothing went wrong, so a property about
  the transactions also shows that the transport returns.
\<close>

definition over_transport :: "net_env \<Rightarrow> tlayer \<Rightarrow> layer_env \<Rightarrow> layer_env" where
  "over_transport net tpl env =
     env\<lparr>le_tx := (le_tx env)\<lparr>e_Send := \<lambda>msg. (case tl_Send net msg tpl of Ok (_, _, err) \<Rightarrow> err | _ \<Rightarrow> None)\<rparr>,
         le_IsReliable := \<lambda>network. IsReliable network tpl = Ok True\<rparr>"

lemma over_transport_Send:
  "tl_Send net msg tpl = Ok (tpl', msg', err) \<Longrightarrow> e_Send (le_tx (over_transport net tpl env)) msg = err"
  by (simp add: over_transport_def)

section \<open>Requests that arrive\<close>

lemma response_text: "headers_ok (m_headers res) \<Longrightarrow> \<exists>text. response_String res = Ok text"
  using headers_String_ok by (simp add: response_String_def message_text_def)

text \<open>
  C4: A new request that came over UDP and whose method has no handler is answered with exactly one
  datagram: the text of a 405 response, written through the socket that listens on the port the request was sent to, to the resolved
  address of its source. No handler is called and the server transaction of the request is completed.
\<close>

theorem request_refused_by_udp:
  assumes law: "server_spins sspin"
    and tpl: "\<not> tl_cancel tpl" "pp_get name (tl_protocols tpl) = Some (Some (UdpProtocol udp))"
      "cp_Get (udp_key port) (up_connections udp) = Ok conn"
    and hop: "get_ViaHop (m_headers req) = Some hop" "ToLower (vh_Transport hop) = ToLower name"
    and req: "headers_ok (m_headers req)" "request_Destination req = Ok d" "request_Source req = Ok src"
    and addrs: "SplitHostPort d = Ok (host, port)" "src \<noteq> ''''" "NewTargetFromAddr src = Ok target" "addr_Host target \<noteq> ''''"
      "ne_Resolve net ''udp'' (Addr_Addr target) = Ok remote" "\<forall>data. ne_WriteTo net conn data remote = None"
    and tag: "\<forall>f. get_From (m_headers req) = Some f \<longrightarrow> (\<exists>p. ah_Params f = Some p \<and> Params_Has p ''tag'')"
    and kind: "\<not> IsAck req" "\<not> IsCancel req" "get_CSeq (m_headers req) = Some seq" "cs_MethodName seq \<noteq> CANCEL"
    and new: "MakeServerTxKey (Req req) = Ok key" "getServerTx (Req req) (sv_tx s) = Fail err"
    and live: "\<not> l_canceled (sv_tx s)" "sv_close s \<noteq> Some True"
    and handler: "GetRequestHandle (r_method req) (sv_callback s) = None"
    and h: "h = length (l_txs (sv_tx s))" and env: "se_layer env = over_transport net tpl lenv"
  shows "\<exists>txl s' tx res text. layer_handleRequest sspin (se_layer env) req (sv_tx s) = Some (Ok txl) \<and>
    service_handleRequest cspin sspin env (req\<lparr>m_tx := Some h\<rparr>) (s\<lparr>sv_tx := txl\<rparr>) = Some (Ok s') \<and>
    sv_callback s' = sv_callback s \<and> l_txs (sv_tx s') = l_txs (sv_tx s) @ [ServerTx tx] \<and>
    st_state tx = serverStateCompleted \<and> st_sent tx = [Res res] \<and> s_status res = 405 \<and> MakeServerTxKey (Res res) = Ok key \<and>
    headers_at (m_headers res) ''user-agent'' \<noteq> [] \<and>
    (cs_MethodName seq \<in> set autoAppendMethods \<longrightarrow>
       headers_at (m_headers res) ''allow'' = [AllowHeader (GetAllowedMethods (se_order env) (sv_callback s))]) \<and>
    response_String res = Ok text \<and>
    tl_Send net (Res res) tpl = Ok (tpl\<lparr>tl_wire := tl_wire tpl @ [(conn, remote, text)]\<rparr>, Res res, None)"
proof -
  have wire: "\<exists>text. response_String res = Ok text \<and>
      tl_Send net (Res res) tpl = Ok (tpl\<lparr>tl_wire := tl_wire tpl @ [(conn, remote, text)]\<rparr>, Res res, None)"
    if res: "headers_ok (m_headers res)" "m_src res = d" "m_dest res = src" "get_ViaHop (m_headers res) = get_ViaHop (m_headers req)" for res
  proof -
    obtain body where body: "response_String res = Ok body" using response_text [OF res(1)] ..
    have "response_Destination res = Ok src" "SplitHostPort (m_src res) = Ok (host, port)" "get_ViaHop (m_headers res) = Some hop"
      using res hop(1) addrs(1,2) by (simp_all add: response_Destination_def)
    from response_by_udp [OF tpl this(3) hop(2) this(1,2) body addrs(3-5)] body addrs(6) show ?thesis by simp
  qed
  have quiet: "e_Send (le_tx (se_layer env)) (Res res) = None"
    if "headers_ok (m_headers res)" "m_src res = d" "m_dest res = src" "get_ViaHop (m_headers res) = get_ViaHop (m_headers req)" for res
    using wire [OF that] by (auto simp: env intro: over_transport_Send)
  show ?thesis
  proof (rule refused_request [OF law req tag kind new live handler h refl, where cspin = cspin and env = env])
    fix txl s' tx res
    assume "layer_handleRequest sspin (se_layer env) req (sv_tx s) = Some (Ok txl)"
      "service_handleRequest cspin sspin env (req\<lparr>m_tx := Some h\<rparr>) (s\<lparr>sv_tx := txl\<rparr>) = Some (Ok s')"
      "sv_callback s' = sv_callback s" "l_txs (sv_tx s') = l_txs (sv_tx s) @ [ServerTx tx]"
      "st_state tx = serverStateCompleted" "st_sent tx = [Res res]" "s_status res = 405"
      "MakeServerTxKey (Res res) = Ok key" "headers_at (m_headers res) ''user-agent'' \<noteq> []"
      "cs_MethodName seq \<in> set autoAppendMethods \<Longrightarrow>
         headers_at (m_headers res) ''allow'' = [AllowHeader (GetAllowedMethods (se_order env) (sv_callback s))]"
    moreover assume "headers_ok (m_headers res)" "m_src res = d" "m_dest res = src"
      "get_ViaHop (m_headers res) = get_ViaHop (m_headers req)"
    note wire [OF this]
    ultimately show ?thesis by blast
  qed (rule quiet)
qed

section \<open>Requests of the user\<close>

text \<open>The transport completes the top hop of a request; its client key does not change.\<close>

lemma stamped_client_key:
  assumes "get_Via (m_headers req) = Some (hop # hops)" "vh_Params hop = Some p"
    and "get_Via (m_headers req') = Some (hop\<lparr>vh_Host := ip, vh_Transport := transport, vh_Port := port,
        vh_Params := Some (Params_Add ''rport'' NilStr p)\<rparr> # hops)"
    and "\<And>k. k \<noteq> ''via'' \<Longrightarrow> headers_at (m_headers req') k = headers_at (m_headers req) k"
  shows "MakeClientTxKey (Req req') = MakeClientTxKey (Req req)"
proof -
  have "get_CSeq (m_headers req') = get_CSeq (m_headers req)" by (simp add: get_CSeq_at assms(4))
  moreover have "hop_branch (hop\<lparr>vh_Host := ip, vh_Transport := transport, vh_Port := port,
      vh_Params := Some (Params_Add ''rport'' NilStr p)\<rparr>) = hop_branch hop"
    using assms(2) by (simp add: hop_branch_def)
  ultimately show ?thesis
    using get_ViaHop_hop [OF assms(1)] get_ViaHop_hop [OF assms(3)] by (simp add: MakeClientTxKey_def Let_def cong: option.case_cong)
qed

text \<open>
  C9: A request of the user that fits a datagram, sent over UDP, makes a client transaction and leaves as exactly
  one datagram. The transport changes its \<^verbatim>\<open>Via\<close> before it is written; every response that the other side creates for the request as it
  was written is nevertheless given to that client transaction.
\<close>

theorem sent_request_gets_its_response:
  assumes law: "client_spins cspin cspin"
    and tpl: "\<not> tl_cancel tpl" "pp_get ''udp'' (tl_protocols tpl) = Some (Some (UdpProtocol udp))"
      "cp_Get (udp_key ''5060'') (up_connections udp) = Ok conn"
      "\<forall>c \<in> set (tl_localIP tpl). c \<noteq> CHR '':'' \<and> c \<noteq> CHR ''['' \<and> c \<noteq> CHR '']''"
    and req: "headers_ok (m_headers req)" "get_Via (m_headers req) = Some (hop # hops)" "vh_Params hop = Some p"
      "Params_Get p ''received'' = None" "Params_Get p ''rport'' = None" "m_src req = ''''"
      "\<not> IsInvite req \<or> get_Contact (m_headers req) \<noteq> None"
      "request_String req = Ok (text, req1)" "length text \<le> 1300"
    and dest: "m_dest req \<noteq> ''''" "NewTargetFromAddr (m_dest req) = Ok target" "addr_Host target \<noteq> ''''"
      "ne_ParseIP net (addr_Host target)" "ne_Resolve net ''udp'' (Addr_Addr target) = Ok remote"
      "\<forall>data. ne_WriteTo net conn data remote = None"
    and txl: "\<not> l_canceled txl" "\<not> IsAck req" "MakeClientTxKey (Req req) = Ok key" "h = length (l_txs txl)"
  shows "\<exists>txl' tpl' req' text'.
    layer_Send cspin sspin (over_transport net tpl env) (Req req) txl = Some (Ok (txl', Some h, None)) \<and>
    tl_Send net (Req req) tpl = Ok (tpl', Req req', None) \<and> tl_wire tpl' = tl_wire tpl @ [(conn, remote, text')] \<and>
    request_String req' = Ok (text', req') \<and>
    (\<forall>uuid a r code. \<exists>res tx. CreateResponse uuid a r code req' = Ok res \<and> ct_origin tx = req \<and>
       (\<forall>env'. layer_handleResponse cspin env' res txl' =
          tbind (client_Receive cspin (le_tx env') (Res res) tx) (\<lambda>(tx', err). Some (Ok (set_tx h (ClientTx tx') txl')))))"
proof -
  obtain tpl' req' text' source where sent: "tl_Send net (Req req) tpl = Ok (tpl', Req req', None)"
    "tl_wire tpl' = tl_wire tpl @ [(conn, remote, text')]" "request_String req' = Ok (text', req')" "headers_ok (m_headers req')"
    "get_Via (m_headers req') = Some (hop\<lparr>vh_Host := tl_localIP tpl, vh_Transport := ''UDP'', vh_Port := Some 5060,
        vh_Params := Some (Params_Add ''rport'' NilStr p)\<rparr> # hops)"
    "\<And>k. k \<noteq> ''via'' \<Longrightarrow> headers_at (m_headers req') k = headers_at (m_headers req) k"
    "request_Destination req' = Ok (m_dest req)" "request_Source req' = Ok source"
    by (rule request_by_udp [OF tpl req dest]) (rule that)
  note key = stamped_client_key [OF req(2,3) sent(5,6)]
  obtain txl' where txl': "sendRequest cspin (over_transport net tpl env) req txl = Some (Ok (txl', Some h, None))"
    unfolding txl(4) by (rule sendRequest_total [OF req(1) txl(1-3) over_transport_Send [OF sent(1)]])
  have "\<exists>res tx. CreateResponse uuid a r code req' = Ok res \<and> ct_origin tx = req \<and>
      (\<forall>env'. layer_handleResponse cspin env' res txl' =
         tbind (client_Receive cspin (le_tx env') (Res res) tx) (\<lambda>(tx', err). Some (Ok (set_tx h (ClientTx tx') txl'))))"
    for uuid a r code
  proof -
    obtain res where res: "CreateResponse uuid a r code req' = Ok res" "MakeClientTxKey (Res res) = MakeClientTxKey (Req req)"
      using CreateResponse_keys [OF sent(4,7,8)] key by metis
    obtain tx where "ct_origin tx = req" "getClientTx (Res res) txl' = Ok (h, tx)" "\<not> l_canceled txl'"
      by (rule sent_client_found [OF law txl' res(2)])
    with res(1) show ?thesis by (intro exI [of _ res] exI [of _ tx]) (simp add: layer_handleResponse_def)
  qed
  with sent(1-3) txl' show ?thesis
    by (intro exI [of _ txl'] exI [of _ tpl'] exI [of _ req'] exI [of _ text']) (simp add: layer_Send_def)
qed

section \<open>Witnesses\<close>

definition sample_stack_env :: service_env where
  "sample_stack_env = sample_service_env\<lparr>se_layer := over_transport sample_net sample_tlayer sample_layer_env\<rparr>"

definition sample_arrival :: request where
  "sample_arrival = sample_invite\<lparr>m_src := ''10.0.0.1:5060'', m_dest := ''10.0.0.2:5060''\<rparr>"

lemma sample_arrival_facts:
  "headers_ok (m_headers sample_arrival)" "request_Destination sample_arrival = Ok ''10.0.0.2:5060''"
  "request_Source sample_arrival = Ok ''10.0.0.1:5060''" "get_From (m_headers sample_arrival) = None"
  "\<not> IsAck sample_arrival" "\<not> IsCancel sample_arrival" "MakeServerTxKey (Req sample_arrival) = Ok sample_key"
  "get_CSeq (m_headers sample_arrival) = Some \<lparr>cs_SeqNo = 1, cs_MethodName = INVITE\<rparr>" "r_method sample_arrival = INVITE"
  "get_ViaHop (m_headers sample_arrival) = Some (sample_hop (Str ''z9hG4bKa''))"
  using sample_invite_facts key_accessors_cong(1) [of "Req sample_arrival" "Req sample_invite"]
  by (simp_all add: sample_arrival_def request_Destination_def request_Source_def sample_accessors IsAck_def IsCancel_def sample_invite_def)

lemma sample_net_facts:
  "ne_Resolve sample_net network x = Ok \<lparr>na_IP = ''10.0.0.1'', na_Port = 5060\<rparr>" "ne_ParseIP sample_net x"
  "\<forall>data. ne_WriteTo sample_net (CreateConnection (udp_key ''5060'') True 3) data a = None"
  by (simp_all add: sample_net_def CreateConnection_def)

theorem request_refused_by_udp_witness:
  "\<exists>txl s' tx res text. layer_handleRequest server_machine (se_layer sample_stack_env) sample_arrival CreateLayer = Some (Ok txl) \<and>
    service_handleRequest client_machine server_machine sample_stack_env (sample_arrival\<lparr>m_tx := Some 0\<rparr>)
      ((newService sample_callback)\<lparr>sv_tx := txl\<rparr>) = Some (Ok s') \<and>
    l_txs (sv_tx s') = [ServerTx tx] \<and> st_sent tx = [Res res] \<and> s_status res = 405 \<and> response_String res = Ok text \<and>
    tl_Send sample_net (Res res) sample_tlayer = Ok (sample_tlayer\<lparr>tl_wire := tl_wire sample_tlayer @
      [(CreateConnection (udp_key ''5060'') True 3, \<lparr>na_IP = ''10.0.0.1'', na_Port = 5060\<rparr>, text)]\<rparr>, Res res, None)"
proof -
  let ?s = "newService sample_callback"
  have s: "sv_tx ?s = CreateLayer" "sv_close ?s \<noteq> Some True" "sv_callback ?s = sample_callback" by (simp_all add: newService_def)
  have hop: "ToLower (vh_Transport (sample_hop (Str ''z9hG4bKa''))) = ToLower ''udp''" by (simp add: sample_hop_def ToLower_UDP)
  have split: "SplitHostPort ''10.0.0.2:5060'' = Ok (''10.0.0.2'', ''5060'')"
    using SplitHostPort_join [of "''10.0.0.2''" "''5060''"] by simp
  have tag: "\<forall>f. get_From (m_headers sample_arrival) = Some f \<longrightarrow> (\<exists>p. ah_Params f = Some p \<and> Params_Has p ''tag'')"
    by (simp add: sample_arrival_facts)
  have cancel: "cs_MethodName \<lparr>cs_SeqNo = 1, cs_MethodName = INVITE\<rparr> \<noteq> CANCEL" by (simp add: INVITE_def CANCEL_def)
  have handler: "GetRequestHandle (r_method sample_arrival) (sv_callback ?s) = None"
    unfolding s(3) by (simp add: sample_arrival_facts sample_callback_def GetRequestHandle_def AddRequestHandle_def NewCallback_def INVITE_def REGISTER_def)
  have new: "getServerTx (Req sample_arrival) (sv_tx ?s) = Fail (Errorf ''transaction not found'')" "\<not> l_canceled (sv_tx ?s)"
    "0 = length (l_txs (sv_tx ?s))"
    using sample_unmatched [OF sample_arrival_facts(7)] by (simp_all add: s CreateLayer_def)
  have env: "se_layer sample_stack_env = over_transport sample_net sample_tlayer sample_layer_env" by (simp add: sample_stack_env_def)
  have src: "''10.0.0.1:5060'' \<noteq> ''''" "addr_Host \<lparr>addr_Host = ''10.0.0.1'', addr_Port = Some 5060\<rparr> \<noteq> ''''" by simp_all
  from request_refused_by_udp [OF server_machine_spins sample_tlayer_facts sample_udp_connection sample_arrival_facts(10) hop
      sample_arrival_facts(1-3) split src(1) sample_options_dest src(2) sample_net_facts(1,3) tag sample_arrival_facts(5,6,8) cancel
      sample_arrival_facts(7) new(1,2) s(2) handler new(3) env, of client_machine]
  show ?thesis using s(1) new(3) by auto
qed

definition sample_query :: request where
  "sample_query = sample_options\<lparr>m_headers := \<lparr>hs_headers = hs_headers (m_headers sample_options) @
     [(''cseq'', [CSeqHeader \<lparr>cs_SeqNo = 1, cs_MethodName = ''OPTIONS''\<rparr>])], hs_headerOrder = [''via'', ''cseq'']\<rparr>\<rparr>"

definition sample_query_hop :: ViaHop where "sample_query_hop = (sample_hop (Str ''z9hG4bKa''))\<lparr>vh_Port := None\<rparr>"

lemma sample_query_facts:
  "headers_ok (m_headers sample_query)" "get_Via (m_headers sample_query) = Some [sample_query_hop]"
  "vh_Params sample_query_hop = Some (Params_Add ''branch'' (Str ''z9hG4bKa'') NewParams)"
  "m_src sample_query = ''''" "m_dest sample_query = ''10.0.0.1:5060''" "\<not> IsInvite sample_query" "\<not> IsAck sample_query"
  "get_CSeq (m_headers sample_query) = Some \<lparr>cs_SeqNo = 1, cs_MethodName = ''OPTIONS''\<rparr>"
  by (simp_all add: sample_query_def sample_options_def sample_query_hop_def blank_request_def IsInvite_def IsAck_def INVITE_def ACK_def
      get_Via_at get_CSeq_at headers_at_def sample_hop_def headers_ok_def entry_ok_def header_key_simps hop_ok_def opt_params_ok_def)

lemma sample_query_text: "omap (\<lambda>(text, req). length text) (request_String sample_query) = Ok 77"
  by code_simp

lemma sample_query_key: "MakeClientTxKey (Req sample_query) = Ok (join ''__'' [''z9hG4bKa'', ''OPTIONS''])"
proof -
  have "hop_branch sample_query_hop = Ok (Some ''z9hG4bKa'')"
    by (simp add: hop_branch_def sample_query_facts(3) Params_Get_Add magic_branch_def has_prefix_def trim_prefix_def
        RFC3261BranchMagicCookie_def)
  then show ?thesis
    using get_ViaHop_hop [OF sample_query_facts(2)] sample_query_facts(8) by (simp add: MakeClientTxKey_def ACK_def)
qed

theorem sent_request_gets_its_response_witness:
  "\<exists>txl' tpl' req' text' res tx. layer_Send client_machine server_machine (over_transport sample_net sample_tlayer sample_layer_env)
      (Req sample_query) CreateLayer = Some (Ok (txl', Some 0, None)) \<and>
    tl_Send sample_net (Req sample_query) sample_tlayer = Ok (tpl', Req req', None) \<and>
    tl_wire tpl' = [(CreateConnection (udp_key ''5060'') True 3, \<lparr>na_IP = ''10.0.0.1'', na_Port = 5060\<rparr>, text')] \<and>
    CreateResponse ''id'' 0 ''r'' 200 req' = Ok res \<and> ct_origin tx = sample_query \<and>
    layer_handleResponse client_machine sample_layer_env res txl' =
      tbind (client_Receive client_machine sample_env (Res res) tx) (\<lambda>(tx', err). Some (Ok (set_tx 0 (ClientTx tx') txl')))"
proof -
  obtain s req1 where printed: "request_String sample_query = Ok (s, req1)" "length s \<le> 1300"
    using sample_query_text by (auto simp: outcome_simps)
  have layer: "\<forall>c \<in> set (tl_localIP sample_tlayer). c \<noteq> CHR '':'' \<and> c \<noteq> CHR ''['' \<and> c \<noteq> CHR '']''" "tl_wire sample_tlayer = []"
    by (simp_all add: sample_tlayer_def set_protocol_def tl_CreateLayer_def)
  have get: "Params_Get (Params_Add ''branch'' (Str ''z9hG4bKa'') NewParams) ''received'' = None"
    "Params_Get (Params_Add ''branch'' (Str ''z9hG4bKa'') NewParams) ''rport'' = None"
    by simp_all (simp_all add: Params_Get_def NewParams_def)
  have dest: "m_dest sample_query \<noteq> ''''" "NewTargetFromAddr (m_dest sample_query) = Ok \<lparr>addr_Host = ''10.0.0.1'', addr_Port = Some 5060\<rparr>"
    "addr_Host \<lparr>addr_Host = ''10.0.0.1'', addr_Port = Some 5060\<rparr> \<noteq> ''''"
    using sample_query_facts(5) sample_options_dest by simp_all
  have txl: "\<not> l_canceled CreateLayer" "0 = length (l_txs CreateLayer)" by (simp_all add: CreateLayer_def)
  from sent_request_gets_its_response [OF client_machine_spins sample_tlayer_facts sample_udp_connection layer(1) sample_query_facts(1-3)
      get sample_query_facts(4) disjI1 [OF sample_query_facts(6)] printed dest sample_net_facts(2,1,3) txl(1) sample_query_facts(7)
      sample_query_key txl(2), of server_machine sample_layer_env]
  obtain txl' tpl' req' text' where sent: "layer_Send client_machine server_machine (over_transport sample_net sample_tlayer sample_layer_env)
      (Req sample_query) CreateLayer = Some (Ok (txl', Some 0, None))"
    "tl_Send sample_net (Req sample_query) sample_tlayer = Ok (tpl', Req req', None)"
    "tl_wire tpl' = tl_wire sample_tlayer @ [(CreateConnection (udp_key ''5060'') True 3, \<lparr>na_IP = ''10.0.0.1'', na_Port = 5060\<rparr>, text')]"
    and found: "\<forall>uuid a r code. \<exists>res tx. CreateResponse uuid a r code req' = Ok res \<and> ct_origin tx = sample_query \<and>
      (\<forall>env'. layer_handleResponse client_machine env' res txl' =
         tbind (client_Receive client_machine (le_tx env') (Res res) tx) (\<lambda>(tx', err). Some (Ok (set_tx 0 (ClientTx tx') txl'))))"
    by blast
  from found obtain res tx where "CreateResponse ''id'' 0 ''r'' 200 req' = Ok res" "ct_origin tx = sample_query"
    "layer_handleResponse client_machine sample_layer_env res txl' =
       tbind (client_Receive client_machine sample_env (Res res) tx) (\<lambda>(tx', err). Some (Ok (set_tx 0 (ClientTx tx') txl')))"
    by (metis sample_layer_env_fields(1))
  with sent layer(2) show ?thesis
    by (intro exI [of _ txl'] exI [of _ tpl'] exI [of _ req'] exI [of _ text'] exI [of _ res] exI [of _ tx]) simp
qed

end
