(* ===== verification/Gsip_Roundtrip.thy ===== *)
theory Gsip_Roundtrip
  imports Gsip_Stream
begin

text \<open>
  Printing and parsing again (\<^verbatim>\<open>String\<close> of the headers and of responses, \<^verbatim>\<open>ParseHeader\<close> and
  \<^verbatim>\<open>ParseMessage\<close> of \<^verbatim>\<open>sip/parser.go\<close>). For each type of header a grammar of clean contents is given
  under which the printed line is read back as the header; a response of such headers is read back whole.
  Left out are the headers whose line the parser makes something else of: \<^verbatim>\<open>Proxy-Require\<close> and \<^verbatim>\<open>Unsupported\<close>, which it has no
  parser for and keeps as generic headers, the two authorization headers, whose text does not hold all their fields,
  and an empty list of methods or options, which comes back as a list of one empty text. A request does not come back: of its
  Request-URI the parser keeps host and port only, as the destination.
\<close>

section \<open>Clean text\<close>

text \<open>Text on one line, with a visible character at either end.\<close>

definition text_clean :: "string \<Rightarrow> bool" where
  "text_clean v \<longleftrightarrow> v \<noteq> [] \<and> is_graph (hd v) \<and> is_graph (last v) \<and> CR \<notin> set v"

lemma text_clean_graph: "v \<noteq> [] \<Longrightarrow> list_all is_graph v \<Longrightarrow> text_clean v"
  by (auto simp: text_clean_def list_all_iff)

lemma text_clean_trim: "v = [] \<or> text_clean v \<Longrightarrow> TrimSpace v = v"
  by (intro TrimSpace_graph) (auto simp: text_clean_def)

lemma text_clean_append: "text_clean a \<Longrightarrow> text_clean b \<Longrightarrow> CR \<notin> set m \<Longrightarrow> text_clean (a @ m @ b)"
  by (auto simp: text_clean_def)

lemma text_clean_join: "ws \<noteq> [] \<Longrightarrow> \<forall>w \<in> set ws. text_clean w \<Longrightarrow> text_clean (join '', '' ws)"
proof (induction ws)
  case (Cons w ws)
  then show ?case
    using text_clean_append [of w "join '', '' ws" "'', ''"] by (cases "ws = []") (auto simp: join_Cons CR_def)
qed simp

text \<open>A list that is printed with commas and blanks, split at the commas.\<close>

lemma split_join_blank:
  "ws \<noteq> [] \<Longrightarrow> \<forall>w \<in> set ws. CHR '','' \<notin> set w \<Longrightarrow>
     split_on (CHR '','') (join '', '' ws) = hd ws # map (\<lambda>w. CHR '' '' # w) (tl ws)"
proof (induction ws)
  case (Cons w ws)
  show ?case
  proof (cases ws)
    case Nil
    with Cons.prems show ?thesis by (simp add: split_on_notin)
  next
    case (Cons x xs)
    have blank: "split_on (CHR '','') (CHR '' '' # s) = (CHR '' '' # hd (split_on (CHR '','') s)) # tl (split_on (CHR '','') s)" for s
      by (cases "split_on (CHR '','') s") auto
    show ?thesis
      using Cons.IH Cons.prems Cons by (simp add: join_Cons split_on_append blank del: split_on.simps(2))
  qed
qed simp

definition items_clean :: "string list \<Rightarrow> bool" where
  "items_clean ws \<longleftrightarrow> ws \<noteq> [] \<and> list_all (\<lambda>w. text_clean w \<and> CHR '','' \<notin> set w) ws"

lemma comma_list_join:
  assumes "items_clean ws" shows "comma_list (join '', '' ws) = ws" "text_clean (join '', '' ws)"
proof -
  have ws: "ws \<noteq> []" "\<forall>w \<in> set ws. text_clean w" "\<forall>w \<in> set ws. CHR '','' \<notin> set w"
    using assms by (auto simp: items_clean_def list_all_iff)
  then show "text_clean (join '', '' ws)" by (intro text_clean_join)
  have "map TrimSpace ws = ws" using ws(2) text_clean_trim by (simp add: map_idI)
  then show "comma_list (join '', '' ws) = ws"
    using ws by (cases ws) (simp_all add: comma_list_def split_join_blank comp_def)
qed

text \<open>A printed line is given to the parser of its name.\<close>

lemma line_reads_back:
  assumes "Header_String h = Ok (name @ '': '' @ v)" and name: "name \<noteq> []" "list_all is_graph name" "CHR '':'' \<notin> set name"
    and v: "v = [] \<or> text_clean v"
    and "case map_of parser_table (ToLower name) of Some f \<Rightarrow> f (ToLower name) v = Ok [h] | None \<Rightarrow> h = GenericHeader name v"
  shows "header_reads_back h (name @ '': '' @ v)"
proof -
  have "\<not> is_abnf_ws (hd name)" "CR \<notin> set name" using name by (cases name; auto simp: list_all_iff)+
  moreover have "CR \<notin> set v" using v by (auto simp: text_clean_def)
  moreover have "ParseHeader parser_table (name @ '': '' @ v) = Ok [h]"
    using assms(6) ParseHeader_line [OF name(2,3), of parser_table v] text_clean_trim [OF v]
    by (auto split: option.splits)
  ultimately show ?thesis using assms(1) name(1) by (simp add: header_reads_back_def) (simp add: CR_def)
qed

section \<open>Numbers and single values\<close>

lemma uint32_print: "parse_uint32 (show_nat (unat (n :: 32 word))) = Ok n"
proof -
  have "ParseUint (show_nat (unat n)) 32 = Ok (unat n)" using unsigned_less [of n] by (intro ParseUint_show) simp
  then show ?thesis using TrimSpace_all_graph [OF show_nat_graph] by (simp add: parse_uint32_def)
qed

lemma show_nat_clean: "text_clean (show_nat n)"
  by (intro text_clean_graph) (simp_all add: show_nat_graph)

definition callid_clean :: "string \<Rightarrow> bool" where
  "callid_clean c \<longleftrightarrow> c \<noteq> [] \<and> list_all is_graph c \<and> CHR '';'' \<notin> set c"

lemma callid_print: "callid_clean c \<Longrightarrow> parseCallId n c = Ok [CallID c]"
proof -
  assume c: "callid_clean c"
  then have "\<not> contains_ws c" by (auto simp: callid_clean_def contains_ws_def list_all_iff list_ex_iff)
  with c TrimSpace_all_graph [of c] show ?thesis by (simp add: parseCallId_def callid_clean_def)
qed

definition cseq_clean :: "CSeq \<Rightarrow> bool" where
  "cseq_clean seq \<longleftrightarrow> unat (cs_SeqNo seq) \<le> maxCseq \<and> cs_MethodName seq \<noteq> [] \<and>
     list_all is_graph (cs_MethodName seq) \<and> CHR '';'' \<notin> set (cs_MethodName seq)"

lemma cseq_reads_back:
  assumes "cseq_clean seq"
  shows "header_reads_back (CSeqHeader seq) (CSeq_String seq)"
proof -
  let ?m = "cs_MethodName seq" and ?n = "cs_SeqNo seq"
  have m: "list_all is_graph ?m" "?m \<noteq> []" "CHR '';'' \<notin> set ?m" "unat ?n \<le> maxCseq"
    using assms by (auto simp: cseq_clean_def)
  have seq: "CSeqHeader \<lparr>cs_SeqNo = ?n, cs_MethodName = ?m\<rparr> = CSeqHeader seq" by simp
  have "ParseHeader parser_table (CSeq_String seq) = Ok [CSeqHeader seq]"
    using CSeq_print [OF m(1-3), of ?n "CSeq_String seq"] m(4) by (simp only: seq) simp
  moreover have "CR \<notin> set (show_nat (unat ?n))" "CR \<notin> set ?m"
    using show_nat_graph [of "unat ?n"] m(1) by (auto simp: list_all_iff)
  ultimately show ?thesis by (simp add: header_reads_back_def is_abnf_ws_def TAB_def) (simp add: CR_def)
qed

section \<open>Parameters\<close>

text \<open>The printed parameters of a header, behind a semicolon when there are any.\<close>

lemma param_value_last:
  assumes v: "param_clean sep fin qd v" and k: "k \<noteq> []" "list_all (token_char sep fin) k"
  shows "is_graph (last (k @ param_value_text v)) \<and> CR \<notin> set (k @ param_value_text v)"
proof -
  have tok: "list_all is_graph w" if "list_all (token_char sep fin) w" for w
    using that by (auto simp: list_all_iff dest: token_char_graph)
  have no_cr: "CR \<notin> set w" if "list_all is_graph w" for w using that by (auto simp: list_all_iff)
  have quoted: "CR \<notin> set w" if "list_all quoted_char w" for w
  proof -
    have "\<not> quoted_char CR" by (simp add: quoted_char_def is_abnf_ws_def) (simp add: CR_def TAB_def)
    with that show ?thesis by (auto simp: list_all_iff)
  qed
  have eq: "is_graph (CHR ''='')" "is_graph QUOTE" by (simp_all add: is_graph_def byte_def QUOTE_def)
  have ne: "CHR ''='' \<noteq> CR" "QUOTE \<noteq> CR" by (simp_all add: CR_def QUOTE_def)
  have key: "is_graph (last k)" "CR \<notin> set k" using k tok [OF k(2)] by (auto simp: list_all_iff)
  show ?thesis
  proof (cases v)
    case (Str w)
    show ?thesis
    proof (cases "contains_ws w")
      case True
      then have "list_all quoted_char w" using Str v token_no_ws by auto
      then show ?thesis using Str True key eq ne quoted by (simp add: param_value_text_def)
    next
      case False
      with Str v tok have "list_all is_graph w" by auto
      then have "is_graph (last (CHR ''='' # w))" using eq by (auto simp: list_all_iff)
      then show ?thesis using Str False key ne no_cr [OF \<open>list_all is_graph w\<close>] by (simp add: param_value_text_def)
    qed
  qed (use v key in \<open>simp_all add: param_value_text_def\<close>)
qed

lemma print_params_text:
  assumes "list_all (\<lambda>(k, v). k \<noteq> [] \<and> list_all (token_char sep fin) k \<and> param_clean sep fin qd v) kvs" "kvs \<noteq> []" "sep \<noteq> CR"
  shows "print_params sep kvs \<noteq> [] \<and> is_graph (last (print_params sep kvs)) \<and> CR \<notin> set (print_params sep kvs)"
  using assms
proof (induction kvs)
  case (Cons kv kvs)
  obtain k v where kv: "kv = (k, v)" by force
  with Cons.prems have kv': "is_graph (last (k @ param_value_text v)) \<and> CR \<notin> set (k @ param_value_text v)" "k \<noteq> []"
    using param_value_last [of sep fin qd v k] by simp_all
  show ?case
  proof (cases "kvs = []")
    case True
    with kv kv' show ?thesis by simp
  next
    case False
    with Cons have "print_params sep kvs \<noteq> [] \<and> is_graph (last (print_params sep kvs)) \<and> CR \<notin> set (print_params sep kvs)" by simp
    with kv kv' False Cons.prems(3) show ?thesis by (simp add: print_params_Cons)
  qed
qed simp

lemma params_section_text:
  assumes "params_clean (CHR '';'') fin qd p"
  shows "CR \<notin> set (params_section '';'' (CHR '';'') (Some p))"
    "hp_params p \<noteq> [] \<Longrightarrow> is_graph (last (params_section '';'' (CHR '';'') (Some p)))"
proof -
  have semi: "CHR '';'' \<noteq> CR" by (simp add: CR_def)
  have printed: "Params_ToString (CHR '';'') p \<noteq> [] \<and> is_graph (last (Params_ToString (CHR '';'') p)) \<and>
      CR \<notin> set (Params_ToString (CHR '';'') p)" if "hp_params p \<noteq> []"
    using assms print_params_text [OF _ that semi, of fin qd] Params_ToString_print [OF _ that, of "CHR '';''"]
    by (simp add: params_clean_def)
  then show "is_graph (last (params_section '';'' (CHR '';'') (Some p)))" if "hp_params p \<noteq> []"
    using that by (simp add: section_some)
  show "CR \<notin> set (params_section '';'' (CHR '';'') (Some p))"
    using printed semi by (cases "hp_params p = []") (simp_all add: section_none section_some)
qed

lemma header_params_section: "header_params_text (Some p) = Ok (params_section '';'' (CHR '';'') (Some p))"
  by (simp add: header_params_text_def params_section_def)

section \<open>Via\<close>

definition via_char :: "char \<Rightarrow> bool" where
  "via_char c \<longleftrightarrow> is_graph c \<and> c \<noteq> CHR ''/'' \<and> c \<noteq> CHR '',''"

definition via_host_char :: "char \<Rightarrow> bool" where
  "via_host_char c \<longleftrightarrow> is_graph c \<and> c \<noteq> CHR '':'' \<and> c \<noteq> CHR '';'' \<and> c \<noteq> CHR '',''"

text \<open>The values of the parameters may be quoted, but may not hold a comma: the header is split at every comma.\<close>

definition hop_clean :: "ViaHop \<Rightarrow> bool" where
  "hop_clean hop \<longleftrightarrow>
     vh_ProtocolName hop \<noteq> [] \<and> list_all via_char (vh_ProtocolName hop) \<and>
     vh_ProtocolVersion hop \<noteq> [] \<and> list_all via_char (vh_ProtocolVersion hop) \<and>
     vh_Transport hop \<noteq> [] \<and> list_all via_char (vh_Transport hop) \<and>
     vh_Host hop \<noteq> [] \<and> list_all via_host_char (vh_Host hop) \<and>
     (case vh_Params hop of
        Some p \<Rightarrow> params_clean (CHR '';'') NUL True p \<and> CHR '','' \<notin> set (Params_ToString (CHR '';'') p)
      | None \<Rightarrow> False)"

definition hop_body :: "ViaHop \<Rightarrow> string" where
  "hop_body hop = Addr_String \<lparr>addr_Host = vh_Host hop, addr_Port = vh_Port hop\<rparr> @ params_section '';'' (CHR '';'') (vh_Params hop)"

definition hop_text :: "ViaHop \<Rightarrow> string" where
  "hop_text hop = vh_ProtocolName hop @ ''/'' @ vh_ProtocolVersion hop @ ''/'' @ vh_Transport hop @ '' '' @ hop_body hop"

lemma hop_cleanE:
  assumes "hop_clean hop"
  obtains p where "vh_Params hop = Some p" "params_clean (CHR '';'') NUL True p"
    "CHR '','' \<notin> set (params_section '';'' (CHR '';'') (Some p))"
proof -
  from assms obtain p where p: "vh_Params hop = Some p" "params_clean (CHR '';'') NUL True p"
    "CHR '','' \<notin> set (Params_ToString (CHR '';'') p)"
    by (auto simp: hop_clean_def split: option.splits)
  then have "CHR '','' \<notin> set (params_section '';'' (CHR '';'') (Some p))" by (simp add: params_section_def)
  with p show thesis by (intro that)
qed

lemma ViaHop_String_text: "hop_clean hop \<Longrightarrow> ViaHop_String hop = Ok (hop_text hop)"
  by (erule hop_cleanE) (simp add: ViaHop_String_def header_params_section hop_text_def hop_body_def Addr_String_def split: option.split)

lemma via_sent_protocol_print:
  assumes pn: "pn \<noteq> []" "list_all via_char pn" and pv: "pv \<noteq> []" "list_all via_char pv"
    and tr: "tr \<noteq> []" "list_all via_char tr" and pre: "pre = [] \<or> pre = '' ''"
  shows "via_sent_protocol (pre @ pn @ ''/'' @ pv @ ''/'' @ tr @ '' '' @ body) = Ok (pn, pv, tr, body)"
proof -
  let ?part2 = "tr @ CHR '' '' # body"
  have g: "list_all is_graph w" "CHR ''/'' \<notin> set w" if "list_all via_char w" for w
    using that by (auto simp: list_all_iff via_char_def)
  have trim: "TrimSpace pn = pn" "TrimSpace pv = pv" "TrimSpace tr = tr"
    using g(1) [OF pn(2)] g(1) [OF pv(2)] g(1) [OF tr(2)] by (simp_all add: TrimSpace_all_graph)
  have "CHR ''/'' \<notin> set (pre @ pn)" using pre g(2) [OF pn(2)] by auto
  then have "split_on (CHR ''/'') ((pre @ pn) @ CHR ''/'' # pv @ CHR ''/'' # ?part2) = (pre @ pn) # pv # split_on (CHR ''/'') ?part2"
    using g(2) [OF pv(2)] split_on_append [of "CHR ''/''" "pre @ pn"] split_on_append [of "CHR ''/''" pv] by metis
  then have parts: "split_on (CHR ''/'') (pre @ pn @ ''/'' @ pv @ ''/'' @ tr @ '' '' @ body) =
      (pre @ pn) # pv # split_on (CHR ''/'') ?part2" by simp
  have three: "\<not> length ((pre @ pn) # pv # split_on (CHR ''/'') ?part2) < 3"
    by (cases "split_on (CHR ''/'') ?part2") (simp_all add: split_on_ne [THEN notE])
  have word: "\<forall>c \<in> set tr. \<not> is_abnf_ws c" using g(1) [OF tr(2)] by (auto simp: list_all_iff)
  have "is_abnf_ws (CHR '' '')" by (simp add: is_abnf_ws_def)
  then have run: "takeWhile (\<lambda>c. \<not> is_abnf_ws c) ?part2 = tr" "contains_ws ?part2"
    using word by (simp_all add: takeWhile_append contains_ws_def)
  have none: "takeWhile is_abnf_ws ?part2 = []" using tr(1) word by (cases tr) auto
  have "ws_index ?part2 = int (length tr)" by (simp add: ws_index_def run)
  moreover have "TrimSpace (pre @ pn) = pn" using pre trim by auto
  moreover have "nat (int (length tr) + 1) = Suc (length tr)" by simp
  ultimately show ?thesis
    unfolding via_sent_protocol_def parts Let_def using trim pn(1) pv(1) tr(1) three none by simp
qed

lemma via_sent_by_print:
  assumes hop: "hop_clean hop"
  shows "via_sent_by (vh_ProtocolName hop) (vh_ProtocolVersion hop) (vh_Transport hop) (hop_body hop) = Ok (hop, None)"
proof -
  obtain p where p: "vh_Params hop = Some p" "params_clean (CHR '';'') NUL True p" using hop by (rule hop_cleanE)
  let ?a = "\<lparr>addr_Host = vh_Host hop, addr_Port = vh_Port hop\<rparr>" and ?s = "params_section '';'' (CHR '';'') (Some p)"
  have host: "CHR '':'' \<notin> set (vh_Host hop)" "CHR '';'' \<notin> set (vh_Host hop)"
    using hop by (auto simp: hop_clean_def list_all_iff via_host_char_def)
  then have hp: "ParseHostPort (Addr_String ?a) = Ok (vh_Host hop, vh_Port hop)" "CHR '';'' \<notin> set (Addr_String ?a)"
    using ParseHostPort_print [of ?a] by (auto simp: Addr_String_def split: option.splits)
  have body: "hop_body hop = Addr_String ?a @ ?s" by (simp add: hop_body_def p)
  show ?thesis
  proof (cases "hp_params p = []")
    case True
    have "p = NewParams" using params_clean_empty [OF p(2) True] .
    with True hp p(1) show ?thesis by (simp add: via_sent_by_def body section_none Let_def)
  next
    case False
    have "ParseParams (CHR '';'' # Params_ToString (CHR '';'') p @ []) (CHR '';'') (CHR '';'') NUL True True =
        Ok (p, Suc (length (Params_ToString (CHR '';'') p)))"
      using p(2) False by (intro ParseParams_print) (auto simp: good_delims_def QUOTE_def NUL_def)
    moreover have "index_char (CHR '';'') (Addr_String ?a @ CHR '';'' # Params_ToString (CHR '';'') p) = Some (length (Addr_String ?a))"
      using hp(2) by (rule index_char_append)
    ultimately show ?thesis using False hp(1) p(1) by (simp add: via_sent_by_def body section_some Let_def)
  qed
qed

lemma via_section_print:
  assumes hop: "hop_clean hop" and pre: "pre = [] \<or> pre = '' ''"
  shows "via_section None (pre @ hop_text hop) = Ok (hop, None)"
proof -
  have "via_sent_protocol (pre @ hop_text hop) = Ok (vh_ProtocolName hop, vh_ProtocolVersion hop, vh_Transport hop, hop_body hop)"
    unfolding hop_text_def using hop by (intro via_sent_protocol_print pre) (auto simp: hop_clean_def)
  with via_sent_by_print [OF hop] show ?thesis by (simp add: via_section_def)
qed

lemma via_sections_print:
  "\<forall>hop \<in> set hops. hop_clean hop \<Longrightarrow>
     via_sections None via (map (\<lambda>hop. '' '' @ hop_text hop) hops) = Ok [ViaHeader (via @ hops)]"
  using via_section_print [of _ "'' ''"] by (induction hops arbitrary: via) simp_all

lemma hop_text_clean:
  assumes hop: "hop_clean hop"
  shows "text_clean (hop_text hop)" "CHR '','' \<notin> set (hop_text hop)"
proof -
  obtain p where p: "vh_Params hop = Some p" "params_clean (CHR '';'') NUL True p"
    "CHR '','' \<notin> set (params_section '';'' (CHR '';'') (Some p))" using hop by (rule hop_cleanE)
  have host: "vh_Host hop \<noteq> []" "list_all is_graph (vh_Host hop)" "CHR '','' \<notin> set (vh_Host hop)"
    using hop by (auto simp: hop_clean_def list_all_iff via_host_char_def)
  have no_comma: "CHR '','' \<notin> set w" if "list_all via_char w" for w using that by (auto simp: list_all_iff via_char_def)
  let ?a = "Addr_String \<lparr>addr_Host = vh_Host hop, addr_Port = vh_Port hop\<rparr>"
  have "is_graph (CHR '':'')" by (simp add: is_graph_def byte_def)
  then have a: "?a \<noteq> []" "list_all is_graph ?a" using host port_text_graph by (auto simp: Addr_String_def split: option.splits)
  have "CHR '','' \<notin> set ?a" using host(3) port_text_notin [of "CHR '',''"] by (auto simp: Addr_String_def is_digit_def byte_def split: option.splits)
  moreover have "CHR '','' \<notin> set (vh_ProtocolName hop)" "CHR '','' \<notin> set (vh_ProtocolVersion hop)" "CHR '','' \<notin> set (vh_Transport hop)"
    using hop no_comma by (simp_all add: hop_clean_def)
  ultimately show "CHR '','' \<notin> set (hop_text hop)" using p(1,3) by (simp add: hop_text_def hop_body_def)
  have last: "is_graph (last (hop_body hop))" "hop_body hop \<noteq> []" "CR \<notin> set (hop_body hop)"
    using a p(1) params_section_text [OF p(2)]
    by (cases "hp_params p = []"; auto simp: hop_body_def section_none section_some list_all_iff)+
  have slash: "is_graph (CHR ''/'')" by (simp add: is_graph_def byte_def)
  have "list_all is_graph (vh_ProtocolName hop @ ''/'' @ vh_ProtocolVersion hop @ ''/'' @ vh_Transport hop)"
    using hop slash by (auto simp: hop_clean_def list_all_iff via_char_def)
  then have front: "text_clean (vh_ProtocolName hop @ ''/'' @ vh_ProtocolVersion hop @ ''/'' @ vh_Transport hop)"
    using hop by (intro text_clean_graph) (simp_all add: hop_clean_def)
  have "is_graph (hd (hop_body hop))" using a by (cases ?a) (auto simp: hop_body_def)
  then have body: "text_clean (hop_body hop)" using last by (simp add: text_clean_def)
  have "CR \<notin> set '' ''" by (simp add: CR_def)
  from text_clean_append [OF front body this] show "text_clean (hop_text hop)" by (simp add: hop_text_def)
qed

lemma via_reads_back:
  assumes "via \<noteq> []" "list_all hop_clean via"
  shows "Header_String (ViaHeader via) = Ok (''Via'' @ '': '' @ join '', '' (map hop_text via))"
    "text_clean (join '', '' (map hop_text via))" "parseViaHeader n (join '', '' (map hop_text via)) = Ok [ViaHeader via]"
proof -
  have hops: "\<forall>hop \<in> set via. hop_clean hop" using assms(2) by (simp add: list_all_iff)
  then have "omapM ViaHop_String via = Ok (map hop_text via)" using ViaHop_String_text by (induction via) simp_all
  then show "Header_String (ViaHeader via) = Ok (''Via'' @ '': '' @ join '', '' (map hop_text via))" by simp
  show "text_clean (join '', '' (map hop_text via))"
    using assms(1) hops hop_text_clean(1) by (intro text_clean_join) auto
  obtain h t where via: "via = h # t" using assms(1) by (cases via) auto
  have "split_on (CHR '','') (join '', '' (map hop_text via)) = hop_text h # map (\<lambda>hop. '' '' @ hop_text hop) t"
    using hops hop_text_clean(2) via by (subst split_join_blank) auto
  then show "parseViaHeader n (join '', '' (map hop_text via)) = Ok [ViaHeader via]"
    using hops via via_section_print [of h "[]"] via_sections_print [of t "[h]"] by (simp add: parseViaHeader_def)
qed

section \<open>Addresses\<close>

text \<open>A clean URI prints as visible text.\<close>

lemma print_params_graph:
  assumes "list_all (\<lambda>(k, v). k \<noteq> [] \<and> list_all (token_char sep fin) k \<and> param_clean sep fin False v) kvs" "is_graph sep"
  shows "list_all is_graph (print_params sep kvs)"
proof -
  have tok: "list_all is_graph w" if "list_all (token_char sep fin) w" for w
    using that by (auto simp: list_all_iff dest: token_char_graph)
  have eq: "is_graph (CHR ''='')" by (simp add: is_graph_def byte_def)
  have v: "list_all is_graph (param_value_text v)" if "param_clean sep fin False v" for v
    using that tok eq by (cases v) (simp_all add: param_value_text_def token_no_ws)
  show ?thesis
    using assms(1)
  proof (induction kvs)
    case (Cons kv kvs)
    obtain k w where kv: "kv = (k, w)" by force
    with Cons.prems have kw: "list_all is_graph k" "list_all is_graph (param_value_text w)" using tok v by simp_all
    show ?case
    proof (cases "kvs = []")
      case True
      with kv kw show ?thesis by simp
    next
      case False
      with Cons kv kw assms(2) show ?thesis by (simp add: print_params_Cons)
    qed
  qed simp
qed

lemma section_graph:
  assumes "params_clean sep fin False p" "is_graph sep" "list_all is_graph i"
  shows "list_all is_graph (params_section i sep (Some p))"
proof (cases "hp_params p = []")
  case False
  have ok: "params_ok p" using assms(1) by (simp add: params_clean_def)
  have "list_all is_graph (print_params sep (hp_params p))"
    using assms(1,2) by (intro print_params_graph [where fin = fin]) (simp_all add: params_clean_def)
  with False assms(3) show ?thesis by (simp add: section_some Params_ToString_print [OF ok False])
qed (simp add: section_none)

lemma SipUri_text_graph:
  assumes "uri_clean u" shows "list_all is_graph (SipUri_String u)"
proof -
  obtain p h where ph: "u_FUriParams u = Some p" "u_FHeaders u = Some h"
    "params_clean (CHR '';'') (CHR ''?'') False p" "params_clean (CHR ''&'') NUL False h"
    and host: "list_all uri_char (addr_Host (u_FDomain u))" and ui: "userinfo_clean (u_FUser u) (u_FPassword u)"
    using assms by (auto simp: uri_clean_def split: option.splits)
  have g: "is_graph (CHR '';'')" "is_graph (CHR ''?'')" "is_graph (CHR ''&'')" "is_graph (CHR '':'')" "is_graph (CHR ''@'')"
    by (simp_all add: is_graph_def byte_def)
  have "list_all is_graph (params_section '';'' (CHR '';'') (Some p))" "list_all is_graph (params_section ''?'' (CHR ''&'') (Some h))"
    using section_graph [OF ph(3) g(1), of "'';''"] section_graph [OF ph(4) g(3), of "''?''"] g by simp_all
  moreover have "list_all is_graph (Addr_String (u_FDomain u))"
    using host g(4) port_text_graph by (auto simp: Addr_String_def list_all_iff uri_char_def split: option.splits)
  moreover have "list_all is_graph (SipUri_userinfo u)"
    using ui g by (auto simp: userinfo_clean_def SipUri_userinfo_def list_all_iff user_char_def split: MaybeString.splits)
  moreover have "list_all is_graph ''sip:''" "list_all is_graph ''sips:''" by (simp_all add: is_graph_def byte_def)
  ultimately show ?thesis using ph(1,2) by (simp add: SipUri_String_def)
qed

definition angle_clean :: "SipUri \<Rightarrow> bool" where
  "angle_clean u \<longleftrightarrow> uri_clean u \<and> CHR ''>'' \<notin> set (SipUri_String u) \<and> QUOTE \<notin> set (SipUri_String u)"

definition angle_text :: "SipUri \<Rightarrow> string" where
  "angle_text u = ''<'' @ SipUri_String u @ ''>''"

definition display_clean :: "MaybeString \<Rightarrow> bool" where
  "display_clean dn \<longleftrightarrow>
     (case dn of NilStr \<Rightarrow> True | Str name \<Rightarrow> name \<noteq> [] \<and> QUOTE \<notin> set name \<and> CR \<notin> set name | StrPtr a name \<Rightarrow> False)"

definition address_params_clean :: "headerParams \<Rightarrow> bool" where
  "address_params_clean p \<longleftrightarrow> params_clean (CHR '';'') (CHR '','') True p \<and>
     CHR ''<'' \<notin> set (Params_ToString (CHR '';'') p) \<and> CHR ''>'' \<notin> set (Params_ToString (CHR '';'') p)"

definition address_text :: "MaybeString \<Rightarrow> SipUri \<Rightarrow> headerParams \<Rightarrow> string" where
  "address_text dn u p = display_name_text dn @ angle_text u @ params_section '';'' (CHR '';'') (Some p)"

lemma angle_text_clean: "angle_clean u \<Longrightarrow> list_all is_graph (angle_text u)"
  using SipUri_text_graph [of u] by (simp add: angle_clean_def angle_text_def is_graph_def byte_def)

lemma address_text_clean:
  assumes "angle_clean u" "address_params_clean p"
  shows "display_clean dn \<Longrightarrow> text_clean (address_text dn u p)"
    "text_clean (angle_text u @ params_section '';'' (CHR '';'') (Some p))"
proof -
  let ?t = "angle_text u @ params_section '';'' (CHR '';'') (Some p)"
  have g: "list_all is_graph (angle_text u)" using assms(1) by (rule angle_text_clean)
  have "hd (angle_text u) = CHR ''<''" "last (angle_text u) = CHR ''>''" "angle_text u \<noteq> []" by (simp_all add: angle_text_def)
  moreover have "is_graph (CHR ''<'')" "is_graph (CHR ''>'')" "is_graph QUOTE" "QUOTE \<noteq> CR" "CHR '' '' \<noteq> CR"
    by (simp_all add: is_graph_def byte_def QUOTE_def CR_def)
  moreover have "CR \<notin> set (angle_text u)" using g by (auto simp: list_all_iff)
  moreover have "CR \<notin> set (params_section '';'' (CHR '';'') (Some p))"
    "hp_params p \<noteq> [] \<Longrightarrow> is_graph (last (params_section '';'' (CHR '';'') (Some p)))"
    using assms(2) params_section_text [of _ True p] by (auto simp: address_params_clean_def)
  ultimately have t: "?t \<noteq> []" "is_graph (hd ?t)" "is_graph (last ?t)" "CR \<notin> set ?t" "is_graph QUOTE" "QUOTE \<noteq> CR" "CHR '' '' \<noteq> CR"
    by (cases "hp_params p = []"; simp add: section_none section_some)+
  then show "text_clean ?t" by (simp add: text_clean_def)
  show "text_clean (address_text dn u p)" if "display_clean dn"
    using t that by (cases dn) (auto simp: text_clean_def address_text_def display_clean_def display_name_text_def)
qed

text \<open>The printed address is parsed.\<close>

lemma find_quoted:
  "QUOTE \<notin> set w \<Longrightarrow> find_unescaped_loop ts ds i (Some QUOTE) (w @ r) = find_unescaped_loop ts ds (i + length w) (Some QUOTE) r"
  by (induction w arbitrary: i) auto

lemma address_display_angle: "address_display (angle_text u @ r) = Ok (NilStr, angle_text u @ r)"
  by (simp add: address_display_def findUnescaped_def findAnyUnescaped_def angle_text_def contains_sub_def has_prefix_def
      byte_string_def byte_def)

lemma address_display_quoted:
  assumes "name \<noteq> []" "QUOTE \<notin> set name"
  shows "address_display ([QUOTE] @ name @ [QUOTE] @ '' '' @ angle_text u @ r) = Ok (Str name, '' '' @ angle_text u @ r)"
proof -
  let ?t = "[QUOTE] @ name @ [QUOTE] @ '' '' @ angle_text u @ r"
  have c: "contains_sub ''<'' (byte_string (CHR ''<''))" "\<not> contains_sub ''<'' (byte_string QUOTE)"
    "\<not> contains_sub ''<'' (byte_string (CHR '' ''))" "byte_string (CHR ''<'') = ''<''"
    by (simp_all add: contains_sub_def has_prefix_def byte_string_def byte_def QUOTE_def)
  have "findUnescaped ?t (CHR ''<'') [quotesDelim] = Some (length name + 3)"
    using find_quoted [OF assms(2)] c
    by (simp add: findUnescaped_def findAnyUnescaped_def quotesDelim_def angle_text_def) (simp add: QUOTE_def)
  moreover have "index_char QUOTE (name @ QUOTE # CHR '' '' # angle_text u @ r) = Some (length name)"
    using assms(2) by (rule index_char_append)
  ultimately show ?thesis by (simp add: address_display_def)
qed

lemma address_bounds_angle:
  assumes "angle_clean u" shows "address_bounds dn (angle_text u @ r) = Ok (SipUri_String u, r)"
proof -
  have "index_char (CHR ''>'') (SipUri_String u @ CHR ''>'' # r) = Some (length (SipUri_String u))"
    using assms by (intro index_char_append) (simp add: angle_clean_def)
  moreover have "SipUri_String u \<noteq> []" by (simp add: SipUri_String_def)
  ultimately show ?thesis by (simp add: address_bounds_def angle_text_def)
qed

lemma ParseAddressValue_print:
  assumes dn: "display_clean dn" and u: "angle_clean u" and p: "address_params_clean p" and pre: "pre = [] \<or> pre = '' ''"
  shows "ParseAddressValue (pre @ address_text dn u p) = Ok (dn, SipUriPtr u, p)"
proof -
  let ?s = "params_section '';'' (CHR '';'') (Some p)"
  have clean: "text_clean (address_text dn u p)" "text_clean (angle_text u @ ?s)" using address_text_clean [OF u p] dn by auto
  have "TrimSpace (address_text dn u p) = address_text dn u p" using text_clean_trim clean(1) by blast
  then have trim: "TrimSpace (pre @ address_text dn u p) = address_text dn u p" using pre by (elim disjE) simp_all
  have trim': "TrimSpace (angle_text u @ ?s) = angle_text u @ ?s" using text_clean_trim clean(2) by blast
  have display: "obind (address_display (address_text dn u p)) f = f (dn, (if dn = NilStr then [] else '' '') @ angle_text u @ ?s)" for f
  proof (cases dn)
    case NilStr
    then show ?thesis by (simp add: address_text_def display_name_text_def address_display_angle)
  next
    case (Str name)
    with dn have "name \<noteq> []" "QUOTE \<notin> set name" by (simp_all add: display_clean_def)
    from address_display_quoted [OF this] Str \<open>name \<noteq> []\<close> show ?thesis by (simp add: address_text_def display_name_text_def)
  qed (use dn in \<open>simp add: display_clean_def\<close>)
  have params: "(if length ?s = 0 then Ok (dn, SipUriPtr u, NewParams)
      else obind (ParseParams ?s (CHR '';'') (CHR '';'') (CHR '','') True True) (\<lambda>(params, n). Ok (dn, SipUriPtr u, params))) =
    Ok (dn, SipUriPtr u, p)"
  proof (cases "hp_params p = []")
    case True
    then show ?thesis using params_clean_empty [of "CHR '';''" "CHR '',''" True p] p by (simp add: section_none address_params_clean_def)
  next
    case False
    have "ParseParams (CHR '';'' # Params_ToString (CHR '';'') p @ []) (CHR '';'') (CHR '';'') (CHR '','') True True =
        Ok (p, Suc (length (Params_ToString (CHR '';'') p)))"
      using p False by (intro ParseParams_print [where qd = True]) (auto simp: good_delims_def QUOTE_def NUL_def address_params_clean_def)
    with False show ?thesis by (simp add: section_some)
  qed
  have "ParseUri (SipUri_String u) = Ok (SipUriPtr u)" using u by (intro ParseUri_print) (simp add: angle_clean_def)
  moreover have "pre @ address_text dn u p \<noteq> []" using clean(1) by (simp add: text_clean_def)
  moreover have "TrimSpace ((if dn = NilStr then [] else '' '') @ angle_text u @ ?s) = angle_text u @ ?s" using trim' by simp
  ultimately show ?thesis
    using params by (simp add: ParseAddressValue_def trim display address_bounds_angle [OF u] del: length_0_conv)
qed

text \<open>Its commas stand between quotes or brackets.\<close>

lemma addr_scan_append:
  "addr_scan b q (s @ t) = (case addr_scan b q s of None \<Rightarrow> None | Some (b', q') \<Rightarrow> addr_scan b' q' t)"
  by (induction b q s rule: addr_scan.induct) simp_all

lemma addr_scan_quoted: "QUOTE \<notin> set w \<Longrightarrow> addr_scan b True w = Some (b, True)"
  by (induction w) auto

lemma addr_scan_bracket: "QUOTE \<notin> set w \<Longrightarrow> CHR ''>'' \<notin> set w \<Longrightarrow> addr_scan True False w = Some (True, False)"
  by (induction w) auto

lemma addr_scan_plain:
  "QUOTE \<notin> set w \<Longrightarrow> CHR ''<'' \<notin> set w \<Longrightarrow> CHR ''>'' \<notin> set w \<Longrightarrow> CHR '','' \<notin> set w \<Longrightarrow> addr_scan False False w = Some (False, False)"
  by (induction w) auto

lemma addr_scan_quote: "addr_scan b False (QUOTE # w) = addr_scan b True w" "addr_scan b True (QUOTE # w) = addr_scan b False w"
  by (simp_all add: QUOTE_def)

lemma addr_scan_param:
  assumes "param_clean (CHR '';'') (CHR '','') True v" "list_all (token_char (CHR '';'') (CHR '','')) k"
    and "CHR ''<'' \<notin> set (k @ param_value_text v)" "CHR ''>'' \<notin> set (k @ param_value_text v)"
  shows "addr_scan False False (k @ param_value_text v) = Some (False, False)"
proof -
  have tok: "QUOTE \<notin> set w \<and> CHR '','' \<notin> set w" if "list_all (token_char (CHR '';'') (CHR '','')) w" for w
    using that by (auto simp: list_all_iff token_char_def)
  have k: "addr_scan False False k = Some (False, False)" using assms(2-4) tok by (intro addr_scan_plain) simp_all
  have eq: "CHR ''='' \<noteq> QUOTE" "QUOTE \<noteq> CHR ''<''" "QUOTE \<noteq> CHR ''>''" by (simp_all add: QUOTE_def)
  have "addr_scan False False (param_value_text v) = Some (False, False)"
  proof (cases v)
    case (Str w)
    show ?thesis
    proof (cases "contains_ws w")
      case True
      then have "list_all quoted_char w" using Str assms(1) token_no_ws by auto
      then have "QUOTE \<notin> set w" by (auto simp: list_all_iff quoted_char_def)
      then show ?thesis
        using Str True by (simp add: param_value_text_def addr_scan_append addr_scan_quoted addr_scan_quote eq)
    next
      case False
      with Str assms(1) have "list_all (token_char (CHR '';'') (CHR '','')) w" by auto
      from tok [OF this] show ?thesis using Str False assms(3,4) eq by (intro addr_scan_plain) (auto simp: param_value_text_def)
    qed
  qed (use assms(1) in \<open>simp_all add: param_value_text_def\<close>)
  with k show ?thesis by (simp add: addr_scan_append)
qed

lemma addr_scan_params:
  assumes "list_all (\<lambda>(k, v). k \<noteq> [] \<and> list_all (token_char (CHR '';'') (CHR '','')) k \<and> param_clean (CHR '';'') (CHR '','') True v) kvs"
    and "CHR ''<'' \<notin> set (print_params (CHR '';'') kvs)" "CHR ''>'' \<notin> set (print_params (CHR '';'') kvs)"
  shows "addr_scan False False (print_params (CHR '';'') kvs) = Some (False, False)"
  using assms
proof (induction kvs)
  case (Cons kv kvs)
  obtain k v where kv: "kv = (k, v)" by force
  show ?case
  proof (cases "kvs = []")
    case True
    with Cons.prems kv show ?thesis by (simp add: addr_scan_param)
  next
    case False
    with Cons kv have "addr_scan False False (print_params (CHR '';'') kvs) = Some (False, False)"
      "addr_scan False False (k @ param_value_text v) = Some (False, False)"
      by (simp_all add: print_params_Cons addr_scan_param)
    moreover have "CHR '';'' \<noteq> QUOTE" by (simp add: QUOTE_def)
    ultimately show ?thesis
      using False kv addr_scan_append [of False False "k @ param_value_text v" "CHR '';'' # print_params (CHR '';'') kvs"]
      by (simp add: print_params_Cons)
  qed
qed simp

lemma addr_scan_address:
  assumes dn: "display_clean dn" and u: "angle_clean u" and p: "address_params_clean p"
  shows "addr_scan False False (address_text dn u p) = Some (False, False)"
proof -
  have ne: "CHR ''<'' \<noteq> QUOTE" "CHR ''>'' \<noteq> QUOTE" "CHR '';'' \<noteq> QUOTE" "CHR '' '' \<noteq> QUOTE" by (simp_all add: QUOTE_def)
  have angle: "addr_scan False False (angle_text u) = Some (False, False)"
    using u addr_scan_bracket [of "SipUri_String u"] ne by (simp add: angle_text_def angle_clean_def addr_scan_append)
  have display: "addr_scan False False (display_name_text dn) = Some (False, False)"
    using dn ne by (cases dn) (simp_all add: display_name_text_def display_clean_def addr_scan_append addr_scan_quoted addr_scan_quote)
  have "addr_scan False False (params_section '';'' (CHR '';'') (Some p)) = Some (False, False)"
  proof (cases "hp_params p = []")
    case False
    have ok: "params_ok p" using p by (simp add: address_params_clean_def params_clean_def)
    from False p addr_scan_params [of "hp_params p"] ne show ?thesis
      by (simp add: section_some address_params_clean_def Params_ToString_print [OF ok False] params_clean_def)
  qed (simp add: section_none)
  with angle display show ?thesis by (simp add: address_text_def addr_scan_append)
qed

lemma ParseAddressValues_print:
  assumes "display_clean dn" "angle_clean u" "address_params_clean p"
  shows "ParseAddressValues (address_text dn u p) = Ok [(dn, SipUriPtr u, p)]"
  using ParseAddressValues_one [OF addr_scan_address [OF assms]] ParseAddressValue_print [OF assms, of "[]"] by simp

definition address_clean :: "AddressHeader \<Rightarrow> bool" where
  "address_clean a \<longleftrightarrow> display_clean (ah_DisplayName a) \<and>
     (case ah_Address a of Some (SipUriPtr u) \<Rightarrow> angle_clean u | _ \<Rightarrow> False) \<and>
     (case ah_Params a of Some p \<Rightarrow> address_params_clean p | None \<Rightarrow> False)"

lemma address_cleanE:
  assumes "address_clean a"
  obtains t where "text_clean t" "FromHeader_String a = Ok (''From'' @ '': '' @ t)" "ToHeader_String a = Ok (''To'' @ '': '' @ t)"
    "ContactHeader_String a = Ok (''Contact'' @ '': '' @ t)" "parseAddressHeader ''from'' t = Ok [FromHeader a]"
    "parseAddressHeader ''to'' t = Ok [ToHeader a]" "parseAddressHeader ''contact'' t = Ok [ContactHeader a]"
proof -
  obtain dn u p where a: "a = \<lparr>ah_DisplayName = dn, ah_Address = Some (SipUriPtr u), ah_Params = Some p\<rparr>"
    "display_clean dn" "angle_clean u" "address_params_clean p"
    using assms by (cases a) (auto simp: address_clean_def split: option.splits Uri.splits)
  note parsed = ParseAddressValues_print [OF a(2-4)]
  show thesis
  proof (rule that [of "address_text dn u p"])
    show "text_clean (address_text dn u p)" using address_text_clean(1) [OF a(3,4,2)] .
    show "parseAddressHeader ''from'' (address_text dn u p) = Ok [FromHeader a]"
      "parseAddressHeader ''to'' (address_text dn u p) = Ok [ToHeader a]"
      "parseAddressHeader ''contact'' (address_text dn u p) = Ok [ContactHeader a]"
      by (simp_all add: a(1) parsed parseAddressHeader_def address_header_def)
  qed (simp_all add: a(1) FromHeader_String_def ToHeader_String_def ContactHeader_String_def header_params_section
      address_text_def angle_text_def angle_uri_fmt_def)
qed

section \<open>Routes\<close>

definition route_clean :: "Uri \<Rightarrow> bool" where
  "route_clean uri \<longleftrightarrow> (case uri of SipUriPtr u \<Rightarrow> angle_clean u | WildcardUriPtr \<Rightarrow> False)"

lemma address_text_plain: "address_text NilStr u NewParams = angle_text u"
  by (simp add: address_text_def display_name_text_def section_none NewParams_def)

lemma params_clean_New: "address_params_clean NewParams" "display_clean NilStr"
  by (simp_all add: address_params_clean_def params_clean_def NewParams_def params_ok_def Params_ToString_def Params_Keys_def display_clean_def)

lemma address_loop_route:
  assumes "list_all angle_clean us" "us \<noteq> []" "pre = [] \<or> pre = '' ''"
  shows "address_loop pre False False (join '', '' (map angle_text us) @ '','') = Ok (map (\<lambda>u. (NilStr, SipUriPtr u, NewParams)) us)"
  using assms
proof (induction us arbitrary: pre)
  case (Cons u us)
  have u: "angle_clean u" using Cons.prems(1) by simp
  have scan: "addr_scan False False (angle_text u) = Some (False, False)"
    using addr_scan_address [OF params_clean_New(2) u params_clean_New(1)] by (simp only: address_text_plain)
  have "ParseAddressValue (pre @ angle_text u) = Ok (NilStr, SipUriPtr u, NewParams)"
    using ParseAddressValue_print [OF params_clean_New(2) u params_clean_New(1) Cons.prems(3)] by (simp only: address_text_plain)
  then have step: "address_loop pre False False (angle_text u @ CHR '','' # r) =
      omap (Cons (NilStr, SipUriPtr u, NewParams)) (address_loop [] False False r)" for r
    using address_loop_scan [OF scan, of pre "CHR '','' # r"] address_loop_comma [of "pre @ angle_text u" r] by simp
  show ?case
  proof (cases "us = []")
    case True
    with step [of "[]"] show ?thesis by simp
  next
    case False
    have "address_loop [] False False (CHR '' '' # r) = address_loop '' '' False False r" for r by (simp add: QUOTE_def)
    with False step Cons.IH [of "'' ''"] Cons.prems(1) show ?thesis
      by (simp add: join_Cons del: address_loop.simps(2))
  qed
qed simp

lemma route_cleanE:
  assumes "uris \<noteq> []" "list_all route_clean uris"
  obtains "text_clean (route_text uris)" "ParseAddressValues (route_text uris) = Ok (map (\<lambda>uri. (NilStr, uri, NewParams)) uris)"
proof -
  obtain us where us: "uris = map SipUriPtr us" "list_all angle_clean us"
    using assms(2)
  proof (induction uris arbitrary: thesis)
    case (Cons uri uris)
    from Cons.prems(2) obtain us where us: "uris = map SipUriPtr us" "list_all angle_clean us" by (auto intro: Cons.IH)
    from Cons.prems(2) obtain u where "uri = SipUriPtr u" "angle_clean u" by (cases uri) (auto simp: route_clean_def)
    with us show ?case by (intro Cons.prems(1) [of "u # us"]) simp_all
  qed simp
  have route: "route_text (map SipUriPtr us) = join '', '' (map angle_text us)" by (simp add: route_text_def angle_text_def [abs_def] comp_def)
  have "text_clean (angle_text u)" if "u \<in> set us" for u
    using that us(2) angle_text_clean [of u] by (intro text_clean_graph) (auto simp: angle_text_def list_all_iff)
  then have "text_clean (route_text uris)" unfolding us(1) route using assms(1) us(1) by (intro text_clean_join) auto
  moreover have "ParseAddressValues (route_text uris) = Ok (map (\<lambda>uri. (NilStr, uri, NewParams)) uris)"
    using address_loop_route [OF us(2), of "[]"] assms(1) us(1) by (simp add: us(1) ParseAddressValues_def route comp_def)
  ultimately show thesis by (rule that)
qed

section \<open>Headers\<close>

text \<open>The headers whose printed line is read back as they are.\<close>

primrec header_clean :: "Header \<Rightarrow> bool" where
  "header_clean (Accept ct) = (ct = [] \<or> text_clean ct)"
| "header_clean (AllowHeader allow) = items_clean allow"
| "header_clean (CSeqHeader seq) = cseq_clean seq"
| "header_clean (CallID callId) = callid_clean callId"
| "header_clean (ContactHeader contact) =
     (address_clean contact \<or> contact = \<lparr>ah_DisplayName = NilStr, ah_Address = Some WildcardUriPtr, ah_Params = Some NewParams\<rparr>)"
| "header_clean (ContentLength n) = True"
| "header_clean (ContentType ct) = (ct = [] \<or> text_clean ct)"
| "header_clean (Expires n) = True"
| "header_clean (FromHeader from) = address_clean from"
| "header_clean (GenericHeader name contents) =
     (name \<noteq> [] \<and> list_all is_graph name \<and> CHR '':'' \<notin> set name \<and> ToLower name \<notin> set (map fst parser_table) \<and>
      (contents = [] \<or> text_clean contents))"
| "header_clean (MaxForwards n) = True"
| "header_clean (ProxyRequireHeader opts) = False"
| "header_clean (RecordRouteHeader addrs) = (addrs \<noteq> [] \<and> list_all route_clean addrs)"
| "header_clean (RequireHeader opts) = items_clean opts"
| "header_clean (RouteHeader addrs) = (addrs \<noteq> [] \<and> list_all route_clean addrs)"
| "header_clean (SupportedHeader opts) = items_clean opts"
| "header_clean (ToHeader to) = address_clean to"
| "header_clean (UnsupportedHeader opts) = False"
| "header_clean (UserAgentHeader ua) = (ua = [] \<or> text_clean ua)"
| "header_clean (ViaHeader via) = (via \<noteq> [] \<and> list_all hop_clean via)"
| "header_clean (AuthorizationHeader auth) = False"

text \<open>The names of the headers and the parsers that the table has for them.\<close>

lemma names_graph:
  "list_all (\<lambda>n. n \<noteq> [] \<and> list_all is_graph n \<and> CHR '':'' \<notin> set n)
     [''Accept'', ''Allow'', ''Call-ID'', ''Contact'', ''Content-Length'', ''Content-Type'', ''Expires'', ''From'', ''Max-Forwards'',
      ''Record-Route'', ''Require'', ''Route'', ''Supported'', ''To'', ''User-Agent'', ''Via'']"
  by (simp add: is_graph_def byte_def)

lemma name_parsers:
  "ToLower ''Accept'' = ''accept''" "ToLower ''Allow'' = ''allow''" "ToLower ''Call-ID'' = ''call-id''" "ToLower ''Contact'' = ''contact''"
  "ToLower ''Content-Length'' = ''content-length''" "ToLower ''Content-Type'' = ''content-type''" "ToLower ''Expires'' = ''expires''"
  "ToLower ''From'' = ''from''" "ToLower ''Max-Forwards'' = ''max-forwards''" "ToLower ''Record-Route'' = ''record-route''"
  "ToLower ''Require'' = ''require''" "ToLower ''Route'' = ''route''" "ToLower ''Supported'' = ''supported''" "ToLower ''To'' = ''to''"
  "ToLower ''User-Agent'' = ''user-agent''" "ToLower ''Via'' = ''via''"
  by (simp_all add: ToLower_def lower_char_def byte_def char_of_def bit_Suc_0_iff)

lemma known_reads_back:
  assumes "Header_String h = Ok (name @ '': '' @ v)"
    and "name \<in> set [''Accept'', ''Allow'', ''Call-ID'', ''Contact'', ''Content-Length'', ''Content-Type'', ''Expires'', ''From'', ''Max-Forwards'',
      ''Record-Route'', ''Require'', ''Route'', ''Supported'', ''To'', ''User-Agent'', ''Via'']"
    and "v = [] \<or> text_clean v" "map_of parser_table (ToLower name) = Some f" "f (ToLower name) v = Ok [h]"
  shows "\<exists>text. header_reads_back h text"
proof (rule exI [where x = "name @ '': '' @ v"], rule line_reads_back)
  note name = list_all_iff [THEN iffD1, OF names_graph, THEN bspec, OF assms(2)]
  show "name \<noteq> []" "list_all is_graph name" "CHR '':'' \<notin> set name" using name by blast+
qed (use assms in simp_all)

lemma wildcard_reads_back:
  "ContactHeader_String \<lparr>ah_DisplayName = NilStr, ah_Address = Some WildcardUriPtr, ah_Params = Some NewParams\<rparr> = Ok (''Contact'' @ '': '' @ ''*'')"
  "text_clean ''*''" "parseAddressHeader ''contact'' ''*'' =
    Ok [ContactHeader \<lparr>ah_DisplayName = NilStr, ah_Address = Some WildcardUriPtr, ah_Params = Some NewParams\<rparr>]"
proof -
  have g: "is_graph (CHR ''*'')" by (simp add: is_graph_def byte_def)
  then show "text_clean ''*''" by (simp add: text_clean_def CR_def)
  have "ParseAddressValue ''*'' = Ok (NilStr, WildcardUriPtr, NewParams)"
    using TrimSpace_all_graph [of "''*''"] g
    by (simp add: ParseAddressValue_def address_display_def findUnescaped_def findAnyUnescaped_def contains_sub_def has_prefix_def
        byte_string_def byte_def quotesDelim_def address_bounds_def ParseUri_def)
  moreover have "addr_scan False False ''*'' = Some (False, False)" by (simp add: QUOTE_def)
  ultimately have "ParseAddressValues ''*'' = Ok [(NilStr, WildcardUriPtr, NewParams)]" by (simp add: ParseAddressValues_one)
  then show "parseAddressHeader ''contact'' ''*'' =
    Ok [ContactHeader \<lparr>ah_DisplayName = NilStr, ah_Address = Some WildcardUriPtr, ah_Params = Some NewParams\<rparr>]"
    by (simp add: parseAddressHeader_def address_header_def NewParams_def Params_Length_def)
qed (simp add: ContactHeader_String_def display_name_text_def section_none NewParams_def)

text \<open>Every clean header prints to a line that is read back as the header.\<close>

lemma header_clean_reads_back:
  assumes "header_clean h"
  shows "\<exists>text. header_reads_back h text"
proof (cases h)
  case (Accept ct)
  with assms show ?thesis
    by (intro known_reads_back [of h "''Accept''" ct parseAccept])
      (auto simp: name_parsers parser_table_eq parseAccept_def text_clean_trim)
next
  case (AllowHeader allow)
  with assms comma_list_join [of allow] show ?thesis
    by (intro known_reads_back [of h "''Allow''" "join '', '' allow" parseAllow]) (simp_all add: name_parsers parser_table_eq parseAllow_def)
next
  case (CSeqHeader seq)
  with assms cseq_reads_back [of seq] show ?thesis by auto
next
  case (CallID c)
  with assms have "text_clean c" by (intro text_clean_graph) (simp_all add: callid_clean_def)
  with CallID assms callid_print [of c] show ?thesis
    by (intro known_reads_back [of h "''Call-ID''" c parseCallId]) (simp_all add: name_parsers parser_table_eq)
next
  case (ContactHeader a)
  show ?thesis
  proof (cases "address_clean a")
    case True
    then obtain t where t: "text_clean t" "ContactHeader_String a = Ok (''Contact'' @ '': '' @ t)"
      "parseAddressHeader ''contact'' t = Ok [ContactHeader a]" by (rule address_cleanE)
    show ?thesis
      by (rule known_reads_back [of h "''Contact''" t parseAddressHeader]) (simp_all add: ContactHeader t name_parsers parser_table_eq)
  next
    case False
    with ContactHeader assms have "a = \<lparr>ah_DisplayName = NilStr, ah_Address = Some WildcardUriPtr, ah_Params = Some NewParams\<rparr>" by simp
    with ContactHeader wildcard_reads_back show ?thesis
      by (intro known_reads_back [of h "''Contact''" "''*''" parseAddressHeader]) (simp_all add: name_parsers parser_table_eq)
  qed
next
  case (ContentLength n)
  show ?thesis
    by (rule known_reads_back [of h "''Content-Length''" "show_nat (unat n)" parseContentLength])
      (simp_all add: ContentLength name_parsers parser_table_eq parseContentLength_def uint32_print show_nat_clean)
next
  case (ContentType ct)
  with assms show ?thesis
    by (intro known_reads_back [of h "''Content-Type''" ct parseContentType])
      (auto simp: name_parsers parser_table_eq parseContentType_def text_clean_trim)
next
  case (Expires n)
  show ?thesis
    by (rule known_reads_back [of h "''Expires''" "show_nat (unat n)" parseExpires])
      (simp_all add: Expires name_parsers parser_table_eq parseExpires_def uint32_print show_nat_clean)
next
  case (FromHeader a)
  with assms have "address_clean a" by simp
  then obtain t where t: "text_clean t" "FromHeader_String a = Ok (''From'' @ '': '' @ t)"
    "parseAddressHeader ''from'' t = Ok [FromHeader a]" by (rule address_cleanE)
  show ?thesis
    by (rule known_reads_back [of h "''From''" t parseAddressHeader]) (simp_all add: FromHeader t name_parsers parser_table_eq)
next
  case (GenericHeader name contents)
  with assms have name: "name \<noteq> []" "list_all is_graph name" "CHR '':'' \<notin> set name" "contents = [] \<or> text_clean contents"
    and "ToLower name \<notin> set (map fst parser_table)" by simp_all
  then have "map_of parser_table (ToLower name) = None" by (simp add: map_of_eq_None_iff)
  then show ?thesis
    by (intro exI [of _ "name @ '': '' @ contents"] line_reads_back name) (simp_all add: GenericHeader)
next
  case (MaxForwards n)
  show ?thesis
    by (rule known_reads_back [of h "''Max-Forwards''" "show_nat (unat n)" parseMaxForwards])
      (simp_all add: MaxForwards name_parsers parser_table_eq parseMaxForwards_def uint32_print show_nat_clean)
next
  case (RecordRouteHeader uris)
  with assms obtain "text_clean (route_text uris)" "ParseAddressValues (route_text uris) = Ok (map (\<lambda>uri. (NilStr, uri, NewParams)) uris)"
    by (auto elim: route_cleanE)
  with RecordRouteHeader show ?thesis
    by (intro known_reads_back [of h "''Record-Route''" "route_text uris" parseRecordRouteHeader])
      (simp_all add: name_parsers parser_table_eq parseRecordRouteHeader_def comp_def)
next
  case (RequireHeader opts)
  with assms comma_list_join [of opts] show ?thesis
    by (intro known_reads_back [of h "''Require''" "join '', '' opts" parseRequire]) (simp_all add: name_parsers parser_table_eq parseRequire_def)
next
  case (RouteHeader uris)
  with assms obtain "text_clean (route_text uris)" "ParseAddressValues (route_text uris) = Ok (map (\<lambda>uri. (NilStr, uri, NewParams)) uris)"
    by (auto elim: route_cleanE)
  with RouteHeader show ?thesis
    by (intro known_reads_back [of h "''Route''" "route_text uris" parseRouteHeader])
      (simp_all add: name_parsers parser_table_eq parseRouteHeader_def comp_def)
next
  case (SupportedHeader opts)
  with assms comma_list_join [of opts] show ?thesis
    by (intro known_reads_back [of h "''Supported''" "join '', '' opts" parseSupported])
      (simp_all add: name_parsers parser_table_eq parseSupported_def)
next
  case (ToHeader a)
  with assms have "address_clean a" by simp
  then obtain t where t: "text_clean t" "ToHeader_String a = Ok (''To'' @ '': '' @ t)"
    "parseAddressHeader ''to'' t = Ok [ToHeader a]" by (rule address_cleanE)
  show ?thesis
    by (rule known_reads_back [of h "''To''" t parseAddressHeader]) (simp_all add: ToHeader t name_parsers parser_table_eq)
next
  case (UserAgentHeader ua)
  with assms show ?thesis
    by (intro known_reads_back [of h "''User-Agent''" ua parseUserAgent])
      (auto simp: name_parsers parser_table_eq parseUserAgent_def text_clean_trim)
next
  case (ViaHeader via)
  with assms via_reads_back [of via] show ?thesis
    by (intro known_reads_back [of h "''Via''" "join '', '' (map hop_text via)" parseViaHeader])
      (simp_all add: name_parsers parser_table_eq del: Header_String.simps)
qed (use assms in simp_all)

section \<open>Responses\<close>

text \<open>
  A response of clean headers. Its start line must not be taken for that of a request, which happens when the reason phrase is one word that begins
  with the letters SIP; a body of blanks only is dropped by the parser.
\<close>

definition response_clean :: "response \<Rightarrow> bool" where
  "response_clean res \<longleftrightarrow>
     headers_ok (m_headers res) \<and> list_all header_clean (Headers (m_headers res)) \<and>
     m_sipVersion res = SipVersion \<and> CR \<notin> set (s_reason res) \<and>
     (CHR '' '' \<in> set (s_reason res) \<or> ToUpper (take 3 (s_reason res)) \<noteq> ''SIP'') \<and>
     (m_body res = '''' \<or> TrimSpace (m_body res) \<noteq> '''')"

lemma response_StartLine_clean:
  assumes "response_clean res"
  shows "\<not> isRequest (response_StartLine res)" "isResponse (response_StartLine res)" "CR \<notin> set (response_StartLine res)"
    "CHR '' '' \<notin> set (m_sipVersion res)"
proof -
  let ?l = "response_StartLine res" and ?n = "show_nat (unat (s_status res))"
  have res: "m_sipVersion res = SipVersion" "CR \<notin> set (s_reason res)"
    "CHR '' '' \<in> set (s_reason res) \<or> ToUpper (take 3 (s_reason res)) \<noteq> ''SIP''"
    using assms by (simp_all add: response_clean_def)
  have v: "CHR '' '' \<notin> set SipVersion" "ToUpper (take 3 SipVersion) = ''SIP''" "length SipVersion = 7" "CR \<notin> set SipVersion"
    by (simp_all add: SipVersion_def ToUpper_def upper_char_def byte_def CR_def)
  have n: "CHR '' '' \<notin> set ?n" "CR \<notin> set ?n" using show_nat_graph [of "unat (s_status res)"] by (auto simp: list_all_iff)
  have parts: "split_on (CHR '' '') ?l = SipVersion # ?n # split_on (CHR '' '') (s_reason res)"
    using res(1) v(1) n(1) by (simp add: response_StartLine_def split_on_append)
  have count: "length (filter ((=) (CHR '' '')) ?l) = Suc (length (split_on (CHR '' '') (s_reason res)))"
    using length_split_on [of "CHR '' ''" ?l] by (simp add: parts)
  obtain w ws where w: "split_on (CHR '' '') (s_reason res) = w # ws" by (meson neq_Nil_conv split_on_ne)
  show "\<not> isRequest ?l"
  proof (cases "CHR '' '' \<in> set (s_reason res)")
    case True
    then have "ws \<noteq> []" using length_split_on [of "CHR '' ''" "s_reason res"] w
      by (auto simp: filter_empty_conv)
    then show ?thesis using count w by (simp add: isRequest_def)
  next
    case False
    with res(3) show ?thesis by (simp add: isRequest_def parts split_on_notin)
  qed
  show "isResponse ?l" using count v(2,3) by (simp add: isResponse_def parts w)
  show "CR \<notin> set ?l" using res(1,2) v(4) n(2) by (simp add: response_StartLine_def) (simp add: CR_def)
  show "CHR '' '' \<notin> set (m_sipVersion res)" using res(1) v(1) by simp
qed

section \<open>Properties\<close>

text \<open>
  C7: A response whose headers, reason phrase and body are clean prints without error, and
  passing the text to \<^verbatim>\<open>ParseMessage\<close> returns a response with the same version, status, reason and body, the same
  header names in the same order and the same headers under each name.
\<close>

theorem ParseMessage_response_roundtrip:
  assumes "response_clean res"
  shows "\<exists>text res'. response_String res = Ok text \<and> ParseMessage uuids text = Some (Ok (Res res')) \<and>
    m_sipVersion res' = m_sipVersion res \<and> s_status res' = s_status res \<and>
    s_reason res' = s_reason res \<and> m_body res' = m_body res \<and> m_messID res' = uuids 0 \<and>
    hs_headerOrder (m_headers res') = hs_headerOrder (m_headers res) \<and>
    (\<forall>n. GetHeaders n (m_headers res') = GetHeaders n (m_headers res))"
proof -
  have ok: "headers_ok (m_headers res)" and body: "m_body res = '''' \<or> TrimSpace (m_body res) \<noteq> ''''"
    and "\<forall>h \<in> set (Headers (m_headers res)). \<exists>text. header_reads_back h text"
    using assms header_clean_reads_back by (auto simp: response_clean_def list_all_iff)
  then obtain f where "\<forall>h \<in> set (Headers (m_headers res)). header_reads_back h (f h)" by metis
  then have hdrs: "list_all2 header_reads_back (Headers (m_headers res)) (map f (Headers (m_headers res)))"
    by (simp add: list_all2_map2 list.rel_refl_strong)
  from headers_String_lines [OF ok hdrs] obtain t where printed: "response_String res = Ok t"
    by (simp add: response_String_def message_text_def)
  from ParseMessage_response_lines [OF ok hdrs response_StartLine_clean [OF assms] body printed] printed show ?thesis by blast
qed

definition sample_response :: response where
  "sample_response = blank_response\<lparr>m_sipVersion := SipVersion, s_status := 200, s_reason := ''OK'', m_body := ''x'',
     m_headers := \<lparr>hs_headers =
       [(''via'', [ViaHeader [\<lparr>vh_ProtocolName = ''SIP'', vh_ProtocolVersion = ''2.0'', vh_Transport = ''UDP'', vh_Host = ''h'', vh_Port = Some 5060,
          vh_Params = Some (Params_Add ''branch'' (Str ''z9hG4bKa'') NewParams)\<rparr>]]),
        (''from'', [FromHeader \<lparr>ah_DisplayName = Str ''A, B'', ah_Address = Some (SipUriPtr (blank_uri\<lparr>u_FUser := Str ''a'',
          u_FDomain := \<lparr>addr_Host = ''h'', addr_Port = None\<rparr>, u_FUriParams := Some NewParams, u_FHeaders := Some NewParams\<rparr>)),
          ah_Params = Some (Params_Add ''tag'' (Str ''1'') NewParams)\<rparr>]),
        (''call-id'', [CallID ''c1'']), (''cseq'', [CSeqHeader \<lparr>cs_SeqNo = 7, cs_MethodName = INVITE\<rparr>]),
        (''allow'', [AllowHeader [INVITE, ACK]]), (''x-a'', [GenericHeader ''X-A'' ''b c''])],
      hs_headerOrder = [''via'', ''from'', ''call-id'', ''cseq'', ''allow'', ''x-a'']\<rparr>\<rparr>"

text \<open>The headers of the sample.\<close>

lemmas clean_eval =
  params_clean_def params_ok_def Params_Add_def Params_Get_def NewParams_def token_char_def is_graph_def byte_def QUOTE_def
  Params_ToString_def Params_Keys_def param_value_text_def contains_ws_def is_abnf_ws_def TAB_def NUL_def

lemma sample_headers_clean:
  "hop_clean \<lparr>vh_ProtocolName = ''SIP'', vh_ProtocolVersion = ''2.0'', vh_Transport = ''UDP'', vh_Host = ''h'', vh_Port = Some 5060,
     vh_Params = Some (Params_Add ''branch'' (Str ''z9hG4bKa'') NewParams)\<rparr>"
  "address_clean \<lparr>ah_DisplayName = Str ''A, B'', ah_Address = Some (SipUriPtr (blank_uri\<lparr>u_FUser := Str ''a'',
     u_FDomain := \<lparr>addr_Host = ''h'', addr_Port = None\<rparr>, u_FUriParams := Some NewParams, u_FHeaders := Some NewParams\<rparr>)),
     ah_Params = Some (Params_Add ''tag'' (Str ''1'') NewParams)\<rparr>"
  "callid_clean ''c1''" "cseq_clean \<lparr>cs_SeqNo = 7, cs_MethodName = INVITE\<rparr>" "items_clean [INVITE, ACK]"
  "header_clean (GenericHeader ''X-A'' ''b c'')"
proof -
  let ?u = "blank_uri\<lparr>u_FUser := Str ''a'', u_FDomain := \<lparr>addr_Host = ''h'', addr_Port = None\<rparr>, u_FUriParams := Some NewParams,
    u_FHeaders := Some NewParams\<rparr>"
  have low: "ToLower ''X-A'' = ''x-a''" by code_simp
  show "hop_clean \<lparr>vh_ProtocolName = ''SIP'', vh_ProtocolVersion = ''2.0'', vh_Transport = ''UDP'', vh_Host = ''h'', vh_Port = Some 5060,
     vh_Params = Some (Params_Add ''branch'' (Str ''z9hG4bKa'') NewParams)\<rparr>"
    by (simp add: hop_clean_def via_char_def via_host_char_def clean_eval)
  have "uri_clean ?u"
    by (simp add: uri_clean_def userinfo_clean_def uri_char_def user_char_def uri_tail_text_def section_none blank_uri_def clean_eval)
  moreover have "SipUri_String ?u = ''sip:a@h''"
    by (simp add: SipUri_String_def SipUri_userinfo_def Addr_String_def section_none blank_uri_def NewParams_def)
  ultimately have "angle_clean ?u" by (simp add: angle_clean_def QUOTE_def)
  moreover have "address_params_clean (Params_Add ''tag'' (Str ''1'') NewParams)" by (simp add: address_params_clean_def clean_eval)
  ultimately show "address_clean \<lparr>ah_DisplayName = Str ''A, B'', ah_Address = Some (SipUriPtr ?u),
     ah_Params = Some (Params_Add ''tag'' (Str ''1'') NewParams)\<rparr>"
    by (simp add: address_clean_def display_clean_def QUOTE_def CR_def)
  show "callid_clean ''c1''" "cseq_clean \<lparr>cs_SeqNo = 7, cs_MethodName = INVITE\<rparr>" "items_clean [INVITE, ACK]"
    by (simp_all add: callid_clean_def cseq_clean_def items_clean_def text_clean_def maxCseq_def INVITE_def ACK_def is_graph_def byte_def CR_def)
  show "header_clean (GenericHeader ''X-A'' ''b c'')"
    by (simp add: low parser_table_eq text_clean_def is_graph_def byte_def CR_def)
qed

lemma sample_response_clean: "response_clean sample_response"
proof -
  have lower: "ToLower ''X-A'' = ''x-a''" "ToLower ''Via'' = ''via''" "ToLower ''From'' = ''from''"
    "ToLower ''Call-ID'' = ''call-id''" "ToLower ''CSeq'' = ''cseq''" "ToLower ''Allow'' = ''allow''" by code_simp+
  have "headers_ok (m_headers sample_response)"
    by (simp add: sample_response_def headers_ok_def entry_ok_def header_key_def lower address_ok_def hop_ok_def opt_params_ok_def
        sipuri_ok_def blank_uri_def)
  moreover have "list_all header_clean (Headers (m_headers sample_response))"
    using sample_headers_clean by (simp add: sample_response_def Headers_def headers_at_def del: header_clean.simps(10))
  moreover have "TrimSpace ''x'' = ''x''" by (rule TrimSpace_all_graph) (simp add: is_graph_def byte_def)
  moreover have "ToUpper (take 3 ''OK'') = ''OK''" by (simp add: ToUpper_def upper_char_def byte_def)
  ultimately show ?thesis by (simp add: response_clean_def sample_response_def CR_def)
qed

lemma sample_response_text:
  "response_String sample_response = Ok (join CRLF [''SIP/2.0 200 OK'', ''Via: SIP/2.0/UDP h:5060;branch=z9hG4bKa'',
     ''From: '' @ [QUOTE] @ ''A, B'' @ [QUOTE] @ '' <sip:a@h>;tag=1'', ''Call-ID: c1'', ''CSeq: 7 INVITE'', ''Allow: INVITE, ACK'', ''X-A: b c'', '''', ''x''])"
proof -
  have n: "show_nat 7 = ''7''" "show_nat 200 = ''200''" "show_nat 5060 = ''5060''"
    by (simp_all add: show_nat.simps digit_char_def char_of_def bit_Suc_0_iff)
  show ?thesis
    by (simp add: response_String_def message_text_def response_StartLine_def headers_String_def headers_at_def sample_response_def n
        SipVersion_def ViaHop_String_def header_params_text_def FromHeader_String_def display_name_text_def angle_uri_fmt_def
        SipUri_String_def SipUri_userinfo_def Addr_String_def section_none blank_uri_def port_text_def Params_Length_def
        INVITE_def ACK_def clean_eval)
qed

theorem ParseMessage_response_roundtrip_witness:
  "\<exists>res'. ParseMessage (\<lambda>_. ''id'') (join CRLF [''SIP/2.0 200 OK'', ''Via: SIP/2.0/UDP h:5060;branch=z9hG4bKa'',
      ''From: '' @ [QUOTE] @ ''A, B'' @ [QUOTE] @ '' <sip:a@h>;tag=1'', ''Call-ID: c1'', ''CSeq: 7 INVITE'', ''Allow: INVITE, ACK'', ''X-A: b c'', '''', ''x'']) =
       Some (Ok (Res res')) \<and> s_status res' = 200 \<and> s_reason res' = ''OK'' \<and> m_body res' = ''x'' \<and>
     hs_headerOrder (m_headers res') = [''via'', ''from'', ''call-id'', ''cseq'', ''allow'', ''x-a''] \<and>
     GetHeaders ''cseq'' (m_headers res') = [CSeqHeader \<lparr>cs_SeqNo = 7, cs_MethodName = INVITE\<rparr>] \<and>
     GetHeaders ''allow'' (m_headers res') = [AllowHeader [INVITE, ACK]]"
proof -
  have lower: "ToLower ''cseq'' = ''cseq''" "ToLower ''allow'' = ''allow''" by code_simp+
  have at: "GetHeaders ''cseq'' (m_headers sample_response) = [CSeqHeader \<lparr>cs_SeqNo = 7, cs_MethodName = INVITE\<rparr>]"
    "GetHeaders ''allow'' (m_headers sample_response) = [AllowHeader [INVITE, ACK]]"
    "hs_headerOrder (m_headers sample_response) = [''via'', ''from'', ''call-id'', ''cseq'', ''allow'', ''x-a'']"
    "s_status sample_response = 200" "s_reason sample_response = ''OK''" "m_body sample_response = ''x''"
    by (simp_all add: sample_response_def GetHeaders_at headers_at_def lower)
  from ParseMessage_response_roundtrip [OF sample_response_clean, of "\<lambda>_. ''id''"] sample_response_text at show ?thesis by force
qed

end
