(* ===== verification/Gsip_Stop.thy ===== *)
theory Gsip_Stop
  imports Gsip_Conn
begin

text \<open>
  The end of a parser (\<^verbatim>\<open>Stop\<close> and \<^verbatim>\<open>Reset\<close> in \<^verbatim>\<open>sip/parser.go\<close>, \<^verbatim>\<open>Stop\<close> in \<^verbatim>\<open>sip/parserbuffer.go\<close>): what the goroutine of the
  parser still does once its input is closed, and when \<^verbatim>\<open>Stop\<close> returns.
\<close>

section \<open>Reading a closed buffer\<close>

text \<open>
  After \<^verbatim>\<open>Stop\<close> the bytes that were written can still be read, then every read fails. A read that fails has taken what was
  left: \<^verbatim>\<open>NextLine\<close> all of an unfinished line, \<^verbatim>\<open>NextChunk\<close> all of a short chunk. The loop over the header lines
  ends on the error without a look at the line it has collected.
\<close>

function header_closed :: "string \<Rightarrow> Header list \<Rightarrow> string \<Rightarrow> (Header list \<times> string) outcome" where
  "header_closed buffer hers input =
     (case NextLine [] input of
        None \<Rightarrow> Ok (hers, [])
      | Some (line, rest) \<Rightarrow>
          if length line = 0 then omap (\<lambda>hers'. (hers', rest)) (flush_header buffer hers)
          else if \<not> is_abnf_ws (hd line) then obind (flush_header buffer hers) (\<lambda>hers'. header_closed line hers' rest)
          else if 0 < length buffer then header_closed (buffer @ '' '' @ line) hers rest
          else header_closed buffer hers rest)"
  by pat_completeness auto
termination
  by (relation "measure (\<lambda>(buffer, hers, input). length input)") (auto dest: NextLine_shorter)

declare header_closed.simps [simp del]

text \<open>
  What the goroutine does next: it ends, it waits for a length that nobody will send, or it offers an event.
\<close>

datatype stop_turn = Ended | Hangs | Offers event parser

definition deliver_closed :: "Message \<Rightarrow> nat \<Rightarrow> string \<Rightarrow> parser \<Rightarrow> stop_turn" where
  "deliver_closed msg contentLength input p =
     (case NextChunk contentLength input of
        Some (body, rest) \<Rightarrow> Offers (Parsed (if TrimSpace body \<noteq> '''' then set_Message_body body msg else msg)) (p\<lparr>pr_input := rest\<rparr>)
      | None \<Rightarrow>
          (case Message_String msg of
             Panic \<Rightarrow> Offers Crashed (p\<lparr>pr_dead := True, pr_input := []\<rparr>)
           | _ \<Rightarrow> Offers (ParseErr (BrokenMessageError ''read message body failed'')) (p\<lparr>pr_input := []\<rparr>)))"

definition body_closed :: "Message \<Rightarrow> string \<Rightarrow> parser \<Rightarrow> stop_turn" where
  "body_closed msg input p =
     (if pr_streamed p then
        (case streamed_length msg of
           Panic \<Rightarrow> Offers Crashed (p\<lparr>pr_dead := True, pr_input := input\<rparr>)
         | Fail e \<Rightarrow> Offers (ParseErr e) (p\<lparr>pr_input := input\<rparr>)
         | Ok contentLength \<Rightarrow> deliver_closed msg contentLength input p)
      else
        (case pr_bodyLengths p of
           [] \<Rightarrow> Hangs
         | (bl, len) # q \<Rightarrow> deliver_closed msg (nat bl) input (p\<lparr>pr_bodyLengths := q\<rparr>)))"

definition start_closed :: "Message \<Rightarrow> string \<Rightarrow> parser \<Rightarrow> stop_turn" where
  "start_closed msg rest p =
     (case header_closed [] [] rest of
        Ok (hers, rest2) \<Rightarrow>
          (case add_headers hers (Message_headers msg) of
             Ok hs \<Rightarrow> body_closed (set_Message_headers hs msg) rest2 (p\<lparr>pr_count := Suc (pr_count p)\<rparr>)
           | _ \<Rightarrow> Offers Crashed (p\<lparr>pr_dead := True, pr_input := rest2\<rparr>))
      | _ \<Rightarrow> Offers Crashed (p\<lparr>pr_dead := True, pr_input := rest\<rparr>))"

definition message_closed :: "(nat \<Rightarrow> string) \<Rightarrow> parser \<Rightarrow> stop_turn" where
  "message_closed uuids p =
     (case NextLine [] (pr_input p) of
        None \<Rightarrow> Ended
      | Some (startLine, rest) \<Rightarrow>
          (case parse_start (uuids (pr_count p)) startLine of
             Panic \<Rightarrow> Offers Crashed (p\<lparr>pr_dead := True, pr_input := rest\<rparr>)
           | Fail e \<Rightarrow>
               Offers (ParseErr InvalidStartLineError)
                 (p\<lparr>pr_input := rest, pr_pending := (if pr_streamed p then None else Some (length startLine))\<rparr>)
           | Ok msg \<Rightarrow> start_closed msg rest p))"

text \<open>A skip that fails is only logged, and the next line cannot be read either.\<close>

definition parse_closed :: "(nat \<Rightarrow> string) \<Rightarrow> parser \<Rightarrow> stop_turn" where
  "parse_closed uuids p =
     (if pr_dead p then Ended
      else case pr_pending p of
        None \<Rightarrow> message_closed uuids p
      | Some n \<Rightarrow>
          (case pr_bodyLengths p of
             [] \<Rightarrow> Hangs
           | (bl, len) # q \<Rightarrow>
               (let skip = len - int n - 2
                in if skip < 0 then Offers Crashed (p\<lparr>pr_dead := True, pr_bodyLengths := q\<rparr>)
                   else case NextChunk (nat skip) (pr_input p) of
                          None \<Rightarrow> Ended
                        | Some (_, rest) \<Rightarrow> message_closed uuids (p\<lparr>pr_pending := None, pr_bodyLengths := q, pr_input := rest\<rparr>))))"

section \<open>Stop and Reset\<close>

text \<open>
  \<^verbatim>\<open>Stop\<close> closes the buffer and waits until the goroutine has ended, while the readers of the two channels take \<open>taken\<close>
  more events: the events they get and whether \<^verbatim>\<open>Stop\<close> returns. \<open>parser_Stop\<close> is the parser after it.
\<close>

primrec stop_run :: "(nat \<Rightarrow> string) \<Rightarrow> nat \<Rightarrow> parser \<Rightarrow> event list \<times> bool" where
  "stop_run uuids 0 p = ([], parse_closed uuids p = Ended)"
| "stop_run uuids (Suc taken) p =
     (case parse_closed uuids p of
        Ended \<Rightarrow> ([], True)
      | Hangs \<Rightarrow> ([], False)
      | Offers e p' \<Rightarrow> (case stop_run uuids taken p' of (es, returns) \<Rightarrow> (e # es, returns)))"

text \<open>
  A parser with the state of its pipe. \<^verbatim>\<open>Reset\<close> makes neither a new pipe nor a new channel of lengths: a write to the closed pipe
  fails, and sending on the closed channel panics.
\<close>

record piped_parser =
  pp_parser :: parser
  pp_closed :: bool

definition parser_Stop :: "piped_parser \<Rightarrow> piped_parser" where
  "parser_Stop pp = pp\<lparr>pp_parser := (pp_parser pp)\<lparr>pr_stopped := True, pr_input := []\<rparr>, pp_closed := True\<rparr>"

definition parser_Reset :: "piped_parser \<Rightarrow> piped_parser" where
  "parser_Reset pp = pp\<lparr>pp_parser := (pp_parser pp)\<lparr>pr_stopped := False\<rparr>\<rparr>"

definition piped_Write :: "string \<Rightarrow> piped_parser \<Rightarrow> nat outcome \<times> piped_parser" where
  "piped_Write data pp =
     (let p = pp_parser pp
      in if \<not> pp_closed pp \<or> pr_stopped p then (case parser_Write data p of (r, p') \<Rightarrow> (r, pp\<lparr>pp_parser := p'\<rparr>))
         else if pr_streamed p then (Fail (WriteError ''write data failed''), pp)
         else if getBodyLength data = - 1 then (Ok 0, pp)
         else (Panic, pp))"

section \<open>A closed buffer and an open one\<close>

lemma header_closed_open:
  "(\<forall>res. header_section buf hers x = Some res \<longrightarrow> header_closed buf hers x = res) \<and>
   (header_section buf hers x = None \<longrightarrow> (\<exists>hers'. header_closed buf hers x = Ok (hers', [])))"
proof (induction buf hers x rule: header_closed.induct)
  case (1 buf hers x)
  show ?case
  proof (cases "NextLine [] x")
    case None
    then show ?thesis by (simp add: header_section_wait header_closed.simps [of buf hers x])
  next
    case (Some lr)
    obtain line rest where l: "NextLine [] x = Some (line, rest)" using Some by (cases lr) auto
    note IH = 1 [OF Some, of line rest]
    show ?thesis
      using l Some IH
      by (cases "flush_header buf hers") (auto simp: header_section_line [OF l] header_closed.simps [of buf hers x])
  qed
qed

text \<open>Where an open buffer makes the goroutine wait inside a message, a closed one makes it offer one event and end.\<close>

lemma deliver_closed_wait:
  assumes "deliver msg n x p = None"
  shows "\<exists>e p'. deliver_closed msg n x p = Offers e p' \<and> pr_input p' = [] \<and> pr_pending p' = pr_pending p \<and> (\<forall>msg'. e \<noteq> Parsed msg')"
  using assms by (auto simp: deliver_def deliver_closed_def split: option.splits outcome.split)

lemma deliver_closed_empty: "\<exists>e p'. deliver_closed msg n [] p = Offers e p' \<and> pr_input p' = [] \<and> pr_pending p' = pr_pending p"
  by (cases n) (auto simp: deliver_closed_def NextChunk_def split: outcome.split)

lemma body_closed_wait:
  assumes "pr_streamed p" "read_body msg x p = None"
  shows "\<exists>e p'. body_closed msg x p = Offers e p' \<and> pr_input p' = [] \<and> pr_pending p' = pr_pending p \<and> (\<forall>msg'. e \<noteq> Parsed msg')"
  using assms by (cases "streamed_length msg") (auto simp: read_body_def body_closed_def dest: deliver_closed_wait)

lemma body_closed_empty:
  assumes "pr_streamed p"
  shows "\<exists>e p'. body_closed msg [] p = Offers e p' \<and> pr_input p' = [] \<and> pr_pending p' = pr_pending p"
  using assms deliver_closed_empty by (cases "streamed_length msg") (auto simp: body_closed_def)

lemma start_closed_wait:
  assumes "pr_streamed p" "after_start msg rest p = None"
  obtains e p' where "start_closed msg rest p = Offers e p'" "pr_input p' = []" "pr_pending p' = pr_pending p"
    "\<And>msg'. e = Parsed msg' \<Longrightarrow> header_section [] [] rest = None"
proof (cases "header_section [] [] rest")
  case None
  then obtain hers where hers: "header_closed [] [] rest = Ok (hers, [])" using header_closed_open by blast
  show thesis
  proof (cases "add_headers hers (Message_headers msg)")
    case (Ok hs)
    obtain e p' where "body_closed (set_Message_headers hs msg) [] (p\<lparr>pr_count := Suc (pr_count p)\<rparr>) = Offers e p'"
      "pr_input p' = []" "pr_pending p' = pr_pending p"
      using body_closed_empty [of "p\<lparr>pr_count := Suc (pr_count p)\<rparr>"] assms(1) by fastforce
    with hers Ok None show thesis by (intro that [of e p']) (simp_all add: start_closed_def)
  qed (use hers None in \<open>auto simp: start_closed_def intro: that\<close>)
next
  case (Some res)
  obtain hers rest2 hs where ok: "res = Ok (hers, rest2)" "add_headers hers (Message_headers msg) = Ok hs"
    "read_body (set_Message_headers hs msg) rest2 (p\<lparr>pr_count := Suc (pr_count p)\<rparr>) = None"
    using assms(2) Some by (auto simp: after_start_def split: outcome.splits)
  moreover have "header_closed [] [] rest = Ok (hers, rest2)" using header_closed_open Some ok(1) by blast
  moreover obtain e p' where "body_closed (set_Message_headers hs msg) rest2 (p\<lparr>pr_count := Suc (pr_count p)\<rparr>) = Offers e p'"
      "pr_input p' = []" "\<forall>msg'. e \<noteq> Parsed msg'" "pr_pending p' = pr_pending p"
    using body_closed_wait [OF _ ok(3)] assms(1) by fastforce
  ultimately show thesis by (intro that [of e p']) (simp_all add: start_closed_def)
qed

lemma stop_in_message:
  assumes "pr_streamed p" "\<not> pr_dead p" "pr_pending p = None" "parse_step uuids p = None"
  shows "case NextLine [] (pr_input p) of
      None \<Rightarrow> stop_run uuids 0 p = ([], True)
    | Some (startLine, rest) \<Rightarrow>
        stop_run uuids 0 p = ([], False) \<and>
        (\<exists>e. stop_run uuids 1 p = ([e], True) \<and> (\<forall>msg. e = Parsed msg \<longrightarrow> header_section [] [] rest = None))"
proof (cases "NextLine [] (pr_input p)")
  case None
  with assms show ?thesis by (simp add: parse_closed_def message_closed_def)
next
  case (Some lr)
  obtain line rest where l: "NextLine [] (pr_input p) = Some (line, rest)" using Some by (cases lr) auto
  obtain msg where msg: "parse_start (uuids (pr_count p)) line = Ok msg" "after_start msg rest p = None"
    using assms l by (auto simp: parse_step_def read_message_def split: outcome.splits)
  obtain e p' where e: "start_closed msg rest p = Offers e p'" "pr_input p' = []" "pr_pending p' = pr_pending p"
    "\<And>msg'. e = Parsed msg' \<Longrightarrow> header_section [] [] rest = None"
    by (rule start_closed_wait [OF assms(1) msg(2)]) blast
  have turn: "parse_closed uuids p = Offers e p'" using assms(2,3) l msg(1) e(1) by (simp add: parse_closed_def message_closed_def)
  have "NextLine [] [] = None" by (simp add: NextLine.simps)
  then have "parse_closed uuids p' = Ended" using e(2,3) assms(3) by (simp add: parse_closed_def message_closed_def)
  with turn l e(4) show ?thesis by auto
qed

text \<open>
  C22: \<^verbatim>\<open>Stop\<close> of a streamed parser that has read all it can returns on its own exactly if the parser has not begun a
  message. Inside a message - its peer closed the connection there - the goroutine of the parser still offers one event:
  when nobody takes it, as once the handler of the connection is cancelled, \<^verbatim>\<open>Stop\<close> waits for ever; when it is
  taken \<^verbatim>\<open>Stop\<close> returns. That event is a message, complete to all appearances, only if the header section was cut off.
\<close>

theorem Stop_inside_message:
  assumes "pr_streamed p" "\<not> pr_dead p" "pr_pending p = None" "parse_step uuids p = None"
  shows "case NextLine [] (pr_input p) of
      None \<Rightarrow> stop_run uuids 0 p = ([], True)
    | Some (startLine, rest) \<Rightarrow>
        stop_run uuids 0 p = ([], False) \<and>
        (\<exists>e. stop_run uuids 1 p = ([e], True) \<and> (\<forall>msg. e = Parsed msg \<longrightarrow> header_section [] [] rest = None))"
  by (rule stop_in_message [OF assms])

section \<open>A connection that breaks\<close>

lemma drain_waits: "parse_step uuids (snd (drain uuids p)) = None"
proof (induction uuids p rule: drain.induct)
  case (1 uuids p)
  show ?case
  proof (cases "parse_step uuids p")
    case (Some ep)
    obtain e p' where ep: "ep = (e, p')" by force
    have "parse_step uuids (snd (drain uuids p')) = None" by (rule 1 [OF Some]) (simp_all add: ep)
    with Some ep show ?thesis by (cases "drain uuids p'") (simp add: drain.simps [of uuids p])
  qed (simp add: drain.simps [of uuids p])
qed

text \<open>Whether the goroutine waits does not depend on the flag \<^verbatim>\<open>stopped\<close>.\<close>

lemma read_body_waits_cong:
  assumes "pr_streamed p = pr_streamed q" "pr_bodyLengths p = pr_bodyLengths q"
  shows "read_body msg x p = None \<longleftrightarrow> read_body msg x q = None"
  using assms by (auto simp: read_body_def deliver_def split: outcome.splits list.splits option.splits)

lemma after_start_waits_cong:
  assumes "pr_streamed p = pr_streamed q" "pr_bodyLengths p = pr_bodyLengths q"
  shows "after_start msg x p = None \<longleftrightarrow> after_start msg x q = None"
  using assms read_body_waits_cong [of "p\<lparr>pr_count := Suc (pr_count p)\<rparr>" "q\<lparr>pr_count := Suc (pr_count q)\<rparr>"]
  by (auto simp: after_start_def split: outcome.splits option.splits)

lemma parse_step_stopped:
  assumes "pr_pending p = None"
  shows "parse_step uuids (p\<lparr>pr_stopped := b\<rparr>) = None \<longleftrightarrow> parse_step uuids p = None"
  using assms after_start_waits_cong [of "p\<lparr>pr_stopped := b\<rparr>" p]
  by (auto simp: parse_step_def read_message_def split: outcome.splits option.splits)

lemma read_loop_broken:
  assumes "\<not> pr_stopped prs"
  shows "read_loop uuids (map ReadData cs @ [ReadBroken err]) (handler, prs) =
    (fst (write_all uuids (kept cs) prs) @ [ParseErr err], handler_Close handler, (snd (write_all uuids (kept cs) prs))\<lparr>pr_stopped := True\<rparr>)"
  using assms
proof (induction cs arbitrary: prs)
  case Nil
  show ?case by (simp add: read_turn_def kept_def)
next
  case (Cons c cs)
  have "\<not> pr_stopped (snd (drain uuids (snd (parser_Write c prs))))"
    using Cons.prems by (simp add: drain_not_stopped parser_Write_def)
  from Cons.IH [OF this] Cons.IH [OF Cons.prems] Cons.prems show ?case
    by (auto simp: read_data_turn kept_def split: prod.split)
qed

text \<open>
  C21: When the peer of a streamed connection closes it, the goroutine that reads cancels the handler and then stops the
  parser. That stop returns exactly if the bytes behind the last message do not begin another one; otherwise, once the handler has stopped to listen, the goroutine and
  that of the parser wait for ever. What is left behind the last message depends on the bytes alone, not on how the reads cut them.
\<close>

theorem disconnect_blocks_reader:
  assumes left: "write_all uuids [concat (kept cs)] (NewParser True) = (es, p)" and alive: "\<not> pr_dead p"
  shows "\<exists>handler' p'. read_loop uuids (map ReadData cs @ [ReadBroken err]) (handler, NewParser True) = (es @ [ParseErr err], handler', p') \<and>
    ch_cancel handler' \<and> pr_stopped p' \<and> pr_input p' = pr_input p \<and>
    (snd (stop_run uuids 0 p') \<longleftrightarrow> NextLine [] (pr_input p) = None)"
proof -
  have "\<not> pr_stopped (NewParser True)" by (simp add: NewParser_def)
  from read_loop_broken [OF this, of uuids cs err handler] left
  have loop: "read_loop uuids (map ReadData cs @ [ReadBroken err]) (handler, NewParser True) =
      (es @ [ParseErr err], handler_Close handler, p\<lparr>pr_stopped := True\<rparr>)"
    using write_all_concat [of uuids "kept cs"] by simp
  have p: "p = snd (drain uuids (snd (parser_Write (concat (kept cs)) (NewParser True))))"
    using left by (auto split: prod.splits)
  have "snd (parser_Write (concat (kept cs)) (NewParser True)) = stream_parser (0, False) (concat (kept cs))"
    by (simp add: parser_Write_def NewParser_def stream_parser_def)
  then have fields: "pr_streamed p" "pr_pending p = None" by (auto simp: p drain_stream split: prod.split)
  have "parse_step uuids (p\<lparr>pr_stopped := True\<rparr>) = None" using fields(2) by (simp add: parse_step_stopped) (simp add: p drain_waits)
  from stop_in_message [OF _ _ _ this] fields alive
  have "snd (stop_run uuids 0 (p\<lparr>pr_stopped := True\<rparr>)) \<longleftrightarrow> NextLine [] (pr_input p) = None"
    by (auto split: option.splits)
  with loop show ?thesis by simp
qed

text \<open>
  A parser that was stopped cannot be used again: after \<^verbatim>\<open>Reset\<close>, which is to reset its state, every \<^verbatim>\<open>Write\<close> to a streamed parser fails, and every
  \<^verbatim>\<open>Write\<close> of a datagram with an empty line to the other kind panics.
\<close>

theorem Reset_does_not_revive:
  "piped_Write data (parser_Reset (parser_Stop pp)) =
    ((if pr_streamed (pp_parser pp) then Fail (WriteError ''write data failed'')
      else if getBodyLength data = - 1 then Ok 0 else Panic), parser_Reset (parser_Stop pp))"
  by (simp add: piped_Write_def parser_Reset_def parser_Stop_def Let_def)

section \<open>Witness\<close>

text \<open>A response that is cut off behind its length: the line that follows is lost.\<close>

definition sample_cut :: parser where
  "sample_cut = (NewParser True)\<lparr>pr_input := ''SIP/2.0 200 OK'' @ CRLF @ ''Content-Length: 0'' @ CRLF @ ''CSeq: 7 INVITE'' @ CRLF\<rparr>"

lemma sample_cut_length: "ParseHeader parser_table ''Content-Length: 0'' = Ok [ContentLength 0]"
proof -
  have zero: "show_nat 0 = ''0''" by (simp add: show_nat.simps digit_char_def char_of_def bit_Suc_0_iff)
  have "list_all is_graph ''Content-Length''" "list_all is_graph ''0''" by (simp_all add: is_graph_def byte_def)
  then have "ParseHeader parser_table ''Content-Length: 0'' = parseContentLength ''content-length'' ''0''"
    using ParseHeader_line [of "''Content-Length''" parser_table "''0''"] TrimSpace_all_graph [of "''0''"]
    by (simp add: parser_table_eq)
  with zero ParseUint_show [of 0 32] TrimSpace_all_graph [of "''0''"] show ?thesis
    by (simp add: parseContentLength_def parse_uint32_def is_graph_def byte_def)
qed

lemma sample_cut_start:
  obtains res where "parse_start ''id'' ''SIP/2.0 200 OK'' = Ok (Res res)" "m_headers res = empty_headers" "s_status res = 200"
proof -
  let ?res = "blank_response\<lparr>m_sipVersion := SipVersion, s_status := 200, s_reason := ''OK''\<rparr>"
  have "show_nat 200 = ''200''" by (simp add: show_nat.simps digit_char_def char_of_def bit_Suc_0_iff)
  then have line: "response_StartLine ?res = ''SIP/2.0 200 OK''" by (simp add: response_StartLine_def SipVersion_def)
  have "\<not> isRequest (response_StartLine ?res)" "isResponse (response_StartLine ?res)"
    unfolding line by (simp_all add: isRequest_def isResponse_def ToUpper_def upper_char_def byte_def)
  moreover have "CHR '' '' \<notin> set (m_sipVersion ?res)" by (simp add: SipVersion_def)
  ultimately show thesis
    using StatusLine_print [of ?res] line
    by (intro that [of "SetReason ''OK'' (SetStatusCode 200 (blank_response\<lparr>m_messID := ''id'', m_sipVersion := SipVersion\<rparr>))"])
      (simp_all add: parse_start_def NewResponse_def newHeaders_def SetReason_def SetStatusCode_def blank_response_def)
qed

lemma sample_cut_lines:
  "NextLine [] (pr_input sample_cut) = Some (''SIP/2.0 200 OK'', ''Content-Length: 0'' @ CRLF @ ''CSeq: 7 INVITE'' @ CRLF)"
  "header_section [] [] (''Content-Length: 0'' @ CRLF @ ''CSeq: 7 INVITE'' @ CRLF) = None"
  "header_closed [] [] (''Content-Length: 0'' @ CRLF @ ''CSeq: 7 INVITE'' @ CRLF) = Ok ([ContentLength 0], [])"
proof -
  have line: "NextLine [] (''SIP/2.0 200 OK'' @ CRLF @ rest) = Some (''SIP/2.0 200 OK'', rest)"
    "NextLine [] (''Content-Length: 0'' @ CRLF @ rest) = Some (''Content-Length: 0'', rest)"
    "NextLine [] (''CSeq: 7 INVITE'' @ CRLF) = Some (''CSeq: 7 INVITE'', [])" "NextLine [] [] = None" for rest
    using NextLine_line [of "''SIP/2.0 200 OK''" rest] NextLine_line [of "''Content-Length: 0''" rest]
      NextLine_line [of "''CSeq: 7 INVITE''" "[]"] by (simp_all add: CR_def NextLine.simps [of "[]" "[]"])
  show "NextLine [] (pr_input sample_cut) = Some (''SIP/2.0 200 OK'', ''Content-Length: 0'' @ CRLF @ ''CSeq: 7 INVITE'' @ CRLF)"
    using line(1) by (simp add: sample_cut_def)
  have flush: "flush_header [] [] = Ok []" "flush_header ''Content-Length: 0'' [] = Ok [ContentLength 0]"
    using sample_cut_length by (simp_all add: flush_header_def)
  have ws: "\<not> is_abnf_ws (CHR ''C'')" by (simp add: is_abnf_ws_def TAB_def)
  show "header_section [] [] (''Content-Length: 0'' @ CRLF @ ''CSeq: 7 INVITE'' @ CRLF) = None"
    using flush ws by (simp add: header_section_line [OF line(2)] header_section_line [OF line(3)] header_section_wait [OF line(4)]
        del: append.simps)
  show "header_closed [] [] (''Content-Length: 0'' @ CRLF @ ''CSeq: 7 INVITE'' @ CRLF) = Ok ([ContentLength 0], [])"
    using flush ws line(2) [of "''CSeq: 7 INVITE'' @ CRLF"] line(3,4)
    by (simp add: header_closed.simps [of "[]"] header_closed.simps [of "''Content-Length: 0''"] header_closed.simps [of "''CSeq: 7 INVITE''"]
        del: append.simps)
qed

lemma sample_cut_waits: "parse_step (\<lambda>_. ''id'') sample_cut = None"
proof (rule sample_cut_start)
  fix res
  assume "parse_start ''id'' ''SIP/2.0 200 OK'' = Ok (Res res)"
  moreover have "\<not> pr_dead sample_cut" "pr_pending sample_cut = None" by (simp_all add: sample_cut_def NewParser_def)
  ultimately show ?thesis
    using sample_cut_lines(1,2) by (simp add: parse_step_def read_message_def after_start_def del: append.simps)
qed

theorem Stop_inside_message_witness:
  "stop_run (\<lambda>_. ''id'') 0 sample_cut = ([], False) \<and>
   (\<exists>res. stop_run (\<lambda>_. ''id'') 1 sample_cut = ([Parsed (Res res)], True) \<and> s_status res = 200 \<and> GetHeaders ''CSeq'' (m_headers res) = [])"
proof -
  let ?rest = "''Content-Length: 0'' @ CRLF @ ''CSeq: 7 INVITE'' @ CRLF" and ?u = "\<lambda>_. ''id''"
  obtain res where res: "parse_start ''id'' ''SIP/2.0 200 OK'' = Ok (Res res)" "m_headers res = empty_headers" "s_status res = 200"
    by (rule sample_cut_start)
  have p: "pr_streamed sample_cut" "\<not> pr_dead sample_cut" "pr_pending sample_cut = None"
    by (simp_all add: sample_cut_def NewParser_def)
  note wait = sample_cut_waits
  obtain hs where hs: "AddHeader (ContentLength 0) empty_headers = Ok hs" using hm.add_total [OF headers_ok_empty, of "ContentLength 0"] by auto
  have at: "headers_at hs k = (if k = ''content-length'' then [ContentLength 0] else [])" for k
    using hm.get_add [OF headers_ok_empty _ hs, of k] by (simp add: header_key_simps headers_at_def empty_headers_def)
  have names: "GetHeaders ''Content-Length'' hs = [ContentLength 0]" "GetHeaders ''CSeq'' hs = []"
    by (simp_all add: GetHeaders_at at ToLower_def lower_char_def byte_def char_of_def bit_iff_odd)
  obtain p' where "parse_closed ?u sample_cut = Offers (Parsed (Res (res\<lparr>m_headers := hs\<rparr>))) p'"
    using p res sample_cut_lines(1,3) hs names(1)
    by (auto simp: parse_closed_def message_closed_def start_closed_def body_closed_def streamed_length_def deliver_closed_def NextChunk_def
        simp del: append.simps)
  with Stop_inside_message [OF p wait] sample_cut_lines(1) res(3) names(2)
  show ?thesis by auto
qed

theorem disconnect_blocks_reader_witness:
  "\<exists>handler' p'. read_loop (\<lambda>_. ''id'') [ReadData (pr_input sample_cut), ReadBroken NumRange]
      (CreateConnectionHandler (CreateConnection ''tcp:h:1'' False 7) SockTTL 0, NewParser True) = ([ParseErr NumRange], handler', p') \<and>
    ch_cancel handler' \<and> \<not> snd (stop_run (\<lambda>_. ''id'') 0 p')"
proof -
  have kept: "kept [pr_input sample_cut] = [pr_input sample_cut]" by (simp add: kept_def sample_cut_def NUL_def)
  have "snd (parser_Write (pr_input sample_cut) (NewParser True)) = sample_cut"
    by (simp add: parser_Write_def NewParser_def sample_cut_def)
  then have "write_all (\<lambda>_. ''id'') [pr_input sample_cut] (NewParser True) = ([], sample_cut)"
    using sample_cut_waits by (simp add: drain.simps [of _ sample_cut])
  then have left: "write_all (\<lambda>_. ''id'') [concat (kept [pr_input sample_cut])] (NewParser True) = ([], sample_cut)"
    using kept by simp
  have "\<not> pr_dead sample_cut" by (simp add: sample_cut_def NewParser_def)
  from disconnect_blocks_reader [OF left this, of NumRange "CreateConnectionHandler (CreateConnection ''tcp:h:1'' False 7) SockTTL 0"]
    sample_cut_lines(1) show ?thesis by (simp del: read_loop.simps stop_run.simps) blast
qed

end
