(* ===== verification/Gsip_Listener.thy ===== *)
theory Gsip_Listener
  imports Gsip_Conn
begin

text \<open>
  The pool of listeners from the inside (\<^verbatim>\<open>transport/listener_pool.go\<close>, \<^verbatim>\<open>transport/listener_handler.go\<close>): the operations behind the
  exported ones, the goroutine that passes accepted connections up, and the end of a handler and of the pool.
\<close>

section \<open>The operations behind the exported ones\<close>

definition lp_get :: "string \<Rightarrow> listenerPool \<Rightarrow> nat outcome" where
  "lp_get key pool =
     (case map_of (hp_handleMap pool) key of
        Some handler \<Rightarrow> Ok handler
      | None \<Rightarrow> Fail (Errorf ''listener not found in the pool''))"

definition lp_put :: "string \<Rightarrow> nat \<Rightarrow> listenerPool \<Rightarrow> listenerPool \<times> gerror option" where
  "lp_put key listener pool =
     (case lp_get key pool of
        Ok _ \<Rightarrow> (pool, Some (Errorf ''key already exists in the pool''))
      | _ \<Rightarrow>
          (let h = length (hp_heap pool)
           in (pool\<lparr>hp_heap := hp_heap pool @ [CreateListenerHandler key listener],
                    hp_handleMap := AList.update key h (hp_handleMap pool),
                    hp_serving := hp_serving pool @ [h]\<rparr>, None)))"

text \<open>As in the pool of connections, the slices start with as many zero values as there are entries.\<close>

definition lp_all :: "range_order \<Rightarrow> listenerPool \<Rightarrow> nat option list" where
  "lp_all order pool =
     replicate (length (hp_handleMap pool)) None @ map (\<lambda>(_, h). Some (lh_listener (hp_heap pool ! h))) (order (hp_handleMap pool))"

definition lp_allKeys :: "range_order \<Rightarrow> listenerPool \<Rightarrow> string list" where
  "lp_allKeys order pool = replicate (length (hp_handleMap pool)) '''' @ map fst (order (hp_handleMap pool))"

definition lp_del :: "string \<Rightarrow> listenerPool \<Rightarrow> listenerPool \<times> gerror option" where
  "lp_del key pool =
     (case lp_get key pool of
        Ok h \<Rightarrow>
          (pool\<lparr>hp_heap := (hp_heap pool)[h := listener_Close (hp_heap pool ! h)],
                hp_handleMap := AList.delete key (hp_handleMap pool)\<rparr>, None)
      | _ \<Rightarrow> (pool, Some (Errorf ''key already exists in the pool'')))"

definition lp_delAll :: "range_order \<Rightarrow> listenerPool \<Rightarrow> listenerPool" where
  "lp_delAll order pool =
     pool\<lparr>hp_heap := fold (close_at listener_Close) (order (hp_handleMap pool)) (hp_heap pool), hp_handleMap := []\<rparr>"

definition lp_Length :: "listenerPool \<Rightarrow> nat" where
  "lp_Length pool = length (hp_handleMap pool)"

section \<open>The goroutines\<close>

text \<open>
  A turn of \<^verbatim>\<open>ListenHandlers\<close>, for the connections and errors of the handlers: what is passed up and whether the loop goes on.
\<close>

definition lp_ListenHandlers_turn :: "bool \<Rightarrow> connection listen_case \<Rightarrow> (gerror + connection) option \<times> bool" where
  "lp_ListenHandlers_turn taken c =
     (case c of
        ListenCancel \<Rightarrow> (None, False)
      | ListenClosed \<Rightarrow> (None, False)
      | ListenValue None \<Rightarrow> (None, True)
      | ListenValue (Some conn) \<Rightarrow> if taken then (Some (Inr conn), True) else (None, False)
      | ListenError None \<Rightarrow> (None, True)
      | ListenError (Some err) \<Rightarrow> if taken then (Some (Inl err), True) else (None, False))"

text \<open>\<^verbatim>\<open>release\<close>: the handlers are closed, then it waits for their goroutines (\<^term>\<open>None\<close>); the caller closes \<^verbatim>\<open>done\<close>.\<close>

definition lp_release :: "range_order \<Rightarrow> listenerPool \<Rightarrow> listenerPool option" where
  "lp_release order pool =
     (let pool1 = lp_delAll order pool
      in if hp_serving pool1 = [] then Some (pool1\<lparr>hp_done := True\<rparr>) else None)"

text \<open>
  The end of \<^verbatim>\<open>ListenerServer\<close> of the handler \<open>h\<close>, once its two goroutines have returned: it closes the handler and counts itself out. The entry
  of the pool stays.
\<close>

definition ListenerServer_end :: "nat \<Rightarrow> listenerPool \<Rightarrow> listenerPool" where
  "ListenerServer_end h pool =
     pool\<lparr>hp_heap := (hp_heap pool)[h := listener_Close (hp_heap pool ! h)], hp_serving := remove1 h (hp_serving pool)\<rparr>"

datatype net_listener = TCPListener | UnixListener | OtherListener

definition listenerNetwork :: "net_listener \<Rightarrow> string" where
  "listenerNetwork ls = (case ls of TCPListener \<Rightarrow> ''tcp'' | UnixListener \<Rightarrow> ''unix'' | OtherListener \<Rightarrow> '''')"

section \<open>One pool, two files\<close>

text \<open>The two files of the pools are the same code: the operations of this one are those of the generic pool.\<close>

lemma lp_generic:
  "lp_get key pool = pool_get ''listener'' key pool"
  "lp_put key listener pool = pool_put ''listener'' key (CreateListenerHandler key listener) pool"
  "lp_all order pool = map (map_option lh_listener) (pool_all order pool)"
  "lp_del key pool = pool_del listener_Close ''listener'' key pool"
  "lp_delAll order pool = pool_delAll listener_Close order pool"
  by (auto simp: lp_get_def lp_put_def lp_all_def lp_del_def lp_delAll_def pool_get_def pool_put_def pool_all_def pool_del_def
      pool_delAll_def Let_def split: option.splits outcome.splits)

lemma lp_exported:
  "\<not> hp_cancel pool \<Longrightarrow> key \<noteq> '''' \<Longrightarrow> lp_Put key listener pool = lp_put key listener pool"
  "\<not> hp_cancel pool \<Longrightarrow> key \<noteq> '''' \<Longrightarrow> lp_Del key pool = lp_del key pool"
  "\<not> hp_cancel pool \<Longrightarrow> lp_DelAll order pool = (lp_delAll order pool, None)"
  by (simp_all add: lp_Put_def lp_Del_def lp_DelAll_def pool_Put_def pool_Del_def pool_DelAll_def lp_generic)

section \<open>Reachable pools\<close>

inductive lp_reachable :: "listenerPool \<Rightarrow> bool" where
  created: "lp_reachable CreateListenerPool"
| put: "lp_reachable pool \<Longrightarrow> lp_reachable (fst (lp_Put key listener pool))"
| del: "lp_reachable pool \<Longrightarrow> lp_reachable (fst (lp_Del key pool))"
| delAll: "lp_reachable pool \<Longrightarrow> mset (order (hp_handleMap pool)) = mset (hp_handleMap pool) \<Longrightarrow> lp_reachable (lp_delAll order pool)"
| served: "lp_reachable pool \<Longrightarrow> h \<in> set (hp_serving pool) \<Longrightarrow> lp_reachable (ListenerServer_end h pool)"
| cancel: "lp_reachable pool \<Longrightarrow> lp_reachable (pool_cancel pool)"
| release: "lp_reachable pool \<Longrightarrow> mset (order (hp_handleMap pool)) = mset (hp_handleMap pool) \<Longrightarrow> lp_release order pool = Some pool' \<Longrightarrow>
    lp_reachable pool'"

definition listener_ok :: "listenerHandler \<Rightarrow> bool" where
  "listener_ok handler \<longleftrightarrow> (lh_open handler \<longleftrightarrow> \<not> lh_cancel handler)"

definition listeners_ok :: "listenerPool \<Rightarrow> bool" where
  "listeners_ok pool \<longleftrightarrow>
     pool_ok lh_cancel pool \<and> (\<forall>handler \<in> set (hp_heap pool). listener_ok handler) \<and>
     (\<forall>h < length (hp_heap pool). h \<notin> set (hp_serving pool) \<longrightarrow> lh_cancel (hp_heap pool ! h))"

lemma listener_ok_Close [simp]: "listener_ok handler \<Longrightarrow> listener_ok (listener_Close handler)"
  by (simp add: listener_ok_def listener_Close_def)

text \<open>Closing handlers keeps the invariant, whatever becomes of the map, as long as open ones stay in it.\<close>

lemma listeners_ok_heap:
  assumes "\<forall>handler \<in> set (hp_heap pool). listener_ok handler"
    "\<forall>h < length (hp_heap pool). h \<notin> set (hp_serving pool) \<longrightarrow> lh_cancel (hp_heap pool ! h)"
    and "length heap = length (hp_heap pool)"
      "\<forall>h < length heap. heap ! h = hp_heap pool ! h \<or> heap ! h = listener_Close (hp_heap pool ! h)"
  shows "(\<forall>handler \<in> set heap. listener_ok handler) \<and> (\<forall>h < length heap. h \<notin> set (hp_serving pool) \<longrightarrow> lh_cancel (heap ! h))"
proof -
  have "listener_ok (heap ! i) \<and> (lh_cancel (hp_heap pool ! i) \<longrightarrow> lh_cancel (heap ! i))" if "i < length heap" for i
    using that assms(1,3,4) by (metis listener_Close_simps(1) listener_ok_Close nth_mem)
  with assms(2,3) show ?thesis by (auto simp: in_set_conv_nth [of _ heap])
qed

lemma close_one: "heap[h := listener_Close (heap ! h)] ! i = heap ! i \<or> heap[h := listener_Close (heap ! h)] ! i = listener_Close (heap ! i)"
  by (cases "h < length heap") (simp_all add: nth_list_update list_update_beyond)

lemma listeners_ok_delAll:
  assumes "listeners_ok pool" "mset (order (hp_handleMap pool)) = mset (hp_handleMap pool)"
  shows "listeners_ok (lp_delAll order pool)"
proof -
  let ?heap = "hp_heap (lp_delAll order pool)"
  have "length ?heap = length (hp_heap pool)"
    "\<forall>h < length ?heap. ?heap ! h = hp_heap pool ! h \<or> ?heap ! h = listener_Close (hp_heap pool ! h)"
    using close_fold [of listener_Close "order (hp_handleMap pool)" "hp_heap pool"] by (auto simp: lp_delAll_def)
  then have "(\<forall>handler \<in> set ?heap. listener_ok handler) \<and> (\<forall>h < length ?heap. h \<notin> set (hp_serving pool) \<longrightarrow> lh_cancel (?heap ! h))"
    using assms(1) by (intro listeners_ok_heap) (simp_all add: listeners_ok_def)
  moreover have "pool_ok lh_cancel (lp_delAll order pool)"
    using assms pool_delAll_closes(4) [of lh_cancel pool order listener_Close] by (simp add: lp_generic listeners_ok_def)
  ultimately show ?thesis by (simp add: listeners_ok_def) (simp add: lp_delAll_def)
qed

lemma listeners_ok_Put:
  assumes "listeners_ok pool"
  shows "listeners_ok (fst (lp_Put key listener pool))"
proof -
  have "pool_ok lh_cancel (fst (lp_Put key listener pool))" using assms by (simp add: lp_Put_def listeners_ok_def pool_ok_Put)
  moreover have "listener_ok (CreateListenerHandler key listener)" by (simp add: listener_ok_def CreateListenerHandler_def)
  ultimately show ?thesis
    using assms by (auto simp: listeners_ok_def lp_Put_def pool_Put_def pool_put_def nth_append less_Suc_eq split: outcome.split)
qed

lemma listeners_ok_Del:
  assumes "listeners_ok pool"
  shows "listeners_ok (fst (lp_Del key pool))"
proof -
  have "pool_ok lh_cancel (fst (lp_Del key pool))" using assms by (simp add: lp_Del_def listeners_ok_def pool_ok_Del)
  moreover have "(\<forall>handler \<in> set ((hp_heap pool)[h := listener_Close (hp_heap pool ! h)]). listener_ok handler) \<and>
      (\<forall>i < length ((hp_heap pool)[h := listener_Close (hp_heap pool ! h)]).
        i \<notin> set (hp_serving pool) \<longrightarrow> lh_cancel ((hp_heap pool)[h := listener_Close (hp_heap pool ! h)] ! i))" for h
    using assms by (intro listeners_ok_heap) (simp_all add: listeners_ok_def close_one)
  ultimately show ?thesis
    using assms by (auto simp: listeners_ok_def lp_Del_def pool_Del_def pool_del_def split: outcome.split)
qed

lemma listeners_ok_end:
  assumes "listeners_ok pool"
  shows "listeners_ok (ListenerServer_end h pool)"
proof -
  let ?heap = "(hp_heap pool)[h := listener_Close (hp_heap pool ! h)]"
  have heap: "(\<forall>handler \<in> set ?heap. listener_ok handler) \<and> (\<forall>i < length ?heap. i \<notin> set (hp_serving pool) \<longrightarrow> lh_cancel (?heap ! i))"
    using assms by (intro listeners_ok_heap) (simp_all add: listeners_ok_def close_one)
  have "lh_cancel (?heap ! i)" if "i < length (hp_heap pool)" "i \<notin> set (remove1 h (hp_serving pool))" for i
    using that heap by (cases "i = h") auto
  moreover have "pool_ok lh_cancel (pool\<lparr>hp_heap := ?heap, hp_serving := s\<rparr>)" for s
    using assms close_one [of "hp_heap pool" h] by (auto simp: listeners_ok_def pool_ok_def) (metis listener_Close_simps(1))
  ultimately show ?thesis using heap by (simp add: listeners_ok_def ListenerServer_end_def)
qed

lemma listeners_ok_updates [simp]:
  "listeners_ok (pool\<lparr>hp_cancel := c\<rparr>) = listeners_ok pool" "listeners_ok (pool\<lparr>hp_done := c\<rparr>) = listeners_ok pool"
  by (simp_all add: listeners_ok_def pool_ok_def)

lemma listeners_ok_reachable: "lp_reachable pool \<Longrightarrow> listeners_ok pool"
proof (induction rule: lp_reachable.induct)
  case created
  show ?case by (simp add: listeners_ok_def CreateListenerPool_def pool_ok_CreatePool) (simp add: CreatePool_def)
next
  case (release pool order pool')
  then have "listeners_ok (lp_delAll order pool)" by (intro listeners_ok_delAll)
  with release.hyps(3) show ?case by (auto simp: lp_release_def Let_def split: if_splits)
qed (simp_all add: listeners_ok_Put listeners_ok_Del listeners_ok_delAll listeners_ok_end pool_cancel_def)

section \<open>Properties\<close>

text \<open>
  A listener whose \<^verbatim>\<open>Accept\<close> fails for good is closed, but its key stays in the pool, so that listening on the same address again
  is refused, whatever other listeners are put and deleted in between.
\<close>

theorem ended_listener_blocks_address:
  assumes pool: "lp_reachable pool" "map_of (hp_handleMap pool) key = Some h" "key \<noteq> ''''" "\<not> hp_cancel pool"
    and later: "pool' = fold lps.step ops (ListenerServer_end h pool)" "Drop key \<notin> set ops"
  shows "\<not> lh_open (hp_heap (ListenerServer_end h pool) ! h) \<and> snd (lp_Put key listener pool') \<noteq> None"
proof (intro conjI)
  have ok: "listeners_ok pool" using pool(1) by (rule listeners_ok_reachable)
  then have h: "h < length (hp_heap pool)" using map_of_SomeD [OF pool(2)] by (auto simp: listeners_ok_def pool_ok_def)
  have ended: "listeners_ok (ListenerServer_end h pool)" using ok by (rule listeners_ok_end)
  have "listener_ok (hp_heap pool ! h)" using ok h by (simp add: listeners_ok_def)
  then show "\<not> lh_open (hp_heap (ListenerServer_end h pool) ! h)"
    using h by (simp add: ListenerServer_end_def listener_ok_def listener_Close_def)
  have good: "pool_ok lh_cancel (ListenerServer_end h pool)" using ended by (simp add: listeners_ok_def)
  obtain handler where "pool_Get ''listener'' key (ListenerServer_end h pool) = Ok handler"
    using pool(2-4) by (auto simp: pool_Get_def pool_get_def ListenerServer_end_def)
  then have "pool_Get ''listener'' key pool' = Ok handler" unfolding later(1) by (rule lps.get_steps [OF good _ later(2)])
  then show "snd (lp_Put key listener pool') \<noteq> None"
    unfolding lp_Put_def later(1) by (rule lps.put_old [OF lps.good_steps [OF good]])
qed

text \<open>
  When the release of the pool ends - it closes the handlers and waits for their goroutines - every listener that was ever put into it
  is closed.
\<close>

theorem released_listeners_closed:
  assumes "lp_reachable pool" "mset (order (hp_handleMap pool)) = mset (hp_handleMap pool)" "lp_release order pool = Some pool'"
  shows "hp_done pool' \<and> lp_Length pool' = 0 \<and> (\<forall>handler \<in> set (hp_heap pool'). \<not> lh_open handler) \<and>
    map lh_listener (hp_heap pool') = map lh_listener (hp_heap pool)"
proof -
  have "listeners_ok (lp_delAll order pool)" using listeners_ok_reachable [OF assms(1)] assms(2) by (rule listeners_ok_delAll)
  moreover have "map lh_listener (hp_heap (lp_delAll order pool)) = map lh_listener (hp_heap pool)"
    using close_fold [of listener_Close "order (hp_handleMap pool)" "hp_heap pool"]
    by (auto simp: lp_delAll_def listener_Close_def intro!: nth_equalityI)
  moreover have "hp_handleMap (lp_delAll order pool) = []" by (simp add: lp_delAll_def)
  ultimately show ?thesis
    using assms(3) by (auto simp: lp_release_def Let_def lp_Length_def listeners_ok_def listener_ok_def in_set_conv_nth split: if_splits)
qed

section \<open>Witnesses\<close>

definition sample_listeners :: listenerPool where
  "sample_listeners = fst (lp_Put ''tcp:0.0.0.0:5060'' 4 CreateListenerPool)"

lemma sample_listeners_facts:
  "lp_reachable sample_listeners" "map_of (hp_handleMap sample_listeners) ''tcp:0.0.0.0:5060'' = Some 0" "\<not> hp_cancel sample_listeners"
  "hp_serving sample_listeners = [0]" "map lh_listener (hp_heap sample_listeners) = [4]"
  unfolding sample_listeners_def
  by (intro lp_reachable.put lp_reachable.created)
    (simp_all add: lp_Put_def pool_Put_def pool_put_def pool_get_def CreateListenerPool_def CreatePool_def CreateListenerHandler_def)

theorem ended_listener_blocks_address_witness:
  "\<not> lh_open (hp_heap (ListenerServer_end 0 sample_listeners) ! 0) \<and>
   snd (lp_Put ''tcp:0.0.0.0:5060'' 7 (fold lps.step [Drop ''tcp:0.0.0.0:5061''] (ListenerServer_end 0 sample_listeners))) \<noteq> None"
  by (rule ended_listener_blocks_address [OF sample_listeners_facts(1,2) _ sample_listeners_facts(3) refl]) simp_all

theorem released_listeners_closed_witness:
  "\<exists>pool'. lp_release (\<lambda>m. m) (ListenerServer_end 0 sample_listeners) = Some pool' \<and> map lh_open (hp_heap pool') = [False]"
proof -
  let ?p = "ListenerServer_end 0 sample_listeners"
  have "lp_reachable ?p" using sample_listeners_facts(1,4) by (intro lp_reachable.served) simp_all
  moreover obtain pool' where "lp_release (\<lambda>m. m) ?p = Some pool'"
    using sample_listeners_facts(4) by (simp add: lp_release_def lp_delAll_def ListenerServer_end_def)
  moreover have "map lh_listener (hp_heap ?p) = [4]"
    using sample_listeners_facts(5) by (auto simp: ListenerServer_end_def listener_Close_def length_Suc_conv)
  moreover note released_listeners_closed [of ?p "\<lambda>m. m" pool']
  ultimately show ?thesis by (auto simp: length_Suc_conv map_eq_Cons_conv)
qed

end
