(* ===== verification/Gsip_Options.thy ===== *)
theory Gsip_Options
  imports Gsip_Service
begin

text \<open>
  How a service is configured: \<^verbatim>\<open>utils/helpers.go\<close> (the address of the host), \<^verbatim>\<open>transport/options.go\<close> with \<^verbatim>\<open>Init\<close> of
  \<^verbatim>\<open>transport/transport.go\<close>, and \<^verbatim>\<open>options.go\<close>. An option is a Go closure; here it is a datatype of the closures the package
  offers, and applying it is a function. The settings of the logger are left out.
\<close>

section \<open>IP addresses\<close>

text \<open>\<^verbatim>\<open>net.IP\<close>: a slice of bytes, nil is \<^term>\<open>None\<close> where it can occur.\<close>

type_synonym IP = "8 word list"

definition To4 :: "IP \<Rightarrow> IP option" where
  "To4 ip =
     (if length ip = 4 then Some ip
      else if length ip = 16 \<and> take 12 ip = replicate 10 0 @ [0xff, 0xff] then Some (drop 12 ip)
      else None)"

definition IsLoopback :: "IP \<Rightarrow> bool" where
  "IsLoopback ip = (case To4 ip of Some ip4 \<Rightarrow> ip4 ! 0 = 127 | None \<Rightarrow> ip = replicate 15 0 @ [1])"

definition DefaultAddress :: IP where
  "DefaultAddress = replicate 10 0 @ [0xff, 0xff, 127, 0, 0, 1]"

section \<open>The address of the host\<close>

text \<open>A \<^verbatim>\<open>net.Addr\<close> of an interface, and the interface with the flags and the call that are used.\<close>

datatype net_Addr = IPNet "IP option" | IPAddr "IP option" | OtherAddr

record iface =
  if_up :: bool
  if_loopback :: bool
  if_Addrs :: "net_Addr list outcome"

fun Addr_IP :: "net_Addr \<Rightarrow> IP option" where
  "Addr_IP (IPNet ip) = ip"
| "Addr_IP (IPAddr ip) = ip"
| "Addr_IP OtherAddr = None"

fun first_ipv4 :: "net_Addr list \<Rightarrow> IP option" where
  "first_ipv4 [] = None"
| "first_ipv4 (addr # addrs) =
     (case Addr_IP addr of
        None \<Rightarrow> first_ipv4 addrs
      | Some ip \<Rightarrow>
          if IsLoopback ip then first_ipv4 addrs
          else (case To4 ip of None \<Rightarrow> first_ipv4 addrs | Some ip4 \<Rightarrow> Some ip4))"

fun scan_interfaces :: "iface list \<Rightarrow> IP outcome" where
  "scan_interfaces [] = Fail (Errorf ''server not connected to any network'')"
| "scan_interfaces (iface # ifaces) =
     (if \<not> if_up iface then scan_interfaces ifaces
      else if if_loopback iface then scan_interfaces ifaces
      else obind (if_Addrs iface) (\<lambda>addrs.
        case first_ipv4 addrs of Some ip \<Rightarrow> Ok ip | None \<Rightarrow> scan_interfaces ifaces))"

definition GetLocalRealIp :: "iface list outcome \<Rightarrow> IP outcome" where
  "GetLocalRealIp interfaces = obind interfaces scan_interfaces"

section \<open>Options of the transport layer\<close>

datatype resolver = DefaultResolver | DialResolver string

record tp_options =
  to_localIP :: "IP option"
  to_dnsResolver :: "resolver option"

datatype tp_option = LocalAddr string | DnsResolverConfig string

text \<open>
  What the options read: the interfaces of the host and \<^verbatim>\<open>net.ResolveIPAddr\<close>. \<open>logger\<close> says that the logger of the package is set; then
  \<^verbatim>\<open>Panicf\<close> panics, and otherwise it does nothing.
\<close>

record options_env =
  oe_interfaces :: "iface list outcome"
  oe_ResolveIPAddr :: "string \<Rightarrow> IP option outcome"

fun tp_apply :: "options_env \<Rightarrow> bool \<Rightarrow> tp_option \<Rightarrow> tp_options \<Rightarrow> tp_options outcome" where
  "tp_apply env logger (LocalAddr localhost) o' =
     (if localhost \<noteq> '''' then
        (case oe_ResolveIPAddr env localhost of
           Ok ip \<Rightarrow> Ok (o'\<lparr>to_localIP := ip\<rparr>)
         | Fail _ \<Rightarrow> if logger then Panic else Ok (o'\<lparr>to_localIP := None\<rparr>)
         | Panic \<Rightarrow> Panic)
      else Ok o')"
| "tp_apply env logger (DnsResolverConfig dns) o' =
     (if dns \<noteq> '''' then Ok (o'\<lparr>to_dnsResolver := Some (DialResolver dns)\<rparr>) else Ok o')"

fun tp_apply_all :: "options_env \<Rightarrow> bool \<Rightarrow> tp_option list \<Rightarrow> tp_options \<Rightarrow> tp_options outcome" where
  "tp_apply_all env logger [] o' = Ok o'"
| "tp_apply_all env logger (opt # opts) o' = obind (tp_apply env logger opt o') (tp_apply_all env logger opts)"

definition tp_newOptions :: "options_env \<Rightarrow> bool \<Rightarrow> tp_option list \<Rightarrow> tp_options outcome" where
  "tp_newOptions env logger opts =
     obind (tp_apply_all env logger opts \<lparr>to_localIP = None, to_dnsResolver = None\<rparr>) (\<lambda>o1.
     let o2 = (if to_localIP o1 = None then
                 (case GetLocalRealIp (oe_interfaces env) of
                    Ok v \<Rightarrow> o1\<lparr>to_localIP := Some v\<rparr>
                  | _ \<Rightarrow> o1\<lparr>to_localIP := Some DefaultAddress\<rparr>)
               else o1)
     in Ok (if to_localIP o2 = None then o2\<lparr>to_dnsResolver := Some DefaultResolver\<rparr> else o2))"

definition tp_Init :: "options_env \<Rightarrow> bool \<Rightarrow> tp_option list \<Rightarrow> tp_options \<Rightarrow> tp_options outcome" where
  "tp_Init env logger opts o' =
     obind (tp_apply_all env logger opts o') (\<lambda>o1.
     obind (if to_localIP o1 = None then tp_apply env logger (LocalAddr '''') o1 else Ok o1) (\<lambda>o2.
     if to_dnsResolver o2 = None then tp_apply env logger (DnsResolverConfig '''') o2 else Ok o2))"

section \<open>Options of the service\<close>

text \<open>
  \<^verbatim>\<open>Callback\<close> is a reference: \<^verbatim>\<open>DefaultCallback\<close> is one object of the package, at 0 of the store of callbacks. The
  logger is a variable of the package \<^verbatim>\<open>logger\<close>, nil until \<^verbatim>\<open>LoggerConfig\<close> is used. The transport layer is represented by its
  options.
\<close>

record globals =
  gl_callbacks :: "nat \<Rightarrow> callback"
  gl_logger :: bool

definition DefaultCallback :: nat where "DefaultCallback = 0"

record Options =
  op_Callback :: nat
  op_tp :: tp_options

datatype Option =
    RequestCallback "handlers option"
  | ResponseCallback "nat option"
  | AddRequestCallback RequestMethod "nat option"
  | Transport string
  | DnsConfig string
  | LoggerConfig

definition update_callback :: "(callback \<Rightarrow> callback) \<Rightarrow> Options \<Rightarrow> globals \<Rightarrow> globals" where
  "update_callback f o' g = g\<lparr>gl_callbacks := (gl_callbacks g)(op_Callback o' := f (gl_callbacks g (op_Callback o')))\<rparr>"

fun apply_Option :: "options_env \<Rightarrow> Option \<Rightarrow> Options \<times> globals \<Rightarrow> (Options \<times> globals) outcome" where
  "apply_Option env (RequestCallback callback) (o', g) = Ok (o', update_callback (\<lambda>c. fst (SetRequestHandle callback c)) o' g)"
| "apply_Option env (ResponseCallback callback) (o', g) = Ok (o', update_callback (\<lambda>c. fst (SetResponseHandle callback c)) o' g)"
| "apply_Option env (AddRequestCallback method handler) (o', g) = Ok (o', update_callback (AddRequestHandle method handler) o' g)"
| "apply_Option env (Transport localhost) (o', g) =
     omap (\<lambda>tp. (o'\<lparr>op_tp := tp\<rparr>, g)) (tp_Init env (gl_logger g) [LocalAddr localhost] (op_tp o'))"
| "apply_Option env (DnsConfig dns) (o', g) =
     omap (\<lambda>tp. (o'\<lparr>op_tp := tp\<rparr>, g)) (tp_Init env (gl_logger g) [DnsResolverConfig dns] (op_tp o'))"
| "apply_Option env LoggerConfig (o', g) = Ok (o', g\<lparr>gl_logger := True\<rparr>)"

fun apply_Options :: "options_env \<Rightarrow> Option list \<Rightarrow> Options \<times> globals \<Rightarrow> (Options \<times> globals) outcome" where
  "apply_Options env [] s = Ok s"
| "apply_Options env (opt # opts) s = obind (apply_Option env opt s) (apply_Options env opts)"

definition newOptions :: "options_env \<Rightarrow> Option list \<Rightarrow> globals \<Rightarrow> (Options \<times> globals) outcome" where
  "newOptions env opts g =
     obind (tp_newOptions env (gl_logger g) []) (\<lambda>tp.
     apply_Options env opts (\<lparr>op_Callback = DefaultCallback, op_tp = tp\<rparr>, g))"

section \<open>Other helpers\<close>

text \<open>\<^verbatim>\<open>StrPtrEq\<close> and \<^verbatim>\<open>Uint16PtrEq\<close>: a pointer is an address with the value there.\<close>

definition PtrEq :: "(nat \<times> 'a) option \<Rightarrow> (nat \<times> 'a) option \<Rightarrow> bool" where
  "PtrEq a b = (case (a, b) of (Some (_, x), Some (_, y)) \<Rightarrow> x = y | _ \<Rightarrow> a = b)"

definition Coalesce :: "'a option \<Rightarrow> 'a option \<Rightarrow> 'a option list \<Rightarrow> 'a option" where
  "Coalesce arg1 arg2 args = (case find (\<lambda>arg. arg \<noteq> None) (arg1 # arg2 # args) of Some arg \<Rightarrow> arg | None \<Rightarrow> None)"

section \<open>Lemmas\<close>

text \<open>The addresses that \<^verbatim>\<open>GetLocalRealIp\<close> looks for, in order.\<close>

definition usable_ip :: "net_Addr \<Rightarrow> IP list" where
  "usable_ip addr =
     (case Addr_IP addr of
        Some ip \<Rightarrow> if IsLoopback ip then [] else (case To4 ip of Some ip4 \<Rightarrow> [ip4] | None \<Rightarrow> [])
      | None \<Rightarrow> [])"

definition iface_usable :: "iface \<Rightarrow> bool" where
  "iface_usable i \<longleftrightarrow> if_up i \<and> \<not> if_loopback i"

definition usable_ips :: "iface list \<Rightarrow> IP list" where
  "usable_ips ifs = concat (map (\<lambda>i. case if_Addrs i of Ok addrs \<Rightarrow> concat (map usable_ip addrs) | _ \<Rightarrow> []) (filter iface_usable ifs))"

lemma first_ipv4_hd: "first_ipv4 addrs = (case concat (map usable_ip addrs) of [] \<Rightarrow> None | ip # _ \<Rightarrow> Some ip)"
  by (induction addrs) (auto simp: usable_ip_def split: option.splits)

lemma usable_ip_safe:
  assumes "ip \<in> set (usable_ip addr)"
  shows "length ip = 4 \<and> ip ! 0 \<noteq> 127"
  using assms by (auto simp: usable_ip_def IsLoopback_def To4_def split: option.splits if_splits)

lemma usable_ips_Cons:
  "usable_ips (i # ifs) = (if iface_usable i then (case if_Addrs i of Ok addrs \<Rightarrow> concat (map usable_ip addrs) | _ \<Rightarrow> []) else []) @ usable_ips ifs"
  by (simp add: usable_ips_def)

lemma scan_interfaces_hd:
  assumes "\<forall>i \<in> set ifs. iface_usable i \<longrightarrow> is_ok (if_Addrs i)"
  shows "scan_interfaces ifs =
    (case usable_ips ifs of [] \<Rightarrow> Fail (Errorf ''server not connected to any network'') | ip # _ \<Rightarrow> Ok ip)"
  using assms
proof (induction ifs)
  case Nil
  show ?case by (simp add: usable_ips_def)
next
  case (Cons i ifs)
  show ?case
  proof (cases "iface_usable i")
    case False
    with Cons show ?thesis by (auto simp: usable_ips_Cons iface_usable_def)
  next
    case True
    then obtain addrs where addrs: "if_Addrs i = Ok addrs" using Cons.prems by (cases "if_Addrs i") auto
    have up: "if_up i" "\<not> if_loopback i" using True by (simp_all add: iface_usable_def)
    have ips: "usable_ips (i # ifs) = concat (map usable_ip addrs) @ usable_ips ifs" using True addrs by (simp add: usable_ips_Cons)
    have IH: "scan_interfaces ifs = (case usable_ips ifs of [] \<Rightarrow> Fail (Errorf ''server not connected to any network'') | ip # _ \<Rightarrow> Ok ip)"
      using Cons by simp
    obtain found where "concat (map usable_ip addrs) = found" by blast
    then show ?thesis unfolding ips using up addrs IH by (cases found) (simp_all add: first_ipv4_hd del: concat_eq_Nil_conv)
  qed
qed

lemma scan_interfaces_safe:
  assumes "scan_interfaces ifs = Ok ip"
  shows "length ip = 4 \<and> ip ! 0 \<noteq> 127"
  using assms
proof (induction ifs)
  case (Cons i ifs)
  have "length ip' = 4 \<and> ip' ! 0 \<noteq> 127" if "first_ipv4 addrs = Some ip'" for addrs ip'
    using that usable_ip_safe by (fastforce simp: first_ipv4_hd split: list.splits dest!: arg_cong [where f = set])
  with Cons show ?case by (auto simp: outcome_simps split: if_splits option.splits)
qed simp

text \<open>The options leave the reference to the callback alone.\<close>

lemma apply_Option_ref: "apply_Option env opt (o', g) = Ok (o2, g2) \<Longrightarrow> op_Callback o2 = op_Callback o'"
  by (cases opt) (auto simp: outcome_simps)

lemma apply_Options_ref: "apply_Options env opts (o', g) = Ok (o2, g2) \<Longrightarrow> op_Callback o2 = op_Callback o'"
proof (induction opts arbitrary: o' g)
  case (Cons opt opts)
  then obtain o1 g1 where "apply_Option env opt (o', g) = Ok (o1, g1)" "apply_Options env opts (o1, g1) = Ok (o2, g2)"
    by (auto simp: obind_eq_Ok)
  with Cons.IH apply_Option_ref show ?case by metis
qed simp

lemma newOptions_ref: "newOptions env opts g = Ok (o2, g2) \<Longrightarrow> op_Callback o2 = DefaultCallback"
  by (auto simp: newOptions_def obind_eq_Ok dest!: apply_Options_ref)

lemma apply_Options_snoc: "apply_Options env (opts @ [opt]) s = obind (apply_Options env opts s) (apply_Option env opt)"
proof (induction opts arbitrary: s)
  case Nil
  show ?case by (cases "apply_Option env opt s") simp_all
next
  case (Cons o' opts)
  then show ?case by (cases "apply_Option env o' s") simp_all
qed

section \<open>Properties\<close>

text \<open>
  \<^verbatim>\<open>GetLocalRealIp\<close> returns the first IPv4 address that is not a loopback address of the interfaces that are up and not the loopback interface, in the order in
  which the system lists them, and an error when there is none, if the addresses of these interfaces can be read;
  in any case an address that it returns has four bytes and does not begin with 127.
\<close>

theorem GetLocalRealIp_correct:
  assumes "\<forall>i \<in> set ifs. iface_usable i \<longrightarrow> is_ok (if_Addrs i)"
  shows "GetLocalRealIp (Ok ifs) =
      (case usable_ips ifs of [] \<Rightarrow> Fail (Errorf ''server not connected to any network'') | ip # _ \<Rightarrow> Ok ip) \<and>
    (\<forall>interfaces ip. GetLocalRealIp interfaces = Ok ip \<longrightarrow> length ip = 4 \<and> ip ! 0 \<noteq> 127)"
  using scan_interfaces_hd [OF assms] scan_interfaces_safe by (auto simp: GetLocalRealIp_def obind_eq_Ok)

theorem GetLocalRealIp_correct_witness:
  "GetLocalRealIp (Ok [\<lparr>if_up = True, if_loopback = True, if_Addrs = Ok [IPNet (Some [127, 0, 0, 1])]\<rparr>,
     \<lparr>if_up = True, if_loopback = False, if_Addrs = Ok [OtherAddr, IPNet (Some [127, 0, 0, 2]), IPNet (Some [10, 0, 0, 7])]\<rparr>]) = Ok [10, 0, 0, 7]"
proof -
  let ?ifs = "[\<lparr>if_up = True, if_loopback = True, if_Addrs = Ok [IPNet (Some [127, 0, 0, 1])]\<rparr>,
     \<lparr>if_up = True, if_loopback = False, if_Addrs = Ok [OtherAddr, IPNet (Some [127, 0, 0, 2]), IPNet (Some [10, 0, 0, 7])]\<rparr>] :: iface list"
  have "usable_ips ?ifs = [[10, 0, 0, 7]]"
    by (simp add: usable_ips_def iface_usable_def usable_ip_def IsLoopback_def To4_def)
  then show ?thesis using GetLocalRealIp_correct [of ?ifs] by (simp add: iface_usable_def)
qed

text \<open>
  \<^verbatim>\<open>newOptions\<close> of the transport layer always finds a local address when no option sets one, the default 127.0.0.1 at worst, so the
  default resolver is never set: without \<^verbatim>\<open>DnsResolverConfig\<close> the resolver stays nil. A host that cannot be resolved is not
  reported unless a logger has been configured: the local address becomes nil, and \<^verbatim>\<open>Init\<close> leaves it so.
\<close>

theorem transport_options:
  "\<exists>ip. tp_newOptions env logger [] = Ok \<lparr>to_localIP = Some ip, to_dnsResolver = None\<rparr> \<and>
     (\<forall>localhost err. localhost \<noteq> '''' \<and> oe_ResolveIPAddr env localhost = Fail err \<longrightarrow>
        tp_Init env True [LocalAddr localhost] \<lparr>to_localIP = Some ip, to_dnsResolver = None\<rparr> = Panic \<and>
        tp_Init env False [LocalAddr localhost] \<lparr>to_localIP = Some ip, to_dnsResolver = None\<rparr> =
          Ok \<lparr>to_localIP = None, to_dnsResolver = None\<rparr>)"
proof -
  obtain ip where "tp_newOptions env logger [] = Ok \<lparr>to_localIP = Some ip, to_dnsResolver = None\<rparr>"
    by (cases "GetLocalRealIp (oe_interfaces env)") (simp_all add: tp_newOptions_def)
  then show ?thesis by (auto simp: tp_Init_def)
qed

theorem transport_options_witness:
  "\<exists>ip. tp_newOptions \<lparr>oe_interfaces = Ok [], oe_ResolveIPAddr = (\<lambda>_. Fail NumSyntax)\<rparr> False [] =
       Ok \<lparr>to_localIP = Some ip, to_dnsResolver = None\<rparr> \<and>
     tp_Init \<lparr>oe_interfaces = Ok [], oe_ResolveIPAddr = (\<lambda>_. Fail NumSyntax)\<rparr> False [LocalAddr ''no.such.host'']
       \<lparr>to_localIP = Some ip, to_dnsResolver = None\<rparr> = Ok \<lparr>to_localIP = None, to_dnsResolver = None\<rparr>"
proof -
  let ?env = "\<lparr>oe_interfaces = Ok [], oe_ResolveIPAddr = (\<lambda>_. Fail NumSyntax)\<rparr>"
  obtain ip where ip: "tp_newOptions ?env False [] = Ok \<lparr>to_localIP = Some ip, to_dnsResolver = None\<rparr>"
    "\<And>localhost err. localhost \<noteq> '''' \<and> oe_ResolveIPAddr ?env localhost = Fail err \<Longrightarrow>
       tp_Init ?env False [LocalAddr localhost] \<lparr>to_localIP = Some ip, to_dnsResolver = None\<rparr> =
         Ok \<lparr>to_localIP = None, to_dnsResolver = None\<rparr>"
    using transport_options [of ?env False] by (elim exE conjE) blast
  with ip(2) [of "''no.such.host''" NumSyntax] show ?thesis by auto
qed

text \<open>
  All services of a program share one callback. A handler that the options of a second service add is the one
  that the first service calls too, and a map of handlers given to the second replaces the handlers of the first.
\<close>

theorem services_share_handlers:
  assumes first: "newOptions env opts1 g = Ok (o1, g1)"
    and second: "newOptions env (opts2 @ [opt]) g1 = Ok (o2, g2)"
  shows "op_Callback o1 = op_Callback o2 \<and>
    (\<forall>m h. opt = AddRequestCallback m h \<longrightarrow> GetRequestHandle m (gl_callbacks g2 (op_Callback o1)) = Some h) \<and>
    (\<forall>hs. opt = RequestCallback (Some hs) \<longrightarrow> (\<forall>m. GetRequestHandle m (gl_callbacks g2 (op_Callback o1)) = map_of hs m))"
proof -
  from second obtain tp o3 g3 where
    o3: "apply_Options env opts2 (\<lparr>op_Callback = DefaultCallback, op_tp = tp\<rparr>, g1) = Ok (o3, g3)" "apply_Option env opt (o3, g3) = Ok (o2, g2)"
    by (auto simp: newOptions_def apply_Options_snoc obind_eq_Ok)
  have "op_Callback o3 = op_Callback o1" using apply_Options_ref [OF o3(1)] newOptions_ref [OF first] by simp
  with o3(2) newOptions_ref [OF second] newOptions_ref [OF first] show ?thesis
    by (auto simp: update_callback_def cbs.get_put SetRequestHandle_def GetRequestHandle_def AddRequestHandle_def)
qed

theorem services_share_handlers_witness:
  "\<exists>o1 g1 o2 g2.
     newOptions \<lparr>oe_interfaces = Ok [], oe_ResolveIPAddr = (\<lambda>_. Fail NumSyntax)\<rparr> [AddRequestCallback ''BYE'' (Some 1)]
       \<lparr>gl_callbacks = (\<lambda>_. NewCallback), gl_logger = False\<rparr> = Ok (o1, g1) \<and>
     newOptions \<lparr>oe_interfaces = Ok [], oe_ResolveIPAddr = (\<lambda>_. Fail NumSyntax)\<rparr> ([] @ [AddRequestCallback ''BYE'' (Some 2)]) g1 = Ok (o2, g2) \<and>
     GetRequestHandle ''BYE'' (gl_callbacks g1 (op_Callback o1)) = Some (Some 1) \<and>
     GetRequestHandle ''BYE'' (gl_callbacks g2 (op_Callback o1)) = Some (Some 2)"
proof -
  let ?env = "\<lparr>oe_interfaces = Ok [], oe_ResolveIPAddr = (\<lambda>_. Fail NumSyntax)\<rparr>"
  have new: "\<exists>o1 g1. newOptions ?env [AddRequestCallback ''BYE'' h] g = Ok (o1, g1)" for h g
    by (simp add: newOptions_def tp_newOptions_def GetLocalRealIp_def)
  let ?g = "\<lparr>gl_callbacks = (\<lambda>_. NewCallback), gl_logger = False\<rparr>"
  obtain o1 g1 where a: "newOptions ?env [AddRequestCallback ''BYE'' (Some 1)] ?g = Ok (o1, g1)" using new by blast
  obtain o2 g2 where b: "newOptions ?env ([] @ [AddRequestCallback ''BYE'' (Some 2)]) g1 = Ok (o2, g2)" using new by fastforce
  have "GetRequestHandle ''BYE'' (gl_callbacks g1 (op_Callback o1)) = Some (Some 1)"
    using a by (auto simp: newOptions_def tp_newOptions_def GetLocalRealIp_def update_callback_def GetRequestHandle_def AddRequestHandle_def)
  moreover have "GetRequestHandle ''BYE'' (gl_callbacks g2 (op_Callback o1)) = Some (Some 2)"
    using conjunct1 [OF conjunct2 [OF services_share_handlers [OF a b]]] by simp
  ultimately show ?thesis using a b by (intro exI conjI)
qed

end
