(* ===== verification/Gsip_Errors.thy ===== *)
theory Gsip_Errors
  imports Gsip_Prelude "HOL-Library.List_Lexorder" "HOL-Library.Char_ord"
begin

text \<open>
  The error values of the stack: \<^verbatim>\<open>sip/error.go\<close>, \<^verbatim>\<open>transaction/error.go\<close>, \<^verbatim>\<open>transport/error.go\<close> and the error of
  \<^verbatim>\<open>callback/callback.go\<close>, with the chain that \<^verbatim>\<open>errors.As\<close> and \<^verbatim>\<open>errors.Is\<close> walk through. The components
  use the flat type \<^typ>\<open>gerror\<close>; here an error keeps its fields and the error it wraps.
\<close>

section \<open>Values\<close>

text \<open>
  \<open>ErrorString\<close> is the value of \<^verbatim>\<open>errors.New\<close> or \<^verbatim>\<open>fmt.Errorf\<close>, \<open>Wrapf\<close> that of \<^verbatim>\<open>fmt.Errorf\<close> with \<^verbatim>\<open>%w\<close> at its end, \<open>NetE\<close>
  an error of the package \<^verbatim>\<open>net\<close> with its text, \<^verbatim>\<open>Timeout()\<close> and \<^verbatim>\<open>Temporary()\<close>. A nil error is \<^term>\<open>None\<close>; the
  methods are those of values, a nil pointer to an error type does not occur.
\<close>

datatype goerr =
    ErrorString string
  | Wrapf string goerr
  | EOF
  | ErrClosedPipe
  | NetE string bool bool
  | ConnectionE (wrapped: "goerr option") string string string string string
  | ExpireE string
  | ProtocolE (wrapped: "goerr option") string string
  | ConnectionHandlerE (wrapped: "goerr option") string string string string string
  | ListenerHandlerE (wrapped: "goerr option") string string string string
  | PoolE (wrapped: "goerr option") string string
  | UnsupportedProtocolE string
  | TxTerminatedE (wrapped: "goerr option") string string
  | TxTimeoutE (wrapped: "goerr option") string string
  | TxTransportE (wrapped: "goerr option") string string
  | InvalidStartLineE string
  | InvalidMessageFormatE string
  | WriteE string
  | BrokenMessageE "goerr option" string
  | MalformedMessageE "goerr option" string
  | UnsupportedMessageE "goerr option" string
  | UnexpectedMessageE "goerr option" string
  | NotExitCallbackE string

section \<open>Chains\<close>

text \<open>\<^verbatim>\<open>errors.Unwrap\<close>: the errors of \<^verbatim>\<open>sip/error.go\<close> hide the error they hold.\<close>

fun Unwrap :: "goerr \<Rightarrow> goerr option" where
  "Unwrap (Wrapf s e) = Some e"
| "Unwrap (ConnectionE e _ _ _ _ _) = e"
| "Unwrap (ProtocolE e _ _) = e"
| "Unwrap (ConnectionHandlerE e _ _ _ _ _) = e"
| "Unwrap (ListenerHandlerE e _ _ _ _) = e"
| "Unwrap (PoolE e _ _) = e"
| "Unwrap (TxTerminatedE e _ _) = e"
| "Unwrap (TxTimeoutE e _ _) = e"
| "Unwrap (TxTransportE e _ _) = e"
| "Unwrap _ = None"

lemma Unwrap_size: "Unwrap e = Some e' \<Longrightarrow> size e' < size e"
  by (cases e) auto

function chain :: "goerr \<Rightarrow> goerr list" where
  "chain e = e # (case Unwrap e of None \<Rightarrow> [] | Some e' \<Rightarrow> chain e')"
  by pat_completeness auto
termination by (relation "measure size") (auto dest: Unwrap_size)

declare chain.simps [simp del]

definition error_chain :: "goerr option \<Rightarrow> goerr list" where
  "error_chain err = (case err of None \<Rightarrow> [] | Some e \<Rightarrow> chain e)"

text \<open>\<^verbatim>\<open>errors.As\<close> finds the first error of the chain that has the methods of the target, \<^verbatim>\<open>errors.Is\<close> asks for equality.\<close>

definition errors_As :: "(goerr \<Rightarrow> bool) \<Rightarrow> goerr option \<Rightarrow> goerr option" where
  "errors_As has err = find has (error_chain err)"

definition errors_Is :: "goerr option \<Rightarrow> goerr \<Rightarrow> bool" where
  "errors_Is err target \<longleftrightarrow> target \<in> set (error_chain err)"

lemma chain_size: "n \<in> set (chain e) \<Longrightarrow> size n \<le> size e"
proof (induction e rule: chain.induct)
  case (1 e)
  show ?case
  proof (cases "Unwrap e")
    case (Some e')
    then have "n = e \<or> n \<in> set (chain e')" using "1.prems" chain.simps [of e] by simp
    then show ?thesis using "1.IH" [OF Some] Unwrap_size [OF Some] by auto
  qed (use "1.prems" chain.simps [of e] in simp)
qed

lemma errors_As_size: "errors_As has (Unwrap e) = Some n \<Longrightarrow> size n < size e"
  by (auto simp: errors_As_def error_chain_def find_Some_iff split: option.splits
      dest!: chain_size [OF nth_mem] Unwrap_size)

section \<open>Classes\<close>

text \<open>The types that implement \<^verbatim>\<open>net.Error\<close>, and those with \<^verbatim>\<open>Canceled()\<close> and \<^verbatim>\<open>Expired()\<close>.\<close>

fun is_net_Error :: "goerr \<Rightarrow> bool" where
  "is_net_Error (NetE _ _ _) = True"
| "is_net_Error (ConnectionE _ _ _ _ _ _) = True"
| "is_net_Error (ExpireE _) = True"
| "is_net_Error (ProtocolE _ _ _) = True"
| "is_net_Error (ConnectionHandlerE _ _ _ _ _ _) = True"
| "is_net_Error (ListenerHandlerE _ _ _ _ _) = True"
| "is_net_Error (PoolE _ _ _) = True"
| "is_net_Error (UnsupportedProtocolE _) = True"
| "is_net_Error _ = False"

fun is_CancelError :: "goerr \<Rightarrow> bool" where
  "is_CancelError (ExpireE _) = True"
| "is_CancelError (ConnectionHandlerE _ _ _ _ _ _) = True"
| "is_CancelError (ListenerHandlerE _ _ _ _ _) = True"
| "is_CancelError _ = False"

definition isNetwork :: "goerr option \<Rightarrow> bool" where
  "isNetwork err =
     (if errors_As is_net_Error err \<noteq> None then True else errors_Is err EOF \<or> errors_Is err ErrClosedPipe)"

text \<open>\<^verbatim>\<open>Network()\<close> of the transport errors.\<close>

fun err_Network :: "goerr \<Rightarrow> bool" where
  "err_Network (ExpireE _) = False"
| "err_Network (UnsupportedProtocolE _) = False"
| "err_Network e = isNetwork (Unwrap e)"

text \<open>
  The other methods call themselves on the error that \<^verbatim>\<open>errors.As\<close> finds below: \<open>classify own below\<close> is the method with the value
  \<open>own\<close> for the errors that decide themselves, where \<open>below\<close> is the interface that is looked for.
\<close>

function classify :: "(goerr \<Rightarrow> bool option) \<Rightarrow> (goerr \<Rightarrow> bool) \<Rightarrow> goerr \<Rightarrow> bool" where
  "classify own below e =
     (case own e of
        Some b \<Rightarrow> b
      | None \<Rightarrow> (case errors_As below (Unwrap e) of None \<Rightarrow> False | Some n \<Rightarrow> classify own below n))"
  by pat_completeness auto
termination by (relation "measure (\<lambda>(_, _, e). size e)") (auto dest: errors_As_size)

declare classify.simps [simp del]

fun own_Timeout :: "goerr \<Rightarrow> bool option" where
  "own_Timeout (NetE _ t _) = Some t"
| "own_Timeout (ExpireE _) = Some True"
| "own_Timeout (UnsupportedProtocolE _) = Some False"
| "own_Timeout _ = None"

fun own_Temporary :: "goerr \<Rightarrow> bool option" where
  "own_Temporary (NetE _ _ t) = Some t"
| "own_Temporary (ExpireE _) = Some False"
| "own_Temporary (UnsupportedProtocolE _) = Some False"
| "own_Temporary _ = None"

fun own_Canceled :: "goerr \<Rightarrow> bool option" where
  "own_Canceled (ExpireE _) = Some False"
| "own_Canceled _ = None"

fun own_Expired :: "goerr \<Rightarrow> bool option" where
  "own_Expired (ExpireE _) = Some True"
| "own_Expired _ = None"

text \<open>The methods, \<^term>\<open>None\<close> for a type that does not have them.\<close>

definition err_Timeout :: "goerr \<Rightarrow> bool option" where
  "err_Timeout e = (if is_net_Error e then Some (classify own_Timeout is_net_Error e) else None)"

definition err_Temporary :: "goerr \<Rightarrow> bool option" where
  "err_Temporary e = (if is_net_Error e then Some (classify own_Temporary is_net_Error e) else None)"

definition err_Canceled :: "goerr \<Rightarrow> bool option" where
  "err_Canceled e = (if is_CancelError e then Some (classify own_Canceled is_CancelError e) else None)"

definition err_Expired :: "goerr \<Rightarrow> bool option" where
  "err_Expired e = (if is_CancelError e then Some (classify own_Expired is_CancelError e) else None)"

definition isTimeout :: "goerr option \<Rightarrow> bool" where
  "isTimeout err = (case errors_As is_net_Error err of Some netErr \<Rightarrow> err_Timeout netErr = Some True | None \<Rightarrow> False)"

definition isTemporary :: "goerr option \<Rightarrow> bool" where
  "isTemporary err = (case errors_As is_net_Error err of Some netErr \<Rightarrow> err_Temporary netErr = Some True | None \<Rightarrow> False)"

definition isCanceled :: "goerr option \<Rightarrow> bool" where
  "isCanceled err = (case errors_As is_CancelError err of Some cancelErr \<Rightarrow> err_Canceled cancelErr = Some True | None \<Rightarrow> False)"

definition isExpired :: "goerr option \<Rightarrow> bool" where
  "isExpired err = (case errors_As is_CancelError err of Some expiryErr \<Rightarrow> err_Expired expiryErr = Some True | None \<Rightarrow> False)"

text \<open>
  The errors of the transactions and of the parser. The \<^verbatim>\<open>Timeout()\<close> of a transaction error is a constant of its type; without
  \<^verbatim>\<open>Temporary()\<close> it is no \<^verbatim>\<open>net.Error\<close>, and \<^verbatim>\<open>errors.As\<close> looks through it.
\<close>

fun Terminated :: "goerr \<Rightarrow> bool option" where
  "Terminated (TxTerminatedE _ _ _) = Some True"
| "Terminated (TxTimeoutE _ _ _) = Some False"
| "Terminated (TxTransportE _ _ _) = Some False"
| "Terminated _ = None"

fun tx_Timeout :: "goerr \<Rightarrow> bool option" where
  "tx_Timeout (TxTerminatedE _ _ _) = Some False"
| "tx_Timeout (TxTimeoutE _ _ _) = Some True"
| "tx_Timeout (TxTransportE _ _ _) = Some False"
| "tx_Timeout _ = None"

fun tx_Transport :: "goerr \<Rightarrow> bool option" where
  "tx_Transport (TxTerminatedE _ _ _) = Some False"
| "tx_Transport (TxTimeoutE _ _ _) = Some False"
| "tx_Transport (TxTransportE _ _ _) = Some True"
| "tx_Transport _ = None"

fun Syntax :: "goerr \<Rightarrow> bool option" where
  "Syntax (InvalidStartLineE _) = Some True"
| "Syntax (InvalidMessageFormatE _) = Some True"
| "Syntax (WriteE _) = Some False"
| "Syntax _ = None"

fun Malformed :: "goerr \<Rightarrow> bool option" where
  "Malformed (InvalidStartLineE _) = Some False"
| "Malformed (InvalidMessageFormatE _) = Some True"
| "Malformed (BrokenMessageE _ _) = Some False"
| "Malformed (MalformedMessageE _ _) = Some True"
| "Malformed (UnsupportedMessageE _ _) = Some True"
| "Malformed (UnexpectedMessageE _ _) = Some False"
| "Malformed _ = None"

fun Broken :: "goerr \<Rightarrow> bool option" where
  "Broken (InvalidStartLineE _) = Some True"
| "Broken (InvalidMessageFormatE _) = Some True"
| "Broken (BrokenMessageE _ _) = Some True"
| "Broken (MalformedMessageE _ _) = Some False"
| "Broken (UnsupportedMessageE _ _) = Some False"
| "Broken (UnexpectedMessageE _ _) = Some False"
| "Broken _ = None"

section \<open>Texts\<close>

text \<open>
  \<^verbatim>\<open>%s\<close> and \<^verbatim>\<open>%w\<close> of an error: \<^verbatim>\<open>fmt\<close> prints a nil error and a panic of its method as such. A map prints with its
  keys in order.
\<close>

definition fmt_error :: "char \<Rightarrow> string outcome option \<Rightarrow> string" where
  "fmt_error verb r =
     (case r of
        None \<Rightarrow> ''%!'' @ [verb] @ ''(<nil>)''
      | Some (Ok s) \<Rightarrow> s
      | Some _ \<Rightarrow> ''%!'' @ [verb] @
          ''(PANIC=Error method: runtime error: invalid memory address or nil pointer dereference)'')"

definition field :: "string \<Rightarrow> string \<Rightarrow> (string \<times> string) list" where
  "field k v = (if v \<noteq> '''' then [(k, v)] else [])"

definition fields_text :: "(string \<times> string) list \<Rightarrow> string" where
  "fields_text fields = ''map['' @ join '' '' (map (\<lambda>(k, v). k @ '':'' @ v) (sort_key fst fields)) @ '']''"

definition ConnectionError_Error :: "string \<Rightarrow> string \<Rightarrow> string \<Rightarrow> string \<Rightarrow> string \<Rightarrow> string \<Rightarrow> string" where
  "ConnectionError_Error inner op net source dest connPtr =
     (let fields = field ''net'' net @ field ''connection_ptr'' connPtr @ field ''source'' source @ field ''destination'' dest
      in ''transport.ConnectionError<'' @ fields_text fields @ ''> '' @ op @ '' failed: '' @ inner)"

definition ProtocolError_Error :: "string \<Rightarrow> string \<Rightarrow> string \<Rightarrow> string" where
  "ProtocolError_Error inner op protoPtr =
     ''transport.ProtocolError<'' @ fields_text (field ''protocol_ptr'' protoPtr) @ ''> '' @ op @ '' failed: '' @ inner"

definition ConnectionHandlerError_Error :: "string \<Rightarrow> string \<Rightarrow> string \<Rightarrow> string \<Rightarrow> string \<Rightarrow> string" where
  "ConnectionHandlerError_Error inner handlerPtr net lAddr rAddr =
     (let fields = field ''handler_ptr'' handlerPtr @ field ''network'' net @ field ''local_addr'' lAddr @ field ''remote_addr'' rAddr
      in ''transport.ConnectionHandlerError<'' @ fields_text fields @ ''>: '' @ inner)"

definition ListenerHandlerError_Error :: "string \<Rightarrow> string \<Rightarrow> string \<Rightarrow> string \<Rightarrow> string" where
  "ListenerHandlerError_Error inner handlerPtr net addr =
     (let fields = field ''handler_ptr'' handlerPtr @ field ''network'' net @ field ''local_addr'' addr
      in ''transport.ListenerHandlerError<'' @ fields_text fields @ ''>: '' @ inner)"

definition PoolError_Error :: "string \<Rightarrow> string \<Rightarrow> string \<Rightarrow> string" where
  "PoolError_Error inner op pool =
     ''transport.PoolError<'' @ fields_text (field ''pool'' pool) @ ''> '' @ op @ '' failed: '' @ inner"

definition tx_fields :: "string \<Rightarrow> string \<Rightarrow> string" where
  "tx_fields key ptr =
     fields_text [(''transaction_key'', if key \<noteq> '''' then key else ''???''), (''transaction_ptr'', if ptr \<noteq> '''' then ptr else ''???'')]"

definition TxTerminatedError_Error :: "string \<Rightarrow> string \<Rightarrow> string \<Rightarrow> string" where
  "TxTerminatedError_Error inner key ptr = ''transaction.TxTerminatedError<'' @ tx_fields key ptr @ ''>: '' @ inner"

definition TxTimeoutError_Error :: "string \<Rightarrow> string \<Rightarrow> string \<Rightarrow> string" where
  "TxTimeoutError_Error inner key ptr = ''transaction.TxTimeoutError<'' @ tx_fields key ptr @ ''>: '' @ inner"

definition TxTransportError_Error :: "string \<Rightarrow> string \<Rightarrow> string \<Rightarrow> string" where
  "TxTransportError_Error inner key ptr = ''transaction.TxTransportError<'' @ tx_fields key ptr @ ''>: '' @ inner"

text \<open>The errors of messages call \<^verbatim>\<open>err.Err.Error()\<close>, which panics on nil.\<close>

definition message_error_text :: "string \<Rightarrow> string outcome option \<Rightarrow> string \<Rightarrow> string outcome" where
  "message_error_text name inner msg =
     (case inner of
        None \<Rightarrow> Panic
      | Some r \<Rightarrow> omap (\<lambda>s. name @ '': '' @ s @ (if msg \<noteq> '''' then [LF] @ ''Message dump:'' @ [LF] @ msg else '''')) r)"

definition BrokenMessageError_Error :: "string outcome option \<Rightarrow> string \<Rightarrow> string outcome" where
  "BrokenMessageError_Error inner msg = message_error_text ''BrokenMessageError'' inner msg"

definition MalformedMessageError_Error :: "string outcome option \<Rightarrow> string \<Rightarrow> string outcome" where
  "MalformedMessageError_Error inner msg = message_error_text ''MalformedMessageError'' inner msg"

definition UnsupportedMessageError_Error :: "string outcome option \<Rightarrow> string \<Rightarrow> string outcome" where
  "UnsupportedMessageError_Error inner msg = message_error_text ''UnsupportedMessageError'' inner msg"

definition UnexpectedMessageError_Error :: "string outcome option \<Rightarrow> string \<Rightarrow> string outcome" where
  "UnexpectedMessageError_Error inner msg = message_error_text ''UnexpectedMessageError'' inner msg"

definition fmt_s :: "string outcome option \<Rightarrow> string" where "fmt_s = fmt_error (CHR ''s'')"

fun err_Error :: "goerr \<Rightarrow> string outcome" where
  "err_Error (ErrorString s) = Ok s"
| "err_Error (Wrapf s e) = Ok (s @ fmt_error (CHR ''w'') (Some (err_Error e)))"
| "err_Error EOF = Ok ''EOF''"
| "err_Error ErrClosedPipe = Ok ''io: read/write on closed pipe''"
| "err_Error (NetE s _ _) = Ok s"
| "err_Error (ConnectionE e op net source dest connPtr) =
     Ok (ConnectionError_Error (fmt_s (map_option err_Error e)) op net source dest connPtr)"
| "err_Error (ExpireE s) = Ok (''transport.ExpireError: '' @ s)"
| "err_Error (ProtocolE e op protoPtr) = Ok (ProtocolError_Error (fmt_s (map_option err_Error e)) op protoPtr)"
| "err_Error (ConnectionHandlerE e key handlerPtr net lAddr rAddr) =
     Ok (ConnectionHandlerError_Error (fmt_s (map_option err_Error e)) handlerPtr net lAddr rAddr)"
| "err_Error (ListenerHandlerE e key handlerPtr net addr) =
     Ok (ListenerHandlerError_Error (fmt_s (map_option err_Error e)) handlerPtr net addr)"
| "err_Error (PoolE e op pool) = Ok (PoolError_Error (fmt_s (map_option err_Error e)) op pool)"
| "err_Error (UnsupportedProtocolE s) = Ok (''transport.UnsupportedProtocolError: '' @ s)"
| "err_Error (TxTerminatedE e key ptr) = Ok (TxTerminatedError_Error (fmt_s (map_option err_Error e)) key ptr)"
| "err_Error (TxTimeoutE e key ptr) = Ok (TxTimeoutError_Error (fmt_s (map_option err_Error e)) key ptr)"
| "err_Error (TxTransportE e key ptr) = Ok (TxTransportError_Error (fmt_s (map_option err_Error e)) key ptr)"
| "err_Error (InvalidStartLineE s) = Ok (''parser.InvalidStartLineError: '' @ s)"
| "err_Error (InvalidMessageFormatE s) = Ok (''parser.InvalidMessageFormat: '' @ s)"
| "err_Error (WriteE s) = Ok (''parser.WriteError: '' @ s)"
| "err_Error (BrokenMessageE e msg) = BrokenMessageError_Error (map_option err_Error e) msg"
| "err_Error (MalformedMessageE e msg) = MalformedMessageError_Error (map_option err_Error e) msg"
| "err_Error (UnsupportedMessageE e msg) = UnsupportedMessageError_Error (map_option err_Error e) msg"
| "err_Error (UnexpectedMessageE e msg) = UnexpectedMessageError_Error (map_option err_Error e) msg"
| "err_Error (NotExitCallbackE name) = Ok (''NotExitCallbackError: '' @ name)"

text \<open>\<^verbatim>\<open>EOF()\<close> of a \<^verbatim>\<open>ConnectionHandlerError\<close> with the given \<^verbatim>\<open>Err\<close>: the regular expression \<^verbatim>\<open>(?i)eof\<close> on its text.\<close>

definition handler_EOF :: "goerr option \<Rightarrow> bool outcome" where
  "handler_EOF err =
     (case err of
        None \<Rightarrow> Panic
      | Some e \<Rightarrow> if e = EOF then Ok True else omap (\<lambda>s. contains_sub (ToLower s) ''eof'') (err_Error e))"

section \<open>Lemmas\<close>

lemma chain_unfold: "chain e = e # error_chain (Unwrap e)"
  by (subst chain.simps) (simp add: error_chain_def split: option.split)

lemma chain_not_Nil [simp]: "chain e \<noteq> []"
  by (simp add: chain_unfold)

lemma last_chain_in:
  assumes "n \<in> set (chain e)"
  shows "last (chain n) = last (chain e)"
  using assms
proof (induction e rule: chain.induct)
  case (1 e)
  show ?case
  proof (cases "n = e \<or> Unwrap e = None")
    case True
    with "1.prems" show ?thesis by (auto simp: chain_unfold [of e] error_chain_def)
  next
    case False
    then obtain e' where e': "Unwrap e = Some e'" by auto
    with False "1.prems" have "n \<in> set (chain e')" by (auto simp: chain_unfold [of e] error_chain_def)
    with "1.IH" [OF e'] e' show ?thesis by (simp add: chain_unfold [of e] error_chain_def)
  qed
qed

text \<open>The last error of the chain decides, when only errors without a successor decide.\<close>

lemma classify_root:
  assumes own: "\<And>e. own e \<noteq> None \<Longrightarrow> Unwrap e = None \<and> below e"
  shows "classify own below e = (case own (last (chain e)) of Some b \<Rightarrow> b | None \<Rightarrow> False)"
proof (induction e rule: measure_induct_rule [of size])
  case (less e)
  show ?case
  proof (cases "own e")
    case (Some b)
    with own [of e] show ?thesis by (simp add: classify.simps [of own below e] chain_unfold error_chain_def)
  next
    case None
    show ?thesis
    proof (cases "errors_As below (Unwrap e)")
      case As: None
      then have "\<not> below n" if "n \<in> set (error_chain (Unwrap e))" for n
        using that by (auto simp: errors_As_def find_None_iff)
      then have "own n = None" if "n \<in> set (chain e)" for n
        using that own [of n] None by (cases "own n") (auto simp: chain_unfold)
      then have "own (last (chain e)) = None" by simp
      with None As show ?thesis by (simp add: classify.simps [of own below e])
    next
      case (Some n)
      then have "n \<in> set (error_chain (Unwrap e))" by (auto simp: errors_As_def find_Some_iff)
      then have "last (chain n) = last (chain e)" by (intro last_chain_in) (simp add: chain_unfold [of e])
      with less.IH [OF errors_As_size [OF Some]] Some None show ?thesis by (simp add: classify.simps [of own below e])
    qed
  qed
qed

lemma own_leaves:
  "own_Timeout e \<noteq> None \<Longrightarrow> Unwrap e = None \<and> is_net_Error e" "own_Temporary e \<noteq> None \<Longrightarrow> Unwrap e = None \<and> is_net_Error e"
  "own_Canceled e \<noteq> None \<Longrightarrow> Unwrap e = None \<and> is_CancelError e" "own_Expired e \<noteq> None \<Longrightarrow> Unwrap e = None \<and> is_CancelError e"
  by (cases e; simp)+

lemma errors_As_below: "errors_As below err = Some n \<Longrightarrow> below n"
  by (auto simp: errors_As_def find_Some_iff)

text \<open>Asking the first error of the chain that has the method is asking the chain.\<close>

lemma classify_As:
  assumes own: "\<And>e. own e \<noteq> None \<Longrightarrow> Unwrap e = None \<and> below e"
  shows "(case errors_As below (Some e1) of Some n \<Rightarrow> classify own below n | None \<Rightarrow> False) = classify own below e1"
proof (cases "below e1")
  case True
  then show ?thesis by (simp add: errors_As_def error_chain_def chain_unfold [of e1])
next
  case False
  then have "own e1 = None" using own [of e1] by (cases "own e1") auto
  moreover have "errors_As below (Some e1) = errors_As below (Unwrap e1)"
    using False by (simp add: errors_As_def error_chain_def [of "Some e1"] chain_unfold [of e1])
  ultimately show ?thesis by (simp add: classify.simps [of own below e1])
qed

lemma contains_sub_suffix: "contains_sub (a @ b) b"
proof -
  have "index_sub b (a @ b) \<noteq> None"
  proof (induction a)
    case Nil
    then show ?case by (cases b) (auto simp: has_prefix_def)
  qed auto
  then show ?thesis by (simp add: contains_sub_def)
qed

text \<open>The text of an error ends with the text of the error it wraps.\<close>

lemma Error_of_EOF:
  assumes "last (chain e) = EOF"
  shows "\<exists>p. err_Error e = Ok (p @ ''EOF'')"
  using assms
proof (induction e rule: chain.induct)
  case (1 e)
  show ?case
  proof (cases "Unwrap e")
    case None
    with "1.prems" show ?thesis by (simp add: chain_unfold error_chain_def)
  next
    case (Some e')
    with "1.prems" have "last (chain e') = EOF" by (simp add: chain_unfold [of e] error_chain_def)
    from "1.IH" [OF Some this] obtain p where p: "err_Error e' = Ok (p @ ''EOF'')" ..
    then have inner: "fmt_error v (Some (err_Error e')) = p @ ''EOF''" "fmt_s (Some (err_Error e')) = p @ ''EOF''" for v
      by (simp_all add: fmt_error_def fmt_s_def)
    have "\<exists>q. err_Error e = Ok (q @ p @ ''EOF'')"
      using Some by (cases e) (auto simp: inner ConnectionError_Error_def ProtocolError_Error_def ConnectionHandlerError_Error_def
          ListenerHandlerError_Error_def PoolError_Error_def TxTerminatedError_Error_def TxTimeoutError_Error_def
          TxTransportError_Error_def Let_def simp flip: append_assoc)
    then show ?thesis by (metis append_assoc)
  qed
qed

section \<open>Properties\<close>

text \<open>
  C36: However often an error is wrapped - by transport errors, transaction errors or \<^verbatim>\<open>fmt.Errorf\<close> - the last error of the chain
  decides what \<^verbatim>\<open>isTimeout\<close>, \<^verbatim>\<open>isTemporary\<close> and \<^verbatim>\<open>isExpired\<close> answer: an error of the network answers for itself, an expired connection
  is a timeout that is not temporary, and everything else is neither; nothing is ever canceled. The methods of the
  transport errors answer the same; \<^verbatim>\<open>Timeout()\<close> of a transaction error does not ask the chain.
\<close>

theorem error_class_of_root:
  "isTimeout (Some e) = (case last (chain e) of NetE _ t _ \<Rightarrow> t | ExpireE _ \<Rightarrow> True | _ \<Rightarrow> False) \<and>
   isTemporary (Some e) = (case last (chain e) of NetE _ _ t \<Rightarrow> t | _ \<Rightarrow> False) \<and>
   isExpired (Some e) = (case last (chain e) of ExpireE _ \<Rightarrow> True | _ \<Rightarrow> False) \<and> \<not> isCanceled (Some e) \<and>
   err_Timeout e = (if is_net_Error e then Some (isTimeout (Some e)) else None) \<and>
   err_Temporary e = (if is_net_Error e then Some (isTemporary (Some e)) else None) \<and>
   err_Expired e = (if is_CancelError e then Some (isExpired (Some e)) else None) \<and>
   err_Canceled e = (if is_CancelError e then Some False else None) \<and>
   tx_Timeout (TxTimeoutE w key ptr) = Some True \<and> tx_Timeout (TxTransportE w key ptr) = Some False"
proof -
  note roots = classify_root [OF own_leaves(1)] classify_root [OF own_leaves(2)] classify_root [OF own_leaves(3)]
    classify_root [OF own_leaves(4)]
  have asked: "isTimeout (Some e) = classify own_Timeout is_net_Error e" "isTemporary (Some e) = classify own_Temporary is_net_Error e"
    "isCanceled (Some e) = classify own_Canceled is_CancelError e" "isExpired (Some e) = classify own_Expired is_CancelError e"
    using classify_As [of _ _ e, OF own_leaves(1)] classify_As [of _ _ e, OF own_leaves(2)] classify_As [of _ _ e, OF own_leaves(3)]
      classify_As [of _ _ e, OF own_leaves(4)]
    by (auto simp: isTimeout_def isTemporary_def isCanceled_def isExpired_def err_Timeout_def err_Temporary_def
        err_Canceled_def err_Expired_def errors_As_below split: option.splits)
  show ?thesis
    by (simp add: asked err_Timeout_def err_Temporary_def err_Canceled_def err_Expired_def roots split: goerr.split)
qed

text \<open>
  A wrapped end of file is recognised at any depth.
\<close>

theorem EOF_recognised:
  assumes "last (chain e) = EOF"
  shows "handler_EOF (Some e) = Ok True"
proof -
  obtain p where "err_Error e = Ok (p @ ''EOF'')" using Error_of_EOF [OF assms] ..
  moreover have "ToLower (p @ ''EOF'') = ToLower p @ ''eof''"
    by (simp add: ToLower_def lower_char_def byte_def char_of_def bit_iff_odd)
  ultimately show ?thesis by (simp add: handler_EOF_def contains_sub_suffix)
qed

theorem EOF_recognised_witness:
  "handler_EOF (Some (ConnectionE (Some (Wrapf ''read message body failed: '' EOF)) ''read'' ''tcp'' '''' '''' '''')) = Ok True"
  by (rule EOF_recognised) (simp add: chain_unfold error_chain_def)

text \<open>
  \<^verbatim>\<open>Network()\<close> of a wrapping transport error asks only whether some error below has the methods of \<^verbatim>\<open>net.Error\<close> or is the end of a file or pipe.
  All transport errors have them, so an error that says of itself that it is not one of the network becomes one when it is wrapped: an expired
  connection and an unsupported protocol.
\<close>

theorem wrapped_error_is_network:
  "isNetwork err = (\<exists>n \<in> set (error_chain err). is_net_Error n \<or> n = EOF \<or> n = ErrClosedPipe) \<and>
   \<not> err_Network (ExpireE s) \<and> err_Network (ConnectionHandlerE (Some (ExpireE s)) key ptr net lAddr rAddr) \<and>
   \<not> err_Network (UnsupportedProtocolE s) \<and> err_Network (ProtocolE (Some (UnsupportedProtocolE s)) op ptr)"
proof -
  have net: "isNetwork err = (\<exists>n \<in> set (error_chain err). is_net_Error n \<or> n = EOF \<or> n = ErrClosedPipe)" for err
    by (auto simp: isNetwork_def errors_As_def errors_Is_def find_None_iff)
  have "error_chain (Some (ExpireE s)) = [ExpireE s]" "error_chain (Some (UnsupportedProtocolE s)) = [UnsupportedProtocolE s]"
    by (simp_all add: error_chain_def chain_unfold)
  then have "isNetwork (Some (ExpireE s))" "isNetwork (Some (UnsupportedProtocolE s))" by (simp_all add: net)
  with net [of err] show ?thesis by simp
qed

end
