(* ===== verification/Gsip_Elastic.thy ===== *)
theory Gsip_Elastic
  imports Gsip_Prelude
begin

text \<open>
  The elastic channel (\<^verbatim>\<open>utils/elasticchan.go\<close>), by which \<^verbatim>\<open>Write\<close> tells the goroutine of an unstreamed parser the length of the next body.
  The goroutine \<^verbatim>\<open>manage\<close> moves values over a slice between two channels of capacity 3. The parser model uses a
  plain queue in its place (\<open>pr_bodyLengths\<close>); here the channel is shown to implement it.
\<close>

section \<open>State and steps\<close>

definition cElasticChanSize :: nat where "cElasticChanSize = 3"

text \<open>Where the goroutine is: in the loop of \<^verbatim>\<open>manage\<close>, in \<^verbatim>\<open>dispose\<close>, or finished (\<^verbatim>\<open>done\<close> is closed).\<close>

datatype manager = Managing | Disposing | Finished

record 'a ElasticChan =
  ec_In :: "'a list"
  ec_In_closed :: bool
  ec_Out :: "'a list"
  ec_buffer :: "'a list"
  ec_manager :: manager

definition ElasticChan_Init :: "'a ElasticChan" where
  "ElasticChan_Init = \<lparr>ec_In = [], ec_In_closed = False, ec_Out = [], ec_buffer = [], ec_manager = Managing\<rparr>"

text \<open>
  The operations on a channel; \<^term>\<open>None\<close> while the goroutine that does them has to wait, \<^term>\<open>Panic\<close> for a send on the closed
  channel and for a second \<^verbatim>\<open>close\<close>.
\<close>

definition ec_send :: "'a \<Rightarrow> 'a ElasticChan \<Rightarrow> 'a ElasticChan outcome option" where
  "ec_send v c =
     (if ec_In_closed c then Some Panic
      else if length (ec_In c) < cElasticChanSize then Some (Ok (c\<lparr>ec_In := ec_In c @ [v]\<rparr>))
      else None)"

definition ec_receive :: "'a ElasticChan \<Rightarrow> ('a \<times> 'a ElasticChan) option" where
  "ec_receive c = (case ec_Out c of [] \<Rightarrow> None | v # out \<Rightarrow> Some (v, c\<lparr>ec_Out := out\<rparr>))"

text \<open>\<^verbatim>\<open>Stop\<close> up to its wait for \<^verbatim>\<open>done\<close>.\<close>

definition ElasticChan_Stop :: "'a ElasticChan \<Rightarrow> 'a ElasticChan outcome" where
  "ElasticChan_Stop c =
     (if ec_manager c = Finished then Ok c
      else if ec_In_closed c then Panic
      else Ok (c\<lparr>ec_In_closed := True\<rparr>))"

text \<open>
  One turn of the goroutine. In \<^verbatim>\<open>manage\<close> the \<^verbatim>\<open>select\<close> takes a ready case: \<open>receive\<close> is its choice when both are, and it waits
  when none is. With an empty buffer only the receiving case is there. A receive on the closed and empty channel ends the loop. \<^verbatim>\<open>dispose\<close> polls:
  its turn changes nothing when \<^verbatim>\<open>Out\<close> is full.
\<close>

definition manage_receive :: "'a ElasticChan \<Rightarrow> 'a ElasticChan option" where
  "manage_receive c =
     (case ec_In c of
        v # rest \<Rightarrow> Some (c\<lparr>ec_In := rest, ec_buffer := ec_buffer c @ [v]\<rparr>)
      | [] \<Rightarrow> if ec_In_closed c then Some (c\<lparr>ec_manager := Disposing\<rparr>) else None)"

definition emit :: "'a ElasticChan \<Rightarrow> 'a ElasticChan option" where
  "emit c =
     (if length (ec_Out c) < cElasticChanSize then
        (case ec_buffer c of
           v # rest \<Rightarrow> Some (c\<lparr>ec_Out := ec_Out c @ [v], ec_buffer := rest\<rparr>)
         | [] \<Rightarrow> None)
      else None)"

definition manage_turn :: "bool \<Rightarrow> 'a ElasticChan \<Rightarrow> 'a ElasticChan option" where
  "manage_turn receive c =
     (if ec_buffer c = [] then manage_receive c
      else if receive then (case manage_receive c of Some c' \<Rightarrow> Some c' | None \<Rightarrow> emit c)
      else (case emit c of Some c' \<Rightarrow> Some c' | None \<Rightarrow> manage_receive c))"

definition dispose_turn :: "'a ElasticChan \<Rightarrow> 'a ElasticChan" where
  "dispose_turn c =
     (if ec_buffer c = [] then c\<lparr>ec_manager := Finished\<rparr>
      else case emit c of Some c' \<Rightarrow> c' | None \<Rightarrow> c)"

fun goroutine_turn :: "bool \<Rightarrow> 'a ElasticChan \<Rightarrow> 'a ElasticChan option" where
  "goroutine_turn receive c =
     (case ec_manager c of
        Managing \<Rightarrow> manage_turn receive c
      | Disposing \<Rightarrow> Some (dispose_turn c)
      | Finished \<Rightarrow> None)"

text \<open>What can happen to a channel, with the values that were sent and received so far.\<close>

inductive ec_reachable :: "'a ElasticChan \<Rightarrow> 'a list \<Rightarrow> 'a list \<Rightarrow> bool" where
  created: "ec_reachable ElasticChan_Init [] []"
| sent: "ec_reachable c xs ys \<Longrightarrow> ec_send v c = Some (Ok c') \<Longrightarrow> ec_reachable c' (xs @ [v]) ys"
| received: "ec_reachable c xs ys \<Longrightarrow> ec_receive c = Some (v, c') \<Longrightarrow> ec_reachable c' xs (ys @ [v])"
| stopped: "ec_reachable c xs ys \<Longrightarrow> ElasticChan_Stop c = Ok c' \<Longrightarrow> ec_reachable c' xs ys"
| turned: "ec_reachable c xs ys \<Longrightarrow> goroutine_turn b c = Some c' \<Longrightarrow> ec_reachable c' xs ys"

section \<open>The queue it implements\<close>

definition ec_queue :: "'a ElasticChan \<Rightarrow> 'a list" where
  "ec_queue c = ec_Out c @ ec_buffer c @ ec_In c"

lemma emit_queue:
  assumes "emit c = Some c'"
  shows "ec_queue c' = ec_queue c" "ec_In c' = ec_In c" "ec_In_closed c' = ec_In_closed c" "ec_manager c' = ec_manager c"
    "length (ec_buffer c) = Suc (length (ec_buffer c'))" "length (ec_Out c') \<le> cElasticChanSize"
  using assms by (auto simp: emit_def ec_queue_def split: if_splits list.splits)

lemma manage_receive_queue:
  assumes "manage_receive c = Some c'"
  shows "ec_queue c' = ec_queue c" "ec_Out c' = ec_Out c" "ec_In_closed c' = ec_In_closed c" "ec_manager c' \<noteq> Finished \<or> ec_manager c = Finished"
    "ec_manager c' = Disposing \<Longrightarrow> ec_manager c = Disposing \<or> ec_In c' = [] \<and> ec_In_closed c'"
  using assms by (auto simp: manage_receive_def ec_queue_def split: if_splits list.splits)

lemma manage_turn_cases: "manage_turn b c = Some c' \<Longrightarrow> manage_receive c = Some c' \<or> emit c = Some c'"
  by (auto simp: manage_turn_def split: if_splits option.splits)

lemma ec_queue_manager [simp]: "ec_queue (c\<lparr>ec_manager := m\<rparr>) = ec_queue c"
  by (simp add: ec_queue_def)

lemma turn_queue:
  assumes "goroutine_turn b c = Some c'"
  shows "ec_queue c' = ec_queue c \<and> ec_In_closed c' = ec_In_closed c"
  using assms
  by (auto simp: manage_turn_def dispose_turn_def split: manager.splits if_splits option.splits
      dest: emit_queue(1,3) manage_receive_queue(1,3))

definition ec_ok :: "'a ElasticChan \<Rightarrow> bool" where
  "ec_ok c \<longleftrightarrow> length (ec_In c) \<le> cElasticChanSize \<and> length (ec_Out c) \<le> cElasticChanSize \<and>
     (ec_manager c \<noteq> Managing \<longrightarrow> ec_In_closed c \<and> ec_In c = []) \<and> (ec_manager c = Finished \<longrightarrow> ec_buffer c = [])"

lemma ec_ok_emit: "emit c = Some c' \<Longrightarrow> ec_ok c \<Longrightarrow> ec_ok c'"
  by (auto simp: emit_def ec_ok_def split: if_splits list.splits)

lemma ec_ok_turn:
  assumes "goroutine_turn b c = Some c'" "ec_ok c"
  shows "ec_ok c'"
proof (cases "ec_manager c")
  case Managing
  have "ec_ok c'" if "manage_receive c = Some c'"
    using that assms(2) Managing by (auto simp: manage_receive_def ec_ok_def split: if_splits list.splits)
  with Managing assms ec_ok_emit show ?thesis by (auto dest: manage_turn_cases)
next
  case Disposing
  have "ec_ok (c\<lparr>ec_manager := Finished\<rparr>)" if "ec_buffer c = []" using that assms(2) Disposing by (simp add: ec_ok_def)
  with Disposing assms ec_ok_emit show ?thesis by (auto simp: dispose_turn_def split: if_splits option.splits)
qed (use assms in simp)

text \<open>How far the goroutine is from its end.\<close>

definition ec_left :: "'a ElasticChan \<Rightarrow> nat" where
  "ec_left c = 2 * length (ec_In c) + length (ec_buffer c) +
     (case ec_manager c of Managing \<Rightarrow> 2 | Disposing \<Rightarrow> 1 | Finished \<Rightarrow> 0)"

lemma turn_progress:
  assumes "ec_In_closed c" "length (ec_queue c) \<le> cElasticChanSize" "ec_manager c \<noteq> Finished"
  obtains c' where "goroutine_turn b c = Some c'" "ec_left c' < ec_left c"
proof -
  have "length (ec_Out c) < cElasticChanSize" if "ec_buffer c \<noteq> []"
    using assms(2) that by (cases "ec_buffer c") (auto simp: ec_queue_def)
  then have "\<exists>c'. emit c = Some c' \<and> ec_left c' < ec_left c" if "ec_buffer c \<noteq> []"
    using that by (auto simp: emit_def ec_left_def split: list.split)
  moreover have "\<exists>c'. manage_receive c = Some c' \<and> ec_left c' < ec_left c" if "ec_manager c = Managing"
    using assms(1) that by (auto simp: manage_receive_def ec_left_def split: list.split)
  moreover have "ec_left (c\<lparr>ec_manager := Finished\<rparr>) < ec_left c" if "ec_manager c = Disposing"
    using that by (simp add: ec_left_def)
  ultimately have "\<exists>c'. goroutine_turn b c = Some c' \<and> ec_left c' < ec_left c"
    using assms(3) by (cases "ec_manager c") (force simp: manage_turn_def dispose_turn_def)+
  with that show thesis by blast
qed

text \<open>The goroutine alone, without a reader, by the choices \<open>bs\<close> of its \<^verbatim>\<open>select\<close>.\<close>

fun turns :: "bool list \<Rightarrow> 'a ElasticChan \<Rightarrow> 'a ElasticChan" where
  "turns [] c = c"
| "turns (b # bs) c = (case goroutine_turn b c of None \<Rightarrow> c | Some c' \<Rightarrow> turns bs c')"

lemma turns_end:
  assumes "ec_In_closed c" "length (ec_queue c) \<le> cElasticChanSize" "ec_left c \<le> length bs"
  shows "ec_manager (turns bs c) = Finished"
  using assms
proof (induction bs arbitrary: c)
  case Nil
  then show ?case by (cases "ec_manager c") (simp_all add: ec_left_def)
next
  case (Cons b bs)
  show ?case
  proof (cases "ec_manager c = Finished")
    case False
    then obtain c' where c': "goroutine_turn b c = Some c'" "ec_left c' < ec_left c"
      by (rule turn_progress [OF Cons.prems(1,2)])
    with turn_queue [OF c'(1)] Cons.prems have "ec_manager (turns bs c') = Finished" by (intro Cons.IH) auto
    with c'(1) show ?thesis by (simp del: goroutine_turn.simps)
  qed simp
qed

lemma turns_ok:
  assumes "ec_ok c"
  shows "ec_ok (turns bs c) \<and> ec_queue (turns bs c) = ec_queue c"
  using assms
proof (induction bs arbitrary: c)
  case (Cons b bs)
  show ?case
  proof (cases "goroutine_turn b c")
    case (Some c')
    with Cons.IH [OF ec_ok_turn [OF Some Cons.prems]] turn_queue [OF Some] show ?thesis by (simp del: goroutine_turn.simps)
  qed (use Cons.prems in \<open>simp del: goroutine_turn.simps\<close>)
qed simp

lemma ec_reachable_ok:
  assumes "ec_reachable c xs ys"
  shows "ec_ok c \<and> xs = ys @ ec_queue c"
  using assms
proof induction
  case created
  show ?case by (simp add: ElasticChan_Init_def ec_ok_def ec_queue_def)
next
  case (sent c xs ys v c')
  then show ?case by (auto simp: ec_send_def ec_ok_def ec_queue_def split: if_splits)
next
  case (received c xs ys v c')
  then show ?case by (auto simp: ec_receive_def ec_ok_def ec_queue_def split: list.splits)
next
  case (stopped c xs ys c')
  then show ?case by (auto simp: ElasticChan_Stop_def ec_ok_def ec_queue_def split: if_splits)
next
  case (turned c xs ys b c')
  with ec_ok_turn [OF turned.hyps(2)] turn_queue [OF turned.hyps(2)] show ?case by simp
qed

section \<open>Progress\<close>

text \<open>
  A distance that every turn of the goroutine makes smaller is used up after that many turns, whatever the
  \<^verbatim>\<open>select\<close> chooses.
\<close>

lemma turns_reach:
  assumes turn: "\<And>c b. I c \<Longrightarrow> 0 < f c \<Longrightarrow> \<exists>c'. goroutine_turn b c = Some c' \<and> I c' \<and> f c' < f c"
    and stay: "\<And>c b c'. I c \<Longrightarrow> f c = 0 \<Longrightarrow> goroutine_turn b c = Some c' \<Longrightarrow> I c' \<and> f c' = (0 :: nat)"
    and "I c" "f c \<le> length bs"
  shows "f (turns bs c) = 0"
  using assms(3,4)
proof (induction bs arbitrary: c)
  case (Cons b bs)
  show ?case
  proof (cases "goroutine_turn b c")
    case None
    with turn [of c b] Cons.prems(1) show ?thesis by (cases "f c") (simp_all del: goroutine_turn.simps)
  next
    case (Some c')
    with turn [of c b] stay [of c b c'] Cons.prems have "I c'" "f c' \<le> length bs" by (cases "f c"; simp del: goroutine_turn.simps)+
    with Some Cons.IH show ?thesis by (simp del: goroutine_turn.simps)
  qed
qed simp

text \<open>How many turns a writer waits for room at most, and a reader for the oldest value.\<close>

definition room_distance :: "'a ElasticChan \<Rightarrow> nat" where
  "room_distance c =
     (if length (ec_In c) < cElasticChanSize then 0 else Suc (cElasticChanSize - length (ec_Out c)))"

definition value_distance :: "'a ElasticChan \<Rightarrow> nat" where
  "value_distance c = (if ec_Out c \<noteq> [] then 0 else Suc (length (ec_In c)))"

definition ec_live :: "'a ElasticChan \<Rightarrow> bool" where
  "ec_live c \<longleftrightarrow> ec_ok c \<and> \<not> ec_In_closed c"

lemma ec_live_turn: "ec_live c \<Longrightarrow> goroutine_turn b c = Some c' \<Longrightarrow> ec_live c'"
  using ec_ok_turn turn_queue unfolding ec_live_def by metis

lemma live_turn: "ec_live c \<Longrightarrow> goroutine_turn b c = manage_turn b c"
  by (auto simp: ec_live_def ec_ok_def split: manager.split)

lemma manage_turn_distance:
  assumes "ec_live c" "manage_turn b c = Some c'"
  shows "0 < room_distance c \<Longrightarrow> room_distance c' < room_distance c" "room_distance c = 0 \<Longrightarrow> room_distance c' = 0"
    "0 < value_distance c \<Longrightarrow> value_distance c' < value_distance c" "value_distance c = 0 \<Longrightarrow> value_distance c' = 0"
  using assms
  by (auto simp: manage_turn_def manage_receive_def emit_def room_distance_def value_distance_def ec_live_def ec_ok_def
      split: if_splits list.splits option.splits)

lemma manage_turn_ready:
  assumes "ec_live c" "0 < room_distance c \<or> ec_Out c = [] \<and> ec_queue c \<noteq> []"
  shows "\<exists>c'. manage_turn b c = Some c'"
  using assms
  by (cases "ec_In c"; cases "ec_buffer c")
    (auto simp: manage_turn_def manage_receive_def emit_def room_distance_def ec_live_def ec_queue_def cElasticChanSize_def
      split: if_splits list.splits option.splits)

lemma turns_live: "ec_live c \<Longrightarrow> ec_live (turns bs c) \<and> ec_queue (turns bs c) = ec_queue c"
proof (induction bs arbitrary: c)
  case (Cons b bs)
  show ?case
  proof (cases "goroutine_turn b c")
    case (Some c')
    with Cons.IH [OF ec_live_turn [OF Cons.prems Some]] turn_queue [OF Some] show ?thesis by (simp del: goroutine_turn.simps)
  qed (use Cons.prems in \<open>simp del: goroutine_turn.simps\<close>)
qed simp

lemma send_ready:
  assumes live: "ec_live c" and bs: "cElasticChanSize < length bs"
  shows "\<exists>c'. ec_send v (turns bs c) = Some (Ok c') \<and> ec_queue c' = ec_queue c @ [v]"
proof -
  have "room_distance (turns bs c) = 0"
  proof (rule turns_reach [of ec_live])
    fix c :: "'a ElasticChan" and b assume "ec_live c" "0 < room_distance c"
    then show "\<exists>c'. goroutine_turn b c = Some c' \<and> ec_live c' \<and> room_distance c' < room_distance c"
      using manage_turn_ready [of c b] manage_turn_distance(1) ec_live_turn live_turn by metis
  next
    fix c c' :: "'a ElasticChan" and b assume "ec_live c" "room_distance c = 0" "goroutine_turn b c = Some c'"
    then show "ec_live c' \<and> room_distance c' = 0"
      using manage_turn_distance(2) ec_live_turn live_turn by metis
  qed (use live bs in \<open>auto simp: room_distance_def\<close>)
  with turns_live [OF live, of bs] show ?thesis
    by (auto simp: room_distance_def ec_send_def ec_live_def ec_queue_def split: if_splits)
qed

lemma receive_ready:
  assumes live: "ec_live c" and queue: "ec_queue c = v # q" and bs: "cElasticChanSize < length bs"
  shows "\<exists>c'. ec_receive (turns bs c) = Some (v, c') \<and> ec_queue c' = q"
proof -
  let ?inv = "\<lambda>c. ec_live c \<and> ec_queue c \<noteq> []"
  have "value_distance (turns bs c) = 0"
  proof (rule turns_reach [of ?inv])
    fix c :: "'a ElasticChan" and b assume *: "?inv c" "0 < value_distance c"
    then have "ec_Out c = []" by (simp add: value_distance_def split: if_splits)
    with * obtain c' where "manage_turn b c = Some c'" using manage_turn_ready [of c b] by blast
    with * show "\<exists>c'. goroutine_turn b c = Some c' \<and> ?inv c' \<and> value_distance c' < value_distance c"
      using manage_turn_distance(3) ec_live_turn live_turn turn_queue by metis
  next
    fix c c' :: "'a ElasticChan" and b assume "?inv c" "value_distance c = 0" "goroutine_turn b c = Some c'"
    then show "?inv c' \<and> value_distance c' = 0"
      using manage_turn_distance(4) ec_live_turn live_turn turn_queue by metis
  qed (use live queue bs in \<open>auto simp: value_distance_def ec_live_def ec_ok_def\<close>)
  then obtain w out where out: "ec_Out (turns bs c) = w # out"
    by (cases "ec_Out (turns bs c)") (auto simp: value_distance_def)
  with turns_live [OF live, of bs] queue show ?thesis by (auto simp: ec_receive_def ec_queue_def)
qed

section \<open>Properties\<close>

text \<open>
  C14: The channel is a first-in-first-out queue that loses nothing: what was sent is what was received, followed by what \<^verbatim>\<open>Out\<close>, the buffer and \<^verbatim>\<open>In\<close> hold in
  this order; the two channels stay within their capacity, and the goroutine is finished only when \<^verbatim>\<open>In\<close> is closed and
  \<^verbatim>\<open>In\<close> and the buffer are empty.
\<close>

theorem elastic_channel_fifo:
  assumes "ec_reachable c xs ys"
  shows "xs = ys @ ec_Out c @ ec_buffer c @ ec_In c \<and>
    length (ec_In c) \<le> cElasticChanSize \<and> length (ec_Out c) \<le> cElasticChanSize \<and>
    (ec_manager c = Finished \<longrightarrow> ec_In_closed c \<and> ec_In c = [] \<and> ec_buffer c = [])"
  using ec_reachable_ok [OF assms] by (simp add: ec_ok_def ec_queue_def)

text \<open>
  C37: After \<^verbatim>\<open>Stop\<close> has closed \<^verbatim>\<open>In\<close>, the goroutine ends without a reader exactly when at most three values are left, whatever its
  \<^verbatim>\<open>select\<close> chooses and within twice that number of turns and two; with more values it polls a full channel for
  ever, and \<^verbatim>\<open>Stop\<close>, which waits for it, does not return.
\<close>

theorem elastic_channel_stop:
  assumes "ec_reachable c xs ys" "ec_In_closed c"
  shows "((\<exists>bs. ec_manager (turns bs c) = Finished) \<longleftrightarrow> length (ec_queue c) \<le> cElasticChanSize) \<and>
    (\<forall>bs. length (ec_queue c) \<le> cElasticChanSize \<and> 2 * length (ec_queue c) + 2 \<le> length bs \<longrightarrow> ec_manager (turns bs c) = Finished)"
proof -
  have ok: "ec_ok c" using ec_reachable_ok [OF assms(1)] by blast
  have "length (ec_queue c) \<le> cElasticChanSize" if "ec_manager (turns bs c) = Finished" for bs
    using turns_ok [OF ok, of bs] that by (auto simp: ec_ok_def ec_queue_def)
  moreover have "ec_left c \<le> 2 * length (ec_queue c) + 2"
    by (auto simp: ec_left_def ec_queue_def split: manager.split)
  then have "ec_manager (turns bs c) = Finished" if "length (ec_queue c) \<le> cElasticChanSize" "2 * length (ec_queue c) + 2 \<le> length bs" for bs
    using turns_end [OF assms(2) that(1)] that(2) by simp
  moreover have "2 * length (ec_queue c) + 2 \<le> length (replicate (2 * length (ec_queue c) + 2) True)" by simp
  ultimately show ?thesis by blast
qed

section \<open>Witnesses\<close>

text \<open>A channel after the values \<open>1, \<dots>, n\<close> have been sent and taken into the buffer, and \<^verbatim>\<open>In\<close> is closed.\<close>

lemma sample_channel_reachable:
  "ec_reachable \<lparr>ec_In = [], ec_In_closed = False, ec_Out = [], ec_buffer = [1..<Suc n], ec_manager = Managing\<rparr> [1..<Suc n] []"
proof (induction n)
  case 0
  show ?case using ec_reachable.created by (simp add: ElasticChan_Init_def)
next
  case (Suc n)
  let ?c = "\<lambda>i b. \<lparr>ec_In = i, ec_In_closed = False, ec_Out = [], ec_buffer = b, ec_manager = Managing\<rparr>"
  have "ec_reachable (?c [Suc n] [1..<Suc n]) ([1..<Suc n] @ [Suc n]) []"
    by (rule ec_reachable.sent [OF Suc]) (simp add: ec_send_def cElasticChanSize_def)
  then have "ec_reachable (?c [] ([1..<Suc n] @ [Suc n])) ([1..<Suc n] @ [Suc n]) []"
    by (rule ec_reachable.turned [of _ _ _ True]) (simp add: manage_turn_def manage_receive_def)
  then show ?case by simp
qed

lemma sample_channel_closed:
  "ec_reachable \<lparr>ec_In = [], ec_In_closed = True, ec_Out = [], ec_buffer = [1..<Suc n], ec_manager = Managing\<rparr> [1..<Suc n] []"
  by (rule ec_reachable.stopped [OF sample_channel_reachable]) (simp add: ElasticChan_Stop_def)

theorem elastic_channel_fifo_witness:
  "\<exists>c. ec_reachable c [1, 2] [] \<and> [1, 2] = ec_Out c @ ec_buffer c @ ec_In c \<and> ec_buffer c = [1, 2 :: nat]"
proof -
  have "[1..<Suc 2] = [1, 2 :: nat]" by (simp add: upt_rec)
  with sample_channel_reachable [of 2] elastic_channel_fifo [OF sample_channel_reachable [of 2]] show ?thesis by auto
qed

theorem elastic_channel_stop_witness:
  "(\<exists>bs. ec_manager (turns bs \<lparr>ec_In = [], ec_In_closed = True, ec_Out = [], ec_buffer = [1, 2, 3 :: nat], ec_manager = Managing\<rparr>) = Finished) \<and>
   \<not> (\<exists>bs. ec_manager (turns bs \<lparr>ec_In = [], ec_In_closed = True, ec_Out = [], ec_buffer = [1, 2, 3, 4 :: nat], ec_manager = Managing\<rparr>) = Finished)"
proof -
  have "[1..<Suc 3] = [1, 2, 3 :: nat]" "[1..<Suc 4] = [1, 2, 3, 4 :: nat]" by (simp_all add: upt_rec)
  then show ?thesis
    using elastic_channel_stop [OF sample_channel_closed [of 3]] elastic_channel_stop [OF sample_channel_closed [of 4]]
    by (simp add: ec_queue_def cElasticChanSize_def)
qed

end
