(* ===== verification/Gsip_Merge.thy ===== *)
theory Gsip_Merge
  imports Gsip_Prelude
begin

text \<open>
  \<^verbatim>\<open>MergeErrs\<close> (\<^verbatim>\<open>utils/helpers.go\<close>): a goroutine for each channel of errors copies it to one output, and a last one closes the output
  when all of them have returned.
\<close>

section \<open>The goroutines\<close>

text \<open>
  A channel with the errors that wait in it, and its goroutine: the error it has received and not yet passed on, and whether it has
  returned (\<^verbatim>\<open>wg.Done()\<close>). \<open>ms_sent\<close> is the history of the channel, and an error in the output carries the number of its channel.
\<close>

record merge_source =
  ms_queue :: "gerror list"
  ms_closed :: bool
  ms_held :: "gerror option"
  ms_done :: bool
  ms_sent :: "gerror list"

record merge =
  mg_sources :: "merge_source list"
  mg_out :: "(nat \<times> gerror) list"
  mg_closed :: bool

definition MergeErrs :: "nat \<Rightarrow> merge" where
  "MergeErrs n =
     \<lparr>mg_sources = replicate n \<lparr>ms_queue = [], ms_closed = False, ms_held = None, ms_done = False, ms_sent = []\<rparr>,
      mg_out = [], mg_closed = False\<rparr>"

definition at_source :: "nat \<Rightarrow> (merge_source \<Rightarrow> merge_source) \<Rightarrow> merge \<Rightarrow> merge" where
  "at_source i f m = m\<lparr>mg_sources := (mg_sources m)[i := f (mg_sources m ! i)]\<rparr>"

text \<open>What the owners of the channels do.\<close>

inductive owner_step :: "merge \<Rightarrow> merge \<Rightarrow> bool" where
  send: "i < length (mg_sources m) \<Longrightarrow> \<not> ms_closed (mg_sources m ! i) \<Longrightarrow>
    owner_step m (at_source i (\<lambda>s. s\<lparr>ms_queue := ms_queue s @ [err], ms_sent := ms_sent s @ [err]\<rparr>) m)"
| close: "i < length (mg_sources m) \<Longrightarrow> owner_step m (at_source i (\<lambda>s. s\<lparr>ms_closed := True\<rparr>) m)"

text \<open>
  What the goroutines do: \<^verbatim>\<open>range\<close> receives an error, \<^verbatim>\<open>out <- err\<close> passes it on, \<^verbatim>\<open>range\<close> ends on a closed and empty channel, and
  \<^verbatim>\<open>close(out)\<close> once \<^verbatim>\<open>wg.Wait()\<close> has returned.
\<close>

inductive pipe_step :: "merge \<Rightarrow> merge \<Rightarrow> bool" where
  receive: "i < length (mg_sources m) \<Longrightarrow> \<not> ms_done (mg_sources m ! i) \<Longrightarrow> ms_held (mg_sources m ! i) = None \<Longrightarrow>
    ms_queue (mg_sources m ! i) = err # q \<Longrightarrow>
    pipe_step m (at_source i (\<lambda>s. s\<lparr>ms_queue := q, ms_held := Some err\<rparr>) m)"
| pass: "i < length (mg_sources m) \<Longrightarrow> ms_held (mg_sources m ! i) = Some err \<Longrightarrow>
    pipe_step m ((at_source i (\<lambda>s. s\<lparr>ms_held := None\<rparr>) m)\<lparr>mg_out := mg_out m @ [(i, err)]\<rparr>)"
| return: "i < length (mg_sources m) \<Longrightarrow> \<not> ms_done (mg_sources m ! i) \<Longrightarrow> ms_closed (mg_sources m ! i) \<Longrightarrow>
    ms_queue (mg_sources m ! i) = [] \<Longrightarrow> ms_held (mg_sources m ! i) = None \<Longrightarrow>
    pipe_step m (at_source i (\<lambda>s. s\<lparr>ms_done := True\<rparr>) m)"
| finish: "\<forall>s \<in> set (mg_sources m). ms_done s \<Longrightarrow> \<not> mg_closed m \<Longrightarrow> pipe_step m (m\<lparr>mg_closed := True\<rparr>)"

inductive_cases owner_stepE [elim!]: "owner_step m m'"

inductive merge_reachable :: "nat \<Rightarrow> merge \<Rightarrow> bool" for n where
  created: "merge_reachable n (MergeErrs n)"
| owner: "merge_reachable n m \<Longrightarrow> owner_step m m' \<Longrightarrow> merge_reachable n m'"
| pipe: "merge_reachable n m \<Longrightarrow> pipe_step m m' \<Longrightarrow> merge_reachable n m'"

section \<open>The invariant\<close>

definition out_of :: "nat \<Rightarrow> merge \<Rightarrow> gerror list" where
  "out_of i m = map snd (filter (\<lambda>(j, _). j = i) (mg_out m))"

definition source_ok :: "gerror list \<Rightarrow> merge_source \<Rightarrow> bool" where
  "source_ok received s \<longleftrightarrow>
     ms_sent s = received @ (case ms_held s of None \<Rightarrow> [] | Some err \<Rightarrow> [err]) @ ms_queue s \<and>
     (ms_done s \<longrightarrow> ms_closed s \<and> ms_queue s = [] \<and> ms_held s = None)"

definition merge_ok :: "nat \<Rightarrow> merge \<Rightarrow> bool" where
  "merge_ok n m \<longleftrightarrow>
     length (mg_sources m) = n \<and> (\<forall>i < n. source_ok (out_of i m) (mg_sources m ! i)) \<and>
     (mg_closed m \<longrightarrow> (\<forall>s \<in> set (mg_sources m). ms_done s)) \<and> (\<forall>(i, _) \<in> set (mg_out m). i < n)"

text \<open>A step at one source leaves the others alone.\<close>

lemma merge_ok_at:
  assumes "merge_ok n m" "i < n" "source_ok (out_of i m @ new) (f (mg_sources m ! i))"
    and "ms_done (mg_sources m ! i) \<Longrightarrow> ms_done (f (mg_sources m ! i))"
  shows "merge_ok n ((at_source i f m)\<lparr>mg_out := mg_out m @ map (Pair i) new\<rparr>)"
proof -
  have out: "out_of j ((at_source i f m)\<lparr>mg_out := mg_out m @ map (Pair i) new\<rparr>) = out_of j m @ (if j = i then new else [])" for j
    by (simp add: out_of_def filter_map o_def)
  have "\<forall>s \<in> set ((mg_sources m)[i := f (mg_sources m ! i)]). ms_done s" if "mg_closed m"
    using that assms(1,2,4) by (auto simp: merge_ok_def dest!: set_update_subset_insert [THEN subsetD])
  with assms out show ?thesis by (auto simp: merge_ok_def at_source_def nth_list_update)
qed

lemma merge_ok_quiet:
  assumes "merge_ok n m" "i < n" "source_ok (out_of i m) (f (mg_sources m ! i))"
    and "ms_done (mg_sources m ! i) \<Longrightarrow> ms_done (f (mg_sources m ! i))"
  shows "merge_ok n (at_source i f m)"
  using merge_ok_at [of n m i "[]" f] assms by (simp add: at_source_def)

lemma merge_ok_reachable: "merge_reachable n m \<Longrightarrow> merge_ok n m"
proof (induction rule: merge_reachable.induct)
  case created
  show ?case by (simp add: merge_ok_def MergeErrs_def source_ok_def out_of_def)
next
  case (owner m m')
  then show ?case
    by (auto intro!: merge_ok_quiet) (auto simp: merge_ok_def source_ok_def)
next
  case (pipe m m')
  have len: "length (mg_sources m) = n" using pipe.IH by (simp add: merge_ok_def)
  have src: "source_ok (out_of i m) (mg_sources m ! i)" if "i < n" for i using pipe.IH that by (simp add: merge_ok_def)
  from pipe.hyps(2) show ?case
  proof cases
    case (pass i err)
    then have "merge_ok n ((at_source i (\<lambda>s. s\<lparr>ms_held := None\<rparr>) m)\<lparr>mg_out := mg_out m @ map (Pair i) [err]\<rparr>)"
      using src [of i] len by (intro merge_ok_at [OF pipe.IH]) (auto simp: source_ok_def)
    with pass show ?thesis by simp
  next
    case finish
    with pipe.IH show ?thesis by (simp add: merge_ok_def out_of_def)
  next
    case (receive i err q)
    with src [of i] len show ?thesis unfolding \<open>m' = _\<close> by (intro merge_ok_quiet [OF pipe.IH]) (simp_all add: source_ok_def)
  next
    case (return i)
    with src [of i] len show ?thesis unfolding \<open>m' = _\<close> by (intro merge_ok_quiet [OF pipe.IH]) (simp_all add: source_ok_def)
  qed
qed

section \<open>Properties\<close>

text \<open>
  In every interleaving the errors of a channel leave in the order in which they were sent; when the output is closed
  every channel is closed and all that was ever sent has left.
\<close>

theorem merged_in_order:
  assumes "merge_reachable n m"
  shows "(\<forall>i < n. \<exists>rest. ms_sent (mg_sources m ! i) = out_of i m @ rest) \<and>
    (mg_closed m \<longrightarrow> (\<forall>i < n. ms_closed (mg_sources m ! i) \<and> out_of i m = ms_sent (mg_sources m ! i)))"
proof -
  have ok: "merge_ok n m" using assms by (rule merge_ok_reachable)
  then have "source_ok (out_of i m) (mg_sources m ! i)" "mg_closed m \<Longrightarrow> ms_done (mg_sources m ! i)" if "i < n" for i
    using that by (auto simp: merge_ok_def)
  then show ?thesis by (fastforce simp: source_ok_def)
qed

text \<open>
  Once all channels are closed the goroutines cannot get stuck: until the output is closed one of them has a step, and each
  step lowers \<open>merge_left\<close>, so that after that many steps at most the output is closed.
\<close>

definition source_left :: "merge_source \<Rightarrow> nat" where
  "source_left s = 2 * length (ms_queue s) + (if ms_held s = None then 0 else 1) + (if ms_done s then 0 else 1)"

definition merge_left :: "merge \<Rightarrow> nat" where
  "merge_left m = sum_list (map source_left (mg_sources m)) + (if mg_closed m then 0 else 1)"

lemma sum_list_update_less:
  fixes f :: "'a \<Rightarrow> nat"
  assumes "i < length xs" "f x < f (xs ! i)"
  shows "sum_list (map f (xs[i := x])) < sum_list (map f xs)"
  using assms by (induction xs arbitrary: i) (auto simp: less_Suc_eq_0_disj)

lemma merge_left_at:
  assumes "i < length (mg_sources m)" "source_left (f (mg_sources m ! i)) < source_left (mg_sources m ! i)"
  shows "merge_left (at_source i f m) < merge_left m"
  using sum_list_update_less [OF assms(1), of source_left] assms(2) by (simp add: merge_left_def at_source_def)

theorem merged_channel_closes:
  assumes "merge_reachable n m" "\<forall>s \<in> set (mg_sources m). ms_closed s"
  shows "(\<not> mg_closed m \<longrightarrow> (\<exists>m'. pipe_step m m')) \<and> (\<forall>m'. pipe_step m m' \<longrightarrow> merge_left m' < merge_left m)"
proof (intro conjI impI allI)
  assume open_out: "\<not> mg_closed m"
  show "\<exists>m'. pipe_step m m'"
  proof (cases "\<forall>s \<in> set (mg_sources m). ms_done s")
    case True
    with open_out show ?thesis by (blast intro: pipe_step.finish)
  next
    case False
    then obtain i where i: "i < length (mg_sources m)" "\<not> ms_done (mg_sources m ! i)" by (auto simp: in_set_conv_nth)
    with assms(2) have "ms_closed (mg_sources m ! i)" by simp
    with i show ?thesis
      by (cases "ms_held (mg_sources m ! i)"; cases "ms_queue (mg_sources m ! i)") (blast intro: pipe_step.intros)+
  qed
next
  fix m'
  assume "pipe_step m m'"
  then show "merge_left m' < merge_left m"
  proof cases
    case (pass i err)
    then have "merge_left (at_source i (\<lambda>s. s\<lparr>ms_held := None\<rparr>) m) < merge_left m"
      by (intro merge_left_at) (simp_all add: source_left_def)
    with pass show ?thesis by (simp add: merge_left_def)
  qed (auto intro!: merge_left_at simp: source_left_def, simp add: merge_left_def)
qed

end
