(* ===== verification/Spec2Isabelle.thy ===== *)
theory Spec2Isabelle
  imports Gsip_Stack Gsip_Roundtrip Gsip_Stop Gsip_Listener Gsip_Options Gsip_Errors Gsip_Elastic Gsip_Merge
begin

text \<open>
  \<^bold>\<open>Verification of the SIP stack gsip.\<close>

  \<^bold>\<open>The program.\<close> gsip is a stack for the Session Initiation Protocol in four layers. The transport layer (\<^verbatim>\<open>transport/\<close>)
  owns the sockets: a protocol (UDP or TCP) has a pool of listeners and a pool of connections, every connection
  has a handler that reads bytes into a parser and passes the messages up over channels, and \<^verbatim>\<open>Send\<close> chooses the
  transport, fills in the \<^verbatim>\<open>Via\<close> and writes the text. The message package (\<^verbatim>\<open>sip/\<close>) holds URIs, headers, requests, responses,
  the parser, digest authentication and sessions. The transaction layer (\<^verbatim>\<open>transaction/\<close>) matches
  messages to client and server transactions by keys, runs their state machines with timers, and keeps the sessions. The service
  (\<^verbatim>\<open>service.go\<close>) completes the messages of the user and gives what arrives to handlers (\<^verbatim>\<open>callback/\<close>).

  \<^bold>\<open>How it is modelled.\<close> A Go call that can return an error or panic has the type \<^typ>\<open>'a outcome\<close> (\<open>Ok\<close>, \<open>Fail\<close>, \<open>Panic\<close>); one
  that can also block or never return gives \<^term>\<open>None\<close> outside. A struct is a record, an interface value a datatype
  of the types that implement it, a pointer that is shared an index of a heap, a map an association list whose order of iteration is an argument, a string
  a list of bytes, an integer a word or an integer with its wrap-around. A goroutine is a function for one turn of its
  loop; what the scheduler, the network, the clock, the random numbers and the user choose are arguments or events, so that a
  theorem about reachable states is one about all interleavings of turns. A channel to the user is the list
  of the values sent on it; a \<^verbatim>\<open>select\<close> with a ready \<^verbatim>\<open>cancel\<close> is a Boolean (\<open>taken\<close>). Locks are left out: a step is what runs under one.

  \<^bold>\<open>Theories, in the order of the code.\<close>
  \<^item> \<^verbatim>\<open>Gsip_Prelude\<close>: outcomes, the functions of \<^verbatim>\<open>strings\<close>, \<^verbatim>\<open>strconv\<close> and \<^verbatim>\<open>unicode/utf8\<close> that are called, shared lemmas.
  \<^item> \<^verbatim>\<open>Gsip_Addr\<close>, \<^verbatim>\<open>Gsip_Params\<close>, \<^verbatim>\<open>Gsip_Uri\<close>, \<^verbatim>\<open>Gsip_Header\<close>, \<^verbatim>\<open>Gsip_Headers\<close>: \<^verbatim>\<open>sip/base.go\<close> and \<^verbatim>\<open>sip/headers.go\<close>. The container of headers is shown to be a
    multimap with an order (a locale, interpreted on it); its invariant \<open>headers_ok\<close> is what every later layer assumes of a message.
  \<^item> \<^verbatim>\<open>Gsip_Message\<close>: \<^verbatim>\<open>sip/message.go\<close>, \<^verbatim>\<open>request.go\<close>, \<^verbatim>\<open>response.go\<close>, \<^verbatim>\<open>status.go\<close>: texts, and the creation of requests and responses.
  \<^item> \<^verbatim>\<open>Gsip_Lexer\<close>, \<^verbatim>\<open>Gsip_Parser\<close>, \<^verbatim>\<open>Gsip_Stream\<close>: \<^verbatim>\<open>sip/parser.go\<close> and \<^verbatim>\<open>parserbuffer.go\<close>: the parsers of parts with their round trips, and the goroutine of the parser as a step
    function; its results do not depend on how a stream is cut into writes.
  \<^item> \<^verbatim>\<open>Gsip_Roundtrip\<close>: for each type of header, the contents that are read back as they were printed, and with them whole responses.
  \<^item> \<^verbatim>\<open>Gsip_Stop\<close>: the end of the parser (\<^verbatim>\<open>Stop\<close>, \<^verbatim>\<open>Reset\<close>): what its goroutine does on a closed buffer, and a connection that breaks inside a message.
  \<^item> \<^verbatim>\<open>Gsip_Elastic\<close>: \<^verbatim>\<open>utils/elasticchan.go\<close>, a queue made of two bounded channels and a goroutine. \<^verbatim>\<open>Gsip_Merge\<close>: \<^verbatim>\<open>MergeErrs\<close> of \<^verbatim>\<open>utils/helpers.go\<close>.
  \<^item> \<^verbatim>\<open>Gsip_Auth\<close>: \<^verbatim>\<open>sip/auth.go\<close>, with MD5. \<^verbatim>\<open>Gsip_Session\<close>: \<^verbatim>\<open>sip/session.go\<close>. \<^verbatim>\<open>Gsip_Errors\<close>: the three \<^verbatim>\<open>error.go\<close>.
  \<^item> \<^verbatim>\<open>Gsip_Tx\<close>, \<^verbatim>\<open>Gsip_Client_Tx\<close>, \<^verbatim>\<open>Gsip_Server_Tx\<close>, \<^verbatim>\<open>Gsip_Lifecycle\<close>: \<^verbatim>\<open>transaction/tx.go\<close>, \<^verbatim>\<open>client_tx.go\<close>, \<^verbatim>\<open>server_tx.go\<close>: keys, the two tables of each kind of transaction, every action, the timers as
    events, invariants of reachable transactions, the schedules of retransmission.
  \<^item> \<^verbatim>\<open>Gsip_Pool\<close>, \<^verbatim>\<open>Gsip_Layer\<close>, \<^verbatim>\<open>Gsip_Layer_Properties\<close>: \<^verbatim>\<open>tx_pool.go\<close>, \<^verbatim>\<open>session_pool.go\<close>, \<^verbatim>\<open>transaction.go\<close>: the stores by key (a locale with its instances), the layer with its goroutines, its
    invariant, the ways of requests and responses, the life of sessions.
  \<^item> \<^verbatim>\<open>Gsip_Conn\<close>, \<^verbatim>\<open>Gsip_Transport\<close>, \<^verbatim>\<open>Gsip_Transport_Properties\<close>: \<^verbatim>\<open>transport/\<close>: connections, listeners, their pools (one generic pool, a locale
    with both instances), UDP and TCP, the layer. \<^verbatim>\<open>Gsip_Listener\<close>: the pool of listeners from the inside.
  \<^item> \<^verbatim>\<open>Gsip_Service\<close>, \<^verbatim>\<open>Gsip_Options\<close>: \<^verbatim>\<open>service.go\<close>, \<^verbatim>\<open>callback/\<close>, \<^verbatim>\<open>options.go\<close>, \<^verbatim>\<open>transport/options.go\<close>, \<^verbatim>\<open>utils/helpers.go\<close>.
  \<^item> \<^verbatim>\<open>Gsip_Stack\<close>: the transaction layer over the transport layer, as \<^verbatim>\<open>options.go\<close> puts them together: from the request to the datagram.

  \<^bold>\<open>What is shown.\<close> Invariants of every reachable state of the transactions, the transaction layer, the connection pool, the
  elastic channel and the service; round trips of parameters, URIs, start lines, headers and responses of clean text; that the
  parser, and a connection on which no read consists of NUL bytes only, do not depend on how the network cuts a stream; the functional behaviour of the operations on
  their branches, errors and panics included; that a request is passed up once and a response finds its request; that a request without a handler is
  answered; where a message is sent, and, for the stack as a whole, that an answer leaves as one datagram and that the response to a
  request as it was written finds its transaction. Theorems whose conclusion is a panic, a leak or a call that does not return state what the
  code does where it differs from what it means to do.

  \<^bold>\<open>Parameters.\<close> Code that is not in the repository is an argument: the FSM library is a function \<open>spin\<close> with the law
  \<open>client_spins\<close> or \<open>server_spins\<close> (an input moves the machine by its table, and the input that an action returns is handled next, which calls \<^verbatim>\<open>Spin\<close> again from inside the call; every result on transactions is one about calls
  that return), which
  \<open>client_machine\<close> and \<open>server_machine\<close> are shown to satisfy; the sockets, name resolution and the interfaces of the host are fields of \<open>net_env\<close> and
  \<open>options_env\<close>; identifiers, random strings and the clock are fields of \<open>tx_env\<close>.

  \<^bold>\<open>Bounds.\<close> No definition needs fuel. Loops over texts decrease a length; the goroutine of the parser emits at most two
  events per byte and one; the goroutine of the elastic channel makes room, or offers a value, within four
  turns, and ends within twice the number of values and two turns.

  \<^bold>\<open>Not modelled.\<close> The logger, which only writes; interfaces and accessors without code of their own; \<^verbatim>\<open>DefaultHeader\<close>,
  which is never called; data races, since a step is atomic; case mappings outside ASCII.
\<close>

section \<open>The parser and its channel\<close>

text \<open>
  C39: The elastic channel serves the parser as the queue of the parser model. While both hold the same lengths and \<^verbatim>\<open>Stop\<close> is not called, four turns of the
  goroutine suffice, whatever its \<^verbatim>\<open>select\<close> chooses: then a \<^verbatim>\<open>Write\<close> finds room and leaves the channel with the lengths that the model has after it,
  and the parser gets the first length and leaves the others.
\<close>

theorem parser_queue_implemented:
  assumes reach: "ec_reachable c xs ys" and live: "\<not> ec_In_closed c"
    and same: "ec_queue c = pr_bodyLengths p" and parser: "\<not> pr_streamed p" "\<not> pr_stopped p"
  shows "(\<forall>data bs. getBodyLength data \<noteq> - 1 \<longrightarrow> 4 \<le> length bs \<longrightarrow>
      (\<exists>c'. ec_send (getBodyLength data, int (length data)) (turns bs c) = Some (Ok c') \<and>
         ec_queue c' = pr_bodyLengths (snd (parser_Write data p)))) \<and>
    (\<forall>l ls bs. pr_bodyLengths p = l # ls \<longrightarrow> 4 \<le> length bs \<longrightarrow>
      (\<exists>c'. ec_receive (turns bs c) = Some (l, c') \<and> ec_queue c' = ls))"
proof -
  have live: "ec_live c" using ec_reachable_ok [OF reach] live by (simp add: ec_live_def)
  have enough: "cElasticChanSize < length bs" if "4 \<le> length bs" for bs :: "bool list" using that by (simp add: cElasticChanSize_def)
  have "ec_queue c @ [(getBodyLength data, int (length data))] = pr_bodyLengths (snd (parser_Write data p))"
    if "getBodyLength data \<noteq> - 1" for data
    using that same parser by (simp add: parser_Write_def)
  with send_ready [OF live enough] receive_ready [OF live _ enough] same show ?thesis by metis
qed

theorem parser_queue_implemented_witness:
  "(\<exists>c'. ec_send (0 :: int, 4 :: int) (turns [True, False, True, False] ElasticChan_Init) = Some (Ok c') \<and> ec_queue c' = [(0, 4)]) \<and>
   (\<exists>c'. ec_receive (turns [False, True, True, False] (ElasticChan_Init\<lparr>ec_In := [(0 :: int, 4 :: int)]\<rparr>)) = Some ((0, 4), c') \<and>
     ec_queue c' = [])"
proof -
  have data: "getBodyLength (CRLF @ CRLF) = 0" "length (CRLF @ CRLF) = 4" by code_simp+
  let ?p = "NewParser False" and ?p1 = "snd (parser_Write (CRLF @ CRLF) (NewParser False))"
  let ?c1 = "ElasticChan_Init\<lparr>ec_In := [(0 :: int, 4 :: int)]\<rparr>"
  have p1: "pr_bodyLengths ?p1 = [(0, 4)]" "\<not> pr_streamed ?p1" "\<not> pr_stopped ?p1"
    using data by (simp_all add: parser_Write_def NewParser_def)
  have c: "\<not> ec_In_closed ElasticChan_Init" "ec_queue ElasticChan_Init = pr_bodyLengths ?p" "\<not> pr_streamed ?p" "\<not> pr_stopped ?p"
    by (simp_all add: ElasticChan_Init_def NewParser_def ec_queue_def)
  have "ec_reachable ?c1 ([] @ [(0, 4)]) []"
    by (rule ec_reachable.sent [OF ec_reachable.created]) (simp add: ec_send_def ElasticChan_Init_def cElasticChanSize_def)
  moreover have "\<not> ec_In_closed ?c1" "ec_queue ?c1 = pr_bodyLengths ?p1"
    by (simp_all add: p1 ElasticChan_Init_def ec_queue_def)
  ultimately have received: "\<exists>c'. ec_receive (turns bs ?c1) = Some ((0, 4), c') \<and> ec_queue c' = []" if "4 \<le> length bs" for bs
    using parser_queue_implemented [of ?c1 _ _ ?p1] p1 that by blast
  have "\<exists>c'. ec_send (getBodyLength (CRLF @ CRLF), int (length (CRLF @ CRLF))) (turns bs ElasticChan_Init) = Some (Ok c') \<and>
      ec_queue c' = pr_bodyLengths ?p1" if "4 \<le> length bs" for bs
    by (rule parser_queue_implemented [OF ec_reachable.created c, THEN conjunct1, rule_format]) (simp_all add: data(1) that)
  then have sent: "\<exists>c'. ec_send (0 :: int, 4 :: int) (turns bs ElasticChan_Init) = Some (Ok c') \<and> ec_queue c' = [(0, 4)]" if "4 \<le> length bs" for bs
    using that unfolding data p1(1) by simp
  show ?thesis by (intro conjI sent received) simp_all
qed

end
